(* ===== verification/Prelude.thy ===== *)
theory Prelude
  imports Main "HOL-Library.Word"
begin

text \<open>
  Generic material shared by every component: results of fallible code, byte strings,
  little-endian integers, slices, and the two interfaces (locales) that several components
  implement: a byte codec with its round-trip laws, and a deterministic machine with an
  invariant that is lifted from one step to whole runs.
\<close>

section \<open>Machine integers and byte strings\<close>

type_synonym u8 = "8 word"
type_synonym u16 = "16 word"
type_synonym u32 = "32 word"
type_synonym u64 = "64 word"
type_synonym bytes = "u8 list"

named_theorems byte_simps
  \<open>rewriting of slices and little-endian fields of byte strings\<close>
named_theorems machine_simps
  \<open>definitions of state machines that a case analysis of one step unfolds\<close>

section \<open>Errors as values\<close>

text \<open>
  \<open>io::ErrorKind\<close> as far as the sources name its members, and the boxed error of
  \<open>crate::Result\<close>: an \<open>io::Error\<close> with its kind, or a plain message.
\<close>

datatype io_kind =
    InvalidData | InvalidInput | UnexpectedEof | TimedOut | Interrupted | NotFound
  | AlreadyExists | PermissionDenied | WouldBlock | OtherKind

datatype error = Io io_kind string | Msg string | Panic string

fun error_text :: "error \<Rightarrow> string" where
  "error_text (Io k m) = m"
| "error_text (Msg m) = m"
| "error_text (Panic m) = m"

text \<open>The \<open>?\<close> operator: an error returns early, a value is passed on.\<close>

definition try_r :: "'e + 'a \<Rightarrow> ('a \<Rightarrow> 'e + 'b) \<Rightarrow> 'e + 'b" where
  "try_r r f = (case r of Inl e \<Rightarrow> Inl e | Inr x \<Rightarrow> f x)"

lemma try_r_simps [simp]:
  "try_r (Inl e) f = Inl e"
  "try_r (Inr x) f = f x"
  by (simp_all add: try_r_def)

lemma try_r_Inr_iff: "try_r r f = Inr y \<longleftrightarrow> (\<exists>x. r = Inr x \<and> f x = Inr y)"
  by (cases r) auto

lemma try_r_Inl_iff: "try_r r f = Inl e \<longleftrightarrow> r = Inl e \<or> (\<exists>x. r = Inr x \<and> f x = Inl e)"
  by (cases r) auto

lemma not_isl_Inr: "isl r = False \<Longrightarrow> \<exists>x. r = Inr x"
  by (cases r) auto

definition guard_r :: "bool \<Rightarrow> 'e \<Rightarrow> 'e + unit" where
  "guard_r ok e = (if ok then Inr () else Inl e)"

lemma guard_r_Inr_iff [simp]: "guard_r ok e = Inr u \<longleftrightarrow> ok"
  by (simp add: guard_r_def)

lemma guard_r_Inl_iff [simp]: "guard_r ok e = Inl e' \<longleftrightarrow> \<not> ok \<and> e' = e"
  by (auto simp: guard_r_def)

lemma try_guard_Inr_iff [simp]: "try_r (guard_r ok e) f = Inr y \<longleftrightarrow> ok \<and> f () = Inr y"
  by (simp add: guard_r_def)

section \<open>Slices\<close>

text \<open>Rust's \<open>bytes[i..j]\<close> for \<open>i \<le> j \<le> len\<close>.\<close>

definition slice :: "nat \<Rightarrow> nat \<Rightarrow> 'a list \<Rightarrow> 'a list" where
  "slice i j xs = take (j - i) (drop i xs)"

lemma length_slice [byte_simps]: "j \<le> length xs \<Longrightarrow> i \<le> j \<Longrightarrow> length (slice i j xs) = j - i"
  by (simp add: slice_def)

lemma slice_append_left [byte_simps]: "j \<le> length xs \<Longrightarrow> slice i j (xs @ ys) = slice i j xs"
  by (simp add: slice_def)

lemma slice_append_right [byte_simps]:
  "length xs \<le> i \<Longrightarrow> slice i j (xs @ ys) = slice (i - length xs) (j - length xs) ys"
  by (cases "i \<le> j") (simp_all add: slice_def)

lemma slice_Cons_Suc [byte_simps]:
  "0 < i \<Longrightarrow> 0 < j \<Longrightarrow> slice i j (x # xs) = slice (i - 1) (j - 1) xs"
  by (cases i; cases j) (simp_all add: slice_def)

lemma slice_all [byte_simps]: "length xs \<le> j \<Longrightarrow> slice 0 j xs = xs"
  by (simp add: slice_def)

lemma slice_0: "slice 0 j xs = take j xs"
  by (simp add: slice_def)

lemma slice_to_end: "length xs \<le> j \<Longrightarrow> slice i j xs = drop i xs"
  by (simp add: slice_def)

lemma nth_slice: "k < j - i \<Longrightarrow> j \<le> length xs \<Longrightarrow> slice i j xs ! k = xs ! (i + k)"
  by (simp add: slice_def)

lemma slice_join: "i \<le> j \<Longrightarrow> j \<le> k \<Longrightarrow> slice i j xs @ slice j k xs = slice i k xs"
proof -
  assume "i \<le> j" "j \<le> k"
  then have "k - i = (j - i) + (k - j)" and "drop j xs = drop (j - i) (drop i xs)" by simp_all
  then show ?thesis unfolding slice_def by (simp only: take_add)
qed

section \<open>Little-endian integers\<close>

text \<open>\<open>to_le_bytes\<close> and \<open>from_le_bytes\<close> of the unsigned types, least significant byte first.\<close>

fun to_le :: "nat \<Rightarrow> 'a::len word \<Rightarrow> bytes" where
  "to_le 0 w = []"
| "to_le (Suc n) w = ucast w # to_le n (drop_bit 8 w)"

fun from_le :: "bytes \<Rightarrow> 'a::len word" where
  "from_le [] = 0"
| "from_le (b # bs) = or (ucast b) (push_bit 8 (from_le bs))"

definition le16 :: "u16 \<Rightarrow> bytes" where "le16 w = to_le 2 w"
definition le32 :: "u32 \<Rightarrow> bytes" where "le32 w = to_le 4 w"
definition le64 :: "u64 \<Rightarrow> bytes" where "le64 w = to_le 8 w"
definition of_le16 :: "bytes \<Rightarrow> u16" where "of_le16 bs = from_le bs"
definition of_le32 :: "bytes \<Rightarrow> u32" where "of_le32 bs = from_le bs"
definition of_le64 :: "bytes \<Rightarrow> u64" where "of_le64 bs = from_le bs"

lemma length_to_le [simp]: "length (to_le n w) = n"
  by (induction n arbitrary: w) simp_all

lemma length_le [simp]: "length (le16 a) = 2" "length (le32 b) = 4" "length (le64 c) = 8"
  by (simp_all add: le16_def le32_def le64_def)

lemma from_le_to_le: "from_le (to_le n w) = take_bit (8 * n) w"
proof (induction n arbitrary: w)
  case 0
  show ?case by simp
next
  case (Suc n)
  show ?case
    by (rule bit_word_eqI) (auto simp: Suc bit_simps)
qed

lemma byte_bit_high: "8 \<le> k \<Longrightarrow> \<not> bit (b :: u8) k"
  by (auto dest: bit_imp_le_length)

lemma from_le_bound: "bit (from_le bs :: 'a::len word) k \<Longrightarrow> k < 8 * length bs"
proof (induction bs arbitrary: k)
  case Nil
  then show ?case by simp
next
  case (Cons b bs)
  show ?case
  proof (cases "k < 8")
    case True
    then show ?thesis by simp
  next
    case False
    then have "\<not> bit (ucast b :: 'a word) k"
      by (simp add: bit_ucast_iff byte_bit_high)
    then have "bit (from_le bs :: 'a word) (k - 8)"
      using Cons.prems False by (simp add: bit_or_iff bit_push_bit_iff)
    from Cons.IH[OF this] show ?thesis by simp
  qed
qed

lemma to_le_from_le:
  "length bs = n \<Longrightarrow> 8 * n \<le> LENGTH('a::len) \<Longrightarrow> to_le n (from_le bs :: 'a word) = bs"
proof (induction bs arbitrary: n)
  case Nil
  then show ?case by simp
next
  case (Cons b bs)
  then obtain m where n: "n = Suc m" and m: "length bs = m" by auto
  let ?w = "from_le bs :: 'a word"
  have hd: "ucast (or (ucast b) (push_bit 8 ?w)) = b"
    using Cons.prems n by (intro bit_word_eqI) (simp add: bit_simps)
  have "drop_bit 8 (or (ucast b) (push_bit 8 ?w)) = ?w"
  proof (rule bit_word_eqI)
    fix k assume k: "k < LENGTH('a)"
    show "bit (drop_bit 8 (or (ucast b) (push_bit 8 ?w))) k = bit ?w k"
    proof (cases "k < 8 * m")
      case True
      with Cons.prems(2) n have "8 + k < LENGTH('a)" by simp
      then show ?thesis by (simp add: bit_simps byte_bit_high)
    next
      case False
      then have "\<not> bit ?w k" using from_le_bound[of bs k] m by auto
      then show ?thesis by (simp add: bit_simps byte_bit_high)
    qed
  qed
  then show ?case
    using hd n m Cons.IH[of m] Cons.prems(2) by simp
qed

lemma of_le16_le16 [simp]: "of_le16 (le16 a) = a"
  unfolding of_le16_def le16_def from_le_to_le by (rule take_bit_word_eq_self) simp

lemma of_le32_le32 [simp]: "of_le32 (le32 a) = a"
  unfolding of_le32_def le32_def from_le_to_le by (rule take_bit_word_eq_self) simp

lemma of_le64_le64 [simp]: "of_le64 (le64 a) = a"
  unfolding of_le64_def le64_def from_le_to_le by (rule take_bit_word_eq_self) simp

lemma le16_of_le16 [simp]: "length bs = 2 \<Longrightarrow> le16 (of_le16 bs) = bs"
  unfolding of_le16_def le16_def by (erule to_le_from_le) simp

lemma le32_of_le32 [simp]: "length bs = 4 \<Longrightarrow> le32 (of_le32 bs) = bs"
  unfolding of_le32_def le32_def by (erule to_le_from_le) simp

lemma le64_of_le64 [simp]: "length bs = 8 \<Longrightarrow> le64 (of_le64 bs) = bs"
  unfolding of_le64_def le64_def by (erule to_le_from_le) simp

section \<open>The interface of a byte codec\<close>

text \<open>
  A payload type has an encoder, which may refuse a value (an error or a failed assertion), and
  a fallible decoder. \<open>wf\<close> says which values the Rust type can hold at all. The provider
  promises that what it encodes decodes to the same value, and that a decoded value is well
  formed and can be encoded again. What a client may rely on is proved once here.
\<close>

locale codec =
  fixes wf :: "'a \<Rightarrow> bool"
    and enc :: "'a \<Rightarrow> error + bytes"
    and dec :: "bytes \<Rightarrow> error + 'a"
  assumes dec_enc: "wf x \<Longrightarrow> enc x = Inr bs \<Longrightarrow> dec bs = Inr x"
    and dec_wf: "dec bs = Inr x \<Longrightarrow> wf x"
    and enc_total: "dec bs = Inr x \<Longrightarrow> \<exists>bs'. enc x = Inr bs'"
begin

lemma enc_inj: "wf x \<Longrightarrow> wf y \<Longrightarrow> enc x = Inr bs \<Longrightarrow> enc y = Inr bs \<Longrightarrow> x = y"
  by (metis dec_enc sum.inject(2))

lemma reencode: "dec bs = Inr x \<Longrightarrow> \<exists>bs'. enc x = Inr bs' \<and> dec bs' = Inr x"
  using enc_total dec_enc dec_wf by blast

lemma dec_image: "wf x \<Longrightarrow> (\<exists>bs. dec bs = Inr x) \<longleftrightarrow> (\<exists>bs. enc x = Inr bs)"
  using dec_enc enc_total by blast

end

text \<open>A canonical codec has exactly one byte string per value.\<close>

locale canonical_codec =
  fixes wf :: "'a \<Rightarrow> bool"
    and enc :: "'a \<Rightarrow> error + bytes"
    and dec :: "bytes \<Rightarrow> error + 'a"
  assumes canon_dec_enc: "wf x \<Longrightarrow> enc x = Inr bs \<Longrightarrow> dec bs = Inr x"
    and canon_dec_wf: "dec bs = Inr x \<Longrightarrow> wf x"
    and canon_enc_dec: "dec bs = Inr x \<Longrightarrow> enc x = Inr bs"
begin

lemma dec_inj: "dec bs = Inr x \<Longrightarrow> dec bs' = Inr x \<Longrightarrow> bs = bs'"
  by (metis canon_enc_dec sum.inject(2))

lemma dec_iff: "dec bs = Inr x \<longleftrightarrow> wf x \<and> enc x = Inr bs"
  using canon_enc_dec canon_dec_enc canon_dec_wf by blast

end

sublocale canonical_codec \<subseteq> plain: codec wf enc dec
  by unfold_locales (auto intro: canon_dec_enc canon_dec_wf canon_enc_dec)

section \<open>The interface of a deterministic machine\<close>

text \<open>
  A machine reads one event per step and answers with a list of outputs. \<open>run_machine\<close> feeds
  it a list of events; \<open>machine_trace\<close> is the outputs of the whole run, in order.
\<close>

fun run_machine :: "('s \<Rightarrow> 'e \<Rightarrow> 's \<times> 'o list) \<Rightarrow> 's \<Rightarrow> 'e list \<Rightarrow> 's" where
  "run_machine step s [] = s"
| "run_machine step s (e # es) = run_machine step (fst (step s e)) es"

fun machine_trace :: "('s \<Rightarrow> 'e \<Rightarrow> 's \<times> 'o list) \<Rightarrow> 's \<Rightarrow> 'e list \<Rightarrow> 'o list" where
  "machine_trace step s [] = []"
| "machine_trace step s (e # es) = snd (step s e) @ machine_trace step (fst (step s e)) es"

lemma run_machine_append: "run_machine step s (es @ fs) = run_machine step (run_machine step s es) fs"
  by (induction es arbitrary: s) simp_all

lemma machine_trace_append:
  "machine_trace step s (es @ fs)
     = machine_trace step s es @ machine_trace step (run_machine step s es) fs"
  by (induction es arbitrary: s) simp_all

locale machine =
  fixes step :: "'s \<Rightarrow> 'e \<Rightarrow> 's \<times> 'o list"
    and inv :: "'s \<Rightarrow> bool"
    and legal :: "'s \<Rightarrow> 'e \<Rightarrow> 'o \<Rightarrow> bool"
  assumes step_inv: "inv s \<Longrightarrow> inv (fst (step s e))"
    and step_out: "inv s \<Longrightarrow> out \<in> set (snd (step s e)) \<Longrightarrow> legal s e out"
begin

lemma run_inv: "inv s \<Longrightarrow> inv (run_machine step s es)"
  by (induction es arbitrary: s) (auto intro: step_inv)

text \<open>Every output of a run was legal in the state and for the event that produced it.\<close>

lemma trace_legal:
  "inv s \<Longrightarrow> out \<in> set (machine_trace step s es) \<Longrightarrow>
     \<exists>pre e post. es = pre @ e # post \<and> inv (run_machine step s pre)
       \<and> legal (run_machine step s pre) e out"
proof (induction es arbitrary: s)
  case Nil
  then show ?case by simp
next
  case (Cons e es)
  show ?case
  proof (cases "out \<in> set (snd (step s e))")
    case True
    then show ?thesis
      using Cons.prems step_out by (intro exI[of _ "[]"] exI[of _ e] exI[of _ es]) simp
  next
    case False
    then have "out \<in> set (machine_trace step (fst (step s e)) es)" using Cons.prems by simp
    from Cons.IH[OF step_inv[OF Cons.prems(1)] this]
    obtain pre f post where "es = pre @ f # post"
      and "inv (run_machine step (fst (step s e)) pre)"
      and "legal (run_machine step (fst (step s e)) pre) f out" by blast
    then show ?thesis by (intro exI[of _ "e # pre"] exI[of _ f] exI[of _ post]) simp
  qed
qed

end

end
