(* ===== verification/Text_Lib.thy ===== *)
theory Text_Lib
  imports Prelude
begin

text \<open>
  The part of Rust's standard string library the sources use. A \<open>str\<close> is a list of Unicode
  scalar values (natural numbers below \<open>0x110000\<close> that are not surrogates); \<open>lit\<close> embeds the
  ASCII literals. Whitespace is Unicode's \<open>White_Space\<close> property, as \<open>char::is_whitespace\<close> has
  it; integer parsing follows \<open>from_str_radix\<close>; UTF-8 is decoded strictly, as \<open>str::from_utf8\<close>.
\<close>

section \<open>Scalar values and literals\<close>

type_synonym scalar = nat
type_synonym ustr = "scalar list"

definition is_scalar :: "scalar \<Rightarrow> bool" where
  "is_scalar c \<longleftrightarrow> c \<le> 1114111 \<and> \<not> (55296 \<le> c \<and> c \<le> 57343)"

definition lit :: "string \<Rightarrow> ustr" where
  "lit s = map of_char s"

definition chr :: "char \<Rightarrow> scalar" where
  "chr c = of_char c"

lemma lit_simps [simp]:
  "lit [] = []"
  "lit (c # cs) = chr c # lit cs"
  by (simp_all add: lit_def chr_def)

lemma chr_eq_iff [simp]: "chr a = chr b \<longleftrightarrow> a = b"
  by (simp add: chr_def)

lemma lit_eq_iff [simp]: "lit a = lit b \<longleftrightarrow> a = b"
  by (simp add: lit_def inj_map_eq_map inj_on_def)

lemma chr_less: "chr c < 256"
  by (simp add: chr_def)

section \<open>Whitespace, trimming, splitting\<close>

definition is_whitespace :: "scalar \<Rightarrow> bool" where
  "is_whitespace c \<longleftrightarrow>
     (9 \<le> c \<and> c \<le> 13) \<or> c = 32 \<or> c = 133 \<or> c = 160 \<or> c = 5760
     \<or> (8192 \<le> c \<and> c \<le> 8202) \<or> c = 8232 \<or> c = 8233 \<or> c = 8239 \<or> c = 8287 \<or> c = 12288"

definition trim_start :: "ustr \<Rightarrow> ustr" where
  "trim_start s = dropWhile is_whitespace s"

definition trim_end :: "ustr \<Rightarrow> ustr" where
  "trim_end s = rev (dropWhile is_whitespace (rev s))"

definition trim :: "ustr \<Rightarrow> ustr" where
  "trim s = trim_end (trim_start s)"

text \<open>No leading and no trailing whitespace.\<close>

definition trimmed :: "ustr \<Rightarrow> bool" where
  "trimmed s \<longleftrightarrow> s = [] \<or> (\<not> is_whitespace (hd s) \<and> \<not> is_whitespace (last s))"

lemma trim_trimmed [simp]: "trimmed s \<Longrightarrow> trim s = s"
proof (cases s)
  case Nil
  then show ?thesis by (simp add: trim_def trim_start_def trim_end_def)
next
  case (Cons a r)
  assume t: "trimmed s"
  have "rev s \<noteq> []" and "hd (rev s) = last s" using Cons by (simp_all add: hd_rev)
  moreover have "\<not> is_whitespace (last s)" and "\<not> is_whitespace a"
    using t Cons by (auto simp: trimmed_def)
  ultimately have "dropWhile is_whitespace (rev s) = rev s"
    by (metis dropWhile_eq_self_iff)
  then show ?thesis
    using Cons \<open>\<not> is_whitespace a\<close> by (simp add: trim_def trim_start_def trim_end_def)
qed

lemma trimmed_trim: "trimmed (trim s)"
proof -
  let ?a = "dropWhile is_whitespace s"
  let ?b = "dropWhile is_whitespace (rev ?a)"
  have b: "?b = [] \<or> \<not> is_whitespace (hd ?b)" by (metis hd_dropWhile)
  show ?thesis
  proof (cases "?b = []")
    case True
    then show ?thesis by (simp add: trimmed_def trim_def trim_start_def trim_end_def)
  next
    case False
    then have "\<not> is_whitespace (hd ?b)" using b by blast
    have "?a \<noteq> []" using False by (metis dropWhile.simps(1) rev.simps(1))
    obtain p where p: "rev ?a = p @ ?b" by (metis takeWhile_dropWhile_id)
    then have "?a = rev ?b @ rev p" by (metis rev_append rev_rev_ident)
    then have "hd ?a = hd (rev ?b)" using False by (metis hd_append2 rev_is_Nil_conv)
    moreover have "\<not> is_whitespace (hd ?a)" using \<open>?a \<noteq> []\<close> by (rule hd_dropWhile)
    ultimately have "\<not> is_whitespace (hd (rev ?b)) \<and> \<not> is_whitespace (last (rev ?b))"
      using \<open>\<not> is_whitespace (hd ?b)\<close> False by (metis last_rev)
    then show ?thesis
      by (metis trimmed_def trim_def trim_start_def trim_end_def)
  qed
qed

lemma trim_trim [simp]: "trim (trim s) = trim s"
  by (simp add: trimmed_trim)

lemma trim_subset: "set (trim s) \<subseteq> set s"
proof -
  have "set (dropWhile P xs) \<subseteq> set xs" for P and xs :: ustr
    by (auto dest: set_dropWhileD)
  from this[of is_whitespace s] this[of is_whitespace "rev (dropWhile is_whitespace s)"]
  show ?thesis unfolding trim_def trim_start_def trim_end_def set_rev by blast
qed

lemma trim_Nil [simp]: "trim [] = []"
  by (simp add: trim_def trim_start_def trim_end_def)

text \<open>\<open>split_once(c)\<close>: the parts before and after the first \<open>c\<close>.\<close>

fun split_once :: "scalar \<Rightarrow> ustr \<Rightarrow> (ustr \<times> ustr) option" where
  "split_once c [] = None"
| "split_once c (x # xs) =
     (if x = c then Some ([], xs)
      else map_option (\<lambda>(a, b). (x # a, b)) (split_once c xs))"

lemma split_once_Some: "split_once c s = Some (a, b) \<longleftrightarrow> s = a @ c # b \<and> c \<notin> set a"
proof (induction s arbitrary: a)
  case Nil
  then show ?case by simp
next
  case (Cons x xs)
  show ?case
  proof (cases a)
    case Nil
    then show ?thesis by auto
  next
    case (Cons y ys)
    then show ?thesis using Cons.IH[of ys] by auto
  qed
qed

text \<open>
  \<open>str::lines\<close>: pieces ended by a newline, which is removed with one carriage return before
  it; a last piece without a newline is kept as it is, and an empty one is not a line.
\<close>

definition strip_cr :: "ustr \<Rightarrow> ustr" where
  "strip_cr s = (if s \<noteq> [] \<and> last s = 13 then butlast s else s)"

fun str_lines_aux :: "ustr \<Rightarrow> ustr \<Rightarrow> ustr list" where
  "str_lines_aux cur [] = (if cur = [] then [] else [cur])"
| "str_lines_aux cur (c # s) =
     (if c = 10 then strip_cr cur # str_lines_aux [] s else str_lines_aux (cur @ [c]) s)"

definition str_lines :: "ustr \<Rightarrow> ustr list" where
  "str_lines s = str_lines_aux [] s"

text \<open>\<open>lines.join("\n") + "\n"\<close>\<close>

fun unlines :: "ustr list \<Rightarrow> ustr" where
  "unlines [] = []"
| "unlines (l # ls) = l @ 10 # unlines ls"

lemma str_lines_aux_line: "10 \<notin> set l \<Longrightarrow>
  str_lines_aux cur (l @ 10 # s) = strip_cr (cur @ l) # str_lines_aux [] s"
  by (induction l arbitrary: cur) auto

lemma str_lines_unlines:
  "\<forall>l \<in> set ls. 10 \<notin> set l \<Longrightarrow> str_lines (unlines ls) = map strip_cr ls"
  unfolding str_lines_def
  by (induction ls) (simp_all add: str_lines_aux_line)

lemma str_lines_aux_no_newline: "10 \<notin> set cur \<Longrightarrow> l \<in> set (str_lines_aux cur s) \<Longrightarrow> 10 \<notin> set l"
proof (induction s arbitrary: cur)
  case Nil
  then show ?case by (auto split: if_splits)
next
  case (Cons c s)
  have "10 \<notin> set (strip_cr cur)"
    using Cons.prems(1) by (auto simp: strip_cr_def dest: in_set_butlastD)
  then show ?case
    using Cons.prems Cons.IH[of "[]"] Cons.IH[of "cur @ [c]"] by (auto split: if_splits)
qed

lemma str_lines_no_newline: "l \<in> set (str_lines s) \<Longrightarrow> 10 \<notin> set l"
  unfolding str_lines_def by (rule str_lines_aux_no_newline[of "[]"]) simp_all

text \<open>\<open>starts_with\<close>\<close>

fun starts_with :: "ustr \<Rightarrow> ustr \<Rightarrow> bool" where
  "starts_with [] s = True"
| "starts_with (p # ps) [] = False"
| "starts_with (p # ps) (x # xs) = (p = x \<and> starts_with ps xs)"

lemma starts_with_take: "starts_with p s \<longleftrightarrow> take (length p) s = p"
  by (induction p s rule: starts_with.induct) auto

text \<open>\<open>str::contains\<close>\<close>

fun contains :: "'a list \<Rightarrow> 'a list \<Rightarrow> bool" where
  "contains p [] \<longleftrightarrow> p = []"
| "contains p (c # cs) \<longleftrightarrow> take (length p) (c # cs) = p \<or> contains p cs"

text \<open>\<open>str::replace\<close>: from the left, without overlaps, for a non-empty pattern.\<close>

function replace_all :: "'a list \<Rightarrow> 'a list \<Rightarrow> 'a list \<Rightarrow> 'a list" where
  "replace_all p r [] = []"
| "replace_all p r (c # cs) =
     (if p \<noteq> [] \<and> take (length p) (c # cs) = p then r @ replace_all p r (drop (length p) (c # cs))
      else c # replace_all p r cs)"
  by pat_completeness auto
termination
  by (relation "measure (\<lambda>(_, _, s). length s)") auto

text \<open>\<open>split(c)\<close> for a character: the pieces between its occurrences.\<close>

fun split_char :: "scalar \<Rightarrow> ustr \<Rightarrow> ustr list" where
  "split_char c [] = [[]]"
| "split_char c (x # xs) =
     (if x = c then [] # split_char c xs
      else case split_char c xs of [] \<Rightarrow> [[x]] | p # ps \<Rightarrow> (x # p) # ps)"

lemma split_char_not_Nil [simp]: "split_char c s \<noteq> []"
  by (induction s) (auto split: list.splits)

lemma split_char_last: "c \<notin> set s \<Longrightarrow> split_char c s = [s]"
  by (induction s) auto

lemma split_char_append: "c \<notin> set s \<Longrightarrow> split_char c (s @ c # t) = s # split_char c t"
  by (induction s) auto

section \<open>Digits and integers\<close>

definition is_ascii_digit :: "scalar \<Rightarrow> bool" where
  "is_ascii_digit c \<longleftrightarrow> 48 \<le> c \<and> c \<le> 57"

definition is_ascii_hexdigit :: "scalar \<Rightarrow> bool" where
  "is_ascii_hexdigit c \<longleftrightarrow>
     (48 \<le> c \<and> c \<le> 57) \<or> (65 \<le> c \<and> c \<le> 70) \<or> (97 \<le> c \<and> c \<le> 102)"

text \<open>The value of a digit, as \<open>char::to_digit\<close>; radix at most 16 here.\<close>

definition to_digit :: "nat \<Rightarrow> scalar \<Rightarrow> nat option" where
  "to_digit r c =
     (let d = (if 48 \<le> c \<and> c \<le> 57 then c - 48
               else if 97 \<le> c \<and> c \<le> 122 then c - 87
               else if 65 \<le> c \<and> c \<le> 90 then c - 55 else r)
      in if d < r then Some d else None)"

definition digit_char :: "nat \<Rightarrow> scalar" where
  "digit_char d = (if d < 10 then 48 + d else 87 + d)"

fun parse_digits :: "nat \<Rightarrow> nat \<Rightarrow> ustr \<Rightarrow> nat option" where
  "parse_digits r acc [] = Some acc"
| "parse_digits r acc (c # cs) =
     (case to_digit r c of None \<Rightarrow> None | Some d \<Rightarrow> parse_digits r (acc * r + d) cs)"

text \<open>
  \<open>from_str_radix\<close> for an unsigned type with values below \<open>bound\<close>: a leading plus sign is
  accepted, no digits or an overflow is an error.
\<close>

definition parse_uint :: "nat \<Rightarrow> nat \<Rightarrow> ustr \<Rightarrow> nat option" where
  "parse_uint r bound s =
     (let ds = (case s of c # cs \<Rightarrow> if c = 43 then cs else s | [] \<Rightarrow> [])
      in if ds = [] then None
         else case parse_digits r 0 ds of
                Some n \<Rightarrow> if n < bound then Some n else None
              | None \<Rightarrow> None)"

abbreviation parse_u16 :: "ustr \<Rightarrow> nat option" where "parse_u16 \<equiv> parse_uint 10 65536"
abbreviation parse_u32 :: "ustr \<Rightarrow> nat option" where "parse_u32 \<equiv> parse_uint 10 4294967296"
abbreviation parse_u64 :: "ustr \<Rightarrow> nat option" where
  "parse_u64 \<equiv> parse_uint 10 18446744073709551616"

function show_radix :: "nat \<Rightarrow> nat \<Rightarrow> ustr" where
  "show_radix r n =
     (if n < r \<or> r < 2 then [digit_char n]
      else show_radix r (n div r) @ [digit_char (n mod r)])"
  by pat_completeness auto
termination
  by (relation "measure snd") auto

declare show_radix.simps [simp del]

abbreviation show_dec :: "nat \<Rightarrow> ustr" where "show_dec \<equiv> show_radix 10"
abbreviation show_hex :: "nat \<Rightarrow> ustr" where "show_hex \<equiv> show_radix 16"

lemma to_digit_char: "d < r \<Longrightarrow> r \<le> 16 \<Longrightarrow> to_digit r (digit_char d) = Some d"
  by (simp add: to_digit_def digit_char_def)

lemma digit_char_not_plus: "digit_char d \<noteq> 43"
  by (simp add: digit_char_def)

lemma digit_char_hex: "d < 16 \<Longrightarrow> is_ascii_hexdigit (digit_char d)"
  by (auto simp: is_ascii_hexdigit_def digit_char_def)

lemma parse_digits_append:
  "parse_digits r acc (xs @ ys) =
     (case parse_digits r acc xs of None \<Rightarrow> None | Some a \<Rightarrow> parse_digits r a ys)"
  by (induction xs arbitrary: acc) (auto split: option.split)

lemma parse_digits_show:
  "2 \<le> r \<Longrightarrow> r \<le> 16 \<Longrightarrow> parse_digits r 0 (show_radix r n) = Some n"
proof (induction r n rule: show_radix.induct)
  case (1 r n)
  show ?case
  proof (cases "n < r")
    case True
    then show ?thesis
      using 1 by (simp add: show_radix.simps[of r n] to_digit_char)
  next
    case False
    then have "parse_digits r 0 (show_radix r (n div r)) = Some (n div r)"
      using 1 by simp
    with False 1 show ?thesis
      by (simp add: show_radix.simps[of r n] parse_digits_append to_digit_char)
  qed
qed

lemma show_radix_nonempty [simp]: "show_radix r n \<noteq> []"
  by (subst show_radix.simps) simp

lemma show_radix_set: "2 \<le> r \<Longrightarrow> c \<in> set (show_radix r n) \<Longrightarrow> \<exists>d < r. c = digit_char d"
proof (induction r n rule: show_radix.induct)
  case (1 r n)
  show ?case
  proof (cases "n < r")
    case True
    then show ?thesis using 1 by (auto simp: show_radix.simps[of r n])
  next
    case False
    have "n mod r < r" using 1 by simp
    then have "\<exists>d<r. digit_char (n mod r) = digit_char d" by blast
    then show ?thesis using 1 False by (auto simp: show_radix.simps[of r n])
  qed
qed

lemma show_dec_ascii: "c \<in> set (show_dec n) \<Longrightarrow> is_ascii_digit c"
  by (auto dest!: show_radix_set[rotated] simp: is_ascii_digit_def digit_char_def)

lemma show_hex_hexdigit: "c \<in> set (show_hex n) \<Longrightarrow> is_ascii_hexdigit c"
  by (auto dest!: show_radix_set[rotated] intro: digit_char_hex)

lemma parse_uint_show:
  assumes "2 \<le> r" "r \<le> 16" "n < bound"
  shows "parse_uint r bound (show_radix r n) = Some n"
proof -
  obtain c cs where s: "show_radix r n = c # cs" by (cases "show_radix r n") auto
  then have "c \<noteq> 43" using show_radix_set[of r c n] assms digit_char_not_plus by auto
  then have "(case show_radix r n of c # cs \<Rightarrow> if c = 43 then cs else show_radix r n | [] \<Rightarrow> [])
      = show_radix r n" by (simp add: s)
  then show ?thesis using assms by (simp add: parse_uint_def parse_digits_show Let_def)
qed

lemma parse_uint_bound: "parse_uint r bound s = Some n \<Longrightarrow> n < bound"
  by (auto simp: parse_uint_def Let_def split: if_splits option.splits)

lemma parse_uint_Nil [simp]: "parse_uint r b [] = None"
  by (simp add: parse_uint_def)

section \<open>Hexadecimal byte strings\<close>

text \<open>\<open>format!("{byte:02x}")\<close> for every byte, and its inverse on pairs of digits.\<close>

definition hex_byte :: "u8 \<Rightarrow> ustr" where
  "hex_byte b = [digit_char (unat b div 16), digit_char (unat b mod 16)]"

definition hex :: "bytes \<Rightarrow> ustr" where
  "hex bs = concat (map hex_byte bs)"

lemma length_hex [simp]: "length (hex bs) = 2 * length bs"
  by (induction bs) (simp_all add: hex_def hex_byte_def)

lemma hex_simps [simp]:
  "hex [] = []"
  "hex (b # bs) = digit_char (unat b div 16) # digit_char (unat b mod 16) # hex bs"
  by (simp_all add: hex_def hex_byte_def)

lemma unat_byte_less: "unat (b :: u8) < 256"
  using unsigned_less[of b, where ?'a = nat] by simp

lemma hex_hexdigits: "c \<in> set (hex bs) \<Longrightarrow> is_ascii_hexdigit c"
proof (induction bs)
  case Nil
  then show ?case by simp
next
  case (Cons b bs)
  have "unat b div 16 < 16" using unat_byte_less[of b] by (simp add: less_mult_imp_div_less)
  then show ?case using Cons by (auto intro: digit_char_hex)
qed

section \<open>UTF-8\<close>

definition utf8_char :: "scalar \<Rightarrow> nat list" where
  "utf8_char c =
     (if c < 128 then [c]
      else if c < 2048 then [192 + c div 64, 128 + c mod 64]
      else if c < 65536 then [224 + c div 4096, 128 + c div 64 mod 64, 128 + c mod 64]
      else [240 + c div 262144, 128 + c div 4096 mod 64, 128 + c div 64 mod 64, 128 + c mod 64])"

definition utf8 :: "ustr \<Rightarrow> nat list" where
  "utf8 s = concat (map utf8_char s)"

text \<open>\<open>str::as_bytes\<close> and \<open>str::len\<close>.\<close>

definition as_bytes :: "ustr \<Rightarrow> bytes" where
  "as_bytes s = map of_nat (utf8 s)"

definition str_len :: "ustr \<Rightarrow> nat" where
  "str_len s = length (utf8 s)"

definition is_cont :: "nat \<Rightarrow> bool" where
  "is_cont b \<longleftrightarrow> 128 \<le> b \<and> b < 192"

text \<open>One well-formed sequence at the front: its scalar value and its length.\<close>

fun utf8_next :: "nat list \<Rightarrow> (scalar \<times> nat) option" where
  "utf8_next [] = None"
| "utf8_next (a # r) =
     (if a < 128 then Some (a, 1)
      else if 194 \<le> a \<and> a < 224 then
        (case r of b # _ \<Rightarrow> if is_cont b then Some ((a - 192) * 64 + (b - 128), 2) else None
         | _ \<Rightarrow> None)
      else if 224 \<le> a \<and> a < 240 then
        (case r of b # c # _ \<Rightarrow>
           let v = (a - 224) * 4096 + (b - 128) * 64 + (c - 128)
           in if is_cont b \<and> is_cont c \<and> 2048 \<le> v \<and> is_scalar v then Some (v, 3) else None
         | _ \<Rightarrow> None)
      else if 240 \<le> a \<and> a < 245 then
        (case r of b # c # d # _ \<Rightarrow>
           let v = (a - 240) * 262144 + (b - 128) * 4096 + (c - 128) * 64 + (d - 128)
           in if is_cont b \<and> is_cont c \<and> is_cont d \<and> 65536 \<le> v \<and> is_scalar v
              then Some (v, 4) else None
         | _ \<Rightarrow> None)
      else None)"

lemma utf8_next_len: "utf8_next xs = Some (c, n) \<Longrightarrow> 0 < n \<and> n \<le> length xs"
  by (cases xs) (auto simp: Let_def split: if_splits list.splits)

function utf8_decode :: "nat list \<Rightarrow> ustr option" where
  "utf8_decode xs =
     (if xs = [] then Some []
      else case utf8_next xs of
             None \<Rightarrow> None
           | Some (c, n) \<Rightarrow> map_option (Cons c) (utf8_decode (drop n xs)))"
  by pat_completeness auto
termination
  by (relation "measure length") (auto dest: utf8_next_len)

declare utf8_decode.simps [simp del]

text \<open>\<open>str::from_utf8\<close>\<close>

definition from_utf8 :: "bytes \<Rightarrow> ustr option" where
  "from_utf8 bs = utf8_decode (map unat bs)"

lemma base64_split: "(c :: nat) = x * 64 + y \<Longrightarrow> y < 64 \<Longrightarrow> c div 64 = x \<and> c mod 64 = y"
  by simp

lemma div_64_twice: "(c :: nat) div 4096 = c div 64 div 64" "(c :: nat) div 262144 = c div 64 div 64 div 64"
  by (simp_all add: div_mult2_eq[symmetric])

lemma utf8_next_char: "is_scalar c \<Longrightarrow> utf8_next (utf8_char c @ r) = Some (c, length (utf8_char c))"
proof -
  assume s: "is_scalar c"
  then have c: "c \<le> 1114111" by (simp add: is_scalar_def)
  define y where "y = c mod 64"
  define x where "x = c div 64"
  define x1 where "x1 = x mod 64"
  define z where "z = x div 64"
  define z1 where "z1 = z mod 64"
  define w where "w = z div 64"
  have eqs: "c mod 64 = y" "c div 64 = x" "c div 64 mod 64 = x1" "c div 4096 = z"
      "c div 4096 mod 64 = z1" "c div 262144 = w"
      "x mod 64 = x1" "z mod 64 = z1"
    by (simp_all add: y_def x_def x1_def z_def z1_def w_def div_64_twice)
  have lt: "y < 64" "x1 < 64" "z1 < 64" by (simp_all add: y_def x1_def z1_def)
  have cx: "c = x * 64 + y" by (simp add: x_def y_def)
  have xz: "x = z * 64 + x1" by (simp add: z_def x1_def)
  have zw: "z = w * 64 + z1" by (simp add: w_def z1_def)
  consider "c < 128" | "128 \<le> c" "c < 2048" | "2048 \<le> c" "c < 65536" | "65536 \<le> c" by linarith
  then show ?thesis
  proof cases
    case 1
    then show ?thesis by (simp add: utf8_char_def)
  next
    case 2
    then have "2 \<le> x" "x < 32" using cx lt by linarith+
    moreover have "utf8_char c = [192 + x, 128 + y]" using 2 by (simp add: utf8_char_def eqs)
    ultimately show ?thesis using lt by (simp add: is_cont_def cx)
  next
    case 3
    then have "z < 16" and e: "z * 4096 + x1 * 64 + y = c" using cx xz lt by linarith+
    moreover have "utf8_char c = [224 + z, 128 + x1, 128 + y]"
      using 3 by (simp add: utf8_char_def eqs)
    ultimately show ?thesis using 3 lt s by (simp add: is_cont_def Let_def)
  next
    case 4
    have "w < 5" and e: "w * 262144 + z1 * 4096 + x1 * 64 + y = c" using cx xz zw lt c by linarith+
    moreover have "utf8_char c = [240 + w, 128 + z1, 128 + x1, 128 + y]"
      using 4 by (simp add: utf8_char_def eqs)
    ultimately show ?thesis using 4 lt s by (simp add: is_cont_def Let_def)
  qed
qed

lemma utf8_char_nonempty [simp]: "utf8_char c \<noteq> []"
  by (simp add: utf8_char_def)

lemma utf8_decode_utf8: "\<forall>c \<in> set s. is_scalar c \<Longrightarrow> utf8_decode (utf8 s) = Some s"
proof (induction s)
  case Nil
  show ?case by (simp add: utf8_decode.simps utf8_def)
next
  case (Cons c s)
  then show ?case
    by (subst utf8_decode.simps) (simp add: utf8_def utf8_next_char)
qed

lemma is_cont_E: "is_cont b \<Longrightarrow> (\<And>y. b = 128 + y \<Longrightarrow> y < 64 \<Longrightarrow> P) \<Longrightarrow> P"
proof -
  assume b: "is_cont b" and P: "\<And>y. b = 128 + y \<Longrightarrow> y < 64 \<Longrightarrow> P"
  show P by (rule P[of "b - 128"]) (use b in \<open>auto simp: is_cont_def\<close>)
qed

lemma utf8_next_Some:
  "utf8_next xs = Some (c, n) \<Longrightarrow> is_scalar c \<and> utf8_char c = take n xs"
proof -
  assume a: "utf8_next xs = Some (c, n)"
  then obtain a r where xs: "xs = a # r" by (cases xs) auto
  consider "a < 128" | "194 \<le> a" "a < 224" | "224 \<le> a" "a < 240" | "240 \<le> a" "a < 245"
    using a xs by (fastforce split: if_splits)
  then show ?thesis
  proof cases
    case 1
    then show ?thesis using a xs by (auto simp: utf8_char_def is_scalar_def)
  next
    case 2
    then obtain b r' where r: "r = b # r'" "is_cont b" "c = (a - 192) * 64 + (b - 128)" "n = 2"
      using a xs by (auto split: list.splits if_splits)
    obtain x where x: "a = 192 + x" using le_Suc_ex[of 192 a] 2 by auto
    show ?thesis
      using r(2)
    proof (rule is_cont_E)
      fix y assume y: "b = 128 + y" "y < 64"
      have c: "c = x * 64 + y" using r x y by simp
      then have "c div 64 = x" "c mod 64 = y" using base64_split[OF c y(2)] by simp_all
      moreover have "128 \<le> c" "c < 2048" using 2 x y c by linarith+
      ultimately show ?thesis using r x y xs by (simp add: utf8_char_def is_scalar_def)
    qed
  next
    case 3
    then obtain b d r' where r: "r = b # d # r'" "is_cont b" "is_cont d"
        "c = (a - 224) * 4096 + (b - 128) * 64 + (d - 128)" "2048 \<le> c" "is_scalar c" "n = 3"
      using a xs by (auto simp: Let_def split: list.splits if_splits)
    obtain x where x: "a = 224 + x" using 3 by (metis le_Suc_ex)
    obtain y z where y: "b = 128 + y" "y < 64" and z: "d = 128 + z" "z < 64"
      using r by (metis is_cont_E)
    have c: "c = (x * 64 + y) * 64 + z" using r x y z by simp
    have "c div 64 = x * 64 + y" "c mod 64 = z" using base64_split[OF c z(2)] by simp_all
    moreover from this have "c div 64 div 64 = x" "c div 64 mod 64 = y"
      using base64_split[OF _ y(2), of "c div 64" x] by simp_all
    moreover have "c = x * 4096 + y * 64 + z" using c by simp
    then have "c < 65536" using 3 x y z by linarith
    ultimately show ?thesis using r x y z xs by (simp add: utf8_char_def div_64_twice)
  next
    case 4
    then obtain b d e r' where r: "r = b # d # e # r'" "is_cont b" "is_cont d" "is_cont e"
        "c = (a - 240) * 262144 + (b - 128) * 4096 + (d - 128) * 64 + (e - 128)"
        "65536 \<le> c" "is_scalar c" "n = 4"
      using a xs by (auto simp: Let_def split: list.splits if_splits)
    obtain x where x: "a = 240 + x" using 4 by (metis le_Suc_ex)
    obtain y z w where y: "b = 128 + y" "y < 64" and z: "d = 128 + z" "z < 64"
        and w: "e = 128 + w" "w < 64"
      using r by (metis is_cont_E)
    have c: "c = ((x * 64 + y) * 64 + z) * 64 + w" using r x y z w by simp
    have d1: "c div 64 = (x * 64 + y) * 64 + z" "c mod 64 = w" using base64_split[OF c w(2)] by simp_all
    then have d2: "c div 64 div 64 = x * 64 + y" "c div 64 mod 64 = z"
      using base64_split[OF _ z(2), of "c div 64" "x * 64 + y"] by simp_all
    then have d3: "c div 64 div 64 div 64 = x" "c div 64 div 64 mod 64 = y"
      using base64_split[OF _ y(2), of "c div 64 div 64" x] by simp_all
    show ?thesis using r x y z w xs d1 d2 d3 by (simp add: utf8_char_def div_64_twice)
  qed
qed

lemma utf8_utf8_decode:
  "utf8_decode xs = Some s \<Longrightarrow> utf8 s = xs \<and> (\<forall>c \<in> set s. is_scalar c)"
proof (induction xs arbitrary: s rule: utf8_decode.induct)
  case (1 xs)
  show ?case
  proof (cases "xs = []")
    case True
    then show ?thesis using "1.prems" by (simp add: utf8_decode.simps utf8_def)
  next
    case False
    obtain c n where n: "utf8_next xs = Some (c, n)"
      using "1.prems" False by (auto simp: utf8_decode.simps[of xs] split: option.splits)
    obtain t where t: "utf8_decode (drop n xs) = Some t" "s = c # t"
      using "1.prems" False n by (auto simp: utf8_decode.simps[of xs])
    have "utf8 t = drop n xs \<and> (\<forall>c \<in> set t. is_scalar c)"
      using "1.IH"[OF False n refl t(1)] .
    then show ?thesis
      using utf8_next_Some[OF n] t by (simp add: utf8_def)
  qed
qed

lemma utf8_less_256: "\<forall>c \<in> set s. is_scalar c \<Longrightarrow> \<forall>b \<in> set (utf8 s). b < 256"
  by (auto simp: utf8_def utf8_char_def is_scalar_def split: if_splits)

lemma from_utf8_as_bytes: "\<forall>c \<in> set s. is_scalar c \<Longrightarrow> from_utf8 (as_bytes s) = Some s"
proof -
  assume s: "\<forall>c \<in> set s. is_scalar c"
  have "map unat (map of_nat (utf8 s) :: bytes) = utf8 s"
    using utf8_less_256[OF s] by (auto simp: unat_of_nat intro!: map_idI)
  then show ?thesis using utf8_decode_utf8[OF s] by (simp add: from_utf8_def as_bytes_def)
qed

lemma as_bytes_from_utf8:
  "from_utf8 bs = Some s \<Longrightarrow> as_bytes s = bs \<and> (\<forall>c \<in> set s. is_scalar c)"
proof -
  assume "from_utf8 bs = Some s"
  then have "utf8 s = map unat bs" and "\<forall>c \<in> set s. is_scalar c"
    using utf8_utf8_decode by (auto simp: from_utf8_def)
  then show ?thesis by (simp add: as_bytes_def o_def)
qed

lemma length_as_bytes [simp]: "length (as_bytes s) = str_len s"
  by (simp add: as_bytes_def str_len_def)

end
