(* ===== verification/Wire.thy ===== *)
theory Wire
  imports Text_Lib
begin

text \<open>
  The AMB1 wire format, \<open>host-rs/src/wire.rs\<close>: the frame header with its type-specific payload
  bound, the quality-control payloads, the per-PC authorization payloads with the signed
  transcript, and the pairing details. Every decoder and encoder is a codec of the prelude's
  interface; the round-trip and rejection theorems rest on those interpretations.
\<close>

section \<open>Constants\<close>

definition HEADER_SIZE :: nat where "HEADER_SIZE = 24"
definition MAX_PAYLOAD :: nat where "MAX_PAYLOAD = 16 * 1024 * 1024"
definition MAX_CONTROL_PAYLOAD :: nat where "MAX_CONTROL_PAYLOAD = 16 * 1024"
definition MAX_QUALITY_MODES :: nat where "MAX_QUALITY_MODES = 256"
definition QUALITY_MODE_BYTES :: nat where "QUALITY_MODE_BYTES = 12"

abbreviation (input) HELLO :: u8 where "HELLO \<equiv> 0x01"
abbreviation (input) HELLO_ACK :: u8 where "HELLO_ACK \<equiv> 0x02"
abbreviation (input) PING :: u8 where "PING \<equiv> 0x03"
abbreviation (input) PONG :: u8 where "PONG \<equiv> 0x04"
abbreviation (input) QUALITY_CAPABILITIES :: u8 where "QUALITY_CAPABILITIES \<equiv> 0x05"
abbreviation (input) PREPARE_QUALITY :: u8 where "PREPARE_QUALITY \<equiv> 0x06"
abbreviation (input) QUALITY_RESULT :: u8 where "QUALITY_RESULT \<equiv> 0x07"
abbreviation (input) PAUSED :: u8 where "PAUSED \<equiv> 0x08"
abbreviation (input) COMMIT_QUALITY :: u8 where "COMMIT_QUALITY \<equiv> 0x09"
abbreviation (input) CLIENT_CHALLENGE :: u8 where "CLIENT_CHALLENGE \<equiv> 0x0a"
abbreviation (input) CLIENT_AUTH :: u8 where "CLIENT_AUTH \<equiv> 0x0b"
abbreviation (input) CLIENT_AUTH_RESULT :: u8 where "CLIENT_AUTH_RESULT \<equiv> 0x0c"
abbreviation (input) PAIRING_INFO :: u8 where "PAIRING_INFO \<equiv> 0x0d"
abbreviation (input) HOST_HELLO :: u8 where "HOST_HELLO \<equiv> 0x0e"
abbreviation (input) VIDEO_CONFIG :: u8 where "VIDEO_CONFIG \<equiv> 0x10"
abbreviation (input) VIDEO_AU :: u8 where "VIDEO_AU \<equiv> 0x11"
abbreviation (input) IDR_REQUEST :: u8 where "IDR_REQUEST \<equiv> 0x12"

abbreviation (input) KEYFRAME :: u16 where "KEYFRAME \<equiv> 1"
abbreviation (input) CONFIG_INCLUDED :: u16 where "CONFIG_INCLUDED \<equiv> 2"
abbreviation (input) DISCONTINUITY :: u16 where "DISCONTINUITY \<equiv> 4"

abbreviation (input) AUTH_AUTHORIZED :: u8 where "AUTH_AUTHORIZED \<equiv> 0"
abbreviation (input) AUTH_PENDING :: u8 where "AUTH_PENDING \<equiv> 1"
abbreviation (input) AUTH_REJECTED :: u8 where "AUTH_REJECTED \<equiv> 2"
abbreviation (input) AUTH_REASON_NONE :: u8 where "AUTH_REASON_NONE \<equiv> 0"
abbreviation (input) AUTH_REASON_UNKNOWN :: u8 where "AUTH_REASON_UNKNOWN \<equiv> 1"
abbreviation (input) AUTH_REASON_REVOKED :: u8 where "AUTH_REASON_REVOKED \<equiv> 2"
abbreviation (input) AUTH_REASON_EXPIRED :: u8 where "AUTH_REASON_EXPIRED \<equiv> 3"
abbreviation (input) AUTH_REASON_TOO_MANY :: u8 where "AUTH_REASON_TOO_MANY \<equiv> 4"
abbreviation (input) AUTH_REASON_BAD_SIGNATURE :: u8 where "AUTH_REASON_BAD_SIGNATURE \<equiv> 5"

abbreviation (input) PERMISSION_READY :: u8 where "PERMISSION_READY \<equiv> 0"
abbreviation (input) PERMISSION_PENDING :: u8 where "PERMISSION_PENDING \<equiv> 1"
abbreviation (input) PERMISSION_UNAVAILABLE :: u8 where "PERMISSION_UNAVAILABLE \<equiv> 2"

abbreviation (input) RESULT_SWITCHING :: u8 where "RESULT_SWITCHING \<equiv> 0"
abbreviation (input) RESULT_REJECTED :: u8 where "RESULT_REJECTED \<equiv> 1"
abbreviation (input) RESULT_APPLIED :: u8 where "RESULT_APPLIED \<equiv> 2"
abbreviation (input) RESULT_STAGED :: u8 where "RESULT_STAGED \<equiv> 3"

definition MAX_CLIENT_LABEL :: nat where "MAX_CLIENT_LABEL = 32"
definition SIGNATURE_BYTES :: nat where "SIGNATURE_BYTES = 64"
definition NONCE_BYTES :: nat where "NONCE_BYTES = 32"
abbreviation (input) CLIENT_AUTH_VERSION :: u8 where "CLIENT_AUTH_VERSION \<equiv> 2"
definition CLIENT_PUBLIC_KEY_BYTES :: nat where "CLIENT_PUBLIC_KEY_BYTES = 65"
definition PHONE_BINDING_BYTES :: nat where "PHONE_BINDING_BYTES = 32"
abbreviation (input) AUTH_USB :: u8 where "AUTH_USB \<equiv> 0"
abbreviation (input) AUTH_LAN :: u8 where "AUTH_LAN \<equiv> 1"
definition CLIENT_AUTH_MIN_BYTES :: nat where
  "CLIENT_AUTH_MIN_BYTES = 1 + CLIENT_PUBLIC_KEY_BYTES + 1 + SIGNATURE_BYTES"
definition CLIENT_AUTH_MAX_BYTES :: nat where
  "CLIENT_AUTH_MAX_BYTES = CLIENT_AUTH_MIN_BYTES + MAX_CLIENT_LABEL"

lemmas wire_consts =
  HEADER_SIZE_def MAX_PAYLOAD_def MAX_CONTROL_PAYLOAD_def MAX_QUALITY_MODES_def
  QUALITY_MODE_BYTES_def MAX_CLIENT_LABEL_def SIGNATURE_BYTES_def NONCE_BYTES_def
  CLIENT_PUBLIC_KEY_BYTES_def PHONE_BINDING_BYTES_def CLIENT_AUTH_MIN_BYTES_def
  CLIENT_AUTH_MAX_BYTES_def

definition invalid :: "string \<Rightarrow> error" where
  "invalid message = Io InvalidData message"

definition need :: "bytes \<Rightarrow> nat \<Rightarrow> string \<Rightarrow> error + unit" where
  "need payload n message = (if length payload < n then Inl (invalid message) else Inr ())"

section \<open>Quality-control payloads\<close>

record quality_mode =
  qm_width :: u16
  qm_height :: u16
  qm_target_fps :: u16
  qm_bitrate :: u32

record capabilities =
  extension_version :: u8
  permission :: u8
  catalog_revision :: u16
  stream_epoch :: u32
  modes :: "quality_mode list"

definition mode_of_chunk :: "bytes \<Rightarrow> quality_mode" where
  "mode_of_chunk chunk =
     \<lparr>qm_width = of_le16 (slice 0 2 chunk), qm_height = of_le16 (slice 2 4 chunk),
      qm_target_fps = of_le16 (slice 4 6 chunk), qm_bitrate = of_le32 (slice 8 12 chunk)\<rparr>"

text \<open>\<open>as_chunks::<12>().0\<close>: the complete chunks, the remainder is not among them.\<close>

fun decode_modes :: "bytes \<Rightarrow> quality_mode list" where
  "decode_modes bs =
     (if length bs < 12 then [] else mode_of_chunk (take 12 bs) # decode_modes (drop 12 bs))"

declare decode_modes.simps [simp del]

definition caps_decode :: "bytes \<Rightarrow> error + capabilities" where
  "caps_decode payload =
     try_r (need payload 10 ''quality capabilities payload is truncated'') (\<lambda>_.
       let mode_count = unat (of_le16 (slice 8 10 payload));
           expected = 10 + mode_count * QUALITY_MODE_BYTES
       in if mode_count > MAX_QUALITY_MODES
          then Inl (invalid ''quality capability list exceeds 256 modes'')
          else if length payload \<noteq> expected
          then Inl (invalid ''quality capabilities length does not match the mode count'')
          else if length payload > MAX_CONTROL_PAYLOAD
          then Inl (invalid ''quality capabilities payload exceeds the control limit'')
          else Inr \<lparr>extension_version = payload ! 0, permission = payload ! 1,
                    catalog_revision = of_le16 (slice 2 4 payload),
                    stream_epoch = of_le32 (slice 4 8 payload),
                    modes = decode_modes (drop 10 payload)\<rparr>)"

definition encode_mode :: "quality_mode \<Rightarrow> bytes" where
  "encode_mode m = le16 (qm_width m) @ le16 (qm_height m) @ le16 (qm_target_fps m)
     @ le16 0 @ le32 (qm_bitrate m)"

definition caps_encode :: "capabilities \<Rightarrow> error + bytes" where
  "caps_encode c =
     (if length (modes c) > MAX_QUALITY_MODES
      then Inl (invalid ''quality capability list exceeds 256 modes'')
      else let payload = [extension_version c, permission c] @ le16 (catalog_revision c)
                 @ le32 (stream_epoch c) @ le16 (of_nat (length (modes c)))
                 @ concat (map encode_mode (modes c))
           in if length payload > MAX_CONTROL_PAYLOAD
              then Inl (invalid ''quality capabilities payload exceeds the control limit'')
              else Inr payload)"

record prepare_quality =
  pq_request_id :: u32
  pq_catalog_revision :: u16
  pq_width :: u16
  pq_height :: u16
  pq_target_fps :: u16

definition prepare_decode :: "bytes \<Rightarrow> error + prepare_quality" where
  "prepare_decode payload =
     (if length payload \<noteq> 14 then Inl (invalid ''prepare quality payload must be 14 bytes'')
      else Inr \<lparr>pq_request_id = of_le32 (slice 0 4 payload),
                pq_catalog_revision = of_le16 (slice 4 6 payload),
                pq_width = of_le16 (slice 6 8 payload), pq_height = of_le16 (slice 8 10 payload),
                pq_target_fps = of_le16 (slice 10 12 payload)\<rparr>)"

definition prepare_encode :: "prepare_quality \<Rightarrow> bytes" where
  "prepare_encode p = le32 (pq_request_id p) @ le16 (pq_catalog_revision p) @ le16 (pq_width p)
     @ le16 (pq_height p) @ le16 (pq_target_fps p) @ le16 0"

record quality_result =
  qr_request_id :: u32
  qr_status :: u8
  qr_reason :: u8
  qr_applied_width :: u16
  qr_applied_height :: u16
  qr_applied_fps :: u16

definition result_decode :: "bytes \<Rightarrow> error + quality_result" where
  "result_decode payload =
     (if length payload \<noteq> 14 then Inl (invalid ''quality result payload must be 14 bytes'')
      else Inr \<lparr>qr_request_id = of_le32 (slice 0 4 payload), qr_status = payload ! 4,
                qr_reason = payload ! 5, qr_applied_width = of_le16 (slice 6 8 payload),
                qr_applied_height = of_le16 (slice 8 10 payload),
                qr_applied_fps = of_le16 (slice 10 12 payload)\<rparr>)"

definition result_encode :: "quality_result \<Rightarrow> bytes" where
  "result_encode r = le32 (qr_request_id r) @ [qr_status r, qr_reason r]
     @ le16 (qr_applied_width r) @ le16 (qr_applied_height r) @ le16 (qr_applied_fps r) @ le16 0"

record epoch =
  ep_request_id :: u32
  ep_stream_epoch :: u32

definition epoch_decode :: "bytes \<Rightarrow> error + epoch" where
  "epoch_decode payload =
     (if length payload \<noteq> 8 then Inl (invalid ''epoch payload must be 8 bytes'')
      else Inr \<lparr>ep_request_id = of_le32 (slice 0 4 payload),
                ep_stream_epoch = of_le32 (slice 4 8 payload)\<rparr>)"

definition epoch_encode :: "epoch \<Rightarrow> bytes" where
  "epoch_encode e = le32 (ep_request_id e) @ le32 (ep_stream_epoch e)"

subsection \<open>They are codecs\<close>

lemma length_encode_mode [simp]: "length (encode_mode m) = 12"
  by (simp add: encode_mode_def)

lemma mode_of_encode_mode [simp]: "mode_of_chunk (encode_mode m) = m"
  by (simp add: mode_of_chunk_def encode_mode_def byte_simps)

lemma decode_modes_Nil [simp]: "decode_modes [] = []"
  by (simp add: decode_modes.simps)

lemma decode_modes_encode: "decode_modes (concat (map encode_mode ms)) = ms"
  by (induction ms) (simp_all add: decode_modes.simps[of "_ @ _"])

lemma length_concat_encode_mode: "length (concat (map encode_mode ms)) = 12 * length ms"
  by (induction ms) simp_all

lemma length_decode_modes: "length (decode_modes bs) = length bs div 12"
  by (induction bs rule: decode_modes.induct) (simp add: decode_modes.simps le_div_geq)

interpretation prepare_codec: codec "\<lambda>_. True" "\<lambda>p. Inr (prepare_encode p)" prepare_decode
  by unfold_locales (auto simp: prepare_encode_def prepare_decode_def byte_simps)

interpretation result_codec: codec "\<lambda>_. True" "\<lambda>r. Inr (result_encode r)" result_decode
  by unfold_locales (auto simp: result_encode_def result_decode_def byte_simps nth_append)

interpretation epoch_codec: canonical_codec "\<lambda>_. True" "\<lambda>e. Inr (epoch_encode e)" epoch_decode
  by unfold_locales
    (auto simp: epoch_encode_def epoch_decode_def byte_simps slice_join split: if_splits)

lemma caps_encode_Inr_iff: "caps_encode c = Inr bs \<longleftrightarrow> length (modes c) \<le> 256 \<and>
    bs = [extension_version c, permission c] @ le16 (catalog_revision c) @ le32 (stream_epoch c)
           @ le16 (of_nat (length (modes c))) @ concat (map encode_mode (modes c))"
  by (auto simp: caps_encode_def wire_consts Let_def length_concat_encode_mode)

lemma caps_decode_encode: "caps_encode c = Inr bs \<Longrightarrow> caps_decode bs = Inr c"
  unfolding caps_encode_Inr_iff
  by (auto simp: caps_decode_def need_def wire_consts Let_def length_concat_encode_mode
      byte_simps unat_of_nat decode_modes_encode)

lemma caps_decode_Inr_iff: "caps_decode bs = Inr c \<longleftrightarrow>
    10 \<le> length bs \<and> unat (of_le16 (slice 8 10 bs)) \<le> 256
    \<and> length bs = 10 + unat (of_le16 (slice 8 10 bs)) * 12
    \<and> c = \<lparr>extension_version = bs ! 0, permission = bs ! 1,
           catalog_revision = of_le16 (slice 2 4 bs), stream_epoch = of_le32 (slice 4 8 bs),
           modes = decode_modes (drop 10 bs)\<rparr>"
  by (auto simp: caps_decode_def need_def wire_consts Let_def)

interpretation caps_codec: codec "\<lambda>_. True" caps_encode caps_decode
proof unfold_locales
  fix bs c assume "caps_decode bs = Inr c"
  then have "length (modes c) \<le> 256"
    by (auto simp: caps_decode_Inr_iff length_decode_modes)
  then show "\<exists>bs'. caps_encode c = Inr bs'" by (auto simp: caps_encode_Inr_iff)
qed (auto intro: caps_decode_encode)

section \<open>Per-PC authorization payloads\<close>

definition valid_transport :: "u8 \<Rightarrow> bool" where
  "valid_transport t \<longleftrightarrow> t = AUTH_USB \<or> t = AUTH_LAN"

definition valid_phone_binding :: "u8 \<Rightarrow> bytes \<Rightarrow> bool" where
  "valid_phone_binding t binding \<longleftrightarrow>
     length binding = PHONE_BINDING_BYTES
     \<and> (if t = AUTH_USB then list_all (\<lambda>b. b = 0) binding else list_ex (\<lambda>b. b \<noteq> 0) binding)"

text \<open>
  The general category of a scalar comes from the crate \<open>unicode_general_category\<close>, which is
  not part of the repository: it is a parameter \<open>gc\<close>.
\<close>

datatype general_category =
    GcControl | GcFormat | GcLineSeparator | GcParagraphSeparator | GcOther

definition valid_label :: "(scalar \<Rightarrow> general_category) \<Rightarrow> ustr \<Rightarrow> bool" where
  "valid_label gc label \<longleftrightarrow>
     trim label \<noteq> [] \<and> str_len label \<le> MAX_CLIENT_LABEL
     \<and> \<not> list_ex (\<lambda>c. gc c \<in> {GcControl, GcFormat, GcLineSeparator, GcParagraphSeparator}) label"

definition transcript_domain :: bytes where
  "transcript_domain = as_bytes (lit ''AMB1 PC authorization'') @ [0] @ as_bytes (lit ''v2'') @ [0]"

definition client_auth_message ::
  "(scalar \<Rightarrow> general_category) \<Rightarrow> u8 \<Rightarrow> bytes \<Rightarrow> bytes \<Rightarrow> bytes \<Rightarrow> ustr \<Rightarrow> error + bytes" where
  "client_auth_message gc transport phone_binding nonce public_key label =
     (if \<not> valid_transport transport
         \<or> \<not> valid_phone_binding transport phone_binding
         \<or> length nonce \<noteq> NONCE_BYTES
         \<or> length public_key \<noteq> CLIENT_PUBLIC_KEY_BYTES
         \<or> public_key ! 0 \<noteq> 4
         \<or> \<not> valid_label gc label
      then Inl (invalid ''invalid authorization transcript fields'')
      else Inr (transcript_domain @ [transport] @ phone_binding @ nonce @ public_key
                @ [of_nat (str_len label)] @ as_bytes label))"

record client_challenge =
  cc_version :: u8
  cc_transport :: u8
  cc_phone_binding :: bytes
  cc_nonce :: bytes

definition challenge_decode :: "bytes \<Rightarrow> error + client_challenge" where
  "challenge_decode payload =
     (if length payload \<noteq> 2 + PHONE_BINDING_BYTES + NONCE_BYTES
      then Inl (invalid ''client challenge payload must be 66 bytes'')
      else if payload ! 0 \<noteq> CLIENT_AUTH_VERSION \<or> \<not> valid_transport (payload ! 1)
      then Inl (invalid ''unsupported client challenge version or transport'')
      else if \<not> valid_phone_binding (payload ! 1) (slice 2 (2 + PHONE_BINDING_BYTES) payload)
      then Inl (invalid ''invalid phone certificate binding'')
      else Inr \<lparr>cc_version = payload ! 0, cc_transport = payload ! 1,
                cc_phone_binding = slice 2 (2 + PHONE_BINDING_BYTES) payload,
                cc_nonce = drop (2 + PHONE_BINDING_BYTES) payload\<rparr>)"

definition challenge_encode :: "client_challenge \<Rightarrow> error + bytes" where
  "challenge_encode c =
     (if cc_version c = CLIENT_AUTH_VERSION \<and> valid_transport (cc_transport c)
         \<and> valid_phone_binding (cc_transport c) (cc_phone_binding c)
         \<and> length (cc_nonce c) = NONCE_BYTES
      then Inr ([cc_version c, cc_transport c] @ cc_phone_binding c @ cc_nonce c)
      else Inl (Panic ''assertion failed''))"

record client_auth =
  ca_version :: u8
  ca_public_key :: bytes
  ca_label :: ustr
  ca_signature :: bytes

text \<open>What the Rust type can hold: a \<open>String\<close> is made of scalar values.\<close>

definition client_auth_wf :: "client_auth \<Rightarrow> bool" where
  "client_auth_wf a \<longleftrightarrow> list_all is_scalar (ca_label a)"

definition client_auth_decode ::
  "(scalar \<Rightarrow> general_category) \<Rightarrow> bytes \<Rightarrow> error + client_auth" where
  "client_auth_decode gc payload =
     (if \<not> (CLIENT_AUTH_MIN_BYTES \<le> length payload \<and> length payload \<le> CLIENT_AUTH_MAX_BYTES)
      then Inl (invalid ''invalid client auth length'')
      else if payload ! 0 \<noteq> CLIENT_AUTH_VERSION
      then Inl (invalid ''unsupported client auth version'')
      else let offset = 1 + CLIENT_PUBLIC_KEY_BYTES;
               label_length = unat (payload ! offset)
           in if label_length > MAX_CLIENT_LABEL
              then Inl (invalid ''client label exceeds the limit'')
              else if length payload \<noteq> CLIENT_AUTH_MIN_BYTES + label_length
              then Inl (invalid ''client auth length does not match its label'')
              else case from_utf8 (slice (offset + 1) (offset + 1 + label_length) payload) of
                     None \<Rightarrow> Inl (invalid ''client label is not valid UTF-8'')
                   | Some label \<Rightarrow>
                       if \<not> valid_label gc label \<or> payload ! 1 \<noteq> 4
                       then Inl (invalid ''invalid client point or label'')
                       else Inr \<lparr>ca_version = payload ! 0,
                                 ca_public_key = slice 1 offset payload, ca_label = label,
                                 ca_signature =
                                   drop (length payload - SIGNATURE_BYTES) payload\<rparr>)"

definition client_auth_encode ::
  "(scalar \<Rightarrow> general_category) \<Rightarrow> client_auth \<Rightarrow> error + bytes" where
  "client_auth_encode gc a =
     (if ca_version a = CLIENT_AUTH_VERSION
         \<and> length (ca_public_key a) = CLIENT_PUBLIC_KEY_BYTES \<and> ca_public_key a ! 0 = 4
         \<and> length (ca_signature a) = SIGNATURE_BYTES \<and> valid_label gc (ca_label a)
      then Inr ([ca_version a] @ ca_public_key a @ [of_nat (str_len (ca_label a))]
                @ as_bytes (ca_label a) @ ca_signature a)
      else Inl (Panic ''assertion failed''))"

record client_auth_result =
  car_status :: u8
  car_reason :: u8
  car_expires :: u32

definition auth_result_valid :: "client_auth_result \<Rightarrow> bool" where
  "auth_result_valid r =
     (if car_status r = AUTH_AUTHORIZED
      then car_reason r = AUTH_REASON_NONE \<and> car_expires r > 0
      else if car_status r = AUTH_PENDING
      then car_reason r = AUTH_REASON_NONE \<and> car_expires r = 0
      else if car_status r = AUTH_REJECTED
      then AUTH_REASON_UNKNOWN \<le> car_reason r \<and> car_reason r \<le> AUTH_REASON_BAD_SIGNATURE
        \<and> (car_reason r = AUTH_REASON_EXPIRED \<or> car_expires r = 0)
      else False)"

definition auth_result_validate :: "client_auth_result \<Rightarrow> error + unit" where
  "auth_result_validate r =
     (if auth_result_valid r then Inr ()
      else Inl (invalid ''invalid client authorization outcome''))"

definition auth_result_decode :: "bytes \<Rightarrow> error + client_auth_result" where
  "auth_result_decode payload =
     (if length payload \<noteq> 6 then Inl (invalid ''client auth result payload must be 6 bytes'')
      else let r = \<lparr>car_status = payload ! 0, car_reason = payload ! 1,
                    car_expires = of_le32 (slice 2 6 payload)\<rparr>
           in try_r (auth_result_validate r) (\<lambda>_. Inr r))"

definition auth_result_encode :: "client_auth_result \<Rightarrow> error + bytes" where
  "auth_result_encode r =
     (case auth_result_validate r of
        Inl _ \<Rightarrow> Inl (Panic ''valid authorization outcome'')
      | Inr _ \<Rightarrow> Inr ([car_status r, car_reason r] @ le32 (car_expires r)))"

subsection \<open>They are canonical codecs\<close>

lemma list_2_split: "2 \<le> length xs \<Longrightarrow> xs = xs ! 0 # xs ! 1 # drop 2 xs"
  by (cases xs; cases "tl xs") auto

lemma slice_drop: "i \<le> j \<Longrightarrow> slice i j xs @ drop j xs = drop i xs"
proof -
  assume "i \<le> j"
  then have "drop j xs = drop (j - i) (drop i xs)" by simp
  then show ?thesis unfolding slice_def by (metis append_take_drop_id)
qed

lemma slice_single: "i < length xs \<Longrightarrow> slice i (i + 1) xs = [xs ! i]"
  by (simp add: slice_def take_Suc_conv_app_nth hd_drop_conv_nth take_Suc)

interpretation auth_result_codec: canonical_codec "\<lambda>_. True" auth_result_encode auth_result_decode
proof unfold_locales
  fix bs r assume "auth_result_decode bs = Inr r"
  then have l: "length bs = 6" and r: "car_status r = bs ! 0" "car_reason r = bs ! 1"
      "car_expires r = of_le32 (slice 2 6 bs)" "auth_result_validate r = Inr ()"
    by (auto simp: auth_result_decode_def Let_def try_r_Inr_iff split: if_splits)
  have "slice 2 6 bs = drop 2 bs" using l by (simp add: slice_to_end)
  then have "[bs ! 0, bs ! 1] @ le32 (of_le32 (slice 2 6 bs)) = bs"
    using l list_2_split[of bs] by simp
  then show "auth_result_encode r = Inr bs" using r by (simp add: auth_result_encode_def)
next
  fix r bs assume "auth_result_encode r = Inr bs"
  then show "auth_result_decode bs = Inr r"
    by (cases r) (auto simp: auth_result_encode_def auth_result_decode_def Let_def byte_simps
      split: sum.splits)
qed simp

interpretation challenge_codec: canonical_codec "\<lambda>_. True" challenge_encode challenge_decode
proof unfold_locales
  fix bs c assume a: "challenge_decode bs = Inr c"
  then have l: "length bs = 66" by (auto simp: challenge_decode_def wire_consts split: if_splits)
  have "bs ! 0 # bs ! 1 # slice 2 34 bs @ drop 34 bs = bs"
    using l list_2_split[of bs] slice_drop[of 2 34 bs] by simp
  then show "challenge_encode c = Inr bs"
    using a by (auto simp: challenge_decode_def challenge_encode_def wire_consts split: if_splits)
qed (auto simp: challenge_decode_def challenge_encode_def wire_consts byte_simps
    valid_phone_binding_def split: if_splits)

lemma client_auth_decode_Inr: "client_auth_decode gc bs = Inr a \<Longrightarrow>
    131 \<le> length bs \<and> unat (bs ! 66) \<le> 32 \<and> length bs = 131 + unat (bs ! 66) \<and> bs ! 0 = 2
    \<and> bs ! 1 = 4 \<and> valid_label gc (ca_label a)
    \<and> from_utf8 (slice 67 (67 + unat (bs ! 66)) bs) = Some (ca_label a)
    \<and> ca_version a = 2 \<and> ca_public_key a = slice 1 66 bs
    \<and> ca_signature a = drop (length bs - 64) bs"
  by (auto simp: client_auth_decode_def wire_consts Let_def split: if_splits option.splits)

interpretation client_auth_codec:
  canonical_codec client_auth_wf "client_auth_encode gc" "client_auth_decode gc" for gc
proof unfold_locales
  fix a bs assume wf: "client_auth_wf a" and e: "client_auth_encode gc a = Inr bs"
  let ?l = "str_len (ca_label a)"
  from e have v: "ca_version a = 2" "length (ca_public_key a) = 65" "ca_public_key a ! 0 = 4"
      "length (ca_signature a) = 64" "valid_label gc (ca_label a)"
    and bs: "bs = ca_version a # ca_public_key a @ of_nat ?l # as_bytes (ca_label a) @ ca_signature a"
    by (auto simp: client_auth_encode_def wire_consts split: if_splits)
  have l32: "?l \<le> 32" using v(5) by (simp add: valid_label_def wire_consts)
  then have u: "unat (of_nat ?l :: u8) = ?l" by (simp add: unat_of_nat)
  have n: "bs ! 66 = of_nat ?l" "bs ! 1 = 4" using v bs by (simp_all add: nth_append)
  have bs': "bs = (ca_version a # ca_public_key a @ of_nat ?l # as_bytes (ca_label a)) @ ca_signature a"
    using bs by simp
  have s: "slice 1 66 bs = ca_public_key a" "slice 67 (67 + ?l) bs = as_bytes (ca_label a)"
    using v bs by (simp_all add: byte_simps)
  have "drop (67 + ?l) bs = ca_signature a" unfolding bs' using v by (subst drop_append) simp
  note s = s this
  have f: "from_utf8 (as_bytes (ca_label a)) = Some (ca_label a)"
    using wf by (intro from_utf8_as_bytes) (simp add: client_auth_wf_def list_all_iff)
  have len: "length bs = 131 + ?l" "bs ! 0 = 2" using v bs by simp_all
  show "client_auth_decode gc bs = Inr a"
    using len n s f v l32 u
    by (simp add: client_auth_decode_def wire_consts Let_def)
next
  fix bs a assume "client_auth_decode gc bs = Inr a"
  then have "from_utf8 (slice 67 (67 + unat (bs ! 66)) bs) = Some (ca_label a)"
    using client_auth_decode_Inr by blast
  then show "client_auth_wf a"
    using as_bytes_from_utf8 by (simp add: client_auth_wf_def list_all_iff)
next
  fix bs a assume "client_auth_decode gc bs = Inr a"
  note d = client_auth_decode_Inr[OF this]
  let ?l = "unat (bs ! 66)"
  have b: "as_bytes (ca_label a) = slice 67 (67 + ?l) bs"
    using d as_bytes_from_utf8 by blast
  then have "str_len (ca_label a) = length (slice 67 (67 + ?l) bs)" by (metis length_as_bytes)
  then have l: "str_len (ca_label a) = ?l" using d by (simp add: byte_simps)
  have "[bs ! 0] @ slice 1 66 bs @ [bs ! 66] @ slice 67 (67 + ?l) bs @ drop (67 + ?l) bs = bs"
  proof -
    have "drop 67 bs = slice 67 (67 + ?l) bs @ drop (67 + ?l) bs" by (simp add: slice_drop)
    moreover have "drop 66 bs = [bs ! 66] @ drop 67 bs"
      using slice_drop[of 66 67 bs] slice_single[of 66 bs] d by simp
    moreover have "drop 1 bs = slice 1 66 bs @ drop 66 bs" by (simp add: slice_drop)
    moreover have "bs = [bs ! 0] @ drop 1 bs" using d by (cases bs) auto
    ultimately show ?thesis by simp
  qed
  then show "client_auth_encode gc a = Inr bs"
    using d b l by (simp add: client_auth_encode_def wire_consts byte_simps nth_slice)
qed

section \<open>Pairing details\<close>

type_synonym ipv4 = "u8 \<times> u8 \<times> u8 \<times> u8"

record pairing_info =
  pi_addresses :: "ipv4 list"
  pi_fingerprint :: ustr
  pi_key :: ustr

definition pairing_fits :: "nat \<Rightarrow> bool" where
  "pairing_fits len =
     (if len < 2 + 4 + 32 + 16 then False
      else let count = (len - (2 + 32 + 16)) div 4
           in 1 \<le> count \<and> count \<le> 4 \<and> len = 2 + count * 4 + 32 + 16)"

definition pairing_decode :: "bytes \<Rightarrow> error + pairing_info" where
  "pairing_decode payload =
     (if length payload < 2 then Inl (Msg ''pairing info is too short'')
      else if payload ! 0 \<noteq> 1 then Inl (Msg ''unexpected pairing info version'')
      else let count = unat (payload ! 1)
           in if \<not> (1 \<le> count \<and> count \<le> 4)
              then Inl (Msg ''pairing info carries an unusable address count'')
              else if length payload \<noteq> 2 + count * 4 + 32 + 16
              then Inl (Msg ''pairing info has trailing or missing bytes'')
              else let fingerprint_at = 2 + count * 4; key_at = fingerprint_at + 32
                   in Inr \<lparr>pi_addresses =
                        map (\<lambda>index. let a = 2 + index * 4
                               in (payload ! a, payload ! (a + 1), payload ! (a + 2), payload ! (a + 3)))
                            [0..<count],
                       pi_fingerprint = hex (slice fingerprint_at key_at payload),
                       pi_key = hex (drop key_at payload)\<rparr>)"

lemma pairing_fits_iff: "pairing_fits len \<longleftrightarrow> len \<in> {54, 58, 62, 66}"
proof
  assume "pairing_fits len"
  then obtain c where "1 \<le> c" "c \<le> 4" "len = c * 4 + 50"
  proof -
    assume P: "\<And>c. 1 \<le> c \<Longrightarrow> c \<le> 4 \<Longrightarrow> len = c * 4 + 50 \<Longrightarrow> thesis"
      and "pairing_fits len"
    then have "1 \<le> (len - 50) div 4" "(len - 50) div 4 \<le> 4" "len = (len - 50) div 4 * 4 + 50"
      by (auto simp: pairing_fits_def Let_def split: if_splits)
    then show thesis by (rule P)
  qed
  then have "c \<in> {1, 2, 3, 4}" by auto
  with \<open>len = c * 4 + 50\<close> show "len \<in> {54, 58, 62, 66}" by auto
qed (auto simp: pairing_fits_def)

text \<open>\<open>Ipv4Addr::is_private\<close> and \<open>is_link_local\<close> of the standard library.\<close>

fun is_private :: "ipv4 \<Rightarrow> bool" where
  "is_private (a, b, c, d) \<longleftrightarrow>
     a = 10 \<or> (a = 172 \<and> 16 \<le> b \<and> b \<le> 31) \<or> (a = 192 \<and> b = 168)"

fun is_link_local :: "ipv4 \<Rightarrow> bool" where
  "is_link_local (a, b, c, d) \<longleftrightarrow> a = 169 \<and> b = 254"

definition preferred_address :: "pairing_info \<Rightarrow> ipv4 option" where
  "preferred_address info =
     (case find (\<lambda>a. is_private a \<or> is_link_local a) (pi_addresses info) of
        Some a \<Rightarrow> Some a
      | None \<Rightarrow> (case pi_addresses info of [] \<Rightarrow> None | a # _ \<Rightarrow> Some a))"

section \<open>The frame header\<close>

record header =
  kind :: u8
  flags :: u16
  sequence :: u32
  payload_len :: u32
  pts_us :: u64

definition magic :: bytes where
  "magic = as_bytes (lit ''AMB1'')"

definition validate_payload_size :: "header \<Rightarrow> error + unit" where
  "validate_payload_size h =
     (let len = unat (payload_len h); k = kind h;
          valid =
            (if k = CLIENT_CHALLENGE then len = 2 + PHONE_BINDING_BYTES + NONCE_BYTES
             else if k = CLIENT_AUTH
               then CLIENT_AUTH_MIN_BYTES \<le> len \<and> len \<le> CLIENT_AUTH_MAX_BYTES
             else if k = CLIENT_AUTH_RESULT then len = 6
             else if k = PAIRING_INFO then pairing_fits len
             else if k = QUALITY_CAPABILITIES then 1 \<le> len \<and> len \<le> MAX_CONTROL_PAYLOAD
             else if k = PREPARE_QUALITY \<or> k = QUALITY_RESULT then len = 14
             else if k = PAUSED \<or> k = COMMIT_QUALITY \<or> k = PING \<or> k = PONG then len = 8
             else if k = HOST_HELLO then len = 0
             else if k = VIDEO_CONFIG then len = 16
             else if k = IDR_REQUEST \<or> k = HELLO_ACK then len = 0
             else if k = HELLO then len = 0 \<or> len = 16
             else True)
      in if \<not> valid then Inl (invalid ''invalid type-specific AMB1 payload length'')
         else Inr ())"

definition header_decode :: "bytes \<Rightarrow> error + header" where
  "header_decode bs =
     (if length bs \<noteq> HEADER_SIZE \<or> take 4 bs \<noteq> magic \<or> bs ! 4 \<noteq> 1
      then Inl (Io InvalidData ''invalid AMB1 header'')
      else let h = \<lparr>kind = bs ! 5, flags = of_le16 (slice 6 8 bs),
                    sequence = of_le32 (slice 8 12 bs), payload_len = of_le32 (slice 12 16 bs),
                    pts_us = of_le64 (slice 16 24 bs)\<rparr>
           in if unat (payload_len h) > MAX_PAYLOAD
              then Inl (Io InvalidData ''AMB1 payload exceeds 16 MiB'')
              else try_r (validate_payload_size h) (\<lambda>_. Inr h))"

definition header_encode :: "header \<Rightarrow> error + bytes" where
  "header_encode h =
     (if unat (payload_len h) > MAX_PAYLOAD
      then Inl (Io InvalidInput ''AMB1 payload exceeds 16 MiB'')
      else try_r (validate_payload_size h) (\<lambda>_.
             Inr (magic @ [1, kind h] @ le16 (flags h) @ le32 (sequence h)
                  @ le32 (payload_len h) @ le64 (pts_us h))))"

record frame =
  fr_header :: header
  fr_payload :: bytes

definition frame_new :: "u8 \<Rightarrow> u32 \<Rightarrow> bytes \<Rightarrow> error + frame" where
  "frame_new k s payload =
     (if length payload \<ge> 2 ^ 32 then Inl (Io InvalidInput ''payload overflow'')
      else let h = \<lparr>kind = k, flags = 0, sequence = s, payload_len = of_nat (length payload),
                    pts_us = 0\<rparr>
           in try_r (header_encode h) (\<lambda>_. Inr \<lparr>fr_header = h, fr_payload = payload\<rparr>))"

definition frame_validate :: "frame \<Rightarrow> error + unit" where
  "frame_validate f =
     try_r (header_encode (fr_header f)) (\<lambda>_.
       if length (fr_payload f) \<noteq> unat (payload_len (fr_header f))
       then Inl (Io InvalidInput ''payload length mismatch'') else Inr ())"

lemma length_magic [simp]: "length magic = 4"
  by (simp add: magic_def as_bytes_def utf8_def utf8_char_def chr_def)

lemma header_encode_length: "header_encode h = Inr bs \<Longrightarrow> length bs = 24"
  by (auto simp: header_encode_def try_r_Inr_iff split: if_splits)

interpretation header_codec: canonical_codec "\<lambda>_. True" header_encode header_decode
proof unfold_locales
  fix h bs assume e: "header_encode h = Inr bs"
  then have v: "unat (payload_len h) \<le> MAX_PAYLOAD" "validate_payload_size h = Inr ()"
    and bs: "bs = magic @ [1, kind h] @ le16 (flags h) @ le32 (sequence h)
                  @ le32 (payload_len h) @ le64 (pts_us h)"
    by (auto simp: header_encode_def try_r_Inr_iff split: if_splits)
  have h: "\<lparr>kind = bs ! 5, flags = of_le16 (slice 6 8 bs), sequence = of_le32 (slice 8 12 bs),
      payload_len = of_le32 (slice 12 16 bs), pts_us = of_le64 (slice 16 24 bs)\<rparr> = h"
    unfolding bs by (simp add: byte_simps nth_append)
  have "length bs = 24" "take 4 bs = magic" "bs ! 4 = 1" unfolding bs by (simp_all add: nth_append)
  then show "header_decode bs = Inr h"
    using v by (simp add: header_decode_def h wire_consts)
next
  fix bs h assume "header_decode bs = Inr h"
  then have l: "length bs = 24" "take 4 bs = magic" "bs ! 4 = 1"
    and h: "h = \<lparr>kind = bs ! 5, flags = of_le16 (slice 6 8 bs), sequence = of_le32 (slice 8 12 bs),
      payload_len = of_le32 (slice 12 16 bs), pts_us = of_le64 (slice 16 24 bs)\<rparr>"
    and v: "unat (payload_len h) \<le> MAX_PAYLOAD" "validate_payload_size h = Inr ()"
    by (auto simp: header_decode_def wire_consts Let_def try_r_Inr_iff split: if_splits)
  have "bs = take 4 bs @ [bs ! 4] @ [bs ! 5] @ slice 6 8 bs @ slice 8 12 bs @ slice 12 16 bs
      @ slice 16 24 bs"
  proof -
    have "drop 16 bs = slice 16 24 bs" using l by (simp add: slice_to_end)
    moreover have "drop 12 bs = slice 12 16 bs @ drop 16 bs" by (simp add: slice_drop)
    moreover have "drop 8 bs = slice 8 12 bs @ drop 12 bs" by (simp add: slice_drop)
    moreover have "drop 6 bs = slice 6 8 bs @ drop 8 bs" by (simp add: slice_drop)
    moreover have "drop 5 bs = [bs ! 5] @ drop 6 bs"
      using slice_drop[of 5 6 bs] slice_single[of 5 bs] l by simp
    moreover have "drop 4 bs = [bs ! 4] @ drop 5 bs"
      using slice_drop[of 4 5 bs] slice_single[of 4 bs] l by simp
    ultimately show ?thesis by (metis append_take_drop_id)
  qed
  then show "header_encode h = Inr bs"
    using l v h by (simp add: header_encode_def byte_simps)
qed simp

section \<open>Properties\<close>

text \<open>
  C6. The frame header is a canonical encoding: a 24-byte string decodes to a header exactly if
  that header encodes to the very same bytes. No header that the encoder writes is refused by
  the decoder, and no two byte strings decode to the same header.
\<close>

theorem header_canonical: "header_decode bs = Inr h \<longleftrightarrow> header_encode h = Inr bs"
  using header_codec.dec_iff by simp

text \<open>
  The announced payload length is bounded before anything is allocated: an accepted header
  announces at most 16 MiB, and a header of any control type (0x01 to 0x0e) announces at most
  16 KiB.
\<close>

theorem header_bounds_allocation:
  assumes "header_decode bs = Inr h"
  shows "unat (payload_len h) \<le> 16 * 1024 * 1024
    \<and> (kind h \<in> {HELLO, HELLO_ACK, PING, PONG, QUALITY_CAPABILITIES, PREPARE_QUALITY,
          QUALITY_RESULT, PAUSED, COMMIT_QUALITY, CLIENT_CHALLENGE, CLIENT_AUTH,
          CLIENT_AUTH_RESULT, PAIRING_INFO, HOST_HELLO, VIDEO_CONFIG, IDR_REQUEST}
        \<longrightarrow> unat (payload_len h) \<le> 16 * 1024)"
proof -
  have v: "unat (payload_len h) \<le> MAX_PAYLOAD" "validate_payload_size h = Inr ()"
    using assms by (auto simp: header_decode_def Let_def try_r_Inr_iff split: if_splits)
  show ?thesis
  proof (intro conjI impI)
    show "unat (payload_len h) \<le> 16 * 1024 * 1024" using v by (simp add: MAX_PAYLOAD_def)
  next
    assume "kind h \<in> {HELLO, HELLO_ACK, PING, PONG, QUALITY_CAPABILITIES, PREPARE_QUALITY,
          QUALITY_RESULT, PAUSED, COMMIT_QUALITY, CLIENT_CHALLENGE, CLIENT_AUTH,
          CLIENT_AUTH_RESULT, PAIRING_INFO, HOST_HELLO, VIDEO_CONFIG, IDR_REQUEST}"
    then show "unat (payload_len h) \<le> 16 * 1024"
      using v(2) by (auto simp: validate_payload_size_def wire_consts Let_def pairing_fits_def
          split: if_splits)
  qed
qed

lemma header_bounds_allocation_witness:
  "header_decode [65,77,66,49, 1,3, 0,0, 7,0,0,0, 8,0,0,0, 0,0,0,0,0,0,0,0]
     = Inr \<lparr>kind = PING, flags = 0, sequence = 7, payload_len = 8, pts_us = 0\<rparr>
   \<and> unat (payload_len \<lparr>kind = PING, flags = 0, sequence = 7, payload_len = 8, pts_us = 0\<rparr>)
       \<le> 16 * 1024"
proof -
  have d: "header_decode [65,77,66,49, 1,3, 0,0, 7,0,0,0, 8,0,0,0, 0,0,0,0,0,0,0,0]
     = Inr \<lparr>kind = PING, flags = 0, sequence = 7, payload_len = 8, pts_us = 0\<rparr>"
    by (simp add: header_decode_def wire_consts slice_def of_le16_def of_le32_def of_le64_def
        magic_def as_bytes_def utf8_def utf8_char_def chr_def validate_payload_size_def)
  show ?thesis
    by (intro conjI d conjunct2[OF header_bounds_allocation[OF d], THEN mp]) simp
qed

text \<open>
  A frame built by \<open>Frame::new\<close> is always sendable: it validates, its header encodes to 24
  bytes, and the receiver's decoder reads back the same header, whose announced length is the
  payload's length.
\<close>

theorem frame_new_sendable:
  assumes "frame_new k s payload = Inr f"
  shows "frame_validate f = Inr ()
    \<and> (\<exists>hb. header_encode (fr_header f) = Inr hb \<and> length hb = 24
          \<and> header_decode hb = Inr (fr_header f))
    \<and> fr_payload f = payload \<and> kind (fr_header f) = k \<and> sequence (fr_header f) = s
    \<and> unat (payload_len (fr_header f)) = length payload"
proof -
  from assms obtain hb where l: "length payload < 2 ^ 32"
    and h: "fr_header f = \<lparr>kind = k, flags = 0, sequence = s,
              payload_len = of_nat (length payload), pts_us = 0\<rparr>"
    and p: "fr_payload f = payload" and e: "header_encode (fr_header f) = Inr hb"
    by (auto simp: frame_new_def Let_def try_r_Inr_iff split: if_splits)
  have n: "unat (payload_len (fr_header f)) = length payload"
    using l h by (simp add: unat_of_nat)
  show ?thesis
    using e n p h header_encode_length[OF e] header_codec.dec_iff[of hb "fr_header f"]
    by (simp add: frame_validate_def)
qed

lemma frame_new_sendable_witness:
  "frame_new IDR_REQUEST 2 [] = Inr \<lparr>fr_header = \<lparr>kind = IDR_REQUEST, flags = 0, sequence = 2,
       payload_len = 0, pts_us = 0\<rparr>, fr_payload = []\<rparr>
   \<and> frame_validate \<lparr>fr_header = \<lparr>kind = IDR_REQUEST, flags = 0, sequence = 2,
       payload_len = 0, pts_us = 0\<rparr>, fr_payload = []\<rparr> = Inr ()"
proof -
  have n: "frame_new IDR_REQUEST 2 [] = Inr \<lparr>fr_header = \<lparr>kind = IDR_REQUEST, flags = 0,
       sequence = 2, payload_len = 0, pts_us = 0\<rparr>, fr_payload = []\<rparr>"
    by (simp add: frame_new_def header_encode_def wire_consts validate_payload_size_def)
  show ?thesis by (intro conjI n conjunct1[OF frame_new_sendable[OF n]])
qed

text \<open>
  A capability list survives the wire: what the decoder accepts has exactly the length its
  mode count promises, stays within 256 modes and the 16 KiB control limit, and re-encodes to
  a payload that decodes to the same list. (Only the reserved field of a mode may differ.)
\<close>

theorem caps_decode_sound:
  assumes "caps_decode bs = Inr c"
  shows "length bs = 10 + 12 * length (modes c) \<and> length (modes c) \<le> 256
    \<and> length bs \<le> MAX_CONTROL_PAYLOAD
    \<and> (\<exists>bs'. caps_encode c = Inr bs' \<and> length bs' = length bs \<and> caps_decode bs' = Inr c)"
proof -
  have l: "length bs = 10 + 12 * length (modes c)" "length (modes c) \<le> 256"
    using assms by (auto simp: caps_decode_Inr_iff length_decode_modes)
  obtain bs' where b: "caps_encode c = Inr bs'" "caps_decode bs' = Inr c"
    using caps_codec.reencode[OF assms] by blast
  have "length bs' = length bs"
    using b(1) l by (auto simp: caps_encode_Inr_iff length_concat_encode_mode)
  then show ?thesis using l b by (auto simp: MAX_CONTROL_PAYLOAD_def)
qed

lemma caps_decode_sound_witness:
  "\<exists>c. caps_decode [1,0, 7,0, 42,0,0,0, 1,0, 0,5, 208,2, 30,0, 9,9, 128,141,91,0] = Inr c
     \<and> length (modes c) \<le> 256"
proof -
  have "isl (caps_decode [1,0, 7,0, 42,0,0,0, 1,0, 0,5, 208,2, 30,0, 9,9, 128,141,91,0]) = False"
    by (simp add: caps_decode_def need_def wire_consts slice_def of_le16_def)
  then obtain c where
    c: "caps_decode [1,0, 7,0, 42,0,0,0, 1,0, 0,5, 208,2, 30,0, 9,9, 128,141,91,0] = Inr c"
    using not_isl_Inr by blast
  show ?thesis using caps_decode_sound[OF c] c by blast
qed

text \<open>
  The proof frame is a canonical encoding, labels included: a payload decodes to a client
  proof exactly if the proof's label is made of scalar values and the proof encodes to the same
  payload (so strict UTF-8, the counted length and the point tag leave no second spelling).
\<close>

theorem client_auth_canonical:
  "client_auth_decode gc bs = Inr a \<longleftrightarrow> client_auth_wf a \<and> client_auth_encode gc a = Inr bs"
  by (rule client_auth_codec.dec_iff)

lemma str_len_as_bytes_inj:
  "list_all is_scalar a \<Longrightarrow> list_all is_scalar b \<Longrightarrow> as_bytes a = as_bytes b \<Longrightarrow> a = b"
  by (metis from_utf8_as_bytes list_all_iff option.inject)

text \<open>
  C7. The signed transcript is unambiguous: two authorization messages are equal only if they
  agree on the transport, the phone binding, the nonce, the public point and the label. A
  signature over one can never be presented for other values of any of them.
\<close>

theorem transcript_injective:
  assumes "client_auth_message gc t b n k l = Inr m"
    and "client_auth_message gc t' b' n' k' l' = Inr m"
    and "list_all is_scalar l" and "list_all is_scalar l'"
  shows "t = t' \<and> b = b' \<and> n = n' \<and> k = k' \<and> l = l'"
proof -
  have v: "length b = 32" "length n = 32" "length k = 65"
    and m: "m = transcript_domain @ [t] @ b @ n @ k @ [of_nat (str_len l)] @ as_bytes l"
    using assms(1) by (auto simp: client_auth_message_def valid_phone_binding_def wire_consts
        split: if_splits)
  have v': "length b' = 32" "length n' = 32" "length k' = 65"
    and m': "m = transcript_domain @ [t'] @ b' @ n' @ k' @ [of_nat (str_len l')] @ as_bytes l'"
    using assms(2) by (auto simp: client_auth_message_def valid_phone_binding_def wire_consts
        split: if_splits)
  have "t = t' \<and> b = b' \<and> n = n' \<and> k = k' \<and> as_bytes l = as_bytes l'"
    using m m' v v' by auto
  then show ?thesis using assms(3,4) str_len_as_bytes_inj by blast
qed

lemma transcript_injective_witness:
  "\<exists>m. client_auth_message (\<lambda>_. GcOther) AUTH_USB (replicate 32 0) (replicate 32 7)
          (4 # replicate 64 9) (lit ''pc'') = Inr m
     \<and> (\<forall>l. list_all is_scalar l \<and> client_auth_message (\<lambda>_. GcOther) AUTH_USB (replicate 32 0)
            (replicate 32 7) (4 # replicate 64 9) l = Inr m \<longrightarrow> l = lit ''pc'')"
proof -
  have "isl (client_auth_message (\<lambda>_. GcOther) AUTH_USB (replicate 32 0) (replicate 32 7)
          (4 # replicate 64 9) (lit ''pc'')) = False"
    by (simp add: client_auth_message_def wire_consts valid_transport_def valid_phone_binding_def
        valid_label_def list_all_iff trim_def trim_start_def trim_end_def is_whitespace_def chr_def
        str_len_def utf8_def utf8_char_def)
  then obtain m where m: "client_auth_message (\<lambda>_. GcOther) AUTH_USB (replicate 32 0)
      (replicate 32 7) (4 # replicate 64 9) (lit ''pc'') = Inr m"
    using not_isl_Inr by blast
  have s: "list_all is_scalar (lit ''pc'')" by (simp add: is_scalar_def chr_def)
  show ?thesis using transcript_injective[OF m _ s] m by blast
qed

text \<open>
  A challenge the PC accepts names a transport and a binding that fit together: on USB the
  binding is 32 zero bytes, on the LAN it is 32 bytes that are not all zero; the nonce has 32
  bytes, and the frame is the only encoding of the challenge.
\<close>

theorem challenge_binding:
  assumes "challenge_decode bs = Inr c"
  shows "cc_version c = 2
    \<and> (cc_transport c = AUTH_USB \<and> cc_phone_binding c = replicate 32 0
       \<or> cc_transport c = AUTH_LAN \<and> length (cc_phone_binding c) = 32
           \<and> cc_phone_binding c \<noteq> replicate 32 0)
    \<and> length (cc_nonce c) = 32 \<and> challenge_encode c = Inr bs"
proof -
  have e: "challenge_encode c = Inr bs" using assms challenge_codec.dec_iff by blast
  then have v: "cc_version c = 2" "cc_transport c = AUTH_USB \<or> cc_transport c = AUTH_LAN"
      "valid_phone_binding (cc_transport c) (cc_phone_binding c)" "length (cc_nonce c) = 32"
    by (auto simp: challenge_encode_def valid_transport_def wire_consts split: if_splits)
  let ?b = "cc_phone_binding c"
  have l: "length ?b = 32" using v(3) by (simp add: valid_phone_binding_def wire_consts)
  have z: "list_all (\<lambda>b. b = 0) ?b \<longleftrightarrow> ?b = replicate 32 0"
  proof
    assume "list_all (\<lambda>b. b = 0) ?b"
    then show "?b = replicate 32 0" using l by (intro replicate_eqI) (auto simp: list_all_iff)
  next
    assume "?b = replicate 32 0"
    then have "set ?b \<subseteq> {0}" by (metis set_replicate_conv_if empty_subsetI subset_refl)
    then show "list_all (\<lambda>b. b = 0) ?b" by (auto simp: list_all_iff)
  qed
  have x: "list_ex (\<lambda>b. b \<noteq> 0) ?b \<longleftrightarrow> \<not> list_all (\<lambda>b. b = 0) ?b"
    by (auto simp: list_ex_iff list_all_iff)
  show ?thesis
  proof (cases "cc_transport c = AUTH_USB")
    case True
    then have "?b = replicate 32 0" using v(3) z by (simp add: valid_phone_binding_def)
    then show ?thesis using True v e by blast
  next
    case False
    then have "?b \<noteq> replicate 32 0" using v(3) z x by (simp add: valid_phone_binding_def)
    then show ?thesis using False v e l by blast
  qed
qed

lemma challenge_binding_witness:
  "\<exists>c. challenge_decode ([2, 0] @ replicate 32 0 @ replicate 32 7) = Inr c
     \<and> cc_phone_binding c = replicate 32 0"
proof -
  have t: "\<exists>c. challenge_decode ([2, 0] @ replicate 32 0 @ replicate 32 7) = Inr c
      \<and> cc_transport c = 0"
    by (simp add: challenge_decode_def wire_consts valid_transport_def valid_phone_binding_def
        slice_def list_all_iff)
  then obtain c where c: "challenge_decode ([2, 0] @ replicate 32 0 @ replicate 32 7) = Inr c"
      "cc_transport c = 0" by blast
  show ?thesis using challenge_binding[OF c(1)] c by auto
qed

text \<open>
  The header's length rule for pairing frames and the decoder agree: the rule accepts exactly
  the lengths of one to four addresses, and whatever the decoder accepts the rule had accepted,
  with that many addresses, a 64-digit fingerprint and a 32-digit key, all digits hexadecimal.
\<close>

theorem pairing_length_rule:
  "(pairing_fits len \<longleftrightarrow> len \<in> {54, 58, 62, 66})
   \<and> (case pairing_decode bs of
        Inl _ \<Rightarrow> True
      | Inr info \<Rightarrow> pairing_fits (length bs)
          \<and> length bs = 50 + 4 * length (pi_addresses info)
          \<and> length (pi_fingerprint info) = 64 \<and> length (pi_key info) = 32
          \<and> set (pi_fingerprint info) \<union> set (pi_key info) \<subseteq> Collect is_ascii_hexdigit)"
proof (intro conjI)
  show "pairing_fits len \<longleftrightarrow> len \<in> {54, 58, 62, 66}" by (rule pairing_fits_iff)
  show "case pairing_decode bs of
        Inl _ \<Rightarrow> True
      | Inr info \<Rightarrow> pairing_fits (length bs)
          \<and> length bs = 50 + 4 * length (pi_addresses info)
          \<and> length (pi_fingerprint info) = 64 \<and> length (pi_key info) = 32
          \<and> set (pi_fingerprint info) \<union> set (pi_key info) \<subseteq> Collect is_ascii_hexdigit"
  proof (cases "pairing_decode bs")
    case (Inr info)
    then have "unat (bs ! 1) \<in> {1, 2, 3, 4}" and "length bs = 50 + unat (bs ! 1) * 4"
      and "info = \<lparr>pi_addresses = map (\<lambda>index. let a = 2 + index * 4
             in (bs ! a, bs ! (a + 1), bs ! (a + 2), bs ! (a + 3))) [0..<unat (bs ! 1)],
           pi_fingerprint = hex (slice (2 + unat (bs ! 1) * 4) (34 + unat (bs ! 1) * 4) bs),
           pi_key = hex (drop (34 + unat (bs ! 1) * 4) bs)\<rparr>"
      by (auto simp: pairing_decode_def Let_def split: if_splits)
    then show ?thesis
      using Inr by (auto simp: byte_simps pairing_fits_iff dest: hex_hexdigits)
  qed simp
qed

text \<open>
  The preferred address is private or link-local whenever the phone sent such an address, it
  is the first of that kind, and it is missing only if the phone sent none at all.
\<close>

theorem preferred_address_private_first:
  "(case preferred_address info of
      None \<Rightarrow> pi_addresses info = []
    | Some a \<Rightarrow> a \<in> set (pi_addresses info)
        \<and> (is_private a \<or> is_link_local a
           \<or> list_all (\<lambda>x. \<not> is_private x \<and> \<not> is_link_local x) (pi_addresses info)
               \<and> a = hd (pi_addresses info)))"
proof (cases "find (\<lambda>a. is_private a \<or> is_link_local a) (pi_addresses info)")
  case None
  then have n: "list_all (\<lambda>x. \<not> is_private x \<and> \<not> is_link_local x) (pi_addresses info)"
    unfolding find_None_iff list_all_iff by blast
  show ?thesis
  proof (cases "pi_addresses info")
    case Nil
    then show ?thesis by (simp add: preferred_address_def)
  next
    case (Cons a as)
    have p: "preferred_address info = Some a"
      using None unfolding preferred_address_def Cons by (simp only: option.case list.case)
    have "a \<in> set (pi_addresses info)" and "a = hd (pi_addresses info)" using Cons by simp_all
    with n show ?thesis unfolding p option.case by blast
  qed
next
  case (Some a)
  then have "a \<in> set (pi_addresses info) \<and> (is_private a \<or> is_link_local a)"
    by (auto simp: find_Some_iff)
  moreover have p: "preferred_address info = Some a"
    unfolding preferred_address_def Some by (simp only: option.case)
  ultimately show ?thesis unfolding p option.case by blast
qed

end
