(* ===== verification/Client_Auth.thy ===== *)
theory Client_Auth
  imports Wire
begin

text \<open>
  The PC's half of the per-PC authorization, \<open>client_auth.rs\<close>. Time is a number of milliseconds
  and every poll of the transport is one element of a script: the clock before it, the stop flag,
  and what the poll gave. A run whose script is used up is still waiting (None). The identity's
  signing operation, the general category of a scalar value and the budget rule of \<open>io-budget\<close>
  (\<open>left now deadline\<close>: the time left, or an error) are parameters. The diagnostic trace is not
  modelled.
\<close>

section \<open>Routes and outcomes\<close>

datatype route = Usb | Lan bytes

definition route_transport :: "route \<Rightarrow> u8" where
  "route_transport r = (case r of Usb \<Rightarrow> AUTH_USB | Lan _ \<Rightarrow> AUTH_LAN)"

definition route_binding :: "route \<Rightarrow> bytes" where
  "route_binding r = (case r of Usb \<Rightarrow> replicate PHONE_BINDING_BYTES 0 | Lan sha \<Rightarrow> sha)"

datatype outcome = Authorized u32 | Rejected string

definition reason_text :: "u8 \<Rightarrow> string" where
  "reason_text reason =
     (if reason = AUTH_REASON_UNKNOWN then ''this PC is not known to the phone''
      else if reason = AUTH_REASON_REVOKED then ''this PC's access was revoked on the phone''
      else if reason = AUTH_REASON_EXPIRED then ''this PC's authorization expired on the phone''
      else if reason = AUTH_REASON_TOO_MANY then ''the phone already authorizes too many PCs''
      else if reason = AUTH_REASON_BAD_SIGNATURE then ''the phone rejected this PC's signature''
      else ''the phone rejected this PC'')"

text \<open>The first of three environment variables that holds a short printable name.\<close>

definition usable_label :: "ustr \<Rightarrow> bool" where
  "usable_label t \<longleftrightarrow> t \<noteq> [] \<and> str_len t \<le> MAX_CLIENT_LABEL \<and> list_all (\<lambda>b. 32 \<le> b \<and> b \<le> 126) (utf8 t)"

definition proposed_label :: "(string \<Rightarrow> ustr option) \<Rightarrow> ustr" where
  "proposed_label var =
     (case find (\<lambda>v. case var v of None \<Rightarrow> False | Some x \<Rightarrow> usable_label (trim x))
             [''HOSTNAME'', ''COMPUTERNAME'', ''USER''] of
        Some v \<Rightarrow> trim (the (var v))
      | None \<Rightarrow> lit ''this PC'')"

section \<open>The exchange\<close>

record poll =
  po_now :: nat
  po_stop :: bool
  po_result :: "error + frame option"

record identity =
  id_public_key :: bytes
  id_sign :: "bytes \<Rightarrow> error + bytes"

text \<open>What the surroundings do outside the polls.\<close>

record surroundings =
  su_start :: nat
  su_send_now :: nat
  su_send :: "error + unit"
  su_pending_now :: nat
  su_on_pending :: "error + unit"

datatype auth_action = Signed bytes | Sent frame nat | PendingNotified

type_synonym budget = "nat \<Rightarrow> nat \<Rightarrow> error + nat"

definition auth_stopped :: error where
  "auth_stopped = Io Interrupted ''authorization stopped''"

text \<open>\<open>receive_until\<close>: the frame or the error, with the rest of the script.\<close>

fun receive_frame :: "budget \<Rightarrow> nat \<Rightarrow> poll list \<Rightarrow> ((error + frame) \<times> poll list) option" where
  "receive_frame left deadline [] = None"
| "receive_frame left deadline (p # ps) =
     (if po_stop p then Some (Inl auth_stopped, ps)
      else case left (po_now p) deadline of
             Inl e \<Rightarrow> Some (Inl e, ps)
           | Inr _ \<Rightarrow>
               (case po_result p of
                  Inl e \<Rightarrow> Some (Inl e, ps)
                | Inr None \<Rightarrow> receive_frame left deadline ps
                | Inr (Some f) \<Rightarrow> Some (Inr f, ps)))"

lemma receive_frame_shorter: "receive_frame left d ps = Some (r, ps') \<Longrightarrow> length ps' < length ps"
proof (induction ps)
  case (Cons p ps)
  then show ?case by (auto split: if_splits sum.splits option.splits)
qed simp

text \<open>The loop over the phone's outcomes.\<close>

function await_outcome ::
  "budget \<Rightarrow> surroundings \<Rightarrow> nat \<Rightarrow> bool \<Rightarrow> poll list \<Rightarrow> auth_action list \<times> (error + outcome) option" where
  "await_outcome left su deadline pending ps =
     (case receive_frame left deadline ps of
        None \<Rightarrow> ([], None)
      | Some (Inl e, _) \<Rightarrow> ([], Some (Inl e))
      | Some (Inr f, ps') \<Rightarrow>
          if kind (fr_header f) \<noteq> CLIENT_AUTH_RESULT
          then ([], Some (Inl (Msg ''expected authorization outcome before capabilities/media'')))
          else case auth_result_decode (fr_payload f) of
                 Inl e \<Rightarrow> ([], Some (Inl e))
               | Inr r \<Rightarrow>
                   if car_status r = AUTH_AUTHORIZED then ([], Some (Inr (Authorized (car_expires r))))
                   else if car_status r = AUTH_REJECTED
                   then ([], Some (Inr (Rejected (reason_text (car_reason r)))))
                   else if car_status r = AUTH_PENDING \<and> \<not> pending
                   then (case su_on_pending su of
                           Inl e \<Rightarrow> ([PendingNotified], Some (Inl e))
                         | Inr _ \<Rightarrow>
                             let (acts, res) = await_outcome left su (su_pending_now su + 60000) True ps'
                             in (PendingNotified # acts, res))
                   else ([], Some (Inl (Msg ''repeated pending authorization outcome''))))"
  by pat_completeness auto
termination
  by (relation "measure (\<lambda>(_, _, _, _, ps). length ps)") (auto dest: receive_frame_shorter)

declare await_outcome.simps [simp del]

text \<open>The proof: checked against the route, signed, framed.\<close>

definition answer_challenge ::
  "(scalar \<Rightarrow> general_category) \<Rightarrow> identity \<Rightarrow> route \<Rightarrow> ustr \<Rightarrow> frame \<Rightarrow> auth_action list \<times> (error + frame)" where
  "answer_challenge gc ident route label f =
     (if kind (fr_header f) \<noteq> CLIENT_CHALLENGE
      then ([], Inl (Msg ''phone does not support required per-PC authorization v2''))
      else case challenge_decode (fr_payload f) of
             Inl e \<Rightarrow> ([], Inl e)
           | Inr c \<Rightarrow>
               if cc_transport c \<noteq> route_transport route
               then ([], Inl (Msg ''authorization transport binding mismatch''))
               else if cc_phone_binding c \<noteq> route_binding route
               then ([], Inl (Msg ''authorization phone certificate binding mismatch''))
               else case client_auth_message gc (route_transport route) (route_binding route)
                           (cc_nonce c) (id_public_key ident) label of
                      Inl e \<Rightarrow> ([], Inl e)
                    | Inr message \<Rightarrow>
                        ([Signed message],
                         try_r (id_sign ident message) (\<lambda>signature.
                         try_r (client_auth_encode gc
                             \<lparr>ca_version = CLIENT_AUTH_VERSION, ca_public_key = id_public_key ident,
                              ca_label = label, ca_signature = signature\<rparr>) (\<lambda>payload.
                           frame_new CLIENT_AUTH 0 payload))))"

definition exchange ::
  "(scalar \<Rightarrow> general_category) \<Rightarrow> budget \<Rightarrow> identity \<Rightarrow> route \<Rightarrow> ustr \<Rightarrow> nat \<Rightarrow> surroundings \<Rightarrow> poll list
    \<Rightarrow> auth_action list \<times> (error + outcome) option" where
  "exchange gc left ident route label timeout su ps =
     (let deadline = su_start su + timeout
      in case receive_frame left deadline ps of
           None \<Rightarrow> ([], None)
         | Some (Inl e, _) \<Rightarrow> ([], Some (Inl e))
         | Some (Inr f, ps') \<Rightarrow>
             (case answer_challenge gc ident route label f of
                (acts, Inl e) \<Rightarrow> (acts, Some (Inl e))
              | (acts, Inr pf) \<Rightarrow>
                  (case left (su_send_now su) deadline of
                     Inl e \<Rightarrow> (acts, Some (Inl e))
                   | Inr d \<Rightarrow>
                       let acts = acts @ [Sent pf (min d 2000)]
                       in case su_send su of
                            Inl e \<Rightarrow> (acts, Some (Inl e))
                          | Inr _ \<Rightarrow>
                              let (more, res) = await_outcome left su deadline False ps'
                              in (acts @ more, res))))"

section \<open>What the loops do\<close>

lemma receive_frame_Inr:
  "receive_frame left d ps = Some (Inr f, ps') \<Longrightarrow>
     \<exists>pre p. ps = pre @ p # ps' \<and> po_result p = Inr (Some f)
       \<and> list_all (\<lambda>q. po_result q = Inr None) pre
       \<and> list_all (\<lambda>q. \<not> po_stop q \<and> isl (left (po_now q) d) = False) (pre @ [p])"
proof (induction ps)
  case (Cons p ps)
  show ?case
  proof (cases "po_result p = Inr None")
    case True
    then have "receive_frame left d ps = Some (Inr f, ps')" and g: "\<not> po_stop p" "isl (left (po_now p) d) = False"
      using Cons.prems by (auto split: if_splits sum.splits)
    from Cons.IH[OF this(1)] obtain pre q where h: "ps = pre @ q # ps'" "po_result q = Inr (Some f)"
      "list_all (\<lambda>q. po_result q = Inr None) pre"
      "list_all (\<lambda>q. \<not> po_stop q \<and> isl (left (po_now q) d) = False) (pre @ [q])" by blast
    show ?thesis
      by (rule exI[of _ "p # pre"], rule exI[of _ q]) (use h g True in simp)
  next
    case False
    then have "po_result p = Inr (Some f)" "ps = ps'" "\<not> po_stop p" "isl (left (po_now p) d) = False"
      using Cons.prems by (auto split: if_splits sum.splits option.splits)
    then show ?thesis by (intro exI[of _ "[]"] exI[of _ p]) simp
  qed
qed simp


text \<open>A poll that delivered the phone's outcome with a given status.\<close>

definition delivers_outcome :: "poll \<Rightarrow> client_auth_result \<Rightarrow> bool" where
  "delivers_outcome p r \<longleftrightarrow>
     (case po_result p of
        Inr (Some f) \<Rightarrow> kind (fr_header f) = CLIENT_AUTH_RESULT \<and> auth_result_decode (fr_payload f) = Inr r
      | _ \<Rightarrow> False)"

definition idle_poll :: "poll \<Rightarrow> bool" where
  "idle_poll p \<longleftrightarrow> po_result p = Inr None"

definition in_budget :: "budget \<Rightarrow> nat \<Rightarrow> poll \<Rightarrow> bool" where
  "in_budget left d p \<longleftrightarrow> \<not> po_stop p \<and> isl (left (po_now p) d) = False"

lemma receive_frame_split:
  assumes "receive_frame left d ps = Some (Inr f, ps')"
  obtains pre p where "ps = pre @ p # ps'" "po_result p = Inr (Some f)" "list_all idle_poll pre"
    "list_all (in_budget left d) (pre @ [p])"
proof -
  obtain pre p where h: "ps = pre @ p # ps'" "po_result p = Inr (Some f)"
      "list_all (\<lambda>q. po_result q = Inr None) pre"
      "list_all (\<lambda>q. \<not> po_stop q \<and> isl (left (po_now q) d) = False) (pre @ [p])"
    using receive_frame_Inr[OF assms] by blast
  show ?thesis
  proof (rule that[of pre p])
    show "list_all idle_poll pre" using h(3) by (simp add: idle_poll_def list_all_iff)
    show "list_all (in_budget left d) (pre @ [p])" using h(4) by (simp add: in_budget_def list_all_iff)
  qed (use h in simp_all)
qed

text \<open>One turn of the loop, for every answer.\<close>

lemma await_turn:
  assumes "await_outcome left su d pending ps = (acts, Some (Inr out))"
  shows "\<exists>pre p ps' r. ps = pre @ p # ps' \<and> list_all idle_poll pre \<and> list_all (in_budget left d) (pre @ [p])
    \<and> delivers_outcome p r
    \<and> ((car_status r = AUTH_AUTHORIZED \<and> out = Authorized (car_expires r) \<and> acts = [])
       \<or> (car_status r = AUTH_REJECTED \<and> out = Rejected (reason_text (car_reason r)) \<and> acts = [])
       \<or> (car_status r = AUTH_PENDING \<and> \<not> pending \<and> su_on_pending su = Inr ()
          \<and> (\<exists>more. acts = PendingNotified # more
               \<and> await_outcome left su (su_pending_now su + 60000) True ps' = (more, Some (Inr out)))))"
proof -
  obtain f ps' where rf: "receive_frame left d ps = Some (Inr f, ps')"
    using assms by (auto simp: await_outcome.simps[of left su d pending ps] split: option.splits sum.splits)
  obtain pre p where h: "ps = pre @ p # ps'" "po_result p = Inr (Some f)" "list_all idle_poll pre"
    "list_all (in_budget left d) (pre @ [p])" by (rule receive_frame_split[OF rf])
  have k: "kind (fr_header f) = CLIENT_AUTH_RESULT"
    using assms rf by (auto simp: await_outcome.simps[of left su d pending ps] split: if_splits)
  obtain r where r: "auth_result_decode (fr_payload f) = Inr r"
    using assms rf k by (auto simp: await_outcome.simps[of left su d pending ps] split: sum.splits)
  have dv: "delivers_outcome p r" using h(2) k r by (simp add: delivers_outcome_def)
  have "(car_status r = AUTH_AUTHORIZED \<and> out = Authorized (car_expires r) \<and> acts = [])
       \<or> (car_status r = AUTH_REJECTED \<and> out = Rejected (reason_text (car_reason r)) \<and> acts = [])
       \<or> (car_status r = AUTH_PENDING \<and> \<not> pending \<and> su_on_pending su = Inr ()
          \<and> (\<exists>more. acts = PendingNotified # more
               \<and> await_outcome left su (su_pending_now su + 60000) True ps' = (more, Some (Inr out))))"
    using assms rf k r
    by (auto simp: await_outcome.simps[of left su d pending ps] split: if_splits sum.splits prod.splits)
  then show ?thesis using h dv by blast
qed

text \<open>The whole loop: at most one pending outcome, then the final one.\<close>

lemma await_final:
  assumes "await_outcome left su d False ps = (acts, Some (Inr out))"
  shows "\<exists>mid p post r. ps = mid @ p # post \<and> delivers_outcome p r
    \<and> ((car_status r = AUTH_AUTHORIZED \<and> out = Authorized (car_expires r))
       \<or> (car_status r = AUTH_REJECTED \<and> out = Rejected (reason_text (car_reason r))))
    \<and> ((acts = [] \<and> list_all idle_poll mid \<and> list_all (in_budget left d) (mid @ [p]))
       \<or> (\<exists>m1 q m2 r'. acts = [PendingNotified] \<and> mid = m1 @ q # m2 \<and> list_all idle_poll (m1 @ m2)
            \<and> delivers_outcome q r' \<and> car_status r' = AUTH_PENDING
            \<and> list_all (in_budget left d) (m1 @ [q])
            \<and> list_all (in_budget left (su_pending_now su + 60000)) (m2 @ [p])))"
proof -
  obtain pre p ps' r where a: "ps = pre @ p # ps'" "list_all idle_poll pre"
    "list_all (in_budget left d) (pre @ [p])" "delivers_outcome p r"
    "(car_status r = AUTH_AUTHORIZED \<and> out = Authorized (car_expires r) \<and> acts = [])
       \<or> (car_status r = AUTH_REJECTED \<and> out = Rejected (reason_text (car_reason r)) \<and> acts = [])
       \<or> (car_status r = AUTH_PENDING \<and> su_on_pending su = Inr ()
          \<and> (\<exists>more. acts = PendingNotified # more
               \<and> await_outcome left su (su_pending_now su + 60000) True ps' = (more, Some (Inr out))))"
    using await_turn[OF assms] by blast
  show ?thesis
  proof (cases "acts = []")
    case True
    then show ?thesis using a by (intro exI[of _ pre] exI[of _ p] exI[of _ ps'] exI[of _ r]) auto
  next
    case False
    then obtain more where m: "car_status r = AUTH_PENDING" "acts = PendingNotified # more"
      "await_outcome left su (su_pending_now su + 60000) True ps' = (more, Some (Inr out))" using a(5) by blast
    obtain pre2 q post r2 where b: "ps' = pre2 @ q # post" "list_all idle_poll pre2"
      "list_all (in_budget left (su_pending_now su + 60000)) (pre2 @ [q])" "delivers_outcome q r2"
      "(car_status r2 = AUTH_AUTHORIZED \<and> out = Authorized (car_expires r2) \<and> more = [])
       \<or> (car_status r2 = AUTH_REJECTED \<and> out = Rejected (reason_text (car_reason r2)) \<and> more = [])"
      using await_turn[OF m(3)] by blast
    have "ps = (pre @ p # pre2) @ q # post" using a(1) b(1) by simp
    moreover have "acts = [PendingNotified]" using m(2) b(5) by auto
    moreover have "list_all idle_poll (pre @ pre2)" using a(2) b(2) by simp
    ultimately show ?thesis using m(1) a(3,4) b(3-5) by blast
  qed
qed

lemma answer_challenge_Inr:
  assumes "answer_challenge gc ident route label f = (acts, Inr pf)" and label: "list_all is_scalar label"
  shows "kind (fr_header f) = CLIENT_CHALLENGE \<and> (\<exists>c m sig. challenge_decode (fr_payload f) = Inr c
    \<and> cc_transport c = route_transport route \<and> cc_phone_binding c = route_binding route
    \<and> client_auth_message gc (route_transport route) (route_binding route) (cc_nonce c)
        (id_public_key ident) label = Inr m
    \<and> id_sign ident m = Inr sig \<and> acts = [Signed m]
    \<and> client_auth_decode gc (fr_payload pf)
        = Inr \<lparr>ca_version = CLIENT_AUTH_VERSION, ca_public_key = id_public_key ident,
               ca_label = label, ca_signature = sig\<rparr>)"
proof -
  obtain c m sig payload where a: "kind (fr_header f) = CLIENT_CHALLENGE" "challenge_decode (fr_payload f) = Inr c"
    "cc_transport c = route_transport route" "cc_phone_binding c = route_binding route"
    "client_auth_message gc (route_transport route) (route_binding route) (cc_nonce c)
        (id_public_key ident) label = Inr m"
    "id_sign ident m = Inr sig" "acts = [Signed m]"
    "client_auth_encode gc \<lparr>ca_version = CLIENT_AUTH_VERSION, ca_public_key = id_public_key ident,
               ca_label = label, ca_signature = sig\<rparr> = Inr payload"
    "frame_new CLIENT_AUTH 0 payload = Inr pf"
    using assms(1) by (auto simp: answer_challenge_def try_r_Inr_iff split: if_splits sum.splits)
  have "fr_payload pf = payload"
    using a(9) by (auto simp: frame_new_def Let_def try_r_Inr_iff split: if_splits)
  moreover have "client_auth_decode gc payload = Inr \<lparr>ca_version = CLIENT_AUTH_VERSION,
      ca_public_key = id_public_key ident, ca_label = label, ca_signature = sig\<rparr>"
    using a(8) label client_auth_codec.dec_iff by (simp add: client_auth_wf_def)
  ultimately show ?thesis using a by blast
qed

lemma exchange_Inr:
  assumes "exchange gc left ident route label timeout su ps = (acts, Some (Inr out))"
  shows "\<exists>pre p ps' f acts1 pf d more. ps = pre @ p # ps' \<and> po_result p = Inr (Some f)
    \<and> list_all idle_poll pre \<and> list_all (in_budget left (su_start su + timeout)) (pre @ [p])
    \<and> answer_challenge gc ident route label f = (acts1, Inr pf)
    \<and> left (su_send_now su) (su_start su + timeout) = Inr d \<and> su_send su = Inr ()
    \<and> acts = acts1 @ Sent pf (min d 2000) # more
    \<and> await_outcome left su (su_start su + timeout) False ps' = (more, Some (Inr out))"
proof -
  obtain f ps' where rf: "receive_frame left (su_start su + timeout) ps = Some (Inr f, ps')"
    using assms by (auto simp: exchange_def Let_def split: option.splits sum.splits)
  obtain pre p where h: "ps = pre @ p # ps'" "po_result p = Inr (Some f)" "list_all idle_poll pre"
    "list_all (in_budget left (su_start su + timeout)) (pre @ [p])" by (rule receive_frame_split[OF rf])
  obtain acts1 pf d more where "answer_challenge gc ident route label f = (acts1, Inr pf)"
    "left (su_send_now su) (su_start su + timeout) = Inr d" "su_send su = Inr ()"
    "acts = acts1 @ Sent pf (min d 2000) # more"
    "await_outcome left su (su_start su + timeout) False ps' = (more, Some (Inr out))"
    using assms rf by (auto simp: exchange_def Let_def split: sum.splits prod.splits)
  then show ?thesis using h by blast
qed


lemma delivers_valid: "delivers_outcome p r \<Longrightarrow> auth_result_valid r"
  by (auto simp: delivers_outcome_def auth_result_decode_def auth_result_validate_def Let_def try_r_Inr_iff
      split: sum.splits option.splits if_splits)

lemma await_actions: "set (fst (await_outcome left su d pending ps)) \<subseteq> {PendingNotified}"
proof (induction left su d pending ps rule: await_outcome.induct)
  case (1 left su d pending ps)
  then show ?case
    by (subst await_outcome.simps) (auto split: option.split sum.split prod.split, blast)
qed

text \<open>The message an answer to a challenge frame signs.\<close>

definition signed_for ::
  "(scalar \<Rightarrow> general_category) \<Rightarrow> identity \<Rightarrow> route \<Rightarrow> ustr \<Rightarrow> frame \<Rightarrow> bytes \<Rightarrow> bool" where
  "signed_for gc ident route label f m \<longleftrightarrow> kind (fr_header f) = CLIENT_CHALLENGE
     \<and> (\<exists>c. challenge_decode (fr_payload f) = Inr c
         \<and> cc_transport c = route_transport route \<and> cc_phone_binding c = route_binding route
         \<and> client_auth_message gc (route_transport route) (route_binding route) (cc_nonce c)
             (id_public_key ident) label = Inr m)"

lemma answer_challenge_actions:
  "answer_challenge gc ident route label f = (acts, res) \<Longrightarrow>
     (acts = [] \<and> isl res) \<or> (\<exists>m. acts = [Signed m] \<and> signed_for gc ident route label f m)"
  unfolding answer_challenge_def signed_for_def by (auto split: if_splits sum.splits)

lemma exchange_actions:
  assumes "exchange gc left ident route label timeout su ps = (acts, res)"
  shows "acts = [] \<or> (\<exists>pre p post f m rest.
    ps = pre @ p # post \<and> list_all idle_poll pre \<and> list_all (\<lambda>q. \<not> po_stop q) (pre @ [p])
    \<and> po_result p = Inr (Some f)
    \<and> signed_for gc ident route label f m \<and> acts = Signed m # rest
    \<and> (rest = [] \<or> (\<exists>pf t more. rest = Sent pf t # more \<and> set more \<subseteq> {PendingNotified})))"
proof (cases "\<exists>f ps'. receive_frame left (su_start su + timeout) ps = Some (Inr f, ps')")
  case False
  then have "acts = []" using assms by (auto simp: exchange_def Let_def split: option.splits sum.splits)
  then show ?thesis by simp
next
  case True
  then obtain f ps' where rf: "receive_frame left (su_start su + timeout) ps = Some (Inr f, ps')" by blast
  obtain pre p where h: "ps = pre @ p # ps'" "po_result p = Inr (Some f)" "list_all idle_poll pre"
    "list_all (in_budget left (su_start su + timeout)) (pre @ [p])" by (rule receive_frame_split[OF rf])
  have st: "list_all (\<lambda>q. \<not> po_stop q) (pre @ [p])" using h(4) by (auto simp: in_budget_def list_all_iff)
  obtain acts1 r1 where ac: "answer_challenge gc ident route label f = (acts1, r1)" by fastforce
  have "acts = acts1 \<or> (\<not> isl r1 \<and> (\<exists>pf t more. acts = acts1 @ Sent pf t # more \<and> set more \<subseteq> {PendingNotified}))"
    using assms rf ac await_actions[of left su "su_start su + timeout" False ps']
    by (auto simp: exchange_def Let_def split: sum.splits prod.splits)
  then show ?thesis using answer_challenge_actions[OF ac] h(1-3) st by fastforce
qed

section \<open>Properties\<close>

text \<open>
  C2. The PC believes it is authorized only on the phone's word: an exchange that ends authorized
  received first a challenge for this very route (transport and certificate binding), answered it
  with exactly one proof, signed over the transcript of that challenge and decodable by the phone
  to this PC's point, label and signature, and then received, with no other frame in between but
  at most one pending outcome, an outcome frame that says authorized, with that (non-zero) expiry.
\<close>

theorem authorized_only_by_outcome:
  assumes "exchange gc left ident route label timeout su ps = (acts, Some (Inr (Authorized expires)))"
    and "list_all is_scalar label"
  shows "\<exists>pre pc mid pr post fc c m sig pf t more r.
    ps = pre @ pc # mid @ pr # post \<and> list_all idle_poll pre \<and> po_result pc = Inr (Some fc)
    \<and> kind (fr_header fc) = CLIENT_CHALLENGE \<and> challenge_decode (fr_payload fc) = Inr c
    \<and> cc_transport c = route_transport route \<and> cc_phone_binding c = route_binding route
    \<and> client_auth_message gc (route_transport route) (route_binding route) (cc_nonce c)
        (id_public_key ident) label = Inr m
    \<and> id_sign ident m = Inr sig
    \<and> client_auth_decode gc (fr_payload pf) = Inr \<lparr>ca_version = CLIENT_AUTH_VERSION,
        ca_public_key = id_public_key ident, ca_label = label, ca_signature = sig\<rparr>
    \<and> acts = Signed m # Sent pf t # more \<and> t \<le> 2000
    \<and> (more = [] \<and> list_all idle_poll mid
       \<or> more = [PendingNotified] \<and> (\<exists>m1 q m2 r'. mid = m1 @ q # m2 \<and> list_all idle_poll (m1 @ m2)
            \<and> delivers_outcome q r' \<and> car_status r' = AUTH_PENDING))
    \<and> delivers_outcome pr r \<and> car_status r = AUTH_AUTHORIZED \<and> car_expires r = expires \<and> 0 < expires"
proof -
  obtain pre pc ps' fc acts1 pf d more where e: "ps = pre @ pc # ps'" "po_result pc = Inr (Some fc)"
    "list_all idle_poll pre" "answer_challenge gc ident route label fc = (acts1, Inr pf)"
    "acts = acts1 @ Sent pf (min d 2000) # more"
    "await_outcome left su (su_start su + timeout) False ps' = (more, Some (Inr (Authorized expires)))"
    using exchange_Inr[OF assms(1)] by blast
  obtain c m sig where a: "kind (fr_header fc) = CLIENT_CHALLENGE" "challenge_decode (fr_payload fc) = Inr c"
    "cc_transport c = route_transport route" "cc_phone_binding c = route_binding route"
    "client_auth_message gc (route_transport route) (route_binding route) (cc_nonce c)
        (id_public_key ident) label = Inr m"
    "id_sign ident m = Inr sig" "acts1 = [Signed m]"
    "client_auth_decode gc (fr_payload pf) = Inr \<lparr>ca_version = CLIENT_AUTH_VERSION,
        ca_public_key = id_public_key ident, ca_label = label, ca_signature = sig\<rparr>"
    using answer_challenge_Inr[OF e(4) assms(2)] by blast
  obtain mid pr post r where f: "ps' = mid @ pr # post" "delivers_outcome pr r"
    and st: "(car_status r = AUTH_AUTHORIZED \<and> Authorized expires = Authorized (car_expires r))
       \<or> (car_status r = AUTH_REJECTED \<and> Authorized expires = Rejected (reason_text (car_reason r)))"
    and mo: "more = [] \<and> list_all idle_poll mid
       \<or> more = [PendingNotified] \<and> (\<exists>m1 q m2 r'. mid = m1 @ q # m2 \<and> list_all idle_poll (m1 @ m2)
            \<and> delivers_outcome q r' \<and> car_status r' = AUTH_PENDING)"
    using await_final[OF e(6)] by blast
  have g: "car_status r = AUTH_AUTHORIZED" "car_expires r = expires" using st by simp_all
  have "0 < expires" using g delivers_valid[OF f(2)] by (simp add: auth_result_valid_def)
  moreover have "ps = pre @ pc # mid @ pr # post" using e(1) f(1) by simp
  moreover have "acts = Signed m # Sent pf (min d 2000) # more" using e(5) a(7) by simp
  moreover have "min d 2000 \<le> 2000" by simp
  ultimately show ?thesis using e(2,3) a(1-6,8) f(2) mo g by blast
qed

text \<open>
  C9. The key signs nothing else: whatever the phone sends and however the exchange ends, at most
  one message is signed; it is the transcript, with this PC's point and label and the nonce that
  came with it, of the challenge in the first frame the phone sent, for this route's transport and
  certificate binding, received before any stop; and at most one proof is sent, right after it.
\<close>

theorem signs_only_route_transcript:
  "case exchange gc left ident route label timeout su ps of (acts, _) \<Rightarrow>
     acts = []
     \<or> (\<exists>pre p post f c m rest. ps = pre @ p # post
          \<and> list_all idle_poll pre \<and> list_all (\<lambda>q. \<not> po_stop q) (pre @ [p])
          \<and> po_result p = Inr (Some f) \<and> kind (fr_header f) = CLIENT_CHALLENGE
          \<and> challenge_decode (fr_payload f) = Inr c
          \<and> cc_transport c = route_transport route \<and> cc_phone_binding c = route_binding route
          \<and> client_auth_message gc (route_transport route) (route_binding route) (cc_nonce c)
              (id_public_key ident) label = Inr m
          \<and> acts = Signed m # rest
          \<and> (rest = [] \<or> (\<exists>pf t more. rest = Sent pf t # more \<and> set more \<subseteq> {PendingNotified})))"
proof -
  obtain acts res where ex: "exchange gc left ident route label timeout su ps = (acts, res)" by fastforce
  show ?thesis using exchange_actions[OF ex] unfolding ex prod.case signed_for_def by blast
qed

text \<open>
  C10. The exchange is bounded: with a budget that refuses once its deadline has passed, every poll
  of an exchange that delivered an outcome, up to the one that brought the final answer, was made
  before the user asked to stop and began before the one deadline of the whole exchange; only the
  polls after the phone's single request for a human decision have sixty seconds from that instead.
\<close>

theorem exchange_bounded:
  assumes "exchange gc left ident route label timeout su ps = (acts, Some (Inr out))"
    and "\<forall>now deadline d. left now deadline = Inr d \<longrightarrow> now < deadline"
  shows "\<exists>pre pc mid p post fc r. ps = pre @ pc # mid @ p # post
    \<and> po_result pc = Inr (Some fc) \<and> kind (fr_header fc) = CLIENT_CHALLENGE
    \<and> delivers_outcome p r
    \<and> ((car_status r = AUTH_AUTHORIZED \<and> out = Authorized (car_expires r))
       \<or> (car_status r = AUTH_REJECTED \<and> out = Rejected (reason_text (car_reason r))))
    \<and> list_all (\<lambda>q. \<not> po_stop q) (pre @ pc # mid @ [p])
    \<and> list_all (\<lambda>q. po_now q < su_start su + timeout) (pre @ [pc])
    \<and> ((PendingNotified \<notin> set acts \<and> list_all (\<lambda>q. po_now q < su_start su + timeout) (mid @ [p]))
       \<or> (\<exists>m1 q m2 r'. mid = m1 @ q # m2 \<and> count_list acts PendingNotified = 1
            \<and> list_all idle_poll (m1 @ m2) \<and> delivers_outcome q r' \<and> car_status r' = AUTH_PENDING
            \<and> list_all (\<lambda>q. po_now q < su_start su + timeout) (m1 @ [q])
            \<and> list_all (\<lambda>q. po_now q < su_pending_now su + 60000) (m2 @ [p])))"
proof -
  obtain pre pc ps' fc acts1 pf d more where e: "ps = pre @ pc # ps'" "po_result pc = Inr (Some fc)"
    "list_all (in_budget left (su_start su + timeout)) (pre @ [pc])"
    "answer_challenge gc ident route label fc = (acts1, Inr pf)"
    "acts = acts1 @ Sent pf (min d 2000) # more"
    "await_outcome left su (su_start su + timeout) False ps' = (more, Some (Inr out))"
    using exchange_Inr[OF assms(1)] by blast
  have stop: "list_all (\<lambda>q. \<not> po_stop q) qs" if "list_all (in_budget left dl) qs" for qs dl
    using that by (auto simp: in_budget_def list_all_iff)
  have bud: "list_all (\<lambda>q. po_now q < dl) qs" if ib: "list_all (in_budget left dl) qs" for qs dl
    unfolding list_all_iff
  proof
    fix q assume "q \<in> set qs"
    then obtain b where "left (po_now q) dl = Inr b"
      using ib by (cases "left (po_now q) dl") (auto simp: in_budget_def list_all_iff)
    then show "po_now q < dl" using assms(2) by blast
  qed
  obtain m where a1: "acts1 = [Signed m]" "kind (fr_header fc) = CLIENT_CHALLENGE"
    using answer_challenge_actions[OF e(4)] unfolding signed_for_def by auto
  obtain mid p post r where f: "ps' = mid @ p # post" "delivers_outcome p r"
    "(car_status r = AUTH_AUTHORIZED \<and> out = Authorized (car_expires r))
       \<or> (car_status r = AUTH_REJECTED \<and> out = Rejected (reason_text (car_reason r)))"
    and g: "(more = [] \<and> list_all idle_poll mid
         \<and> list_all (in_budget left (su_start su + timeout)) (mid @ [p]))
       \<or> (\<exists>m1 q m2 r'. more = [PendingNotified] \<and> mid = m1 @ q # m2 \<and> list_all idle_poll (m1 @ m2)
            \<and> delivers_outcome q r' \<and> car_status r' = AUTH_PENDING
            \<and> list_all (in_budget left (su_start su + timeout)) (m1 @ [q])
            \<and> list_all (in_budget left (su_pending_now su + 60000)) (m2 @ [p]))"
    using await_final[OF e(6)] by blast
  have ps: "ps = pre @ pc # mid @ p # post" using e(1) f(1) by simp
  have st: "list_all (\<lambda>q. \<not> po_stop q) (pre @ pc # mid @ [p])"
  proof -
    have "list_all (\<lambda>q. \<not> po_stop q) (mid @ [p])"
      using g
    proof (elim disjE exE conjE)
      assume "list_all (in_budget left (su_start su + timeout)) (mid @ [p])"
      then show ?thesis by (rule stop)
    next
      fix m1 q m2 r'
      assume "mid = m1 @ q # m2" "list_all (in_budget left (su_start su + timeout)) (m1 @ [q])"
        "list_all (in_budget left (su_pending_now su + 60000)) (m2 @ [p])"
      then show ?thesis using stop[of "su_start su + timeout" "m1 @ [q]"]
          stop[of "su_pending_now su + 60000" "m2 @ [p]"] by simp
    qed
    then show ?thesis using stop[OF e(3)] by simp
  qed
  have late: "(PendingNotified \<notin> set acts \<and> list_all (\<lambda>q. po_now q < su_start su + timeout) (mid @ [p]))
       \<or> (\<exists>m1 q m2 r'. mid = m1 @ q # m2 \<and> count_list acts PendingNotified = 1
            \<and> list_all idle_poll (m1 @ m2) \<and> delivers_outcome q r' \<and> car_status r' = AUTH_PENDING
            \<and> list_all (\<lambda>q. po_now q < su_start su + timeout) (m1 @ [q])
            \<and> list_all (\<lambda>q. po_now q < su_pending_now su + 60000) (m2 @ [p]))"
    using g
  proof (elim disjE exE conjE)
    assume "more = []" "list_all (in_budget left (su_start su + timeout)) (mid @ [p])"
    then show ?thesis using bud[of "su_start su + timeout" "mid @ [p]"] e(5) a1(1) by simp
  next
    fix m1 q m2 r'
    assume "more = [PendingNotified]" "mid = m1 @ q # m2" "list_all idle_poll (m1 @ m2)"
      "delivers_outcome q r'" "car_status r' = AUTH_PENDING"
      and b: "list_all (in_budget left (su_start su + timeout)) (m1 @ [q])"
        "list_all (in_budget left (su_pending_now su + 60000)) (m2 @ [p])"
    moreover have "count_list acts PendingNotified = 1"
      using e(5) a1(1) \<open>more = [PendingNotified]\<close> by simp
    ultimately show ?thesis using bud[OF b(1)] bud[OF b(2)] by blast
  qed
  show ?thesis using ps e(2) a1(2) f(2,3) st bud[OF e(3)] late by blast
qed

section \<open>A run that authorizes\<close>


text \<open>A small run of the exchange, used by the witnesses: a USB challenge, then the outcome.\<close>

definition sample_budget :: budget where
  "sample_budget now d = (if now < d then Inr (d - now) else Inl (Io TimedOut ''budget''))"

definition sample_identity :: identity where
  "sample_identity = \<lparr>id_public_key = 4 # replicate 64 9, id_sign = \<lambda>_. Inr (replicate 64 5)\<rparr>"

definition sample_surroundings :: surroundings where
  "sample_surroundings = \<lparr>su_start = 0, su_send_now = 20, su_send = Inr (), su_pending_now = 30,
     su_on_pending = Inr ()\<rparr>"

definition sample_script :: "poll list" where
  "sample_script =
     [\<lparr>po_now = 10, po_stop = False, po_result = Inr (Some
        \<lparr>fr_header = \<lparr>kind = CLIENT_CHALLENGE, flags = 0, sequence = 0, payload_len = 66, pts_us = 0\<rparr>,
         fr_payload = [2, 0] @ replicate 32 0 @ replicate 32 7\<rparr>)\<rparr>,
      \<lparr>po_now = 15, po_stop = False, po_result = Inr None\<rparr>,
      \<lparr>po_now = 40, po_stop = False, po_result = Inr (Some
        \<lparr>fr_header = \<lparr>kind = CLIENT_AUTH_RESULT, flags = 0, sequence = 0, payload_len = 6, pts_us = 0\<rparr>,
         fr_payload = [0, 0, 9, 0, 0, 0]\<rparr>)\<rparr>]"

lemma sample_answer:
  "\<exists>m pf. answer_challenge (\<lambda>_. GcOther) sample_identity Usb (lit ''pc'')
     \<lparr>fr_header = \<lparr>kind = CLIENT_CHALLENGE, flags = 0, sequence = 0, payload_len = 66, pts_us = 0\<rparr>,
         fr_payload = [2, 0] @ replicate 32 0 @ replicate 32 7\<rparr> = ([Signed m], Inr pf)"
  by (simp add: answer_challenge_def challenge_decode_def client_auth_encode_def client_auth_message_def wire_consts valid_transport_def valid_phone_binding_def
        valid_label_def list_all_iff trim_def trim_start_def trim_end_def is_whitespace_def chr_def
        str_len_def utf8_def utf8_char_def slice_def route_transport_def route_binding_def sample_identity_def frame_new_def
        header_encode_def validate_payload_size_def Let_def)

lemma sample_exchange:
  "\<exists>m pf. exchange (\<lambda>_. GcOther) sample_budget sample_identity Usb (lit ''pc'') 5000 sample_surroundings
     sample_script = ([Signed m, Sent pf 2000], Some (Inr (Authorized 9)))"
proof -
  obtain m pf where a: "answer_challenge (\<lambda>_. GcOther) sample_identity Usb (lit ''pc'')
     \<lparr>fr_header = \<lparr>kind = CLIENT_CHALLENGE, flags = 0, sequence = 0, payload_len = 66, pts_us = 0\<rparr>,
         fr_payload = [2, 0] @ replicate 32 0 @ replicate 32 7\<rparr> = ([Signed m], Inr pf)"
    using sample_answer by blast
  show ?thesis
    unfolding exchange_def sample_script_def
    using a by (simp add: auth_result_valid_def sample_budget_def sample_surroundings_def Let_def await_outcome.simps auth_result_decode_def slice_def
       auth_result_validate_def of_le32_def wire_consts del: lit_simps)
qed

lemma authorized_only_by_outcome_witness:
  "\<exists>m pf. exchange (\<lambda>_. GcOther) sample_budget sample_identity Usb (lit ''pc'') 5000 sample_surroundings
       sample_script = ([Signed m, Sent pf 2000], Some (Inr (Authorized 9)))
     \<and> (\<exists>p r. p \<in> set sample_script \<and> delivers_outcome p r \<and> car_expires r = 9)"
proof -
  obtain m pf where e: "exchange (\<lambda>_. GcOther) sample_budget sample_identity Usb (lit ''pc'') 5000
      sample_surroundings sample_script = ([Signed m, Sent pf 2000], Some (Inr (Authorized 9)))"
    using sample_exchange by blast
  have "list_all is_scalar (lit ''pc'')" by (simp add: is_scalar_def chr_def)
  from authorized_only_by_outcome[OF e this] obtain pre pc mid pr post r where
    "sample_script = pre @ pc # mid @ pr # post" "delivers_outcome pr r" "car_expires r = 9" by blast
  moreover from this(1) have "pr \<in> set sample_script" by (metis Un_iff list.set_intros set_append)
  ultimately show ?thesis using e by blast
qed

lemma signs_only_route_transcript_witness:
  "\<exists>m pf. fst (exchange (\<lambda>_. GcOther) sample_budget sample_identity Usb (lit ''pc'') 5000
       sample_surroundings sample_script) = [Signed m, Sent pf 2000]
     \<and> (\<exists>p f c. p \<in> set sample_script \<and> po_result p = Inr (Some f)
          \<and> challenge_decode (fr_payload f) = Inr c
          \<and> client_auth_message (\<lambda>_. GcOther) AUTH_USB (replicate 32 0) (cc_nonce c)
              (4 # replicate 64 9) (lit ''pc'') = Inr m)"
proof -
  obtain m pf where e: "exchange (\<lambda>_. GcOther) sample_budget sample_identity Usb (lit ''pc'') 5000
      sample_surroundings sample_script = ([Signed m, Sent pf 2000], Some (Inr (Authorized 9)))"
    using sample_exchange by blast
  from signs_only_route_transcript[where gc = "\<lambda>_. GcOther" and left = sample_budget and
      ident = sample_identity and route = Usb and label = "lit ''pc''" and timeout = 5000 and
      su = sample_surroundings and ps = sample_script]
  obtain pre p post f c where p: "sample_script = pre @ p # post" "po_result p = Inr (Some f)"
    "challenge_decode (fr_payload f) = Inr c"
    "client_auth_message (\<lambda>_. GcOther) (route_transport Usb) (route_binding Usb) (cc_nonce c)
      (id_public_key sample_identity) (lit ''pc'') = Inr m" unfolding e prod.case by blast
  have "p \<in> set sample_script" unfolding p(1) by simp
  moreover have "route_transport Usb = AUTH_USB" "route_binding Usb = replicate 32 0"
    "id_public_key sample_identity = 4 # replicate 64 9"
    by (simp_all add: route_transport_def route_binding_def sample_identity_def wire_consts)
  ultimately show ?thesis using e p(2-4) by auto
qed

lemma exchange_bounded_witness:
  "\<exists>acts out. exchange (\<lambda>_. GcOther) sample_budget sample_identity Usb (lit ''pc'') 5000 sample_surroundings
       sample_script = (acts, Some (Inr out))
     \<and> (\<exists>p r. p \<in> set sample_script \<and> delivers_outcome p r \<and> po_now p < 5000)"
proof -
  obtain m pf where e: "exchange (\<lambda>_. GcOther) sample_budget sample_identity Usb (lit ''pc'') 5000
      sample_surroundings sample_script = ([Signed m, Sent pf 2000], Some (Inr (Authorized 9)))"
    using sample_exchange by blast
  have b: "\<forall>now d x. sample_budget now d = Inr x \<longrightarrow> now < d"
    by (simp add: sample_budget_def split: if_splits)
  have n: "count_list [Signed m, Sent pf 2000] PendingNotified = 0" by simp
  note f = exchange_bounded[OF e b]
  obtain pre pc mid p post r where p: "sample_script = pre @ pc # mid @ p # post" "delivers_outcome p r"
    "list_all (\<lambda>q. po_now q < su_start sample_surroundings + 5000) (mid @ [p])"
    using f by (simp only: n zero_neq_one simp_thms) blast
  have "p \<in> set sample_script" unfolding p(1) by simp
  moreover have "po_now p < 5000" using p(3) by (simp add: sample_surroundings_def)
  ultimately show ?thesis using e p(2) by blast
qed

end
