(* ===== verification/Transport.thy ===== *)
theory Transport
  imports Wire
begin

text \<open>
  The socket framing of \<open>transport.rs\<close>: exact reads and complete writes over a byte stream whose
  calls may be cut anywhere, the pairing handshake, and dialling. A stream is the bytes still to
  arrive, the bytes written so far, and the outcome of each coming call; a run that has used up
  the scripted calls is still waiting (None). The deadline is checked before every call by
  \<open>set_deadline\<close>, which rests on the crate \<open>io-budget\<close>: its outcome is part of the script.
\<close>

section \<open>Streams\<close>

datatype io_call =
    Expired error                 \<comment> \<open>\<open>set_deadline\<close> or \<open>remaining\<close> failed\<close>
  | Fails error                   \<comment> \<open>the call itself failed\<close>
  | Moves nat                     \<comment> \<open>the call moved up to that many bytes\<close>

record stream =
  incoming :: bytes
  written :: bytes
  calls :: "io_call list"

text \<open>The next outcome, removed from the script.\<close>

definition next_call :: "stream \<Rightarrow> (io_call \<times> stream) option" where
  "next_call s = (case calls s of [] \<Rightarrow> None | c # cs \<Rightarrow> Some (c, s\<lparr>calls := cs\<rparr>))"

definition interrupted :: "error \<Rightarrow> bool" where
  "interrupted e = (case e of Io k _ \<Rightarrow> k = Interrupted | _ \<Rightarrow> False)"

text \<open>A result with the stream after it; None while the operation still waits.\<close>

type_synonym 'a op = "stream \<Rightarrow> ((error + 'a) \<times> stream) option"

definition return_op :: "'a \<Rightarrow> 'a op" where
  "return_op x s = Some (Inr x, s)"

definition fail_op :: "error \<Rightarrow> 'a op" where
  "fail_op e s = Some (Inl e, s)"

definition bind_op :: "'a op \<Rightarrow> ('a \<Rightarrow> 'b op) \<Rightarrow> 'b op" where
  "bind_op m f s =
     (case m s of
        None \<Rightarrow> None
      | Some (Inl e, s') \<Rightarrow> Some (Inl e, s')
      | Some (Inr x, s') \<Rightarrow> f x s')"

definition lift_op :: "error + 'a \<Rightarrow> 'a op" where
  "lift_op r s = Some (r, s)"

text \<open>A check of the deadline (\<open>set_deadline\<close>, \<open>remaining\<close>): it can only expire. A flush can fail.\<close>

definition deadline_op :: "unit op" where
  "deadline_op s =
     (case next_call s of
        None \<Rightarrow> None
      | Some (Expired e, s') \<Rightarrow> Some (Inl e, s')
      | Some (_, s') \<Rightarrow> Some (Inr (), s'))"

definition flush_op :: "unit op" where
  "flush_op s =
     (case next_call s of
        None \<Rightarrow> None
      | Some (Fails e, s') \<Rightarrow> Some (Inl e, s')
      | Some (_, s') \<Rightarrow> Some (Inr (), s'))"

section \<open>Exact reads\<close>

text \<open>
  \<open>read_exact_until\<close>: \<open>buf\<close> holds what the loop has read, \<open>n\<close> is the buffer's length. One call of
  the script is one turn of the loop.
\<close>

function read_loop :: "nat \<Rightarrow> bytes \<Rightarrow> bytes op" where
  "read_loop n buf s =
     (if n \<le> length buf then Some (Inr buf, s)
      else case next_call s of
             None \<Rightarrow> None
           | Some (c, s') \<Rightarrow>
               (case c of
                  Expired e \<Rightarrow> Some (Inl e, s')
                | Fails e \<Rightarrow> if interrupted e then read_loop n buf s' else Some (Inl e, s')
                | Moves k \<Rightarrow>
                    let chunk = take (min k (n - length buf)) (incoming s')
                    in if chunk = [] then Some (Inl (Io UnexpectedEof ''peer disconnected''), s')
                       else read_loop n (buf @ chunk)
                              (s'\<lparr>incoming := drop (length chunk) (incoming s')\<rparr>)))"
  by pat_completeness auto
termination
  by (relation "measure (\<lambda>(_, _, s). length (calls s))")
    (auto simp: next_call_def split: list.splits)

declare read_loop.simps [simp del]

definition read_exact_until :: "nat \<Rightarrow> bytes op" where
  "read_exact_until n = bind_op (read_loop n []) (\<lambda>bs. bind_op deadline_op (\<lambda>_. return_op bs))"

definition receive_until :: "frame op" where
  "receive_until =
     bind_op (read_exact_until HEADER_SIZE) (\<lambda>hb.
     bind_op (lift_op (header_decode hb)) (\<lambda>h.
     bind_op (read_exact_until (unat (payload_len h))) (\<lambda>payload.
     return_op \<lparr>fr_header = h, fr_payload = payload\<rparr>)))"

section \<open>Complete writes\<close>

function write_loop :: "bytes \<Rightarrow> unit op" where
  "write_loop bs s =
     (if bs = [] then Some (Inr (), s)
      else case next_call s of
             None \<Rightarrow> None
           | Some (c, s') \<Rightarrow>
               (case c of
                  Expired e \<Rightarrow> Some (Inl e, s')
                | Fails e \<Rightarrow> if interrupted e then write_loop bs s' else Some (Inl e, s')
                | Moves k \<Rightarrow>
                    if k = 0 then Some (Inl (Msg ''transport made no write progress''), s')
                    else write_loop (drop k bs) (s'\<lparr>written := written s' @ take k bs\<rparr>)))"
  by pat_completeness auto
termination
  by (relation "measure (\<lambda>(_, s). length (calls s))")
    (auto simp: next_call_def split: list.splits)

declare write_loop.simps [simp del]

definition send_until :: "frame \<Rightarrow> unit op" where
  "send_until f =
     bind_op (lift_op (frame_validate f)) (\<lambda>_.
     bind_op (lift_op (header_encode (fr_header f))) (\<lambda>hb.
     bind_op (write_loop hb) (\<lambda>_. bind_op (write_loop (fr_payload f)) (\<lambda>_.
     bind_op deadline_op (\<lambda>_. bind_op flush_op (\<lambda>_. deadline_op))))))"

section \<open>Pairing\<close>

definition unauthorized :: error where
  "unauthorized = Msg ''Wi-Fi pairing was not authorized''"

text \<open>The answer to the HELLO, with a closed connection reported as a refusal.\<close>

definition pair_answer :: "unit op" where
  "pair_answer s =
     (case receive_until s of
        None \<Rightarrow> None
      | Some (Inl e, s') \<Rightarrow>
          Some (Inl (case e of Io UnexpectedEof _ \<Rightarrow> unauthorized | _ \<Rightarrow> e), s')
      | Some (Inr ack, s') \<Rightarrow>
          if kind (fr_header ack) \<noteq> HELLO_ACK \<or> sequence (fr_header ack) \<noteq> 1 \<or> fr_payload ack \<noteq> []
          then Some (Inl unauthorized, s') else Some (Inr (), s'))"

definition pair_until :: "bytes \<Rightarrow> unit op" where
  "pair_until credential =
     bind_op (lift_op (frame_new HELLO 1 credential)) (\<lambda>hello.
     bind_op (send_until hello) (\<lambda>_. pair_answer))"

section \<open>Dialling\<close>

text \<open>
  \<open>dial\<close> over the resolved addresses. \<open>left\<close> is the check of the shared deadline before each
  connect, \<open>connect\<close> the outcome of connecting, \<open>attempt\<close> what the caller does with the socket;
  all may depend on how many addresses were tried.
\<close>

fun dial_addresses ::
  "(nat \<Rightarrow> error + unit) \<Rightarrow> (nat \<Rightarrow> 'addr \<Rightarrow> error + 'sock) \<Rightarrow> (nat \<Rightarrow> 'sock \<Rightarrow> error + 'a)
    \<Rightarrow> nat \<Rightarrow> error \<Rightarrow> 'addr list \<Rightarrow> error + 'a" where
  "dial_addresses left connect attempt i prev [] = Inl prev"
| "dial_addresses left connect attempt i prev (a # as) =
     try_r (left i) (\<lambda>_.
       case connect i a of
         Inl e \<Rightarrow> dial_addresses left connect attempt (i + 1) e as
       | Inr sock \<Rightarrow>
           (case attempt i sock of
              Inr x \<Rightarrow> Inr x
            | Inl e \<Rightarrow> dial_addresses left connect attempt (i + 1) e as))"

text \<open>
  \<open>resolve\<close>: a literal address is used as it is, otherwise the system resolves the trimmed name.
  Parsing a literal and resolving a name are the library's and the system's.
\<close>

definition resolve_host ::
  "(ustr \<Rightarrow> 'addr option) \<Rightarrow> (ustr \<Rightarrow> u16 \<Rightarrow> error + 'addr list) \<Rightarrow> ustr \<Rightarrow> u16 \<Rightarrow> error + 'addr list" where
  "resolve_host parse lookup host port =
     (let host = trim host
      in if host = [] then Inl (Io InvalidInput ''enter an IP address'')
         else case parse host of Some a \<Rightarrow> Inr [a] | None \<Rightarrow> lookup host port)"

definition dial ::
  "(ustr \<Rightarrow> 'addr option) \<Rightarrow> (ustr \<Rightarrow> u16 \<Rightarrow> error + 'addr list) \<Rightarrow> (nat \<Rightarrow> error + unit)
    \<Rightarrow> (nat \<Rightarrow> 'addr \<Rightarrow> error + 'sock) \<Rightarrow> (nat \<Rightarrow> 'sock \<Rightarrow> error + 'a) \<Rightarrow> ustr \<Rightarrow> u16 \<Rightarrow> error + 'a" where
  "dial parse lookup left connect attempt host port =
     try_r (resolve_host parse lookup host port) (\<lambda>as.
       dial_addresses left connect attempt 0 (Msg ''no addresses'') as)"


section \<open>What the loops consume\<close>

lemma bind_op_Inr:
  "bind_op m f s = Some (Inr y, s') \<longleftrightarrow> (\<exists>x t. m s = Some (Inr x, t) \<and> f x t = Some (Inr y, s'))"
  by (auto simp: bind_op_def split: option.splits sum.splits prod.splits)

lemma bind_op_Some: "m s = Some (Inr x, t) \<Longrightarrow> bind_op m f s = f x t"
  by (simp add: bind_op_def)

lemma lift_op_Inr [simp]: "lift_op r s = Some (Inr x, s') \<longleftrightarrow> r = Inr x \<and> s' = s"
  by (auto simp: lift_op_def)

lemma return_op_Inr [simp]: "return_op x s = Some (Inr y, s') \<longleftrightarrow> y = x \<and> s' = s"
  by (auto simp: return_op_def)

lemma next_call_Some: "next_call s = Some (c, s') \<longleftrightarrow> calls s = c # calls s' \<and> s' = s\<lparr>calls := calls s'\<rparr>"
  by (auto simp: next_call_def split: list.splits)

lemma deadline_op_same:
  "deadline_op s = Some (r, s') \<Longrightarrow> incoming s' = incoming s \<and> written s' = written s"
  by (auto simp: deadline_op_def next_call_def split: option.splits io_call.splits list.splits)

lemma flush_op_same:
  "flush_op s = Some (r, s') \<Longrightarrow> incoming s' = incoming s \<and> written s' = written s"
  by (auto simp: flush_op_def next_call_def split: option.splits io_call.splits list.splits)

lemma read_loop_Moves:
  assumes "\<not> n \<le> length buf" "next_call s = Some (Moves k, t)"
    and "chunk = take (min k (n - length buf)) (incoming t)"
  shows "read_loop n buf s =
    (if chunk = [] then Some (Inl (Io UnexpectedEof ''peer disconnected''), t)
     else read_loop n (buf @ chunk) (t\<lparr>incoming := drop (length chunk) (incoming t)\<rparr>))"
  using assms(1,2) unfolding read_loop.simps[of n buf s] assms(3) by (simp add: Let_def)

lemma take_drop_length: "take m xs @ drop (length (take m xs)) xs = xs"
  by (cases "m \<le> length xs") simp_all

lemma read_loop_Inr:
  "read_loop n buf s = Some (Inr bs, s') \<Longrightarrow> length buf \<le> n \<Longrightarrow>
     length bs = n \<and> (\<exists>new. bs = buf @ new \<and> incoming s = new @ incoming s') \<and> written s' = written s"
proof (induction n buf s rule: read_loop.induct)
  case (1 n buf s)
  show ?case
  proof (cases "n \<le> length buf")
    case True
    then show ?thesis using "1.prems" by (simp add: read_loop.simps)
  next
    case False
    obtain c t where n: "next_call s = Some (c, t)"
      using "1.prems" False by (auto simp: read_loop.simps[of n buf s] split: option.splits)
    then have same: "incoming t = incoming s" "written t = written s"
      by (auto simp: next_call_def split: list.splits)
    show ?thesis
    proof (cases c)
      case (Expired e)
      then show ?thesis using "1.prems" False n by (simp add: read_loop.simps[of n buf s])
    next
      case (Fails e)
      then have i: "interrupted e" and r: "read_loop n buf t = Some (Inr bs, s')"
        using "1.prems"(1) False n by (auto simp: read_loop.simps[of n buf s] split: if_splits)
      show ?thesis using "1.IH"(1)[OF False n refl Fails i r "1.prems"(2)] same by simp
    next
      case (Moves k)
      define chunk where "chunk = take (min k (n - length buf)) (incoming t)"
      define t' where "t' = t\<lparr>incoming := drop (length chunk) (incoming t)\<rparr>"
      have step: "read_loop n buf s = (if chunk = [] then Some (Inl (Io UnexpectedEof ''peer disconnected''), t)
          else read_loop n (buf @ chunk) t')"
        unfolding t'_def using False n Moves by (intro read_loop_Moves) (simp_all add: chunk_def)
      then have ne: "chunk \<noteq> []" and r: "read_loop n (buf @ chunk) t' = Some (Inr bs, s')"
        using "1.prems"(1) by (auto split: if_splits)
      have l: "length (buf @ chunk) \<le> n" using False by (simp add: chunk_def)
      obtain new where nw: "length bs = n" "bs = (buf @ chunk) @ new" "incoming t' = new @ incoming s'"
          "written s' = written t'"
        using "1.IH"(2)[OF False n refl Moves chunk_def ne r[unfolded t'_def] l] unfolding t'_def by blast
      have ti: "incoming t' = drop (length chunk) (incoming t)" by (simp add: t'_def)
      have "incoming t = chunk @ incoming t'"
        unfolding ti chunk_def by (rule take_drop_length[symmetric])
      then have "incoming s = (chunk @ new) @ incoming s'" using nw(3) same(1) by simp
      moreover have "bs = buf @ (chunk @ new)" using nw(2) by simp
      moreover have "written s' = written s" using nw(4) same(2) by (simp add: t'_def)
      ultimately show ?thesis using nw(1) by blast
    qed
  qed
qed

lemma read_exact_Inr:
  "read_exact_until n s = Some (Inr bs, s') \<Longrightarrow>
     length bs = n \<and> incoming s = bs @ incoming s' \<and> written s' = written s"
  unfolding read_exact_until_def bind_op_Inr
  using read_loop_Inr[of n "[]" s] deadline_op_same by fastforce

lemma receive_Inr:
  assumes "receive_until s = Some (Inr f, s')"
  shows "\<exists>hb. length hb = 24 \<and> header_decode hb = Inr (fr_header f)
    \<and> length (fr_payload f) = unat (payload_len (fr_header f))
    \<and> incoming s = hb @ fr_payload f @ incoming s' \<and> written s' = written s"
proof -
  obtain hb h p s1 s2 where a: "read_exact_until HEADER_SIZE s = Some (Inr hb, s1)"
    "header_decode hb = Inr h" "read_exact_until (unat (payload_len h)) s1 = Some (Inr p, s')"
    "f = \<lparr>fr_header = h, fr_payload = p\<rparr>"
    using assms by (auto simp: receive_until_def bind_op_Inr)
  show ?thesis
    using read_exact_Inr[OF a(1)] read_exact_Inr[OF a(3)] a(2,4) by (auto simp: HEADER_SIZE_def)
qed

lemma write_loop_Inr:
  "write_loop bs s = Some (Inr u, s') \<Longrightarrow> written s' = written s @ bs \<and> incoming s' = incoming s"
proof (induction bs s rule: write_loop.induct)
  case (1 bs s)
  show ?case
  proof (cases "bs = []")
    case True
    then show ?thesis using "1.prems" by (simp add: write_loop.simps)
  next
    case False
    obtain c t where n: "next_call s = Some (c, t)"
      using "1.prems" False by (auto simp: write_loop.simps[of bs s] split: option.splits)
    then have same: "incoming t = incoming s" "written t = written s"
      by (auto simp: next_call_def split: list.splits)
    show ?thesis
    proof (cases c)
      case (Expired e)
      then show ?thesis using "1.prems" False n by (simp add: write_loop.simps[of bs s])
    next
      case (Fails e)
      then have i: "interrupted e" and r: "write_loop bs t = Some (Inr u, s')"
        using "1.prems" False n by (auto simp: write_loop.simps[of bs s] split: if_splits)
      show ?thesis using "1.IH"(1)[OF False n refl Fails i r] same by simp
    next
      case (Moves k)
      then have k: "k \<noteq> 0"
        and r: "write_loop (drop k bs) (t\<lparr>written := written t @ take k bs\<rparr>) = Some (Inr u, s')"
        using "1.prems" False n by (auto simp: write_loop.simps[of bs s] split: if_splits)
      show ?thesis using "1.IH"(2)[OF False n refl Moves k r] same by simp
    qed
  qed
qed

lemma send_Inr:
  assumes "send_until f s = Some (Inr u, s')"
  shows "frame_validate f = Inr () \<and> (\<exists>hb. header_encode (fr_header f) = Inr hb
    \<and> written s' = written s @ hb @ fr_payload f \<and> incoming s' = incoming s)"
proof -
  obtain hb s1 s2 s3 s4 where a: "frame_validate f = Inr ()" "header_encode (fr_header f) = Inr hb"
    "write_loop hb s = Some (Inr (), s1)" "write_loop (fr_payload f) s1 = Some (Inr (), s2)"
    "deadline_op s2 = Some (Inr (), s3)" "flush_op s3 = Some (Inr (), s4)" "deadline_op s4 = Some (Inr u, s')"
    using assms by (auto simp: send_until_def bind_op_Inr)
  show ?thesis
    using a(1,2) write_loop_Inr[OF a(3)] write_loop_Inr[OF a(4)] deadline_op_same[OF a(5)]
      flush_op_same[OF a(6)] deadline_op_same[OF a(7)] by simp
qed


section \<open>Progress\<close>

text \<open>Every call moves at least one byte or is interrupted; \<open>moves\<close> counts the former.\<close>

definition steady :: "io_call list \<Rightarrow> bool" where
  "steady cs \<longleftrightarrow> list_all (\<lambda>c. case c of Expired _ \<Rightarrow> False | Fails e \<Rightarrow> interrupted e | Moves k \<Rightarrow> 0 < k) cs"

definition moves :: "io_call list \<Rightarrow> nat" where
  "moves cs = length (filter (\<lambda>c. case c of Moves _ \<Rightarrow> True | _ \<Rightarrow> False) cs)"

lemma steady_Cons [simp]:
  "steady (c # cs) \<longleftrightarrow> (case c of Expired _ \<Rightarrow> False | Fails e \<Rightarrow> interrupted e | Moves k \<Rightarrow> 0 < k) \<and> steady cs"
  by (simp add: steady_def)

lemma moves_simps [simp]:
  "moves [] = 0" "moves (Moves k # cs) = Suc (moves cs)" "moves (Fails e # cs) = moves cs"
  by (simp_all add: moves_def)

lemma read_loop_progress:
  "steady (calls s) \<Longrightarrow> n - length buf + m \<le> moves (calls s) \<Longrightarrow> n - length buf \<le> length (incoming s) \<Longrightarrow>
     \<exists>bs s'. read_loop n buf s = Some (Inr bs, s') \<and> steady (calls s') \<and> m \<le> moves (calls s')"
proof (induction n buf s rule: read_loop.induct)
  case (1 n buf s)
  show ?case
  proof (cases "n \<le> length buf")
    case True
    then show ?thesis using "1.prems" by (simp add: read_loop.simps)
  next
    case False
    then have "calls s \<noteq> []" using "1.prems"(2) by auto
    then obtain c cs where cs: "calls s = c # cs" by (cases "calls s") auto
    define t where "t = s\<lparr>calls := cs\<rparr>"
    have n: "next_call s = Some (c, t)" by (simp add: next_call_def cs t_def)
    show ?thesis
    proof (cases c)
      case (Expired e)
      then show ?thesis using "1.prems"(1) cs by simp
    next
      case (Fails e)
      then have i: "interrupted e" and st: "steady (calls t)" "n - length buf + m \<le> moves (calls t)"
          "n - length buf \<le> length (incoming t)"
        using "1.prems" cs by (simp_all add: t_def)
      show ?thesis
        using "1.IH"(1)[OF False n refl Fails i st] False n Fails i by (simp add: read_loop.simps[of n buf s])
    next
      case (Moves k)
      define chunk where "chunk = take (min k (n - length buf)) (incoming t)"
      define t' where "t' = t\<lparr>incoming := drop (length chunk) (incoming t)\<rparr>"
      have k: "0 < k" "steady (calls t')" using "1.prems"(1) cs Moves by (simp_all add: t_def t'_def)
      have inc: "n - length buf \<le> length (incoming t)" using "1.prems"(3) by (simp add: t_def)
      then have lc: "length chunk = min k (n - length buf)" by (simp add: chunk_def)
      then have ne: "chunk \<noteq> []" using k False by auto
      have step: "read_loop n buf s = read_loop n (buf @ chunk) t'"
        using read_loop_Moves[OF False n[unfolded Moves] chunk_def] ne by (simp add: t'_def)
      have "n - length (buf @ chunk) + m \<le> moves (calls t')"
        using "1.prems"(2) cs Moves lc k False by (simp add: t_def t'_def)
      moreover have "n - length (buf @ chunk) \<le> length (incoming t')"
        using inc lc by (simp add: t'_def)
      ultimately show ?thesis
        using "1.IH"(2)[OF False n refl Moves chunk_def ne, folded t'_def, OF k(2)] step by simp
    qed
  qed
qed

lemma deadline_progress:
  "steady (calls s) \<Longrightarrow> Suc m \<le> moves (calls s) \<Longrightarrow>
     \<exists>s'. deadline_op s = Some (Inr (), s') \<and> steady (calls s') \<and> m \<le> moves (calls s')"
  by (cases "calls s") (auto simp: deadline_op_def next_call_def split: io_call.splits)

lemma read_exact_progress:
  assumes "steady (calls s)" "n + 1 + m \<le> moves (calls s)" "n \<le> length (incoming s)"
  shows "\<exists>bs s'. read_exact_until n s = Some (Inr bs, s') \<and> steady (calls s') \<and> m \<le> moves (calls s')"
proof -
  obtain bs t where r: "read_loop n [] s = Some (Inr bs, t)" "steady (calls t)" "Suc m \<le> moves (calls t)"
    using read_loop_progress[of s n "[]" "Suc m"] assms by auto
  obtain s' where "deadline_op t = Some (Inr (), s')" "steady (calls s')" "m \<le> moves (calls s')"
    using deadline_progress[OF r(2,3)] by blast
  then show ?thesis using r(1) by (simp add: read_exact_until_def bind_op_def return_op_def)
qed

lemma receive_progress:
  assumes "steady (calls s)" "incoming s = hb @ payload @ rest" "length hb = 24"
    and "header_decode hb = Inr h" "length payload = unat (payload_len h)"
    and "26 + length payload \<le> moves (calls s)"
  shows "\<exists>s'. receive_until s = Some (Inr \<lparr>fr_header = h, fr_payload = payload\<rparr>, s') \<and> incoming s' = rest"
proof -
  obtain b1 s1 where r1: "read_exact_until 24 s = Some (Inr b1, s1)" "steady (calls s1)"
    "Suc (length payload) \<le> moves (calls s1)"
    using read_exact_progress[of s 24 "Suc (length payload)"] assms by auto
  have i1: "b1 = hb" "incoming s1 = payload @ rest"
    using read_exact_Inr[OF r1(1)] assms(2,3) by (auto simp: append_eq_append_conv)
  obtain b2 s2 where r2: "read_exact_until (length payload) s1 = Some (Inr b2, s2)"
    using read_exact_progress[of s1 "length payload" 0] r1 i1 by auto
  have i2: "b2 = payload" "incoming s2 = rest"
    using read_exact_Inr[OF r2] i1 by (auto simp: append_eq_append_conv)
  have "receive_until s = Some (Inr \<lparr>fr_header = h, fr_payload = payload\<rparr>, s2)"
    using r1 r2 i1 i2 assms(4,5)
    by (simp add: receive_until_def bind_op_def lift_op_def return_op_def HEADER_SIZE_def)
  then show ?thesis using i2 by blast
qed

lemma pair_answer_Inr:
  "pair_answer s = Some (Inr u, s') \<Longrightarrow> \<exists>ack. receive_until s = Some (Inr ack, s')
     \<and> kind (fr_header ack) = HELLO_ACK \<and> sequence (fr_header ack) = 1 \<and> fr_payload ack = []"
  by (auto simp: pair_answer_def split: option.splits sum.splits prod.splits if_splits)

section \<open>Properties\<close>

text \<open>
  C8. A frame crosses a stream whole: if one side's send succeeds, the other side's receive returns
  exactly that frame and leaves exactly the bytes behind it, however the writes and the reads were
  cut and interrupted, as long as every read moves something and the deadline does not pass.
\<close>

theorem frame_crosses_stream:
  assumes "send_until f a = Some (Inr (), a')" and "written a = []"
    and "incoming b = written a' @ rest" and "steady (calls b)"
    and "26 + length (fr_payload f) \<le> moves (calls b)"
  shows "\<exists>b'. receive_until b = Some (Inr f, b') \<and> incoming b' = rest"
proof -
  obtain hb where v: "frame_validate f = Inr ()" and h: "header_encode (fr_header f) = Inr hb"
    and w: "written a' = hb @ fr_payload f"
    using send_Inr[OF assms(1)] assms(2) by auto
  have f: "\<lparr>fr_header = fr_header f, fr_payload = fr_payload f\<rparr> = f" by simp
  have "length (fr_payload f) = unat (payload_len (fr_header f))"
    using v by (auto simp: frame_validate_def try_r_Inr_iff split: if_splits)
  moreover have "header_decode hb = Inr (fr_header f)" using h header_codec.dec_iff by blast
  moreover have "length hb = 24" using h by (rule header_encode_length)
  ultimately show ?thesis
    using receive_progress[of b hb "fr_payload f" rest "fr_header f"] assms(3-5) w f by simp
qed

text \<open>
  A receive takes exactly one frame from the stream or fails: when it returns a frame, the
  bytes it took are a header that decodes to the frame's header and then as many payload bytes as
  that header announced, and nothing behind them was touched.
\<close>

theorem receive_takes_one_frame:
  "(case receive_until s of
      Some (Inr f, s') \<Rightarrow> (\<exists>hb. length hb = 24 \<and> header_decode hb = Inr (fr_header f)
          \<and> length (fr_payload f) = unat (payload_len (fr_header f))
          \<and> incoming s = hb @ fr_payload f @ incoming s' \<and> written s' = written s)
    | _ \<Rightarrow> True)"
  using receive_Inr[of s] by (auto split: option.splits sum.splits prod.splits)

text \<open>
  Pairing is completed only by the phone's acknowledgement: \<open>pair_until\<close> succeeds only if the
  HELLO with the credential was written whole and the very next frame is an empty HELLO_ACK with
  sequence 1; a phone that closes instead is reported as a refusal.
\<close>

theorem pairing_needs_acknowledgement:
  "(case pair_until credential s of
      Some (Inr _, s') \<Rightarrow> (\<exists>hello hb ack hb'. frame_new HELLO 1 credential = Inr hello
          \<and> header_encode (fr_header hello) = Inr hb
          \<and> written s' = written s @ hb @ credential
          \<and> header_decode hb' = Inr ack \<and> incoming s = hb' @ incoming s'
          \<and> kind ack = HELLO_ACK \<and> sequence ack = 1 \<and> payload_len ack = 0)
    | _ \<Rightarrow> True)
   \<and> (case receive_until s of
        Some (Inl (Io UnexpectedEof m), s') \<Rightarrow> pair_answer s = Some (Inl unauthorized, s')
      | _ \<Rightarrow> True)"
proof (intro conjI)
  show "case receive_until s of
        Some (Inl (Io UnexpectedEof m), s') \<Rightarrow> pair_answer s = Some (Inl unauthorized, s')
      | _ \<Rightarrow> True"
    by (auto simp: pair_answer_def split: option.splits sum.splits prod.splits error.splits io_kind.splits)
  show "case pair_until credential s of
      Some (Inr _, s') \<Rightarrow> (\<exists>hello hb ack hb'. frame_new HELLO 1 credential = Inr hello
          \<and> header_encode (fr_header hello) = Inr hb
          \<and> written s' = written s @ hb @ credential
          \<and> header_decode hb' = Inr ack \<and> incoming s = hb' @ incoming s'
          \<and> kind ack = HELLO_ACK \<and> sequence ack = 1 \<and> payload_len ack = 0)
    | _ \<Rightarrow> True"
  proof (cases "\<exists>u s'. pair_until credential s = Some (Inr u, s')")
    case True
    then obtain u s' where p: "pair_until credential s = Some (Inr u, s')" by blast
    then obtain hello s1 where a: "frame_new HELLO 1 credential = Inr hello"
      "send_until hello s = Some (Inr (), s1)" "pair_answer s1 = Some (Inr u, s')"
      by (auto simp: pair_until_def bind_op_Inr)
    obtain ack where k: "receive_until s1 = Some (Inr ack, s')"
      "kind (fr_header ack) = HELLO_ACK" "sequence (fr_header ack) = 1" "fr_payload ack = []"
      using pair_answer_Inr[OF a(3)] by blast
    have "fr_payload hello = credential"
      using a(1) by (auto simp: frame_new_def Let_def try_r_Inr_iff split: if_splits)
    then obtain hb where "header_encode (fr_header hello) = Inr hb"
      "written s1 = written s @ hb @ credential" "incoming s1 = incoming s"
      using send_Inr[OF a(2)] by auto
    moreover obtain hb' where "header_decode hb' = Inr (fr_header ack)" "incoming s1 = hb' @ incoming s'"
      "written s' = written s1" "payload_len (fr_header ack) = 0"
      using receive_Inr[OF k(1)] k(4) by (auto simp: unsigned_eq_0_iff)
    ultimately have "\<exists>hello hb ack hb'. frame_new HELLO 1 credential = Inr hello
          \<and> header_encode (fr_header hello) = Inr hb
          \<and> written s' = written s @ hb @ credential
          \<and> header_decode hb' = Inr ack \<and> incoming s = hb' @ incoming s'
          \<and> kind ack = HELLO_ACK \<and> sequence ack = 1 \<and> payload_len ack = 0"
      using k a(1) by metis
    then show ?thesis unfolding p option.case prod.case sum.case .
  next
    case False
    then show ?thesis by (auto split: option.splits sum.splits prod.splits)
  qed
qed

text \<open>
  Dialling stops at the first address that works: a success is the outcome of the first attempt
  that succeeded, every address before it failed to connect or to pair, and no deadline check before
  it had expired; with no address at all the dial fails.
\<close>

theorem dial_first_success:
  "dial_addresses left connect attempt i prev as = Inr x \<longleftrightarrow>
     (\<exists>j < length as. (\<exists>sock. connect (i + j) (as ! j) = Inr sock \<and> attempt (i + j) sock = Inr x)
        \<and> (\<forall>m < Suc j. left (i + m) = Inr ())
        \<and> (\<forall>m < j. case connect (i + m) (as ! m) of
             Inl _ \<Rightarrow> True | Inr sock \<Rightarrow> isl (attempt (i + m) sock)))"
proof (induction "as" arbitrary: i prev)
  case Nil
  show ?case by simp
next
  case (Cons a "as")
  show ?case
  proof (cases "left i")
    case (Inl e)
    then show ?thesis by (auto simp: All_less_Suc2)
  next
    case l: (Inr u)
    have sh: "i + 1 + m = i + Suc m" for m by simp
    have next': "dial_addresses left connect attempt (i + 1) e as = Inr x \<longleftrightarrow>
       (\<exists>j < length as. (\<exists>sock. connect (i + Suc j) (as ! j) = Inr sock \<and> attempt (i + Suc j) sock = Inr x)
        \<and> (\<forall>m < Suc j. left (i + Suc m) = Inr ())
        \<and> (\<forall>m < j. case connect (i + Suc m) (as ! m) of
             Inl _ \<Rightarrow> True | Inr sock \<Rightarrow> isl (attempt (i + Suc m) sock)))" for e
      unfolding Cons.IH sh by (rule refl)
    show ?thesis
    proof (cases "connect i a")
      case (Inl e)
      then show ?thesis using l next'[of e] by (simp add: Ex_less_Suc2 All_less_Suc2)
    next
      case c: (Inr sock)
      show ?thesis
      proof (cases "attempt i sock")
        case (Inl e)
        then show ?thesis using l c next'[of e] by (simp add: Ex_less_Suc2 All_less_Suc2)
      next
        case (Inr y)
        then show ?thesis using l c by (auto simp: Ex_less_Suc2 All_less_Suc2)
      qed
    qed
  qed
qed


lemma frame_crosses_stream_witness:
  "\<exists>b'. receive_until \<lparr>incoming = [65,77,66,49, 1,18, 0,0, 2,0,0,0, 0,0,0,0, 0,0,0,0,0,0,0,0] @ [9],
        written = [], calls = replicate 30 (Moves 5)\<rparr>
      = Some (Inr \<lparr>fr_header = \<lparr>kind = IDR_REQUEST, flags = 0, sequence = 2, payload_len = 0, pts_us = 0\<rparr>,
                  fr_payload = []\<rparr>, b')
    \<and> incoming b' = [9]"
proof -
  define f :: frame where "f = \<lparr>fr_header = \<lparr>kind = IDR_REQUEST, flags = 0, sequence = 2,
      payload_len = 0, pts_us = 0\<rparr>, fr_payload = []\<rparr>"
  define hb :: bytes where "hb = [65,77,66,49, 1,18, 0,0, 2,0,0,0, 0,0,0,0, 0,0,0,0,0,0,0,0]"
  define a where "a = \<lparr>incoming = [], written = [], calls = [Moves 24, Moves 1, Moves 1, Moves 1]\<rparr>"
  have "header_decode hb = Inr (fr_header f)"
    by (simp add: f_def hb_def header_decode_def wire_consts slice_def of_le16_def of_le32_def
        of_le64_def magic_def as_bytes_def utf8_def utf8_char_def chr_def validate_payload_size_def)
  then have e: "header_encode (fr_header f) = Inr hb" using header_codec.dec_iff by blast
  then have v: "frame_validate f = Inr ()" by (simp add: frame_validate_def f_def)
  have s: "send_until f a = Some (Inr (), \<lparr>incoming = [], written = hb, calls = []\<rparr>)"
    unfolding send_until_def
    by (simp add: bind_op_def lift_op_def v e) (simp add: bind_op_def a_def f_def hb_def write_loop.simps next_call_def
        deadline_op_def flush_op_def)
  have r: "\<exists>b'. receive_until \<lparr>incoming = hb @ [9], written = [], calls = replicate 30 (Moves 5)\<rparr> = Some (Inr f, b')
      \<and> incoming b' = [9]"
    by (rule frame_crosses_stream[OF s]) (simp_all add: a_def f_def steady_def moves_def list_all_iff)
  then show ?thesis unfolding f_def hb_def .
qed

lemma dial_first_success_witness:
  "dial_addresses (\<lambda>_. Inr ()) (\<lambda>i (a::nat). if i = 0 then Inl (Msg ''refused'') else Inr a)
     (\<lambda>_ sock. Inr (sock + 1)) 0 (Msg ''no addresses'') [7, 8] = Inr 9"
  unfolding dial_first_success by (intro exI[of _ 1]) (simp add: less_Suc_eq)

end
