(* ===== verification/F64.thy ===== *)
theory F64
  imports Complex_Main "HOL-Library.Log_Nat"
begin

text \<open>
  The part of IEEE binary64 and binary32 arithmetic the sources use: the correctly rounded
  result of an operation on rationals, to 53 or 24 significant bits with ties to even. All values
  the sources compute stay far inside the normal range, so exponents are unbounded here and there
  are no infinities or NaNs.
\<close>

definition round_half_even :: "rat \<Rightarrow> int" where
  "round_half_even x =
     (let f = \<lfloor>x\<rfloor>; d = x - of_int f
      in if d < 1 / 2 then f else if d > 1 / 2 then f + 1 else if even f then f else f + 1)"

definition pow2 :: "int \<Rightarrow> rat" where
  "pow2 k = (if 0 \<le> k then 2 ^ nat k else 1 / 2 ^ nat (- k))"

text \<open>The exponent of the leading bit of a positive rational.\<close>

definition lead_exponent :: "rat \<Rightarrow> int" where
  "lead_exponent q =
     (let (n, d) = quotient_of q; k = bitlen n - bitlen d
      in if q < pow2 k then k - 1 else k)"

text \<open>Rounding to \<open>p\<close> significant bits.\<close>

definition round_bits :: "int \<Rightarrow> rat \<Rightarrow> rat" where
  "round_bits p q =
     (if q = 0 then 0
      else let unit = pow2 (lead_exponent \<bar>q\<bar> - (p - 1))
           in sgn q * of_int (round_half_even (\<bar>q\<bar> / unit)) * unit)"

abbreviation f64_round :: "rat \<Rightarrow> rat" where "f64_round \<equiv> round_bits 53"
abbreviation f32_round :: "rat \<Rightarrow> rat" where "f32_round \<equiv> round_bits 24"

definition f64_div :: "rat \<Rightarrow> rat \<Rightarrow> rat" where "f64_div a b = f64_round (a / b)"
definition f64_sub :: "rat \<Rightarrow> rat \<Rightarrow> rat" where "f64_sub a b = f64_round (a - b)"

lemma round_bits_0 [simp]: "round_bits p 0 = 0"
  by (simp add: round_bits_def)

lemma f64_sub_self [simp]: "f64_sub a a = 0"
  by (simp add: f64_sub_def)

lemma pow2_pos [simp]: "0 < pow2 k"
  by (simp add: pow2_def)

lemma round_half_even_close: "\<bar>of_int (round_half_even x) - x\<bar> \<le> 1 / 2"
proof -
  define f where "f = \<lfloor>x\<rfloor>"
  have "of_int f \<le> x" "x < of_int f + 1" unfolding f_def by (simp, metis floor_correct of_int_1 of_int_add)
  then show ?thesis by (auto simp: round_half_even_def Let_def f_def[symmetric] abs_le_iff)
qed

text \<open>Rounding moves a value by at most half a unit in its last place.\<close>

lemma round_bits_close: "\<bar>round_bits p q - q\<bar> \<le> pow2 (lead_exponent \<bar>q\<bar> - (p - 1)) / 2"
proof (cases "q = 0")
  case True
  then show ?thesis using pow2_pos[of "lead_exponent 0 - (p - 1)"] by (simp add: less_imp_le)
next
  case False
  define u where "u = pow2 (lead_exponent \<bar>q\<bar> - (p - 1))"
  have u: "0 < u" by (simp add: u_def)
  define r where "r = of_int (round_half_even (\<bar>q\<bar> / u)) - \<bar>q\<bar> / u"
  have "\<bar>r\<bar> \<le> 1 / 2" unfolding r_def by (rule round_half_even_close)
  have "round_bits p q = sgn q * of_int (round_half_even (\<bar>q\<bar> / u)) * u"
    using False by (simp add: round_bits_def u_def Let_def)
  also have "\<dots> = sgn q * (r * u + \<bar>q\<bar>)" using u by (simp add: r_def field_simps)
  also have "\<dots> = sgn q * r * u + q" by (simp add: algebra_simps abs_mult_sgn)
  finally have "\<bar>round_bits p q - q\<bar> = \<bar>r\<bar> * u" using False u by (simp add: abs_mult abs_sgn_eq)
  also have "\<dots> \<le> 1 / 2 * u" using \<open>\<bar>r\<bar> \<le> 1 / 2\<close> u by (intro mult_right_mono) simp_all
  finally show ?thesis by (simp add: u_def)
qed


lemma pow2_powi: "pow2 k = 2 powi k"
  by (simp add: pow2_def power_int_def power_one_over)

lemma lead_exponent_le: "0 < q \<Longrightarrow> pow2 (lead_exponent q) \<le> q"
proof -
  assume q: "0 < q"
  obtain n d where nd: "quotient_of q = (n, d)" by (cases "quotient_of q")
  have d: "0 < d" using quotient_of_denom_pos[OF nd] .
  have qe: "q = of_int n / of_int d" using quotient_of_div[OF nd] .
  then have n: "0 < n" using q d by (simp add: zero_less_divide_iff)
  define bn where "bn = bitlen n"
  define bd where "bd = bitlen d"
  have "2 ^ nat (bn - 1) \<le> n" and b1: "1 \<le> bn"
    using bitlen_bounds[of n] bitlen_nonneg[of n] n bitlen_eq_zero_iff[of n]
    unfolding bn_def by (auto simp: le_less)
  then have "(of_int (2 ^ nat (bn - 1)) :: rat) \<le> of_int n" by (simp only: of_int_le_iff)
  then have ln: "2 powi (bn - 1) \<le> (of_int n :: rat)" using b1 by (simp add: power_int_def)
  have "d < 2 ^ nat bd" and b2: "0 \<le> bd"
    using bitlen_bounds[of d] bitlen_nonneg[of d] d unfolding bd_def by auto
  then have "(of_int d :: rat) < of_int (2 ^ nat bd)" by (simp only: of_int_less_iff)
  then have ld: "(of_int d :: rat) \<le> 2 powi bd" using b2 by (simp add: power_int_def)
  have "2 powi (bn - bd - 1) = (2 powi (bn - 1) / 2 powi bd :: rat)"
    by (metis diff_right_commute power_int_diff zero_neq_numeral)
  also have "\<dots> \<le> of_int n / of_int d" using ln ld d n by (intro frac_le) simp_all
  finally have "pow2 (bn - bd - 1) \<le> q" by (simp add: qe pow2_powi)
  then show ?thesis
    by (auto simp: lead_exponent_def nd Let_def bn_def[symmetric] bd_def[symmetric] not_less)
qed

text \<open>The relative error is at most \<open>2^-53\<close>.\<close>

lemma f64_round_rel: "\<bar>f64_round q - q\<bar> \<le> \<bar>q\<bar> / 2 ^ 53"
proof (cases "q = 0")
  case False
  have "pow2 (lead_exponent \<bar>q\<bar> - 52) = pow2 (lead_exponent \<bar>q\<bar>) / 2 ^ 52"
    by (simp add: pow2_powi power_int_diff)
  also have "\<dots> \<le> \<bar>q\<bar> / 2 ^ 52" using lead_exponent_le[of "\<bar>q\<bar>"] False
    by (intro divide_right_mono) simp_all
  finally show ?thesis using round_bits_close[of 53 q] by simp
qed simp

lemma f64_round_pos: "0 < q \<Longrightarrow> 0 < f64_round q"
proof -
  assume q: "0 < q"
  then have "q / 2 ^ 53 < q" by (simp add: field_simps)
  moreover have "\<bar>f64_round q - q\<bar> \<le> q / 2 ^ 53" using f64_round_rel[of q] q by simp
  ultimately show ?thesis by linarith
qed

lemma f64_round_minus: "f64_round (- q) = - f64_round q"
  by (simp add: round_bits_def Let_def)

lemma f64_round_eq_0_iff [simp]: "f64_round q = 0 \<longleftrightarrow> q = 0"
  using f64_round_pos[of q] f64_round_pos[of "- q"] f64_round_minus[of q]
  by (metis round_bits_0 less_irrefl linorder_neqE neg_0_less_iff_less neg_equal_0_iff_equal)

end
