(* ===== verification/Preview.thy ===== *)
theory Preview
  imports Wire F64
begin

text \<open>
  The preview record, \<open>preview.rs\<close>: a seqlock in a file that one process writes and another reads
  with no lock between them, and the downscaling that feeds it. The file is a map from offsets to
  bytes. The writer's positional writes are lists of atomic stores and the reader's positional
  reads are lists of atomic loads, both in ascending order: the unit is an aligned header word, or
  one byte of the pixels. An execution of the reader against the writer is a non-decreasing
  assignment of the number of stores already made to each load, so every interleaving is covered.
\<close>

section \<open>The record\<close>

definition PREVIEW_WIDTH :: nat where "PREVIEW_WIDTH = 320"
definition VERSION :: u32 where "VERSION = 1"
definition MAGIC :: bytes where "MAGIC = as_bytes (lit ''MBWP'')"
definition HEADER :: nat where "HEADER = 32"
definition CAPACITY :: nat where "CAPACITY = PREVIEW_WIDTH * 1024 * 4"

record pframe =
  pf_width :: nat
  pf_height :: nat
  pf_pixels :: bytes

definition preview_header :: "u64 \<Rightarrow> nat \<Rightarrow> nat \<Rightarrow> nat \<Rightarrow> bytes" where
  "preview_header seq width height len =
     MAGIC @ le32 VERSION @ le64 seq @ le32 (of_nat width) @ le32 (of_nat height)
       @ le32 (of_nat len) @ replicate 4 0"

record parsed =
  ps_seq :: u64
  ps_width :: nat
  ps_height :: nat
  ps_len :: nat

definition parse_header :: "bytes \<Rightarrow> parsed option" where
  "parse_header bs =
     (if slice 0 4 bs \<noteq> MAGIC \<or> of_le32 (slice 4 8 bs) \<noteq> VERSION then None
      else let seq = of_le64 (slice 8 16 bs);
               width = unat (of_le32 (slice 16 20 bs));
               height = unat (of_le32 (slice 20 24 bs));
               len = unat (of_le32 (slice 24 28 bs))
           in if width = 0 \<or> height = 0 \<or> len \<noteq> width * height * 4 \<or> len > CAPACITY then None
              else Some \<lparr>ps_seq = seq, ps_width = width, ps_height = height, ps_len = len\<rparr>)"

section \<open>Files, stores and loads\<close>

type_synonym content = "nat \<Rightarrow> u8"

definition store :: "nat \<times> bytes \<Rightarrow> content \<Rightarrow> content" where
  "store st f = (\<lambda>i. if fst st \<le> i \<and> i < fst st + length (snd st) then snd st ! (i - fst st) else f i)"

definition load :: "content \<Rightarrow> nat \<times> nat \<Rightarrow> bytes" where
  "load f u = map f [fst u..<fst u + snd u]"

text \<open>The aligned words of the header, in ascending order.\<close>

definition header_units :: "(nat \<times> nat) list" where
  "header_units = [(0, 4), (4, 4), (8, 8), (16, 4), (20, 4), (24, 4), (28, 4)]"

text \<open>\<open>write_at(file, 0, header)\<close> and \<open>write_at(file, HEADER, pixels)\<close> as stores.\<close>

definition header_stores :: "bytes \<Rightarrow> (nat \<times> bytes) list" where
  "header_stores bs = map (\<lambda>(off, n). (off, slice off (off + n) bs)) header_units"

definition body_stores :: "bytes \<Rightarrow> (nat \<times> bytes) list" where
  "body_stores px = map (\<lambda>i. (HEADER + i, [px ! i])) [0..<length px]"

section \<open>The producer\<close>

definition publishable :: "pframe \<Rightarrow> bool" where
  "publishable fr \<longleftrightarrow> length (pf_pixels fr) = pf_width fr * pf_height fr * 4
     \<and> length (pf_pixels fr) \<le> CAPACITY"

text \<open>One call of \<open>publish\<close>: the new sequence number and the stores, in program order.\<close>

definition publish :: "u64 \<Rightarrow> pframe \<Rightarrow> u64 \<times> (nat \<times> bytes) list" where
  "publish seq fr =
     (if \<not> publishable fr then (seq, [])
      else let seq1 = or (seq + 1) 1; seq2 = and (seq1 + 1) (not 1)
           in (seq2, header_stores (preview_header seq1 (pf_width fr) (pf_height fr) (length (pf_pixels fr)))
                @ body_stores (pf_pixels fr) @ [(8, le64 seq2)]))"

fun publish_all :: "u64 \<Rightarrow> pframe list \<Rightarrow> (nat \<times> bytes) list" where
  "publish_all seq [] = []"
| "publish_all seq (fr # frs) =
     (let (seq', stores) = publish seq fr in stores @ publish_all seq' frs)"

text \<open>The file after the first \<open>k\<close> stores.\<close>

definition file_after :: "content \<Rightarrow> (nat \<times> bytes) list \<Rightarrow> nat \<Rightarrow> content" where
  "file_after f ss k = fold store (take k ss) f"

section \<open>The consumer\<close>

text \<open>
  \<open>F k\<close> is the file after \<open>k\<close> stores, \<open>T n\<close> the number of stores the \<open>n\<close>-th load of this call sees.
\<close>

definition loads :: "(nat \<Rightarrow> content) \<Rightarrow> (nat \<Rightarrow> nat) \<Rightarrow> nat \<Rightarrow> (nat \<times> nat) list \<Rightarrow> bytes" where
  "loads F T n us = concat (map (\<lambda>j. load (F (T (n + j))) (us ! j)) [0..<length us])"

definition body_units :: "nat \<Rightarrow> (nat \<times> nat) list" where
  "body_units len = map (\<lambda>i. (HEADER + i, 1)) [0..<len]"

definition latest :: "(nat \<Rightarrow> content) \<Rightarrow> (nat \<Rightarrow> nat) \<Rightarrow> pframe option" where
  "latest F T =
     (case parse_header (loads F T 0 header_units) of
        None \<Rightarrow> None
      | Some parsed \<Rightarrow>
          if odd (unat (ps_seq parsed)) then None
          else let pixels = loads F T 7 (body_units (ps_len parsed))
               in case parse_header (loads F T (7 + ps_len parsed) header_units) of
                    None \<Rightarrow> None
                  | Some check \<Rightarrow>
                      if ps_seq check \<noteq> ps_seq parsed then None
                      else Some \<lparr>pf_width = ps_width parsed, pf_height = ps_height parsed,
                                pf_pixels = pixels\<rparr>)"

section \<open>What each store does to the words the reader looks at\<close>

definition seq_of :: "content \<Rightarrow> u64" where
  "seq_of f = of_le64 (load f (8, 8))"

text \<open>The record holds the frame: size words and pixels.\<close>

definition holds :: "content \<Rightarrow> pframe \<Rightarrow> bool" where
  "holds f fr \<longleftrightarrow> load f (16, 4) = le32 (of_nat (pf_width fr))
     \<and> load f (20, 4) = le32 (of_nat (pf_height fr))
     \<and> load f (24, 4) = le32 (of_nat (length (pf_pixels fr)))
     \<and> (\<forall>i < length (pf_pixels fr). f (HEADER + i) = pf_pixels fr ! i)"

definition blank :: "content \<Rightarrow> bool" where
  "blank f \<longleftrightarrow> load f (16, 4) = [0, 0, 0, 0]"

definition holds_last :: "content \<Rightarrow> pframe option \<Rightarrow> bool" where
  "holds_last f prev = (case prev of None \<Rightarrow> blank f | Some fr \<Rightarrow> publishable fr \<and> holds f fr)"

lemma load_store_same: "length bs = n \<Longrightarrow> load (store (a, bs) f) (a, n) = bs"
  by (rule nth_equalityI) (auto simp: load_def store_def)

lemma load_store_other: "a + length bs \<le> b \<or> b + n \<le> a \<Longrightarrow> load (store (a, bs) f) (b, n) = load f (b, n)"
  by (auto simp: load_def store_def)

lemma length_load [simp]: "length (load f u) = snd u"
  by (simp add: load_def)

lemma fold_stores_at:
  "(\<forall>st \<in> set ss. \<not> (fst st \<le> i \<and> i < fst st + length (snd st))) \<Longrightarrow> fold store ss f i = f i"
proof (induction ss arbitrary: f)
  case Nil
  then show ?case by simp
next
  case (Cons st ss)
  have "fold store (st # ss) f i = store st f i" using Cons by simp
  also have "\<dots> = f i" using Cons.prems by (auto simp: store_def)
  finally show ?case .
qed

lemma load_cong: "(\<And>i. a \<le> i \<Longrightarrow> i < a + n \<Longrightarrow> f i = g i) \<Longrightarrow> load f (a, n) = load g (a, n)"
  by (simp add: load_def)

lemma seq_of_cong: "(\<And>i. 8 \<le> i \<Longrightarrow> i < 16 \<Longrightarrow> f i = g i) \<Longrightarrow> seq_of f = seq_of g"
  unfolding seq_of_def using load_cong[of 8 8 f g] by simp

lemma holds_last_cong: "(\<And>i. 16 \<le> i \<Longrightarrow> f i = g i) \<Longrightarrow> holds_last f prev = holds_last g prev"
proof -
  assume a: "\<And>i. 16 \<le> i \<Longrightarrow> f i = g i"
  then have "load f (16, 4) = load g (16, 4)" "load f (20, 4) = load g (20, 4)"
      "load f (24, 4) = load g (24, 4)" "\<And>i. f (HEADER + i) = g (HEADER + i)"
    by (auto intro!: load_cong simp: HEADER_def)
  then show ?thesis by (auto simp: holds_last_def holds_def blank_def split: option.splits)
qed

lemma fold_body_stores:
  "fold store (map (\<lambda>i. (HEADER + i, [px ! i])) [0..<n]) f =
     (\<lambda>i. if HEADER \<le> i \<and> i < HEADER + n then px ! (i - HEADER) else f i)"
proof (induction n)
  case 0
  show ?case by (auto simp: fun_eq_iff)
next
  case (Suc n)
  let ?f = "\<lambda>i. if HEADER \<le> i \<and> i < HEADER + n then px ! (i - HEADER) else f i"
  have "fold store (map (\<lambda>i. (HEADER + i, [px ! i])) [0..<Suc n]) f = store (HEADER + n, [px ! n]) ?f"
    by (simp add: Suc)
  also have "\<dots> = (\<lambda>i. if HEADER \<le> i \<and> i < HEADER + Suc n then px ! (i - HEADER) else f i)"
    by (rule ext) (auto simp: store_def less_Suc_eq)
  finally show ?case .
qed


text \<open>The stores of one publication, with the two that change the sequence number in sight.\<close>

definition early_stores :: "(nat \<times> bytes) list" where
  "early_stores = [(0, MAGIC), (4, le32 VERSION)]"

definition late_stores :: "pframe \<Rightarrow> (nat \<times> bytes) list" where
  "late_stores fr = [(16, le32 (of_nat (pf_width fr))), (20, le32 (of_nat (pf_height fr))),
     (24, le32 (of_nat (length (pf_pixels fr)))), (28, replicate 4 0)] @ body_stores (pf_pixels fr)"

lemma length_MAGIC [simp]: "length MAGIC = 4"
  by (simp add: MAGIC_def str_len_def utf8_def utf8_char_def chr_def)

lemma length_preview_header: "length (preview_header s w h n) = 32"
  by (simp add: preview_header_def)

lemma header_stores_split:
  "header_stores (preview_header s w h n) =
     early_stores @ (8, le64 s) # [(16, le32 (of_nat w)), (20, le32 (of_nat h)),
       (24, le32 (of_nat n)), (28, replicate 4 0)]"
  by (simp add: header_stores_def header_units_def preview_header_def early_stores_def byte_simps)

definition stores_of :: "u64 \<Rightarrow> u64 \<Rightarrow> pframe \<Rightarrow> (nat \<times> bytes) list" where
  "stores_of s1 s2 fr = early_stores @ (8, le64 s1) # late_stores fr @ [(8, le64 s2)]"

lemma even_seq_words:
  assumes "2 * c + 2 < 2 ^ 64"
  shows "or (of_nat (2 * c) + 1) 1 = (of_nat (2 * c + 1) :: u64)"
    and "and (of_nat (2 * c + 1) + 1) (not 1) = (of_nat (2 * (c + 1)) :: u64)"
proof -
  have odd: "bit (of_nat (2 * c + 1) :: u64) 0" and even: "\<not> bit (of_nat (2 * (c + 1)) :: u64) 0"
    by (simp_all add: bit_0)
  show "or (of_nat (2 * c) + 1) 1 = (of_nat (2 * c + 1) :: u64)"
    using odd by (intro bit_word_eqI) (auto simp: bit_simps add.commute)
  have "of_nat (2 * c + 1) + 1 = (of_nat (2 * (c + 1)) :: u64)" by simp
  then show "and (of_nat (2 * c + 1) + 1) (not 1) = (of_nat (2 * (c + 1)) :: u64)"
    using even by (intro bit_word_eqI) (auto simp: bit_simps, metis gr0I)
qed

lemma publish_stores:
  assumes "publishable fr" "2 * c + 2 < 2 ^ 64"
  shows "publish (of_nat (2 * c)) fr
    = (of_nat (2 * (c + 1)), stores_of (of_nat (2 * c + 1)) (of_nat (2 * (c + 1))) fr)"
  unfolding publish_def Let_def even_seq_words[OF assms(2)] header_stores_split
  using assms(1) by (simp add: stores_of_def late_stores_def)

lemma length_stores_of: "length (stores_of s1 s2 fr) = 8 + length (pf_pixels fr)"
  by (simp add: stores_of_def early_stores_def late_stores_def body_stores_def)

lemma early_stores_low: "st \<in> set early_stores \<Longrightarrow> fst st + length (snd st) \<le> 8"
  by (auto simp: early_stores_def)

lemma late_stores_high: "st \<in> set (late_stores fr) \<Longrightarrow> 16 \<le> fst st"
  by (auto simp: late_stores_def body_stores_def HEADER_def)


section \<open>The timeline of one publication\<close>

lemma take_stores_of:
  "take k (stores_of s1 s2 fr) =
     (if k < 3 then take k early_stores
      else if k < 8 + length (pf_pixels fr)
      then early_stores @ (8, le64 s1) # take (k - 3) (late_stores fr)
      else stores_of s1 s2 fr)"
proof -
  have l: "length (late_stores fr) = 4 + length (pf_pixels fr)" "length early_stores = 2"
    by (simp_all add: late_stores_def body_stores_def early_stores_def)
  consider "k < 3" | "3 \<le> k" "k < 8 + length (pf_pixels fr)" | "8 + length (pf_pixels fr) \<le> k"
    by linarith
  then show ?thesis
  proof cases
    case 1
    then show ?thesis using l by (simp add: stores_of_def)
  next
    case 2
    then obtain j where k: "k = Suc (2 + j)" by (metis add_Suc le_Suc_ex numeral_3_eq_3 numeral_2_eq_2)
    then have "take k (stores_of s1 s2 fr) = early_stores @ (8, le64 s1) # take j (late_stores fr)"
      using 2 l by (simp add: stores_of_def)
    then show ?thesis using 2 k by simp
  next
    case 3
    then show ?thesis using length_stores_of[of s1 s2 fr] by simp
  qed
qed

lemma fold_early: "8 \<le> i \<Longrightarrow> fold store (take k early_stores) f i = f i"
proof (intro fold_stores_at ballI)
  fix st assume "8 \<le> i" "st \<in> set (take k early_stores)"
  then show "\<not> (fst st \<le> i \<and> i < fst st + length (snd st))"
    using early_stores_low[OF in_set_takeD] by fastforce
qed

lemma fold_late_low: "i < 16 \<Longrightarrow> fold store (take k (late_stores fr)) f i = f i"
proof (intro fold_stores_at ballI)
  fix st assume i: "i < 16" and "st \<in> set (take k (late_stores fr))"
  then have "16 \<le> fst st" by (intro late_stores_high[OF in_set_takeD])
  then show "\<not> (fst st \<le> i \<and> i < fst st + length (snd st))" using i by simp
qed

lemma seq_of_store: "seq_of (store (8, le64 s) f) = s"
  by (simp add: seq_of_def load_store_same)

lemma publication_seq:
  "seq_of (file_after f (stores_of s1 s2 fr) k) =
     (if k < 3 then seq_of f else if k < 8 + length (pf_pixels fr) then s1 else s2)"
proof -
  have "seq_of (fold store (take k early_stores) f) = seq_of f"
    by (rule seq_of_cong) (simp add: fold_early)
  moreover have "seq_of (fold store (take j (late_stores fr)) (store (8, le64 s1) g)) = s1" for j g
    by (subst seq_of_store[of s1 g, symmetric], rule seq_of_cong) (simp add: fold_late_low)
  ultimately show ?thesis
    unfolding file_after_def take_stores_of by (simp add: stores_of_def seq_of_store)
qed

lemma publication_early: "k < 3 \<Longrightarrow> holds_last (file_after f (stores_of s1 s2 fr) k) prev = holds_last f prev"
  by (rule holds_last_cong) (simp add: file_after_def take_stores_of fold_early)

lemma load_after:
  assumes "16 \<le> a" "a + n \<le> HEADER" "length bs = n" "\<forall>st \<in> set cs. a + n \<le> fst st"
  shows "load (store (8, le64 s2) (fold store (body_stores px) (fold store cs (store (a, bs) f)))) (a, n) = bs"
proof -
  have "load (store (8, le64 s2) (fold store (body_stores px) (fold store cs (store (a, bs) f)))) (a, n)
      = load (fold store (body_stores px) (fold store cs (store (a, bs) f))) (a, n)"
    using assms(1) by (intro load_store_other) simp
  also have "\<dots> = load (fold store cs (store (a, bs) f)) (a, n)"
    using assms(2) by (intro load_cong fold_stores_at) (auto simp: body_stores_def)
  also have "\<dots> = load (store (a, bs) f) (a, n)"
    using assms(4) by (intro load_cong fold_stores_at) auto
  also have "\<dots> = bs" using assms(3) by (rule load_store_same)
  finally show ?thesis .
qed

lemma publication_done:
  assumes "publishable fr" "8 + length (pf_pixels fr) \<le> k"
  shows "holds_last (file_after f (stores_of s1 s2 fr) k) (Some fr)"
proof -
  let ?w = "le32 (of_nat (pf_width fr))"
  let ?h = "le32 (of_nat (pf_height fr))"
  let ?n = "le32 (of_nat (length (pf_pixels fr)))"
  define g where "g = store (8, le64 s1) (fold store early_stores f)"
  define B where "B = fold store (body_stores (pf_pixels fr))"
  define f' where "f' = file_after f (stores_of s1 s2 fr) k"
  have f': "f' = store (8, le64 s2) (B (fold store [(20, ?h), (24, ?n), (28, replicate 4 0)] (store (16, ?w) g)))"
    using assms(2) length_stores_of[of s1 s2 fr]
    by (simp add: f'_def file_after_def stores_of_def late_stores_def g_def B_def)
  have f'2: "f' = store (8, le64 s2) (B (fold store [(24, ?n), (28, replicate 4 0)] (store (20, ?h) (store (16, ?w) g))))"
    by (simp add: f')
  have f'3: "f' = store (8, le64 s2) (B (fold store [(28, replicate 4 0)] (store (24, ?n) (store (20, ?h) (store (16, ?w) g)))))"
    by (simp add: f')
  have "load f' (16, 4) = ?w" unfolding f' B_def by (rule load_after) (simp_all add: HEADER_def)
  moreover have "load f' (20, 4) = ?h" unfolding f'2 B_def by (rule load_after) (simp_all add: HEADER_def)
  moreover have "load f' (24, 4) = ?n" unfolding f'3 B_def by (rule load_after) (simp_all add: HEADER_def)
  moreover have "f' (HEADER + i) = pf_pixels fr ! i" if "i < length (pf_pixels fr)" for i
    using that unfolding f' B_def body_stores_def fold_body_stores by (simp add: store_def HEADER_def)
  ultimately show ?thesis using assms(1) by (simp add: holds_last_def holds_def f'_def)
qed

section \<open>The timeline of all publications\<close>

text \<open>The sequence number and the last finished publication after \<open>k\<close> stores.\<close>

fun seq_steps :: "nat \<Rightarrow> pframe list \<Rightarrow> nat \<Rightarrow> nat" where
  "seq_steps c [] k = 2 * c"
| "seq_steps c (fr # frs) k =
     (if \<not> publishable fr then seq_steps c frs k
      else if k < 3 then 2 * c
      else if k < 8 + length (pf_pixels fr) then 2 * c + 1
      else seq_steps (c + 1) frs (k - (8 + length (pf_pixels fr))))"

fun last_published :: "pframe option \<Rightarrow> pframe list \<Rightarrow> nat \<Rightarrow> pframe option" where
  "last_published prev [] k = prev"
| "last_published prev (fr # frs) k =
     (if \<not> publishable fr then last_published prev frs k
      else if k < 8 + length (pf_pixels fr) then prev
      else last_published (Some fr) frs (k - (8 + length (pf_pixels fr))))"

lemma seq_steps_bounds: "2 * c \<le> seq_steps c frs k \<and> seq_steps c frs k \<le> 2 * (c + length frs)"
proof (induction frs arbitrary: c k)
  case (Cons fr frs)
  show ?case
    using Cons.IH[of c k] Cons.IH[of "c + 1" "k - (8 + length (pf_pixels fr))"] by auto
qed simp

lemma seq_steps_mono: "k \<le> k' \<Longrightarrow> seq_steps c frs k \<le> seq_steps c frs k'"
proof (induction frs arbitrary: c k k')
  case (Cons fr frs)
  have "seq_steps (c + 1) frs (k - (8 + length (pf_pixels fr)))
      \<le> seq_steps (c + 1) frs (k' - (8 + length (pf_pixels fr)))"
    using Cons.prems by (intro Cons.IH diff_le_mono)
  then show ?case
    using Cons.prems Cons.IH[of k k' c]
      seq_steps_bounds[of "c + 1" frs "k' - (8 + length (pf_pixels fr))"] by auto
qed simp

lemma last_published_eq:
  "seq_steps c frs k = seq_steps c frs k' \<Longrightarrow> even (seq_steps c frs k) \<Longrightarrow>
     last_published prev frs k = last_published prev frs k'"
proof (induction frs arbitrary: c k k' prev)
  case (Cons fr frs)
  let ?n = "8 + length (pf_pixels fr)"
  show ?case
    using Cons.prems Cons.IH[of c k k' prev] Cons.IH[of "c + 1" "k - ?n" "k' - ?n" "Some fr"]
      seq_steps_bounds[of "c + 1" frs "k' - ?n"] seq_steps_bounds[of "c + 1" frs "k - ?n"]
    by (auto split: if_splits)
qed simp

lemma last_published_in: "last_published prev frs k = Some fr \<Longrightarrow> prev = Some fr \<or> fr \<in> set frs \<and> publishable fr"
proof (induction frs arbitrary: prev k)
  case (Cons g frs)
  then show ?case by (auto split: if_splits)
qed simp


lemma file_after_append:
  "file_after f (xs @ ys) k =
     (if k < length xs then file_after f xs k
      else file_after (file_after f xs (length xs)) ys (k - length xs))"
  by (simp add: file_after_def)

lemma timeline:
  "holds_last f prev \<Longrightarrow> seq_of f = of_nat (2 * c) \<Longrightarrow> 2 * (c + length frs) < 2 ^ 64 \<Longrightarrow>
     seq_of (file_after f (publish_all (of_nat (2 * c)) frs) k) = of_nat (seq_steps c frs k)
     \<and> (even (seq_steps c frs k) \<longrightarrow>
          holds_last (file_after f (publish_all (of_nat (2 * c)) frs) k) (last_published prev frs k))"
proof (induction frs arbitrary: f prev c k)
  case Nil
  then show ?case by (simp add: file_after_def)
next
  case (Cons fr frs)
  show ?case
  proof (cases "publishable fr")
    case False
    then show ?thesis using Cons.IH[OF Cons.prems(1,2), of k] Cons.prems(3) by (simp add: publish_def)
  next
    case True
    let ?n = "8 + length (pf_pixels fr)"
    define s1 :: u64 where "s1 = of_nat (2 * c + 1)"
    define s2 :: u64 where "s2 = of_nat (2 * (c + 1))"
    define st where "st = stores_of s1 s2 fr"
    have all: "publish_all (of_nat (2 * c)) (fr # frs) = st @ publish_all s2 frs"
      using publish_stores[OF True, of c] Cons.prems(3) by (simp add: st_def s1_def s2_def)
    have len: "length st = ?n" by (simp add: st_def length_stores_of)
    define f1 where "f1 = file_after f st ?n"
    show ?thesis
    proof (cases "k < ?n")
      case k: True
      have sq: "seq_of (file_after f st k) = (if k < 3 then seq_of f else s1)"
        unfolding st_def publication_seq using k by simp
      show ?thesis
        unfolding all file_after_append len
        using k True sq Cons.prems(1,2) publication_early[of k f s1 s2 fr prev]
        by (auto simp: s1_def st_def)
    next
      case k: False
      have h: "holds_last f1 (Some fr)" unfolding f1_def st_def using True by (intro publication_done) simp_all
      have sq: "seq_of f1 = of_nat (2 * (c + 1))"
        unfolding f1_def st_def publication_seq by (simp add: s2_def)
      have "2 * (c + 1 + length frs) < 2 ^ 64" using Cons.prems(3) by simp
      note ih = Cons.IH[OF h sq this, of "k - ?n"]
      show ?thesis
        unfolding all file_after_append len
        using k True ih by (simp add: f1_def s2_def)
    qed
  qed
qed

section \<open>The reader against the timeline\<close>

lemma loads_header:
  "loads F T n header_units =
     load (F (T n)) (0, 4) @ load (F (T (n + 1))) (4, 4) @ load (F (T (n + 2))) (8, 8)
     @ load (F (T (n + 3))) (16, 4) @ load (F (T (n + 4))) (20, 4) @ load (F (T (n + 5))) (24, 4)
     @ load (F (T (n + 6))) (28, 4)"
  by (simp add: loads_def header_units_def upt_rec numeral_3_eq_3[symmetric])

lemma parse_loads:
  "parse_header (loads F T n header_units) = Some ps \<Longrightarrow>
     ps_seq ps = seq_of (F (T (n + 2)))
     \<and> ps_width ps = unat (of_le32 (load (F (T (n + 3))) (16, 4)))
     \<and> ps_height ps = unat (of_le32 (load (F (T (n + 4))) (20, 4)))
     \<and> ps_len ps = unat (of_le32 (load (F (T (n + 5))) (24, 4)))
     \<and> ps_width ps \<noteq> 0 \<and> ps_height ps \<noteq> 0 \<and> ps_len ps = ps_width ps * ps_height ps * 4"
  unfolding loads_header
  by (auto simp: parse_header_def Let_def byte_simps seq_of_def split: if_splits)

lemma loads_body: "loads F T n (body_units len) = map (\<lambda>i. F (T (n + i)) (HEADER + i)) [0..<len]"
proof -
  have l: "length (body_units len) = len" by (simp add: body_units_def)
  have "map (\<lambda>j. load (F (T (n + j))) (body_units len ! j)) [0..<len]
      = map (\<lambda>j. [F (T (n + j)) (HEADER + j)]) [0..<len]"
    by (simp add: load_def body_units_def)
  then show ?thesis unfolding loads_def l by (simp only: concat_map_singleton)
qed

lemma latest_SomeD:
  assumes "latest F T = Some fr"
  defines "n \<equiv> length (pf_pixels fr)"
  shows "even (unat (seq_of (F (T 2)))) \<and> seq_of (F (T (9 + n))) = seq_of (F (T 2))
    \<and> pf_width fr = unat (of_le32 (load (F (T 3)) (16, 4))) \<and> pf_width fr \<noteq> 0
    \<and> pf_height fr = unat (of_le32 (load (F (T 4)) (20, 4))) \<and> pf_height fr \<noteq> 0
    \<and> n = unat (of_le32 (load (F (T 5)) (24, 4)))
    \<and> n = pf_width fr * pf_height fr * 4
    \<and> pf_pixels fr = map (\<lambda>i. F (T (7 + i)) (HEADER + i)) [0..<n]"
proof -
  from assms(1) obtain ps ck where p: "parse_header (loads F T 0 header_units) = Some ps"
    "even (unat (ps_seq ps))" "parse_header (loads F T (7 + ps_len ps) header_units) = Some ck"
    "ps_seq ck = ps_seq ps"
    "fr = \<lparr>pf_width = ps_width ps, pf_height = ps_height ps,
       pf_pixels = loads F T 7 (body_units (ps_len ps))\<rparr>"
    by (auto simp: latest_def Let_def split: option.splits if_splits)
  then have n: "n = ps_len ps" by (simp add: n_def loads_body)
  have "7 + n + 2 = 9 + n" by simp
  then have s: "ps_seq ck = seq_of (F (T (9 + n)))" using parse_loads[OF p(3)] n by metis
  have f: "pf_width fr = ps_width ps" "pf_height fr = ps_height ps"
      "pf_pixels fr = map (\<lambda>i. F (T (7 + i)) (HEADER + i)) [0..<n]"
    using p(5) n by (simp_all add: loads_body)
  have h: "ps_seq ps = seq_of (F (T 2))" "ps_width ps = unat (of_le32 (load (F (T 3)) (16, 4)))"
      "ps_height ps = unat (of_le32 (load (F (T 4)) (20, 4)))" "ps_len ps = unat (of_le32 (load (F (T 5)) (24, 4)))"
      "ps_width ps \<noteq> 0" "ps_height ps \<noteq> 0" "ps_len ps = ps_width ps * ps_height ps * 4"
    using parse_loads[OF p(1), unfolded add_0] by blast+
  have "even (unat (seq_of (F (T 2))))" using p(2) h(1) by metis
  moreover have "seq_of (F (T (9 + n))) = seq_of (F (T 2))" using s p(4) h(1) by metis
  ultimately show ?thesis using f h(2-) n by metis
qed

lemma small_word32: "n \<le> CAPACITY \<Longrightarrow> unat (of_nat n :: u32) = n"
  by (simp add: unat_of_nat CAPACITY_def PREVIEW_WIDTH_def)

lemma publishable_small:
  "publishable fr \<Longrightarrow> unat (of_nat (pf_width fr) :: u32) \<noteq> 0 \<Longrightarrow> unat (of_nat (pf_height fr) :: u32) \<noteq> 0 \<Longrightarrow>
     pf_width fr \<le> CAPACITY \<and> pf_height fr \<le> CAPACITY"
proof -
  assume p: "publishable fr" and nz: "unat (of_nat (pf_width fr) :: u32) \<noteq> 0"
    "unat (of_nat (pf_height fr) :: u32) \<noteq> 0"
  then have "1 \<le> pf_width fr" "1 \<le> pf_height fr" by (auto simp: Suc_le_eq intro: gr0I)
  moreover have "pf_width fr * pf_height fr \<le> CAPACITY" using p by (simp add: publishable_def)
  ultimately show ?thesis
    by (metis mult.commute mult_le_mono2 nat_mult_1_right order_trans)
qed

text \<open>
  A constant even sequence number over the whole read: the reader returns what is in the record.
\<close>

lemma latest_stable:
  assumes l: "latest F T = Some fr" and m: "mono T"
    and h: "\<And>k. T 2 \<le> k \<Longrightarrow> k \<le> T (9 + length (pf_pixels fr)) \<Longrightarrow> holds_last (F k) prev"
  shows "prev = Some fr"
proof -
  define n where "n = length (pf_pixels fr)"
  note d = latest_SomeD[OF l, folded n_def]
  have at: "holds_last (F (T j)) prev" if "2 \<le> j" "j \<le> 9 + n" for j
    using that by (intro h monoD[OF m]) (simp_all add: n_def)
  obtain g where g: "prev = Some g"
  proof (cases prev)
    case None
    then have "load (F (T 3)) (16, 4) = [0, 0, 0, 0]" using at[of 3] by (simp add: holds_last_def blank_def)
    then have "pf_width fr = 0" using d by (simp add: of_le32_def)
    then show ?thesis using d by simp
  qed
  have p: "publishable g" using at[of 3] g by (simp add: holds_last_def)
  have "holds (F (T j)) g" if "2 \<le> j" "j \<le> 9 + n" for j
    using at[OF that] g by (simp add: holds_last_def)
  note hh = this[unfolded holds_def]
  have w: "pf_width fr = unat (of_nat (pf_width g) :: u32)" using d hh[of 3] by simp
  have ht: "pf_height fr = unat (of_nat (pf_height g) :: u32)" using d hh[of 4] by simp
  have nn: "n = unat (of_nat (length (pf_pixels g)) :: u32)" using d hh[of 5] by simp
  have "length (pf_pixels g) \<le> CAPACITY" using p by (simp add: publishable_def)
  then have n: "n = length (pf_pixels g)" using nn small_word32 by simp
  have "pf_width g \<le> CAPACITY \<and> pf_height g \<le> CAPACITY"
    using publishable_small[OF p] w ht d by simp
  then have wh: "pf_width fr = pf_width g" "pf_height fr = pf_height g" using w ht small_word32 by simp_all
  have "F (T (7 + i)) (HEADER + i) = pf_pixels g ! i" if "i < n" for i
    using hh[of "7 + i"] that n by simp
  then have "map (\<lambda>i. F (T (7 + i)) (HEADER + i)) [0..<n] = map ((!) (pf_pixels g)) [0..<n]" by simp
  moreover have "pf_pixels fr = map (\<lambda>i. F (T (7 + i)) (HEADER + i)) [0..<n]" using d by blast
  ultimately have "pf_pixels fr = pf_pixels g" unfolding n by (simp only: map_nth)
  then show ?thesis using wh g by simp
qed


text \<open>The record as \<open>create_path\<close> makes it: all bytes zero.\<close>

definition fresh_record :: content where "fresh_record = (\<lambda>_. 0)"

lemma fresh_record_holds: "holds_last fresh_record None" "seq_of fresh_record = of_nat (2 * 0)"
  by (simp_all add: holds_last_def blank_def fresh_record_def load_def seq_of_def of_le64_def upt_rec)

definition record_after :: "pframe list \<Rightarrow> nat \<Rightarrow> content" where
  "record_after frs k = file_after fresh_record (publish_all 0 frs) k"

lemma record_timeline:
  "2 * length frs < 2 ^ 64 \<Longrightarrow>
     seq_of (record_after frs k) = of_nat (seq_steps 0 frs k)
     \<and> (even (seq_steps 0 frs k) \<longrightarrow> holds_last (record_after frs k) (last_published None frs k))"
  using timeline[OF fresh_record_holds, of frs k] by (simp add: record_after_def)

lemma latest_cong: "(\<And>n. F (T n) = G (U n)) \<Longrightarrow> latest F T = latest G U"
proof -
  assume a: "\<And>n. F (T n) = G (U n)"
  have "loads F T = loads G U" by (intro ext) (simp add: loads_def a)
  then show ?thesis by (simp only: latest_def)
qed

lemma latest_quiet:
  assumes "publishable fr" "pf_width fr \<noteq> 0" "pf_height fr \<noteq> 0" "holds f fr"
    "load f (0, 4) = MAGIC" "load f (4, 4) = le32 VERSION" "even (unat (seq_of f))"
  shows "latest (\<lambda>_. f) T = Some fr"
proof -
  have c: "length (pf_pixels fr) = pf_width fr * pf_height fr * 4" "length (pf_pixels fr) \<le> CAPACITY"
    using assms(1) by (simp_all add: publishable_def)
  then have "pf_width fr * pf_height fr \<le> CAPACITY" by simp
  then have wh: "pf_width fr \<le> CAPACITY" "pf_height fr \<le> CAPACITY"
    using assms(2,3) by (metis dual_order.trans mult.commute nat_le_linear mult_le_mono2 nat_mult_1_right One_nat_def Suc_leI neq0_conv)+
  have hd: "parse_header (loads (\<lambda>_. f) T n header_units) = Some \<lparr>ps_seq = seq_of f,
      ps_width = pf_width fr, ps_height = pf_height fr, ps_len = length (pf_pixels fr)\<rparr>" for n
    unfolding loads_header parse_header_def
    using assms(2-6) c(2) small_word32[OF c(2)] small_word32[OF wh(1)] small_word32[OF wh(2)]
    by (simp add: byte_simps holds_def seq_of_def Let_def c(1)[symmetric])
  have "map (\<lambda>i. f (HEADER + i)) [0..<length (pf_pixels fr)] = map ((!) (pf_pixels fr)) [0..<length (pf_pixels fr)]"
    using assms(4) by (simp add: holds_def)
  then have "loads (\<lambda>_. f) T 7 (body_units (length (pf_pixels fr))) = pf_pixels fr"
    unfolding loads_body by (simp only: map_nth)
  then show ?thesis unfolding latest_def hd using assms(7) by simp
qed

text \<open>The magic and the version, once stored, stay.\<close>

definition stamped :: "content \<Rightarrow> bool" where
  "stamped f \<longleftrightarrow> load f (0, 4) = MAGIC \<and> load f (4, 4) = le32 VERSION"

lemma stamped_store_high: "8 \<le> a \<Longrightarrow> stamped (store (a, bs) f) = stamped f"
  by (simp add: stamped_def load_store_other)

lemma stamped_fold_high: "(\<forall>st \<in> set ss. 8 \<le> fst st) \<Longrightarrow> stamped (fold store ss f) = stamped f"
proof (induction ss arbitrary: f)
  case (Cons st ss)
  then show ?case by (cases st) (simp add: stamped_store_high)
qed simp

lemma stamped_early: "stamped (fold store early_stores f)"
  by (simp add: stamped_def early_stores_def load_store_same load_store_other)

lemma stamped_early_keep: "stamped f \<Longrightarrow> stamped (fold store (take k early_stores) f)"
proof -
  assume f: "stamped f"
  consider "k = 0" | "k = 1" | "2 \<le> k" by linarith
  then show ?thesis
  proof cases
    case 2
    then show ?thesis using f
      by (simp add: stamped_def early_stores_def load_store_same load_store_other)
  next
    case 3
    then show ?thesis using stamped_early by (simp add: early_stores_def)
  qed (use f in simp)
qed

lemma publication_stamped:
  "stamped f \<or> 3 \<le> k \<Longrightarrow> stamped (file_after f (stores_of s1 s2 fr) k)"
proof -
  have late: "stamped (fold store (take j (late_stores fr)) g) = stamped g" for j g
    by (rule stamped_fold_high) (use late_stores_high[OF in_set_takeD] in fastforce)
  have all: "stamped (fold store (late_stores fr) g) = stamped g" for g
    using late[of "length (late_stores fr)" g] by simp
  assume "stamped f \<or> 3 \<le> k"
  then show ?thesis
    unfolding file_after_def take_stores_of
    using stamped_early[of f] stamped_early_keep[of f k]
    by (auto simp: stores_of_def late all stamped_store_high)
qed

lemma timeline_stamped:
  "(prev \<noteq> None \<longrightarrow> stamped f) \<Longrightarrow> 2 * (c + length frs) < 2 ^ 64 \<Longrightarrow>
     last_published prev frs k \<noteq> None \<Longrightarrow>
     stamped (file_after f (publish_all (of_nat (2 * c)) frs) k)"
proof (induction frs arbitrary: f prev c k)
  case Nil
  then show ?case by (simp add: file_after_def)
next
  case (Cons fr frs)
  show ?case
  proof (cases "publishable fr")
    case False
    then show ?thesis
      using Cons.IH[OF Cons.prems(1), of c k] Cons.prems(2,3) by (simp add: publish_def)
  next
    case True
    let ?n = "8 + length (pf_pixels fr)"
    define st where "st = stores_of (of_nat (2 * c + 1)) (of_nat (2 * (c + 1))) fr"
    have all: "publish_all (of_nat (2 * c)) (fr # frs) = st @ publish_all (of_nat (2 * (c + 1))) frs"
      using publish_stores[OF True, of c] Cons.prems(2) by (simp add: st_def)
    have len: "length st = ?n" by (simp add: st_def length_stores_of)
    show ?thesis
    proof (cases "k < ?n")
      case k: True
      then show ?thesis
        using Cons.prems(1,3) True
        unfolding all file_after_append len by (auto simp: st_def intro: publication_stamped)
    next
      case k: False
      have "stamped (file_after f st ?n)" unfolding st_def by (rule publication_stamped) simp
      then have "stamped (file_after (file_after f st ?n) (publish_all (of_nat (2 * (c + 1))) frs) (k - ?n))"
        using Cons.prems k True by (intro Cons.IH[of "Some fr"]) auto
      then show ?thesis unfolding all file_after_append len using k by simp
    qed
  qed
qed

lemma timeline_end:
  "2 * (c + length frs) < 2 ^ 64 \<Longrightarrow>
     even (seq_steps c frs (length (publish_all (of_nat (2 * c)) frs)))
     \<and> last_published prev frs (length (publish_all (of_nat (2 * c)) frs))
         = (if filter publishable frs = [] then prev else Some (last (filter publishable frs)))"
proof (induction frs arbitrary: c prev)
  case (Cons fr frs)
  show ?case
  proof (cases "publishable fr")
    case False
    then show ?thesis using Cons.IH[of c prev] Cons.prems by (simp add: publish_def)
  next
    case True
    have all: "publish_all (of_nat (2 * c)) (fr # frs)
        = stores_of (of_nat (2 * c + 1)) (of_nat (2 * (c + 1))) fr @ publish_all (of_nat (2 * (c + 1))) frs"
      using publish_stores[OF True, of c] Cons.prems by simp
    have "2 * (c + 1 + length frs) < 2 ^ 64" using Cons.prems by simp
    from Cons.IH[OF this, of "Some fr"] show ?thesis
      unfolding all using True by (simp add: length_stores_of)
  qed
qed simp

lemma latest_at_rest:
  assumes "2 * length frs < 2 ^ 64" "filter publishable frs \<noteq> []"
    and "fr = last (filter publishable frs)" "pf_width fr \<noteq> 0" "pf_height fr \<noteq> 0"
  shows "latest (\<lambda>_. record_after frs (length (publish_all 0 frs))) T = Some fr"
proof -
  let ?k = "length (publish_all 0 frs)"
  have e: "even (seq_steps 0 frs ?k)" and l: "last_published None frs ?k = Some fr"
    using timeline_end[of 0 frs None] assms(1-3) by simp_all
  have h: "holds_last (record_after frs ?k) (Some fr)" and q: "seq_of (record_after frs ?k) = of_nat (seq_steps 0 frs ?k)"
    using record_timeline[OF assms(1), of ?k] e l by simp_all
  have "stamped (record_after frs ?k)"
    using timeline_stamped[of None fresh_record 0 frs ?k] assms(1) l by (simp add: record_after_def)
  moreover have "even (unat (seq_of (record_after frs ?k)))"
    using q e seq_steps_bounds[of 0 frs ?k] assms(1) by (simp add: unat_of_nat)
  ultimately show ?thesis
    using h assms(4,5) by (intro latest_quiet) (simp_all add: holds_last_def stamped_def)
qed

section \<open>Properties\<close>

text \<open>
  C3. The preview is never torn: whatever frames a writer publishes into a fresh record and
  however its stores interleave with the loads of one \<open>latest\<close> call, a frame the reader returns
  is one of the published frames, whole (both its size and every pixel), namely the one whose
  publication was the last one finished when the reader loaded the sequence number.
\<close>

theorem preview_never_torn:
  assumes "2 * length frs < 2 ^ 64" and "mono T" and "latest (record_after frs) T = Some fr"
  shows "fr \<in> set frs \<and> publishable fr \<and> last_published None frs (T 2) = Some fr"
proof -
  let ?F = "record_after frs"
  let ?e = "T (9 + length (pf_pixels fr))"
  have even: "even (unat (seq_of (?F (T 2))))" and same: "seq_of (?F ?e) = seq_of (?F (T 2))"
    using latest_SomeD[OF assms(3)] by blast+
  have u: "unat (seq_of (?F k)) = seq_steps 0 frs k" for k
    using record_timeline[OF assms(1), of k] seq_steps_bounds[of 0 frs k] assms(1)
    by (simp add: unat_of_nat)
  have e0: "even (seq_steps 0 frs (T 2))" and eq: "seq_steps 0 frs ?e = seq_steps 0 frs (T 2)"
    using even same u by metis+
  have "holds_last (?F k) (last_published None frs (T 2))" if "T 2 \<le> k" "k \<le> ?e" for k
  proof -
    have "seq_steps 0 frs k = seq_steps 0 frs (T 2)"
      using seq_steps_mono[OF that(1), of 0 frs] seq_steps_mono[OF that(2), of 0 frs] eq by simp
    then show ?thesis
      using record_timeline[OF assms(1), of k] last_published_eq[of 0 frs k "T 2" None] e0 by simp
  qed
  then have l: "last_published None frs (T 2) = Some fr"
    by (rule latest_stable[OF assms(3,2)])
  then show ?thesis using last_published_in[OF l] by simp
qed


lemma preview_never_torn_witness:
  "let fr = \<lparr>pf_width = 1, pf_height = 1, pf_pixels = [7, 8, 9, 255]\<rparr>
   in latest (record_after [fr]) (\<lambda>_. length (publish_all 0 [fr])) = Some fr
     \<and> last_published None [fr] (length (publish_all 0 [fr])) = Some fr"
proof -
  define fr :: pframe where "fr = \<lparr>pf_width = 1, pf_height = 1, pf_pixels = [7, 8, 9, 255]\<rparr>"
  have p: "publishable fr" by (simp add: publishable_def fr_def CAPACITY_def PREVIEW_WIDTH_def)
  let ?k = "length (publish_all 0 [fr])"
  have "latest (\<lambda>_. record_after [fr] ?k) (\<lambda>_. ?k) = Some fr"
    by (rule latest_at_rest) (use p in \<open>simp_all add: fr_def\<close>)
  then have l: "latest (record_after [fr]) (\<lambda>_. ?k) = Some fr"
    by (subst latest_cong[where G = "\<lambda>_. record_after [fr] ?k" and U = "\<lambda>_. ?k"]) simp_all
  have "mono (\<lambda>_ :: nat. ?k)" by (simp add: mono_def)
  moreover have "2 * length [fr] < 2 ^ 64" by simp
  ultimately show ?thesis
    unfolding Let_def fr_def[symmetric] using preview_never_torn[OF _ _ l] l by blast
qed

text \<open>
  A published frame becomes visible: once the writer is at rest, a reader gets exactly the
  last frame that was publishable, whatever was published before and however many frames were
  skipped for their size.
\<close>

theorem preview_delivers_last:
  assumes "2 * length frs < 2 ^ 64" "filter publishable frs \<noteq> []"
    and "pf_width (last (filter publishable frs)) \<noteq> 0" "pf_height (last (filter publishable frs)) \<noteq> 0"
    and "\<And>n. T n = length (publish_all 0 frs)"
  shows "latest (record_after frs) T = Some (last (filter publishable frs))"
proof -
  have "latest (record_after frs) T = latest (\<lambda>_. record_after frs (length (publish_all 0 frs))) T"
    by (rule latest_cong) (simp add: assms(5))
  then show ?thesis using latest_at_rest[OF assms(1,2) refl assms(3,4)] by simp
qed

lemma preview_delivers_last_witness:
  "\<exists>frs. length frs = 2
     \<and> latest (record_after frs) (\<lambda>_. length (publish_all 0 frs))
         = Some \<lparr>pf_width = 1, pf_height = 1, pf_pixels = [7, 8, 9, 255]\<rparr>"
proof -
  define fr :: pframe where "fr = \<lparr>pf_width = 1, pf_height = 1, pf_pixels = [7, 8, 9, 255]\<rparr>"
  define frs where "frs = [fr, \<lparr>pf_width = 5, pf_height = 5, pf_pixels = []\<rparr>]"
  have f: "filter publishable frs = [fr]" and l: "length frs = 2"
    by (simp_all add: frs_def fr_def publishable_def CAPACITY_def PREVIEW_WIDTH_def)
  have "pf_width fr \<noteq> 0" "pf_height fr \<noteq> 0" by (simp_all add: fr_def)
  then have "latest (record_after frs) (\<lambda>_. length (publish_all 0 frs)) = Some fr"
    using preview_delivers_last[of frs "\<lambda>_. length (publish_all 0 frs)"] f l by simp
  then show ?thesis using l unfolding fr_def by blast
qed

section \<open>Downscaling\<close>

text \<open>Binary32 arithmetic: the literals are rounded, and so is every operation.\<close>

definition yuv_clamp :: "rat \<Rightarrow> u8" where
  "yuv_clamp v =
     (let r = (if 0 \<le> v then \<lfloor>v + 1 / 2\<rfloor> else - \<lfloor>- v + 1 / 2\<rfloor>)
      in word_of_int (min 255 (max 0 r)))"

definition f32_mul :: "rat \<Rightarrow> rat \<Rightarrow> rat" where "f32_mul a b = f32_round (a * b)"
definition f32_add :: "rat \<Rightarrow> rat \<Rightarrow> rat" where "f32_add a b = f32_round (a + b)"

definition yuv_to_rgb :: "u8 \<Rightarrow> u8 \<Rightarrow> u8 \<Rightarrow> u8 \<times> u8 \<times> u8" where
  "yuv_to_rgb y u v =
     (let luma = f32_mul (of_int (uint y) - 16) (f32_round (1164383 / 1000000));
          cu = of_int (uint u) - 128; cv = of_int (uint v) - 128
      in (yuv_clamp (f32_add luma (f32_mul (f32_round (1792741 / 1000000)) cv)),
          yuv_clamp (f32_add (f32_add luma (- f32_mul (f32_round (213249 / 1000000)) cu))
                       (- f32_mul (f32_round (532909 / 1000000)) cv)),
          yuv_clamp (f32_add luma (f32_mul (f32_round (2112402 / 1000000)) cu))))"

text \<open>\<open>src.get(i..j)\<close>\<close>

definition get_range :: "nat \<Rightarrow> nat \<Rightarrow> 'a list \<Rightarrow> 'a list option" where
  "get_range i j xs = (if i \<le> j \<and> j \<le> length xs then Some (slice i j xs) else None)"

text \<open>One output pixel after the other, row by row; sizes are far below the word size.\<close>

definition downscale ::
  "(nat \<Rightarrow> nat \<Rightarrow> bytes) \<Rightarrow> nat \<Rightarrow> nat \<Rightarrow> nat \<Rightarrow> nat \<times> nat \<times> bytes" where
  "downscale pixel width height step =
     (let step = max 1 step; out_width = width div step; out_height = height div step
      in (out_width, out_height,
          concat (map (\<lambda>oy. concat (map (\<lambda>ox.
            pixel (ox * step + step div 2) (oy * step + step div 2)) [0..<out_width])) [0..<out_height])))"

definition yuyv_to_rgba :: "bytes \<Rightarrow> nat \<Rightarrow> nat \<Rightarrow> nat \<Rightarrow> nat \<Rightarrow> nat \<times> nat \<times> bytes" where
  "yuyv_to_rgba src width height stride =
     downscale (\<lambda>x y.
       let index = y * stride + x div 2 * 4;
           (luma, u, v) = (case get_range index (index + 4) src of
               Some pixel \<Rightarrow> (pixel ! (if x mod 2 = 0 then 0 else 2), pixel ! 1, pixel ! 3)
             | None \<Rightarrow> (16, 128, 128));
           (r, g, b) = yuv_to_rgb luma u v
       in [r, g, b, 255]) width height"

definition rgba_to_rgba :: "bytes \<Rightarrow> nat \<Rightarrow> nat \<Rightarrow> nat \<Rightarrow> nat \<Rightarrow> nat \<times> nat \<times> bytes" where
  "rgba_to_rgba src width height stride =
     downscale (\<lambda>x y.
       let index = y * stride + x * 4
       in case get_range index (index + 4) src of Some pixel \<Rightarrow> pixel | None \<Rightarrow> [0, 0, 0, 255])
       width height"

definition step_for :: "nat \<Rightarrow> nat" where
  "step_for width = (if width \<le> PREVIEW_WIDTH then 1 else (width + PREVIEW_WIDTH - 1) div PREVIEW_WIDTH)"

text \<open>\<open>windows\<close> is \<open>cfg!(windows)\<close>.\<close>

definition from_sink :: "bool \<Rightarrow> bytes \<Rightarrow> nat \<Rightarrow> nat \<Rightarrow> nat \<Rightarrow> pframe" where
  "from_sink windows bs width height stride =
     (let step = step_for width;
          (w, h, px) = (if windows then rgba_to_rgba bs width height stride step
                        else yuyv_to_rgba bs width height stride step)
      in \<lparr>pf_width = w, pf_height = h, pf_pixels = px\<rparr>)"

lemma length_concat_const: "(\<And>x. x \<in> set xs \<Longrightarrow> length (g x) = n) \<Longrightarrow> length (concat (map g xs)) = length xs * n"
  by (induction xs) simp_all

lemma downscale_shape:
  assumes "\<And>x y. length (pixel x y) = 4" "0 < step"
  shows "downscale pixel width height step = (w, h, px) \<Longrightarrow>
    w = width div step \<and> h = height div step \<and> length px = w * h * 4"
  using assms
  by (auto simp: downscale_def Let_def max_def length_concat_const[where n = 4]
      length_concat_const[where n = "width div step * 4"] mult.assoc mult.left_commute)

lemma step_for_width: "0 < step_for width \<and> width div step_for width \<le> PREVIEW_WIDTH"
proof (cases "width \<le> PREVIEW_WIDTH")
  case False
  define s where "s = (width + 319) div 320"
  have s: "step_for width = s" using False by (simp add: step_for_def s_def PREVIEW_WIDTH_def)
  have "width \<le> 320 * s" and p: "0 < s" using False by (simp_all add: s_def PREVIEW_WIDTH_def)
  then have "width div s \<le> 320 * s div s" by (intro div_le_mono)
  then show ?thesis using p s by (simp add: PREVIEW_WIDTH_def)
qed (simp add: step_for_def)

text \<open>
  What the worker makes of a sink frame of any size, stride and content (short buffers
  included) is at most 320 pixels wide and well formed, so the record takes it as long as it has
  at most 1024 rows; and a frame that already fits is kept at its size.
\<close>

theorem from_sink_publishable:
  "(let fr = from_sink windows bs width height stride in
      length (pf_pixels fr) = pf_width fr * pf_height fr * 4
      \<and> pf_width fr \<le> PREVIEW_WIDTH \<and> pf_height fr \<le> height
      \<and> (publishable fr \<or> 1024 < pf_height fr)
      \<and> (320 < width \<or> (pf_width fr = width \<and> pf_height fr = height)))"
proof -
  let ?s = "step_for width"
  obtain w h px where d: "(if windows then rgba_to_rgba bs width height stride ?s
      else yuyv_to_rgba bs width height stride ?s) = (w, h, px)" by (metis prod_cases3)
  have g: "length (case get_range i (i + 4) bs of Some p \<Rightarrow> p | None \<Rightarrow> [0, 0, 0, 255]) = 4" for i
    by (simp add: get_range_def byte_simps)
  have shape: "w = width div ?s \<and> h = height div ?s \<and> length px = w * h * 4"
  proof (cases windows)
    case True
    then show ?thesis using d step_for_width[of width]
      unfolding rgba_to_rgba_def Let_def by (intro downscale_shape[OF g]) simp_all
  next
    case False
    then show ?thesis using d step_for_width[of width]
      unfolding yuyv_to_rgba_def by (intro downscale_shape) (auto simp: Let_def split: prod.split)
  qed
  have w: "w \<le> 320" using shape step_for_width[of width] by (simp add: PREVIEW_WIDTH_def)
  have "length px \<le> 320 * 1024 * 4" if "h \<le> 1024"
    using mult_le_mono[OF w that] shape by linarith
  moreover have "h \<le> height" using shape by simp
  moreover have "w = width \<and> h = height" if "width \<le> 320"
    using that shape by (simp add: step_for_def PREVIEW_WIDTH_def)
  ultimately show ?thesis
    using d shape w
    by (auto simp: from_sink_def Let_def publishable_def CAPACITY_def PREVIEW_WIDTH_def not_less)
qed

lemma from_sink_publishable_witness:
  "publishable (from_sink True [1, 2, 3, 4] 1 1 4)"
proof -
  have "pf_height (from_sink True [1, 2, 3, 4] 1 1 4) = 1"
    by (simp add: from_sink_def rgba_to_rgba_def downscale_def step_for_def PREVIEW_WIDTH_def Let_def)
  then show ?thesis using from_sink_publishable[of True "[1, 2, 3, 4]" 1 1 4] by (simp add: Let_def)
qed

end
