(* ===== verification/Ini.thy ===== *)
theory Ini
  imports Text_Lib "HOL-Library.Sublist"
begin

text \<open>
  The settings file syntax of \<open>settings.rs\<close>: \<open>encode_ini\<close> and \<open>decode_ini\<close> for one value,
  \<open>parse_ini\<close> for the \<open>[General]\<close> section, and the line surgery \<open>Store::save\<close> does on the old
  file. The known keys are an argument. A \<open>BTreeMap\<close> from keys to values is a partial map.
\<close>

abbreviation parse_u32_hex :: "ustr \<Rightarrow> nat option" where
  "parse_u32_hex \<equiv> parse_uint 16 4294967296"

section \<open>One value\<close>

definition simple_escape :: "scalar \<Rightarrow> scalar option" where
  "simple_escape e =
     (if e = chr (CHR ''n'') then Some 10
      else if e = chr (CHR ''r'') then Some 13
      else if e = chr (CHR ''t'') then Some 9
      else if e = chr (CHR ''a'') then Some 7
      else if e = chr (CHR ''b'') then Some 8
      else if e = chr (CHR ''f'') then Some 12
      else if e = chr (CHR ''v'') then Some 11
      else if e = 92 then Some 92
      else if e = 34 then Some 34
      else None)"

function decode_chars :: "bool \<Rightarrow> ustr \<Rightarrow> ustr \<Rightarrow> error + ustr" where
  "decode_chars quoted result [] =
     (if quoted then Inl (Msg ''unterminated INI quote'') else Inr result)"
| "decode_chars quoted result (c # cs) =
     (if c = 34 then decode_chars (\<not> quoted) result cs
      else if c = 92 then
        (case cs of
           [] \<Rightarrow> Inl (Msg ''truncated INI escape'')
         | e # r \<Rightarrow>
             if e = chr (CHR ''x'') then
               (case parse_u32_hex (takeWhile is_ascii_hexdigit r) of
                  None \<Rightarrow> Inl (Msg ''invalid number'')
                | Some n \<Rightarrow>
                    if is_scalar n
                    then decode_chars quoted (result @ [n]) (dropWhile is_ascii_hexdigit r)
                    else Inl (Msg ''invalid INI character''))
             else (case simple_escape e of
                     Some ch \<Rightarrow> decode_chars quoted (result @ [ch]) r
                   | None \<Rightarrow> Inl (Msg ''unsupported INI escape in saved setting'')))
      else decode_chars quoted (result @ [c]) cs)"
  by pat_completeness auto
termination
  by (relation "measure (\<lambda>(_, _, cs). length cs)")
    (auto intro: le_imp_less_Suc le_SucI length_dropWhile_le)

definition decode_ini :: "ustr \<Rightarrow> error + ustr" where
  "decode_ini value =
     try_r (decode_chars False [] value) (\<lambda>result.
       if starts_with [64, 64] result then Inr (tl result)
       else if starts_with [64] result then Inl (Msg ''unsupported Qt variant in scalar setting'')
       else Inr result)"

text \<open>The flag says whether the last character was written as a hexadecimal escape.\<close>

fun encode_chars :: "bool \<Rightarrow> ustr \<Rightarrow> ustr" where
  "encode_chars esc [] = []"
| "encode_chars esc (c # cs) =
     (if c = 92 \<or> c = 34 then 92 # c # encode_chars False cs
      else if c = 10 then 92 # chr (CHR ''n'') # encode_chars False cs
      else if c = 13 then 92 # chr (CHR ''r'') # encode_chars False cs
      else if c < 32 \<or> esc \<and> is_ascii_hexdigit c
      then 92 # chr (CHR ''x'') # show_hex c @ encode_chars True cs
      else c # encode_chars False cs)"

definition encode_ini :: "ustr \<Rightarrow> ustr" where
  "encode_ini value =
     (let value = (if starts_with [64] value then 64 # value else value)
      in 34 # encode_chars False value @ [34])"

lemma chr_values:
  "chr (CHR ''n'') = 110" "chr (CHR ''r'') = 114" "chr (CHR ''t'') = 116" "chr (CHR ''a'') = 97"
  "chr (CHR ''b'') = 98" "chr (CHR ''f'') = 102" "chr (CHR ''v'') = 118" "chr (CHR ''x'') = 120"
  by (simp_all add: chr_def)

lemma hex_prefix:
  assumes "\<And>d ds. rest = d # ds \<Longrightarrow> \<not> is_ascii_hexdigit d"
  shows "takeWhile is_ascii_hexdigit (show_hex n @ rest) = show_hex n"
    and "dropWhile is_ascii_hexdigit (show_hex n @ rest) = rest"
proof -
  have h: "\<forall>x \<in> set (show_hex n). is_ascii_hexdigit x" using show_hex_hexdigit by blast
  have "takeWhile is_ascii_hexdigit rest = []" "dropWhile is_ascii_hexdigit rest = rest"
    using assms by (cases rest; simp)+
  then show "takeWhile is_ascii_hexdigit (show_hex n @ rest) = show_hex n"
    and "dropWhile is_ascii_hexdigit (show_hex n @ rest) = rest"
    using h by (simp_all add: takeWhile_append2 dropWhile_append2)
qed

lemma parse_show_hex: "is_scalar n \<Longrightarrow> parse_u32_hex (show_hex n) = Some n"
  by (rule parse_uint_show) (auto simp: is_scalar_def)

lemma decode_encode_chars:
  "\<forall>c \<in> set cs. is_scalar c \<Longrightarrow>
     decode_chars True acc (encode_chars esc cs @ 34 # rest) = decode_chars False (acc @ cs) rest"
proof (induction cs arbitrary: acc esc)
  case Nil
  show ?case by simp
next
  case (Cons c cs)
  have ih: "decode_chars True (acc @ [c]) (encode_chars e cs @ 34 # rest)
      = decode_chars False (acc @ c # cs) rest" for e
    using Cons.IH[of "acc @ [c]" e] Cons.prems by simp
  consider "c = 92 \<or> c = 34" | "c = 10" | "c = 13"
    | "c \<notin> {92, 34, 10, 13}" "c < 32 \<or> esc \<and> is_ascii_hexdigit c"
    | "c \<notin> {92, 34, 10, 13}" "\<not> (c < 32 \<or> esc \<and> is_ascii_hexdigit c)" by blast
  then show ?case
  proof cases
    case 4
    have nohex: "\<not> is_ascii_hexdigit d" if "encode_chars True cs @ 34 # rest = d # ds" for d ds
      using that by (cases cs) (auto simp: is_ascii_hexdigit_def split: if_splits)
    show ?thesis
      using 4 ih[of True] Cons.prems parse_show_hex[of c]
        hex_prefix(1)[where n = c, OF nohex] hex_prefix(2)[where n = c, OF nohex]
      by (simp add: chr_values)
  qed (use ih in \<open>auto simp: simple_escape_def chr_values\<close>)
qed


lemma decode_encode_ini: "\<forall>c \<in> set v. is_scalar c \<Longrightarrow> decode_ini (encode_ini v) = Inr v"
proof -
  assume v: "\<forall>c \<in> set v. is_scalar c"
  define w where "w = (if starts_with [64] v then 64 # v else v)"
  have "\<forall>c \<in> set w. is_scalar c" using v by (simp add: w_def is_scalar_def)
  then have "decode_chars False [] (encode_ini v) = Inr w"
    using decode_encode_chars[of w "[]" False "[]"]
    by (simp add: encode_ini_def w_def[symmetric])
  moreover have "(if starts_with [64, 64] w then Inr (tl w)
       else if starts_with [64] w then Inl (Msg ''unsupported Qt variant in scalar setting'')
       else Inr w) = Inr v"
    by (cases v; cases "tl v") (auto simp: w_def)
  ultimately show ?thesis by (simp add: decode_ini_def)
qed

lemma encode_chars_no_newline: "10 \<notin> set (encode_chars e cs)"
proof (induction e cs rule: encode_chars.induct)
  case (2 esc c cs)
  have "10 \<notin> set (show_hex c)" using show_hex_hexdigit[of 10 c] by (auto simp: is_ascii_hexdigit_def)
  then show ?case using 2 by (auto simp: chr_values)
qed simp

lemma encode_ini_shape: "trimmed (encode_ini v)" "10 \<notin> set (encode_ini v)" "encode_ini v \<noteq> []"
  "last (encode_ini v) = 34"
  using encode_chars_no_newline by (auto simp: encode_ini_def Let_def trimmed_def is_whitespace_def)

section \<open>The file\<close>

type_synonym ini_map = "ustr \<Rightarrow> ustr option"

definition general_header :: ustr where "general_header = lit ''[General]''"

definition section_after :: "bool \<Rightarrow> ustr \<Rightarrow> bool" where
  "section_after general line = (if starts_with [91] line then line = general_header else general)"

fun ini_lines :: "ustr list \<Rightarrow> bool \<Rightarrow> ini_map \<Rightarrow> ustr list \<Rightarrow> error + ini_map" where
  "ini_lines keys general m [] = Inr m"
| "ini_lines keys general m (l # ls) =
     (let line = trim l
      in if starts_with [91] line then ini_lines keys (line = general_header) m ls
         else if \<not> general \<or> starts_with [59] line \<or> starts_with [35] line \<or> line = []
         then ini_lines keys general m ls
         else case split_once 61 line of
                None \<Rightarrow> ini_lines keys general m ls
              | Some (key, val) \<Rightarrow>
                  if trim key \<in> set keys
                  then try_r (decode_ini (trim val)) (\<lambda>v. ini_lines keys general (m(trim key \<mapsto> v)) ls)
                  else ini_lines keys general m ls)"

definition parse_ini :: "ustr list \<Rightarrow> ustr \<Rightarrow> error + ini_map" where
  "parse_ini keys data = ini_lines keys False Map.empty (str_lines data)"

text \<open>\<open>Store::save\<close>: the old lines that do not set a known key of the section, in order.\<close>

definition sets_known :: "ustr list \<Rightarrow> bool \<Rightarrow> ustr \<Rightarrow> bool" where
  "sets_known keys general line \<longleftrightarrow>
     general \<and> (case split_once 61 line of None \<Rightarrow> False | Some (k, _) \<Rightarrow> trim k \<in> set keys)"

fun keep_lines :: "ustr list \<Rightarrow> bool \<Rightarrow> ustr list \<Rightarrow> ustr list" where
  "keep_lines keys general [] = []"
| "keep_lines keys general (l # ls) =
     (let general = section_after general (trim l)
      in if sets_known keys general (trim l) then keep_lines keys general ls
         else l # keep_lines keys general ls)"

text \<open>\<open>lines.splice(index + 1 .., additions)\<close> at the first header, or a new section at the end.\<close>

fun insert_lines :: "ustr list \<Rightarrow> ustr list \<Rightarrow> ustr list option" where
  "insert_lines new [] = None"
| "insert_lines new (l # ls) =
     (if trim l = general_header then Some (l # new @ ls)
      else map_option (Cons l) (insert_lines new ls))"

definition addition :: "ustr \<times> ustr \<Rightarrow> ustr" where
  "addition kv = fst kv @ 61 # encode_ini (snd kv)"

definition rewrite_ini :: "(ustr \<times> ustr) list \<Rightarrow> ustr \<Rightarrow> ustr" where
  "rewrite_ini kvs data =
     (let kept = keep_lines (map fst kvs) False (str_lines data);
          new = map addition kvs
      in unlines (case insert_lines new kept of
                    Some ls \<Rightarrow> ls
                  | None \<Rightarrow> kept @ general_header # new))"

text \<open>A well-formed key of the known list: no syntax in it.\<close>

definition key_ok :: "ustr \<Rightarrow> bool" where
  "key_ok k \<longleftrightarrow> k \<noteq> [] \<and> trimmed k \<and> 61 \<notin> set k \<and> 10 \<notin> set k \<and> hd k \<notin> {91, 59, 35}"

lemma starts_with_single: "starts_with [c] s \<longleftrightarrow> s \<noteq> [] \<and> hd s = c"
  by (cases s) auto

lemma trim_addition: "key_ok k \<Longrightarrow> trim (addition (k, v)) = addition (k, v)"
  using encode_ini_shape[of v]
  by (intro trim_trimmed) (auto simp: addition_def trimmed_def key_ok_def is_whitespace_def)

lemma ini_addition:
  assumes "key_ok k" "k \<in> set keys" "\<forall>c \<in> set v. is_scalar c"
  shows "ini_lines keys True m (addition (k, v) # ls) = ini_lines keys True (m(k \<mapsto> v)) ls"
proof -
  have "split_once 61 (addition (k, v)) = Some (k, encode_ini v)"
    using assms(1) by (simp add: split_once_Some addition_def key_ok_def)
  moreover have "trim (encode_ini v) = encode_ini v" using encode_ini_shape(1) by (rule trim_trimmed)
  moreover have "trim k = k" using assms(1) by (simp add: key_ok_def)
  moreover have "\<not> starts_with [c] (addition (k, v))" if "c \<in> {91, 59, 35}" for c
    using assms(1) that by (auto simp: starts_with_single addition_def key_ok_def)
  moreover have "addition (k, v) \<noteq> []" by (simp add: addition_def)
  ultimately show ?thesis
    using trim_addition[OF assms(1)] decode_encode_ini[OF assms(3)] assms(2) by simp
qed

lemma ini_additions:
  "(\<forall>(k, v) \<in> set kvs. key_ok k \<and> k \<in> set keys \<and> (\<forall>c \<in> set v. is_scalar c)) \<Longrightarrow>
     ini_lines keys True m (map addition kvs @ ls) = ini_lines keys True (m ++ map_of (rev kvs)) ls"
proof (induction kvs arbitrary: m)
  case (Cons kv kvs)
  obtain k v where kv: "kv = (k, v)" by (cases kv)
  have "ini_lines keys True m (map addition (kv # kvs) @ ls)
      = ini_lines keys True (m(k \<mapsto> v)) (map addition kvs @ ls)"
    using ini_addition[of k keys v m] Cons.prems kv by simp
  also have "\<dots> = ini_lines keys True (m(k \<mapsto> v) ++ map_of (rev kvs)) ls"
    using Cons by simp
  also have "m(k \<mapsto> v) ++ map_of (rev kvs) = m ++ map_of (rev (kv # kvs))"
    by (simp add: kv map_add_def fun_eq_iff split: option.split)
  finally show ?case .
qed simp

text \<open>Lines none of which sets a known key are ignored by the parser.\<close>

fun quiet_lines :: "ustr list \<Rightarrow> bool \<Rightarrow> ustr list \<Rightarrow> bool" where
  "quiet_lines keys general [] = True"
| "quiet_lines keys general (l # ls) =
     (\<not> sets_known keys (section_after general (trim l)) (trim l)
      \<and> quiet_lines keys (section_after general (trim l)) ls)"

lemma header_no_assignment: "split_once 61 general_header = None"
  by (simp add: general_header_def chr_def)

lemma sets_known_general: "sets_known keys (section_after general line) line \<Longrightarrow> section_after general line = general"
  using header_no_assignment by (auto simp: section_after_def sets_known_def split: if_splits)

lemma keep_quiet: "quiet_lines keys general (keep_lines keys general ls)"
proof (induction ls arbitrary: general)
  case (Cons l ls)
  show ?case
    using Cons[of "section_after general (trim l)"] sets_known_general[of keys general "trim l"]
    by (auto simp: Let_def)
qed simp

lemma quiet_ignored: "quiet_lines keys general ls \<Longrightarrow> ini_lines keys general m ls = Inr m"
proof (induction ls arbitrary: general)
  case (Cons l ls)
  then show ?case
    by (auto simp: Let_def section_after_def sets_known_def split: if_splits option.splits)
qed simp


lemma quiet_append_header:
  "quiet_lines keys general (pre @ h # post) \<Longrightarrow> trim h = general_header \<Longrightarrow> quiet_lines keys True post"
proof (induction pre arbitrary: general)
  case Nil
  then show ?case by (simp add: section_after_def general_header_def chr_def)
next
  case (Cons a pre)
  then show ?case using Cons.IH[of "section_after general (trim a)"] by simp
qed

lemma insert_lines_Some:
  "insert_lines new ls = Some ls' \<Longrightarrow> \<exists>pre h post. ls = pre @ h # post \<and> ls' = pre @ h # new @ post
     \<and> trim h = general_header \<and> (\<forall>l \<in> set pre. trim l \<noteq> general_header)"
proof (induction ls arbitrary: ls')
  case (Cons l ls)
  show ?case
  proof (cases "trim l = general_header")
    case True
    then show ?thesis
      by (rule_tac x = "[]" in exI, rule_tac x = l in exI, rule_tac x = ls in exI)
        (use Cons.prems True in simp)
  next
    case False
    then obtain ls2 where "insert_lines new ls = Some ls2" "ls' = l # ls2" using Cons.prems by auto
    from Cons.IH[OF this(1)] obtain pre h post where "ls = pre @ h # post" "ls2 = pre @ h # new @ post"
      "trim h = general_header" "\<forall>l \<in> set pre. trim l \<noteq> general_header" by blast
    then show ?thesis using False \<open>ls' = l # ls2\<close>
      by (intro exI[of _ "l # pre"] exI[of _ h] exI[of _ post]) simp
  qed
qed simp

lemma insert_lines_None: "insert_lines new ls = None \<longleftrightarrow> (\<forall>l \<in> set ls. trim l \<noteq> general_header)"
  by (induction ls) auto

lemma no_header_ignored:
  "\<forall>l \<in> set pre. trim l \<noteq> general_header \<Longrightarrow> ini_lines keys False m (pre @ ls) = ini_lines keys False m ls"
  by (induction pre) (auto simp: Let_def)

lemma ini_header: "trim h = general_header \<Longrightarrow> ini_lines keys general m (h # ls) = ini_lines keys True m ls"
  by (simp add: general_header_def chr_def)

text \<open>Carriage returns at the end of a line are whitespace, so stripping one is not seen.\<close>

lemma trim_strip_cr: "trim (strip_cr l) = trim l"
proof (cases "l \<noteq> [] \<and> last l = 13")
  case True
  then have "l = butlast l @ [13]" by (metis append_butlast_last_id)
  moreover have "trim (xs @ [13]) = trim xs" for xs
  proof (cases "dropWhile is_whitespace xs = []")
    case True
    then have "dropWhile is_whitespace (xs @ [13]) = []"
      by (simp add: dropWhile_eq_Nil_conv is_whitespace_def)
    then show ?thesis using True unfolding trim_def trim_start_def trim_end_def by (simp only:)
  next
    case False
    then have "dropWhile is_whitespace (xs @ [13]) = dropWhile is_whitespace xs @ [13]"
      by (simp add: dropWhile_append)
    then show ?thesis by (simp add: trim_def trim_start_def trim_end_def is_whitespace_def)
  qed
  ultimately show ?thesis using True by (metis strip_cr_def)
qed (auto simp: strip_cr_def)

lemma ini_lines_trim_cong: "map trim ls = map trim ls' \<Longrightarrow> ini_lines keys general m ls = ini_lines keys general m ls'"
proof (induction ls arbitrary: ls' general m)
  case (Cons l ls)
  then obtain l' ls2 where l: "ls' = l' # ls2" "trim l = trim l'" "map trim ls = map trim ls2" by (cases ls') auto
  show ?case
    using Cons.IH[OF l(3)] unfolding l(1) by (auto simp: l(2) Let_def fun_upd_def split: option.split)
qed simp

lemma keep_lines_subset: "set (keep_lines keys general ls) \<subseteq> set ls"
  by (induction ls arbitrary: general) (auto simp: Let_def)

lemma parse_unlines:
  "\<forall>l \<in> set ls. 10 \<notin> set l \<Longrightarrow> parse_ini keys (unlines ls) = ini_lines keys False Map.empty ls"
  unfolding parse_ini_def
  by (rule ini_lines_trim_cong) (simp add: str_lines_unlines trim_strip_cr)

text \<open>
  The rewritten file parses to exactly the new values, whatever the old file held.
\<close>

lemma parse_rewrite:
  assumes "\<forall>(k, v) \<in> set kvs. key_ok k \<and> (\<forall>c \<in> set v. is_scalar c)" "distinct (map fst kvs)"
    and "set keys = fst ` set kvs"
  shows "parse_ini keys (rewrite_ini kvs data) = Inr (map_of kvs)"
proof -
  define kept where "kept = keep_lines (map fst kvs) False (str_lines data)"
  define new where "new = map addition kvs"
  have sk: "set (map fst kvs) = set keys" using assms(3) by simp
  have kn0: "sets_known (map fst kvs) g t = sets_known keys g t" for g t
    unfolding sets_known_def sk by (rule refl)
  have ks: "keep_lines keys g ls = keep_lines (map fst kvs) g ls" for g ls
    by (induction ls arbitrary: g) (simp_all add: Let_def kn0)
  have q: "quiet_lines keys False kept" unfolding kept_def ks[symmetric] by (rule keep_quiet)
  have kn: "10 \<notin> set l" if "l \<in> set kept" for l
    using that keep_lines_subset str_lines_no_newline unfolding kept_def by blast
  have nn: "10 \<notin> set l" if "l \<in> set new" for l
    using that assms(1) encode_ini_shape(2) by (auto simp: new_def addition_def key_ok_def)
  have add: "ini_lines keys True m (new @ ls) = ini_lines keys True (m ++ map_of (rev kvs)) ls" for m ls
    unfolding new_def
  proof (rule ini_additions, clarify)
    fix k v assume kv: "(k, v) \<in> set kvs"
    then have "k \<in> set keys" unfolding assms(3) by (metis fst_conv image_eqI)
    then show "key_ok k \<and> k \<in> set keys \<and> (\<forall>c \<in> set v. is_scalar c)" using assms(1) kv by blast
  qed
  have m: "Map.empty ++ map_of (rev kvs) = map_of kvs"
    using assms(2) by (simp add: map_of_inject_set rev_map[symmetric])
  show ?thesis
  proof (cases "insert_lines new kept")
    case None
    have h: "\<forall>l \<in> set kept. trim l \<noteq> general_header" using None by (simp add: insert_lines_None)
    have gv: "general_header = [91, 71, 101, 110, 101, 114, 97, 108, 93]"
      by (simp add: general_header_def chr_def)
    have "trimmed general_header" unfolding gv by (simp add: trimmed_def is_whitespace_def)
    moreover have "10 \<notin> set general_header" unfolding gv by simp
    ultimately have gh: "trim general_header = general_header" "10 \<notin> set general_header" by simp_all
    have "rewrite_ini kvs data = unlines (kept @ general_header # new @ [])"
      using None by (simp add: rewrite_ini_def kept_def new_def Let_def)
    moreover have "parse_ini keys (unlines (kept @ general_header # new @ []))
        = ini_lines keys False Map.empty (kept @ general_header # new @ [])"
      by (rule parse_unlines) (use kn nn gh in auto)
    ultimately show ?thesis
      unfolding no_header_ignored[OF h] ini_header[OF gh(1)] add m by simp
  next
    case (Some ls)
    obtain pre h post where p: "kept = pre @ h # post" "ls = pre @ h # new @ post"
      "trim h = general_header" "\<forall>l \<in> set pre. trim l \<noteq> general_header"
      using insert_lines_Some[OF Some] by blast
    have "rewrite_ini kvs data = unlines (pre @ h # new @ post)"
      using Some p by (simp add: rewrite_ini_def kept_def new_def Let_def)
    moreover have "parse_ini keys (unlines (pre @ h # new @ post))
        = ini_lines keys False Map.empty (pre @ h # new @ post)"
      by (rule parse_unlines) (use kn nn p in auto)
    moreover have "quiet_lines keys True post"
      using q p(3) unfolding p(1) by (rule quiet_append_header)
    ultimately show ?thesis
      unfolding no_header_ignored[OF p(4)] ini_header[OF p(3)] add m by (simp add: quiet_ignored)
  qed
qed


text \<open>Every kept line is still there, in order.\<close>

lemma insert_lines_subseq: "insert_lines new ls = Some ls' \<Longrightarrow> subseq ls ls'"
proof -
  assume "insert_lines new ls = Some ls'"
  from insert_lines_Some[OF this] obtain pre h post where "ls = pre @ h # post" "ls' = pre @ h # new @ post"
    by blast
  moreover have "subseq (h # post) (h # new @ post)" by (simp add: list_emb_append2)
  ultimately show ?thesis using list_emb_append_mono[OF subseq_order.refl] by blast
qed

text \<open>
  Which lines of a file set a key, said without the rewriting: the last section line up to and
  including this one is \<open>[General]\<close>, and the trimmed line is a known key (white space around it
  aside), the first \<open>=\<close> and a value.
\<close>

definition general_at :: "ustr list \<Rightarrow> nat \<Rightarrow> bool" where
  "general_at ls i \<longleftrightarrow>
     (let sections = filter (starts_with [91]) (map trim (take (Suc i) ls))
      in sections \<noteq> [] \<and> last sections = general_header)"

definition assigns :: "ustr list \<Rightarrow> ustr list \<Rightarrow> nat \<Rightarrow> bool" where
  "assigns keys ls i \<longleftrightarrow> general_at ls i
     \<and> (\<exists>k v. trim (ls ! i) = k @ 61 # v \<and> 61 \<notin> set k \<and> trim k \<in> set keys)"

lemma section_fold:
  "fold (\<lambda>l g. section_after g (trim l)) ls g =
     (let sections = filter (starts_with [91]) (map trim ls)
      in if sections = [] then g else last sections = general_header)"
  by (induction ls arbitrary: g) (auto simp: section_after_def Let_def)

lemma keep_lines_nths:
  "keep_lines keys g ls = nths ls {i. \<not> sets_known keys
     (fold (\<lambda>l g. section_after g (trim l)) (take (Suc i) ls) g) (trim (ls ! i))}"
  by (induction ls arbitrary: g) (simp_all add: nths_Cons Let_def)

lemma assigns_iff:
  "assigns keys ls i \<longleftrightarrow> sets_known keys
     (fold (\<lambda>l g. section_after g (trim l)) (take (Suc i) ls) False) (trim (ls ! i))"
proof -
  have "(\<exists>k v. l = k @ 61 # v \<and> 61 \<notin> set k \<and> trim k \<in> set keys)
      \<longleftrightarrow> (\<exists>k v. split_once 61 l = Some (k, v) \<and> trim k \<in> set keys)" for l
    by (auto simp: split_once_Some)
  then show ?thesis
    unfolding assigns_def sets_known_def general_at_def section_fold Let_def
    by (auto split: option.split)
qed

lemma keep_lines_assigns: "keep_lines keys False ls = nths ls {i. \<not> assigns keys ls i}"
  unfolding assigns_iff by (rule keep_lines_nths)

lemma rewrite_keeps:
  assumes "\<forall>(k, v) \<in> set kvs. key_ok k \<and> (\<forall>c \<in> set v. is_scalar c)"
  shows "\<exists>ls. rewrite_ini kvs data = unlines ls \<and> (\<forall>l \<in> set ls. 10 \<notin> set l)
    \<and> subseq (nths (str_lines data) {i. \<not> assigns (map fst kvs) (str_lines data) i}) ls"
proof -
  define kept where "kept = keep_lines (map fst kvs) False (str_lines data)"
  define ls where "ls = (case insert_lines (map addition kvs) kept of
      Some ls \<Rightarrow> ls | None \<Rightarrow> kept @ general_header # map addition kvs)"
  have kn: "10 \<notin> set l" if "l \<in> set kept" for l
    using that keep_lines_subset str_lines_no_newline unfolding kept_def by blast
  have nn: "10 \<notin> set l" if "l \<in> set (map addition kvs)" for l
    using that assms(1) encode_ini_shape(2) by (auto simp: addition_def key_ok_def)
  have gh: "10 \<notin> set general_header" by (simp add: general_header_def chr_def)
  have "subseq kept ls \<and> (\<forall>l \<in> set ls. 10 \<notin> set l)"
  proof (cases "insert_lines (map addition kvs) kept")
    case None
    then show ?thesis using kn nn gh by (auto simp: ls_def list_emb_append2)
  next
    case (Some ls')
    from insert_lines_Some[OF Some] obtain pre h post
      where p: "kept = pre @ h # post" "ls' = pre @ h # map addition kvs @ post" by blast
    show ?thesis using Some insert_lines_subseq[OF Some] p kn nn by (auto simp: ls_def)
  qed
  moreover have "rewrite_ini kvs data = unlines ls"
    unfolding rewrite_ini_def ls_def kept_def Let_def by (rule refl)
  ultimately show ?thesis unfolding kept_def keep_lines_assigns by blast
qed

end
