(* ===== verification/Secure.thy ===== *)
theory Secure
  imports Wire
begin

text \<open>
  The parts of \<open>secure.rs\<close> and \<open>identity.rs\<close> that are decisions of this program: the hexadecimal
  pairing credentials, the pinned certificate check and the client id. SHA-256 comes from a crate
  and is a parameter; TLS itself is not modelled.
\<close>

section \<open>Hexadecimal credentials\<close>

definition is_hex :: "ustr \<Rightarrow> nat \<Rightarrow> bool" where
  "is_hex value n \<longleftrightarrow> str_len value = n * 2 \<and> list_all is_ascii_hexdigit (utf8 value)"

text \<open>\<open>u8::from_str_radix\<close> on every pair of bytes; an odd last byte is not a pair.\<close>

fun hex_pairs :: "nat list \<Rightarrow> bytes option" where
  "hex_pairs (a # b # r) =
     (case parse_uint 16 256 [a, b] of
        None \<Rightarrow> None
      | Some v \<Rightarrow> map_option (Cons (of_nat v)) (hex_pairs r))"
| "hex_pairs _ = Some []"

definition parse_hex :: "ustr \<Rightarrow> nat \<Rightarrow> error + bytes" where
  "parse_hex value n =
     (if \<not> is_hex value n
      then Inl (Msg ''Wi-Fi pairing fingerprint or key is missing/invalid'')
      else case hex_pairs (utf8 value) of
             None \<Rightarrow> Inl (Msg ''invalid number'')
           | Some bs \<Rightarrow> Inr bs)"

text \<open>\<open>identity.rs\<close>: the stored key text, trimmed, any length.\<close>

definition decode_hex :: "ustr \<Rightarrow> bytes option" where
  "decode_hex value =
     (let value = trim value
      in if str_len value mod 2 \<noteq> 0 \<or> \<not> list_all is_ascii_hexdigit (utf8 value) then None
         else hex_pairs (utf8 value))"

section \<open>Pinning\<close>

definition verify_server_cert :: "(bytes \<Rightarrow> bytes) \<Rightarrow> bytes \<Rightarrow> bytes \<Rightarrow> error + unit" where
  "verify_server_cert sha256 pin certificate =
     (if sha256 certificate \<noteq> pin
      then Inl (Msg ''Wi-Fi phone certificate fingerprint mismatch'') else Inr ())"

text \<open>\<open>SecureTcp::connect\<close> up to the dial: the pin and the credential, or no connection.\<close>

definition connect_credentials :: "ustr \<Rightarrow> ustr \<Rightarrow> error + (bytes \<times> bytes)" where
  "connect_credentials fingerprint key =
     try_r (parse_hex fingerprint 32) (\<lambda>pin.
       if length pin \<noteq> 32 then Inl (Msg ''invalid phone certificate fingerprint'')
       else try_r (parse_hex key 16) (\<lambda>credential. Inr (pin, credential)))"

definition CLIENT_ID_BYTES :: nat where "CLIENT_ID_BYTES = 16"

definition client_id_of :: "(bytes \<Rightarrow> bytes) \<Rightarrow> bytes \<Rightarrow> bytes" where
  "client_id_of sha256 public_key = take CLIENT_ID_BYTES (sha256 public_key)"

section \<open>Lemmas\<close>

lemma hexdigit_value: "is_ascii_hexdigit c \<Longrightarrow> \<exists>d < 16. to_digit 16 c = Some d"
  by (auto simp: is_ascii_hexdigit_def to_digit_def Let_def)

lemma hex_pair_value:
  assumes "is_ascii_hexdigit a" "is_ascii_hexdigit b"
  shows "\<exists>v < 256. parse_uint 16 256 [a, b] = Some v"
proof -
  obtain d e where "to_digit 16 a = Some d" "to_digit 16 b = Some e" "d < 16" "e < 16"
    using hexdigit_value assms by meson
  moreover have "a \<noteq> 43" using assms(1) by (auto simp: is_ascii_hexdigit_def)
  ultimately show ?thesis by (auto simp: parse_uint_def Let_def)
qed

lemma hex_pairs_total:
  "list_all is_ascii_hexdigit xs \<Longrightarrow> \<exists>bs. hex_pairs xs = Some bs \<and> length bs = length xs div 2"
proof (induction xs rule: hex_pairs.induct)
  case (1 a b r)
  obtain v where v: "parse_uint 16 256 [a, b] = Some v" using hex_pair_value "1.prems" by fastforce
  then obtain bs where "hex_pairs r = Some bs" "length bs = length r div 2" using 1 by auto
  then show ?case using v by simp
qed simp_all

lemma ascii_utf8: "list_all (\<lambda>c. c < 128) s \<Longrightarrow> utf8 s = s"
  by (induction s) (simp_all add: utf8_def utf8_char_def)

lemma hex_utf8: "utf8 (hex bs) = hex bs"
proof (rule ascii_utf8)
  have "is_ascii_hexdigit c \<Longrightarrow> c < 128" for c by (auto simp: is_ascii_hexdigit_def)
  then show "list_all (\<lambda>c. c < 128) (hex bs)" using hex_hexdigits by (auto simp: list_all_iff)
qed

lemma hex_pairs_hex: "hex_pairs (hex bs) = Some bs"
proof (induction bs)
  case (Cons b bs)
  have lt: "unat b div 16 < 16" using unat_byte_less[of b] by (simp add: less_mult_imp_div_less)
  have "digit_char (unat b div 16) \<noteq> 43" using digit_char_not_plus by simp
  then have "parse_uint 16 256 [digit_char (unat b div 16), digit_char (unat b mod 16)] = Some (unat b)"
    using lt unat_byte_less[of b] by (simp add: parse_uint_def to_digit_char)
  then show ?case using Cons by simp
qed simp

lemma is_hex_hex: "is_hex (hex bs) (length bs)"
  using hex_hexdigits by (auto simp: is_hex_def str_len_def hex_utf8 list_all_iff)

text \<open>
  Pairing credentials are exact: the connection gets a pin and a key only from a fingerprint
  of 64 and a key of 32 hexadecimal digits, they are then 32 and 16 bytes, and what the phone's
  pairing details carry (printed by the wire decoder in hexadecimal) is read back to the same
  bytes.
\<close>

theorem pairing_credentials_exact:
  "(case connect_credentials fp key of
      Inr (pin, cred) \<Rightarrow> is_hex fp 32 \<and> is_hex key 16 \<and> length pin = 32 \<and> length cred = 16
    | Inl e \<Rightarrow> (\<not> is_hex fp 32 \<or> \<not> is_hex key 16)
        \<and> e = Msg ''Wi-Fi pairing fingerprint or key is missing/invalid'')
   \<and> (if length p = 32 \<and> length k = 16 then connect_credentials (hex p) (hex k) = Inr (p, k) else True)"
proof (intro conjI)
  have total: "is_hex s n \<Longrightarrow> \<exists>bs. parse_hex s n = Inr bs \<and> length bs = n" for s n
    using hex_pairs_total[of "utf8 s"] by (auto simp: parse_hex_def is_hex_def str_len_def)
  show "case connect_credentials fp key of
      Inr (pin, cred) \<Rightarrow> is_hex fp 32 \<and> is_hex key 16 \<and> length pin = 32 \<and> length cred = 16
    | Inl e \<Rightarrow> (\<not> is_hex fp 32 \<or> \<not> is_hex key 16)
        \<and> e = Msg ''Wi-Fi pairing fingerprint or key is missing/invalid''"
  proof (cases "is_hex fp 32")
    case True
    then obtain pin where p: "parse_hex fp 32 = Inr pin" "length pin = 32" using total by blast
    show ?thesis
    proof (cases "is_hex key 16")
      case k: True
      then obtain cred where "parse_hex key 16 = Inr cred" "length cred = 16" using total by blast
      then show ?thesis using p True k by (simp add: connect_credentials_def)
    next
      case False
      then have "parse_hex key 16 = Inl (Msg ''Wi-Fi pairing fingerprint or key is missing/invalid'')"
        by (simp add: parse_hex_def)
      then show ?thesis using p False by (simp add: connect_credentials_def)
    qed
  qed (simp add: connect_credentials_def parse_hex_def)
  have rt: "parse_hex (hex bs) (length bs) = Inr bs" for bs
    by (simp add: parse_hex_def is_hex_hex hex_utf8 hex_pairs_hex)
  show "if length p = 32 \<and> length k = 16 then connect_credentials (hex p) (hex k) = Inr (p, k) else True"
    using rt[of p] rt[of k] by (auto simp: connect_credentials_def)
qed

lemma pairing_credentials_exact_witness:
  "connect_credentials (hex (replicate 32 171)) (hex (replicate 16 2)) = Inr (replicate 32 171, replicate 16 2)"
  using pairing_credentials_exact[of "[]" "[]" "replicate 32 171" "replicate 16 2"] by simp

end
