(* ===== verification/Quality_Pref.thy ===== *)
theory Quality_Pref
  imports Wire F64 "HOL-Library.Product_Lexorder"
begin

text \<open>
  Quality wishes and the modes they resolve to: \<open>quality.rs\<close> (\<open>Mode\<close>), \<open>quality/preference.rs\<close>
  (\<open>Wish\<close>, the preference order), \<open>quality/edition.rs\<close> (the edition cap) and
  \<open>quality/client.rs\<close> (the per-connection state). The client is a machine of the prelude's
  interface, one event per public method.
\<close>

section \<open>Modes and wishes\<close>

record mode =
  m_width :: u16
  m_height :: u16
  m_fps :: u16
  m_bitrate :: u32

definition mode_from :: "quality_mode \<Rightarrow> mode" where
  "mode_from q = \<lparr>m_width = qm_width q, m_height = qm_height q, m_fps = qm_target_fps q,
     m_bitrate = qm_bitrate q\<rparr>"

record wish =
  w_width :: u16
  w_height :: u16
  w_fps :: u16

definition wish_default :: wish where
  "wish_default = \<lparr>w_width = 0, w_height = 0, w_fps = 0\<rparr>"

definition wish_from :: "u16 \<times> u16 \<times> u16 \<Rightarrow> wish" where
  "wish_from t = (case t of (w, h, f) \<Rightarrow> \<lparr>w_width = w, w_height = h, w_fps = f\<rparr>)"

definition wish_tuple :: "wish \<Rightarrow> u16 \<times> u16 \<times> u16" where
  "wish_tuple w = (w_width w, w_height w, w_fps w)"

definition wish_valid :: "wish \<Rightarrow> bool" where
  "wish_valid w \<longleftrightarrow>
     ((w_width w = 0) = (w_height w = 0)) \<and> w_width w \<le> 3840 \<and> w_height w \<le> 2160
     \<and> w_width w mod 2 = 0 \<and> w_fps w \<le> 60"

definition mode_tuple :: "mode \<Rightarrow> u16 \<times> u16 \<times> u16" where
  "mode_tuple m = (m_width m, m_height m, m_fps m)"

definition usable :: "mode \<Rightarrow> bool" where
  "usable m \<longleftrightarrow> m_width m \<noteq> 0 \<and> m_height m \<noteq> 0 \<and> m_fps m \<noteq> 0
     \<and> wish_valid (wish_from (mode_tuple m)) \<and> m_bitrate m \<noteq> 0"

section \<open>The preference order\<close>

text \<open>\<open>std::cmp::Ordering\<close>, \<open>Ord::cmp\<close>, \<open>then_with\<close>, and the comparison of pairs.\<close>

datatype ordering = Less | Equal | Greater

definition cmp :: "'a::linorder \<Rightarrow> 'a \<Rightarrow> ordering" where
  "cmp a b = (if a < b then Less else if a = b then Equal else Greater)"

definition then_with :: "ordering \<Rightarrow> ordering \<Rightarrow> ordering" where
  "then_with o1 o2 = (case o1 of Equal \<Rightarrow> o2 | _ \<Rightarrow> o1)"

definition cmp_pair :: "'a::linorder \<times> 'b::linorder \<Rightarrow> 'a \<times> 'b \<Rightarrow> ordering" where
  "cmp_pair p q = then_with (cmp (fst p) (fst q)) (cmp (snd p) (snd q))"

definition fps_rank :: "u16 \<Rightarrow> u16 \<times> u16" where
  "fps_rank fps = (if fps \<le> 30 then (0, 30 - fps) else (1, fps))"

definition aspect_error :: "mode \<Rightarrow> rat" where
  "aspect_error m =
     \<bar>f64_sub (f64_div (of_nat (unat (m_width m))) (of_nat (unat (m_height m)))) (f64_div 1280 720)\<bar>"

definition area_error :: "mode \<Rightarrow> nat" where
  "area_error m =
     (let area = unat (m_width m) * unat (m_height m); goal = 1280 * 720
      in if area < goal then goal - area else area - goal)"

definition mode_cmp :: "mode \<Rightarrow> mode \<Rightarrow> ordering" where
  "mode_cmp a b =
     then_with (then_with (then_with (cmp_pair (fps_rank (m_fps a)) (fps_rank (m_fps b)))
         (cmp (aspect_error a) (aspect_error b)))
         (cmp (area_error a) (area_error b)))
         (cmp_pair (m_width a, m_height a) (m_width b, m_height b))"

text \<open>\<open>Iterator::min_by\<close>: the first of several minimal elements.\<close>

fun min_by :: "('a \<Rightarrow> 'a \<Rightarrow> ordering) \<Rightarrow> 'a list \<Rightarrow> 'a option" where
  "min_by f [] = None"
| "min_by f (x # xs) = Some (fold (\<lambda>y acc. if f acc y = Greater then y else acc) xs x)"

definition suits :: "wish \<Rightarrow> mode \<Rightarrow> bool" where
  "suits w m \<longleftrightarrow> usable m
     \<and> (w_width w = 0 \<or> (m_width m, m_height m) = (w_width w, w_height w))
     \<and> (w_fps w = 0 \<or> m_fps m = w_fps w)"

definition resolve :: "wish \<Rightarrow> mode list \<Rightarrow> mode option" where
  "resolve w ms = (if \<not> wish_valid w then None else min_by mode_cmp (filter (suits w) ms))"

section \<open>The edition cap\<close>

record edition_cap =
  max_long_edge :: u16
  max_short_edge :: u16
  max_fps :: u16

definition allows_size :: "edition_cap \<Rightarrow> u16 \<Rightarrow> u16 \<Rightarrow> bool" where
  "allows_size cap width height =
     (let long = max width height; short = min width height
      in 1 \<le> long \<and> long \<le> max_long_edge cap \<and> 1 \<le> short \<and> short \<le> max_short_edge cap)"

definition allows :: "edition_cap \<Rightarrow> u16 \<Rightarrow> u16 \<Rightarrow> u16 \<Rightarrow> bool" where
  "allows cap width height fps \<longleftrightarrow> allows_size cap width height \<and> 1 \<le> fps \<and> fps \<le> max_fps cap"

definition cap_filter :: "edition_cap \<Rightarrow> mode list \<Rightarrow> mode list" where
  "cap_filter cap ms = filter (\<lambda>m. allows cap (m_width m) (m_height m) (m_fps m)) ms"

definition clamp_wish :: "edition_cap \<Rightarrow> wish \<Rightarrow> wish \<times> bool" where
  "clamp_wish cap w =
     (let out1 = (if w_width w \<noteq> 0 \<and> \<not> allows_size cap (w_width w) (w_height w)
                  then w\<lparr>w_width := 0, w_height := 0\<rparr> else w);
          out = (if w_fps w > max_fps cap then out1\<lparr>w_fps := 0\<rparr> else out1)
      in (out, out \<noteq> w))"

definition OSS_CAP_1080P30 :: edition_cap where
  "OSS_CAP_1080P30 = \<lparr>max_long_edge = 1920, max_short_edge = 1080, max_fps = 30\<rparr>"

definition active_edition :: edition_cap where "active_edition = OSS_CAP_1080P30"

definition coerce_wish_to_available :: "wish \<Rightarrow> mode list \<Rightarrow> wish \<times> bool" where
  "coerce_wish_to_available w ms = (if resolve w ms \<noteq> None then (w, False) else (wish_default, True))"

section \<open>The per-connection client state\<close>

record client =
  cl_modes :: "mode list option"
  cl_permission :: "u8 option"
  cl_pending :: "mode option"
  cl_staged :: bool
  cl_applied :: "(u16 \<times> u16 \<times> u16) option"
  cl_error :: "string option"
  migrated_to_auto :: bool
  initial_wish :: wish
  initial_checked :: bool

definition client_new :: "wish \<Rightarrow> client" where
  "client_new w = \<lparr>cl_modes = None, cl_permission = None, cl_pending = None, cl_staged = False,
     cl_applied = None, cl_error = None, migrated_to_auto = False, initial_wish = w,
     initial_checked = False\<rparr>"

definition client_ready :: "client \<Rightarrow> bool" where
  "client_ready c \<longleftrightarrow> cl_permission c = Some PERMISSION_READY
     \<and> (case cl_modes c of None \<Rightarrow> False | Some ms \<Rightarrow> ms \<noteq> [])"

definition client_resolve :: "client \<Rightarrow> wish \<Rightarrow> mode option" where
  "client_resolve c w = (case cl_modes c of None \<Rightarrow> None | Some ms \<Rightarrow> resolve w ms)"

definition client_begin :: "client \<Rightarrow> wish \<Rightarrow> client \<times> mode option" where
  "client_begin c w =
     (if cl_pending c \<noteq> None then (c, None)
      else if \<not> client_ready c
      then (c\<lparr>cl_error := Some ''camera capabilities or permission are not ready''\<rparr>, None)
      else case client_resolve c w of
             None \<Rightarrow>
               (c\<lparr>cl_error := Some ''the saved/requested quality is not supported by this phone''\<rparr>,
                None)
           | Some m \<Rightarrow>
               let c1 = c\<lparr>cl_error := None, initial_checked := True\<rparr>
               in if cl_applied c1 = Some (mode_tuple m) then (c1, None)
                  else (c1\<lparr>cl_pending := Some m, cl_staged := False\<rparr>, Some m))"

definition client_advertise :: "client \<Rightarrow> u8 \<Rightarrow> mode list \<Rightarrow> client \<times> mode option" where
  "client_advertise c perm ms =
     (let c1 = c\<lparr>cl_permission := Some perm, cl_modes := Some (filter usable ms)\<rparr>
      in if \<not> client_ready c1 \<or> initial_checked c1 then (c1, None)
         else let c2 = c1\<lparr>initial_checked := True\<rparr>
              in if client_resolve c2 (initial_wish c2) \<noteq> None
                 then client_begin c2 (initial_wish c2)
                 else client_begin (c2\<lparr>migrated_to_auto := True, initial_wish := wish_default\<rparr>)
                        wish_default)"

definition client_progress :: "client \<Rightarrow> bool \<Rightarrow> client" where
  "client_progress c staged =
     (if cl_pending c \<noteq> None then c\<lparr>cl_staged := staged, cl_applied := None\<rparr> else c)"

definition client_failed :: "client \<Rightarrow> string \<Rightarrow> client" where
  "client_failed c reason = c\<lparr>cl_pending := None, cl_staged := False, cl_error := Some reason\<rparr>"

definition client_confirmed :: "client \<Rightarrow> u16 \<Rightarrow> u16 \<Rightarrow> u16 \<Rightarrow> client \<times> bool" where
  "client_confirmed c width height fps =
     (if map_option mode_tuple (cl_pending c) \<noteq> Some (width, height, fps)
      then (client_failed c ''the receiver confirmed an unexpected quality'', False)
      else (c\<lparr>cl_applied := Some (width, height, fps), cl_pending := None, cl_staged := False,
              cl_error := None\<rparr>, True))"

definition client_disconnected :: "client \<Rightarrow> client" where
  "client_disconnected c = c\<lparr>cl_modes := None, cl_permission := None, cl_pending := None,
     cl_staged := False, cl_applied := None\<rparr>"

definition option_list :: "'a option \<Rightarrow> 'a list" where
  "option_list x = (case x of None \<Rightarrow> [] | Some y \<Rightarrow> [y])"

text \<open>One event per public method; the output is the mode a request should be sent for.\<close>

datatype client_event =
    Advertise u8 "mode list" | Begin wish | Progress bool | Confirmed u16 u16 u16
  | Failed_with string | Disconnected

fun client_step :: "client \<Rightarrow> client_event \<Rightarrow> client \<times> mode list" where
  "client_step c (Advertise p ms) = (let (c', m) = client_advertise c p ms in (c', option_list m))"
| "client_step c (Begin w) = (let (c', m) = client_begin c w in (c', option_list m))"
| "client_step c (Progress s) = (client_progress c s, [])"
| "client_step c (Confirmed w h f) = (fst (client_confirmed c w h f), [])"
| "client_step c (Failed_with r) = (client_failed c r, [])"
| "client_step c Disconnected = (client_disconnected c, [])"


section \<open>The order is total\<close>

text \<open>The chain of \<open>then_with\<close> compares one lexicographic key.\<close>

definition mode_key :: "mode \<Rightarrow> (((u16 \<times> u16) \<times> rat) \<times> nat) \<times> u16 \<times> u16" where
  "mode_key m = (((fps_rank (m_fps m), aspect_error m), area_error m), m_width m, m_height m)"

lemma then_with_cmp: "then_with (cmp a b) (cmp c d) = cmp (a, c) (b, d)"
  by (auto simp: then_with_def cmp_def)

lemma cmp_pair_cmp: "cmp_pair p q = cmp p q"
  by (simp add: cmp_pair_def then_with_cmp)

lemma mode_cmp_key: "mode_cmp a b = cmp (mode_key a) (mode_key b)"
  unfolding mode_cmp_def mode_key_def cmp_pair_cmp then_with_cmp ..

lemma cmp_Greater: "cmp a b = Greater \<longleftrightarrow> b < a"
  by (auto simp: cmp_def)

lemma min_by_step:
  "fold (\<lambda>y acc. if cmp (k acc) (k y) = Greater then y else acc) xs x = m \<Longrightarrow>
     (m = x \<or> m \<in> set xs) \<and> k m \<le> k x \<and> (\<forall>y \<in> set xs. k m \<le> k y)"
proof (induction xs arbitrary: x)
  case Nil
  then show ?case by simp
next
  case (Cons y ys)
  from Cons.IH[OF Cons.prems[unfolded fold_Cons o_apply]]
  show ?case by (auto simp: cmp_Greater split: if_splits)
qed

lemma min_by_least:
  "min_by (\<lambda>a b. cmp (k a) (k b)) xs = Some m \<Longrightarrow> m \<in> set xs \<and> (\<forall>y \<in> set xs. k m \<le> k y)"
  by (cases xs) (use min_by_step[OF refl, of k] in auto)

lemma min_by_None_iff: "min_by f xs = None \<longleftrightarrow> xs = []"
  by (cases xs) simp_all

lemma resolve_Some:
  "resolve w ms = Some m \<Longrightarrow> wish_valid w \<and> m \<in> set ms \<and> suits w m
     \<and> (\<forall>y \<in> set ms. suits w y \<longrightarrow> mode_key m \<le> mode_key y)"
  using min_by_least[of mode_key "filter (suits w) ms" m]
  by (auto simp: resolve_def mode_cmp_key[abs_def] split: if_splits)

lemma resolve_None_iff: "resolve w ms = None \<longleftrightarrow> \<not> wish_valid w \<or> (\<forall>m \<in> set ms. \<not> suits w m)"
  by (auto simp: resolve_def min_by_None_iff filter_empty_conv)

lemma fps_rank_le:
  "fps_rank a \<le> fps_rank b \<Longrightarrow> (b \<le> 30 \<longrightarrow> a \<le> 30 \<and> b \<le> a) \<and> (30 < a \<longrightarrow> 30 < b \<and> a \<le> b)"
proof -
  have neg: "(0 :: u16) < 1" by simp
  have sub: "a \<le> 30 \<Longrightarrow> b \<le> 30 \<Longrightarrow> 30 - a \<le> 30 - b \<Longrightarrow> b \<le> a"
    by (simp add: word_le_nat_alt unat_sub)
  assume "fps_rank a \<le> fps_rank b"
  then show ?thesis using sub by (auto simp: fps_rank_def not_le split: if_splits)
qed

lemma suits_default: "suits wish_default m \<longleftrightarrow> usable m"
  by (simp add: suits_def wish_default_def)

lemma mode_key_fps: "mode_key a \<le> mode_key b \<Longrightarrow> fps_rank (m_fps a) \<le> fps_rank (m_fps b)"
  by (auto simp: mode_key_def less_le)

lemma aspect_error_16_9_iff:
  assumes "m_height m \<noteq> 0" "m_height m \<le> 2160" "m_width m \<le> 3840"
  shows "aspect_error m = 0 \<longleftrightarrow> 9 * unat (m_width m) = 16 * unat (m_height m)"
proof -
  let ?w = "of_nat (unat (m_width m)) :: rat"
  let ?h = "of_nat (unat (m_height m)) :: rat"
  have h: "0 < ?h" by (metis assms(1) gr0I of_nat_0_less_iff unsigned_eq_0_iff)
  have "unat (m_height m) \<le> 2160" "unat (m_width m) \<le> 3840"
    using assms(2,3) by (simp_all add: word_le_nat_alt)
  then have b: "?h \<le> 2160" "?w \<le> 3840" by (metis of_nat_le_iff of_nat_numeral)+
  have z: "aspect_error m = 0 \<longleftrightarrow> f64_round (?w / ?h) = f64_round (16 / 9)"
    by (simp add: aspect_error_def f64_sub_def f64_div_def)
  show ?thesis
  proof
    assume "9 * unat (m_width m) = 16 * unat (m_height m)"
    then have "9 * ?w = 16 * ?h" by (metis of_nat_mult of_nat_numeral)
    then have "?w / ?h = 16 / 9" using h by (simp add: field_simps)
    then show "aspect_error m = 0" by (simp only: z)
  next
    assume "aspect_error m = 0"
    then have r: "f64_round (?w / ?h) = f64_round (16 / 9)" using z by simp
    define q where "q = ?w / ?h"
    have "1 \<le> ?h" using h by (metis Suc_leI of_nat_0_less_iff of_nat_1 of_nat_le_iff One_nat_def)
    then have "?w \<le> 3840 * ?h" using b by linarith
    then have q: "0 \<le> q" "q \<le> 3840"
      unfolding q_def using h by (intro divide_nonneg_nonneg of_nat_0_le_iff, subst pos_divide_le_eq)
    have "\<bar>f64_round q - q\<bar> \<le> 3840 / 2 ^ 53"
      using f64_round_rel[of q] q by (intro order_trans[OF f64_round_rel] divide_right_mono) simp_all
    moreover have "\<bar>f64_round (16 / 9) - 16 / 9\<bar> \<le> 2 / 2 ^ 53"
      by (rule order_trans[OF f64_round_rel]) simp
    ultimately have "\<bar>q - 16 / 9\<bar> \<le> 3842 / 2 ^ 53"
      using r unfolding q_def[symmetric] by linarith
    moreover have "q - 16 / 9 = (9 * ?w - 16 * ?h) / (9 * ?h)" using h by (simp add: q_def field_simps)
    ultimately have "\<bar>9 * ?w - 16 * ?h\<bar> \<le> 3842 / 2 ^ 53 * (9 * ?h)"
      using h by (simp add: abs_divide field_simps)
    also have "\<dots> \<le> 3842 / 2 ^ 53 * (9 * 2160)" using b by (intro mult_left_mono) simp_all
    also have "\<dots> < 1" by simp
    finally have "\<bar>9 * ?w - 16 * ?h\<bar> < 1" .
    moreover have "\<bar>9 * ?w - 16 * ?h\<bar> =
        of_int \<bar>9 * int (unat (m_width m)) - 16 * int (unat (m_height m))\<bar>" by simp
    ultimately have "\<bar>9 * int (unat (m_width m)) - 16 * int (unat (m_height m))\<bar> < 1"
      by (metis of_int_1 of_int_less_iff)
    then show "9 * unat (m_width m) = 16 * unat (m_height m)" by linarith
  qed
qed

text \<open>
  C16. A wish resolves to an advertised, usable mode that has the wished size and rate (Auto
  leaves either open), and no advertised candidate is preferred to it; it fails to resolve only
  if the wish is malformed or no usable mode suits it.
\<close>

theorem resolve_best:
  "case resolve w ms of
     None \<Rightarrow> \<not> wish_valid w \<or> list_all (\<lambda>m. \<not> suits w m) ms
   | Some m \<Rightarrow> wish_valid w \<and> m \<in> set ms \<and> usable m
       \<and> (w_width w = 0 \<or> m_width m = w_width w \<and> m_height m = w_height w)
       \<and> (w_fps w = 0 \<or> m_fps m = w_fps w)
       \<and> list_all (\<lambda>m'. \<not> (suits w m' \<and> mode_cmp m m' = Greater)) ms"
proof (cases "resolve w ms")
  case None
  then show ?thesis using resolve_None_iff[of w ms] by (simp add: list_all_iff)
next
  case (Some m)
  then show ?thesis
    using resolve_Some[OF Some] by (auto simp: suits_def list_all_iff mode_cmp_key cmp_Greater not_less)
qed


lemma resolve_best_witness:
  "resolve \<lparr>w_width = 0, w_height = 0, w_fps = 60\<rparr>
      [\<lparr>m_width = 1280, m_height = 720, m_fps = 60, m_bitrate = 6000000\<rparr>] \<noteq> None
   \<and> list_all (\<lambda>m. m_width m = 1280)
       [the (resolve \<lparr>w_width = 0, w_height = 0, w_fps = 60\<rparr>
          [\<lparr>m_width = 1280, m_height = 720, m_fps = 60, m_bitrate = 6000000\<rparr>])]"
  using resolve_best[of "\<lparr>w_width = 0, w_height = 0, w_fps = 60\<rparr>"
      "[\<lparr>m_width = 1280, m_height = 720, m_fps = 60, m_bitrate = 6000000\<rparr>]"]
  by (auto simp: wish_valid_def suits_def usable_def wish_from_def mode_tuple_def split: option.splits)

text \<open>
  Auto means what the order says: of the usable modes the phone lists, Auto takes the highest
  rate up to 30 fps if there is one, and otherwise the lowest rate above it; among the modes of
  that rate it takes one of exactly 16:9 if there is one (binary64 rounding included).
\<close>

theorem auto_prefers_30fps_16_9:
  assumes "resolve wish_default ms = Some m" and "m' \<in> set ms" and "usable m'"
  shows "(m_fps m' \<le> 30 \<longrightarrow> m_fps m \<le> 30 \<and> m_fps m' \<le> m_fps m)
    \<and> (30 < m_fps m \<longrightarrow> 30 < m_fps m' \<and> m_fps m \<le> m_fps m')
    \<and> (m_fps m' = m_fps m \<and> 9 * unat (m_width m') = 16 * unat (m_height m')
        \<longrightarrow> 9 * unat (m_width m) = 16 * unat (m_height m))"
proof -
  have le: "mode_key m \<le> mode_key m'" and u: "usable m"
    using resolve_Some[OF assms(1)] assms(2,3) by (auto simp: suits_default)
  have small: "m_height x \<noteq> 0 \<and> m_height x \<le> 2160 \<and> m_width x \<le> 3840" if "usable x" for x
    using that by (simp add: usable_def wish_valid_def wish_from_def mode_tuple_def)
  have "m_fps m' = m_fps m \<Longrightarrow> aspect_error m' = 0 \<Longrightarrow> aspect_error m = 0"
    using le by (auto simp: mode_key_def aspect_error_def)
  then show ?thesis
    using fps_rank_le[OF mode_key_fps[OF le]]
      aspect_error_16_9_iff[of m] aspect_error_16_9_iff[of m'] small[OF u] small[OF assms(3)]
    by blast
qed

lemma auto_prefers_30fps_16_9_witness:
  "resolve wish_default [\<lparr>m_width = 1280, m_height = 720, m_fps = 30, m_bitrate = 1\<rparr>]
     = Some \<lparr>m_width = 1280, m_height = 720, m_fps = 30, m_bitrate = 1\<rparr>
   \<and> m_fps \<lparr>m_width = 1280, m_height = 720, m_fps = 30, m_bitrate = 1\<rparr> \<le> 30"
proof -
  have r: "resolve wish_default [\<lparr>m_width = 1280, m_height = 720, m_fps = 30, m_bitrate = 1\<rparr>]
     = Some \<lparr>m_width = 1280, m_height = 720, m_fps = 30, m_bitrate = 1\<rparr>"
    by (simp add: resolve_def wish_default_def wish_valid_def suits_def usable_def wish_from_def
        mode_tuple_def)
  have u: "usable \<lparr>m_width = 1280, m_height = 720, m_fps = 30, m_bitrate = 1\<rparr>"
    by (simp add: wish_valid_def usable_def wish_from_def mode_tuple_def)
  show ?thesis using auto_prefers_30fps_16_9[OF r _ u] r by simp
qed

text \<open>
  Clamping a saved wish to the edition is safe: a wish that resolves against the modes the
  edition allows is left alone and its mode is within the cap; a clamped wish is never changed
  again, is valid if the wish was, and keeps no explicit size or rate above the cap.
\<close>

theorem clamp_wish_safe:
  "(case resolve w (cap_filter cap ms) of
      None \<Rightarrow> True
    | Some m \<Rightarrow> clamp_wish cap w = (w, False) \<and> allows cap (m_width m) (m_height m) (m_fps m))
   \<and> (case clamp_wish cap w of (out, changed) \<Rightarrow>
        clamp_wish cap out = (out, False) \<and> (changed \<longleftrightarrow> out \<noteq> w)
        \<and> (wish_valid w \<longrightarrow> wish_valid out) \<and> w_fps out \<le> max_fps cap
        \<and> (w_width out = 0 \<or> allows_size cap (w_width out) (w_height out)))"
proof (intro conjI)
  show "case resolve w (cap_filter cap ms) of
      None \<Rightarrow> True
    | Some m \<Rightarrow> clamp_wish cap w = (w, False) \<and> allows cap (m_width m) (m_height m) (m_fps m)"
  proof (cases "resolve w (cap_filter cap ms)")
    case (Some m)
    then have su: "suits w m" and a: "allows cap (m_width m) (m_height m) (m_fps m)"
      using resolve_Some[OF Some] by (simp_all add: cap_filter_def)
    then have "clamp_wish cap w = (w, False)"
      by (auto simp: allows_def suits_def clamp_wish_def Let_def)
    with a show ?thesis by (simp add: Some)
  qed simp
  show "case clamp_wish cap w of (out, changed) \<Rightarrow>
        clamp_wish cap out = (out, False) \<and> (changed \<longleftrightarrow> out \<noteq> w)
        \<and> (wish_valid w \<longrightarrow> wish_valid out) \<and> w_fps out \<le> max_fps cap
        \<and> (w_width out = 0 \<or> allows_size cap (w_width out) (w_height out))"
    by (auto simp: clamp_wish_def Let_def wish_valid_def)
qed

lemma clamp_wish_safe_witness:
  "clamp_wish active_edition \<lparr>w_width = 3840, w_height = 2160, w_fps = 30\<rparr>
     = (\<lparr>w_width = 0, w_height = 0, w_fps = 30\<rparr>, True)
   \<and> clamp_wish active_edition \<lparr>w_width = 0, w_height = 0, w_fps = 30\<rparr>
     = (\<lparr>w_width = 0, w_height = 0, w_fps = 30\<rparr>, False)"
proof -
  have c: "clamp_wish active_edition \<lparr>w_width = 3840, w_height = 2160, w_fps = 30\<rparr>
     = (\<lparr>w_width = 0, w_height = 0, w_fps = 30\<rparr>, True)"
    by (simp add: clamp_wish_def active_edition_def OSS_CAP_1080P30_def allows_size_def Let_def)
  show ?thesis
    using clamp_wish_safe[where w = "\<lparr>w_width = 3840, w_height = 2160, w_fps = 30\<rparr>"
        and cap = active_edition and ms = "[]"]
      c by simp
qed

section \<open>The client is a machine\<close>

definition client_inv :: "client \<Rightarrow> bool" where
  "client_inv c \<longleftrightarrow>
     (cl_staged c \<longrightarrow> cl_pending c \<noteq> None \<and> cl_applied c = None)
     \<and> (case cl_pending c of None \<Rightarrow> True | Some m \<Rightarrow> usable m \<and> initial_checked c)
     \<and> (case cl_modes c of None \<Rightarrow> True | Some ms \<Rightarrow> list_all usable ms)"

text \<open>A request is sent only when nothing is pending; the listed mode is remembered as pending.\<close>

definition client_legal :: "client \<Rightarrow> client_event \<Rightarrow> mode \<Rightarrow> bool" where
  "client_legal c e m \<longleftrightarrow> usable m \<and> cl_pending c = None
     \<and> cl_pending (fst (client_step c e)) = Some m \<and> cl_applied c \<noteq> Some (mode_tuple m)
     \<and> client_ready (fst (client_step c e))
     \<and> (case cl_modes (fst (client_step c e)) of None \<Rightarrow> False | Some ms \<Rightarrow> m \<in> set ms)"


lemma client_begin_cases:
  "client_begin c w = (c', out) \<Longrightarrow>
     (out = None \<and> cl_pending c' = cl_pending c \<and> cl_staged c' = cl_staged c
        \<and> cl_applied c' = cl_applied c \<and> cl_modes c' = cl_modes c
        \<and> (initial_checked c \<longrightarrow> initial_checked c'))
     \<or> (\<exists>m. out = Some m \<and> cl_pending c = None \<and> client_ready c \<and> client_resolve c w = Some m
        \<and> cl_applied c \<noteq> Some (mode_tuple m)
        \<and> c' = c\<lparr>cl_error := None, initial_checked := True, cl_pending := Some m, cl_staged := False\<rparr>)"
  by (auto simp: client_begin_def Let_def split: if_splits option.splits)

lemma client_ready_update [simp]:
  "client_ready (c\<lparr>cl_error := e\<rparr>) = client_ready c"
  "client_ready (c\<lparr>initial_checked := b\<rparr>) = client_ready c"
  "client_ready (c\<lparr>cl_pending := p\<rparr>) = client_ready c"
  "client_ready (c\<lparr>cl_staged := b\<rparr>) = client_ready c"
  "client_ready (c\<lparr>migrated_to_auto := b\<rparr>) = client_ready c"
  "client_ready (c\<lparr>initial_wish := w\<rparr>) = client_ready c"
  by (simp_all add: client_ready_def)

lemma client_resolve_Some:
  "client_resolve c w = Some m \<Longrightarrow> usable m \<and> (\<exists>ms. cl_modes c = Some ms \<and> m \<in> set ms)"
  by (auto simp: client_resolve_def suits_def split: option.splits dest!: resolve_Some)

lemma client_advertise_cases:
  "client_advertise c p ms = (c', out) \<Longrightarrow>
     cl_modes c' = Some (filter usable ms) \<and> (initial_checked c \<longrightarrow> initial_checked c')
     \<and> ((out = None \<and> cl_pending c' = cl_pending c \<and> cl_staged c' = cl_staged c
          \<and> cl_applied c' = cl_applied c)
        \<or> (\<exists>m. out = Some m \<and> cl_pending c = None \<and> client_ready c' \<and> usable m \<and> m \<in> set ms
          \<and> cl_applied c \<noteq> Some (mode_tuple m) \<and> \<not> initial_checked c
          \<and> cl_pending c' = Some m \<and> \<not> cl_staged c' \<and> cl_applied c' = cl_applied c
          \<and> initial_checked c'))"
  by (auto simp: client_advertise_def Let_def split: if_splits
      dest!: client_begin_cases client_resolve_Some)

lemma client_step_inv: "client_inv c \<Longrightarrow> client_inv (fst (client_step c e))"
proof (cases e)
  case (Advertise p ms)
  assume i: "client_inv c"
  obtain c' out where a: "client_advertise c p ms = (c', out)" by fastforce
  show ?thesis
    using client_advertise_cases[OF a] i
    by (auto simp: Advertise a client_inv_def list_all_iff split: option.splits)
next
  case (Begin w)
  assume i: "client_inv c"
  obtain c' out where a: "client_begin c w = (c', out)" by fastforce
  show ?thesis
    using client_begin_cases[OF a] i
    by (auto simp: Begin a client_inv_def split: option.splits dest: client_resolve_Some)
qed (auto simp: client_inv_def client_progress_def client_failed_def client_confirmed_def
    client_disconnected_def split: option.splits)

lemma client_step_legal:
  "client_inv c \<Longrightarrow> m \<in> set (snd (client_step c e)) \<Longrightarrow> client_legal c e m"
proof (cases e)
  case (Advertise p ms)
  assume i: "client_inv c" and m: "m \<in> set (snd (client_step c e))"
  obtain c' out where a: "client_advertise c p ms = (c', out)" by fastforce
  show ?thesis
    using client_advertise_cases[OF a] i m
    by (auto simp: Advertise a client_legal_def option_list_def split: option.splits)
next
  case (Begin w)
  assume i: "client_inv c" and m: "m \<in> set (snd (client_step c e))"
  obtain c' out where a: "client_begin c w = (c', out)" by fastforce
  show ?thesis
    using client_begin_cases[OF a] i m
    by (auto simp: Begin a client_legal_def option_list_def split: option.splits
        dest: client_resolve_Some)
qed simp_all

interpretation client_machine: machine client_step client_inv client_legal
  by unfold_locales (auto intro: client_step_inv client_step_legal)

lemma client_new_inv: "client_inv (client_new w)"
  by (simp add: client_inv_def client_new_def)

text \<open>
  Whatever the phone and the user do on a fresh connection, every request the client sends is
  for a usable mode of the list the phone last advertised, sent while permission is granted,
  while no request is pending and not for the mode already applied; and it is pending afterwards.
\<close>

theorem client_requests_legal:
  assumes "m \<in> set (machine_trace client_step (client_new w) es)"
  shows "\<exists>pre e post. es = pre @ e # post
    \<and> (let c = run_machine client_step (client_new w) pre; c' = fst (client_step c e) in
        usable m \<and> cl_pending c = None \<and> cl_pending c' = Some m
        \<and> cl_applied c \<noteq> Some (mode_tuple m) \<and> cl_permission c' = Some PERMISSION_READY
        \<and> (\<exists>ms. cl_modes c' = Some ms \<and> m \<in> set ms))"
proof -
  obtain pre e post where es: "es = pre @ e # post"
    and "client_legal (run_machine client_step (client_new w) pre) e m"
    using client_machine.trace_legal[OF client_new_inv assms] by blast
  then show ?thesis
    by (intro exI[of _ pre] exI[of _ e] exI[of _ post])
      (auto simp: client_legal_def client_ready_def Let_def split: option.splits)
qed

lemma client_requests_legal_witness:
  "\<exists>pre e post. [Advertise 0 [\<lparr>m_width = 1280, m_height = 720, m_fps = 30, m_bitrate = 1\<rparr>]]
       = pre @ e # post
    \<and> cl_pending (run_machine client_step (client_new wish_default) pre) = None"
proof -
  have m: "\<lparr>m_width = 1280, m_height = 720, m_fps = 30, m_bitrate = 1\<rparr>
      \<in> set (machine_trace client_step (client_new wish_default)
          [Advertise 0 [\<lparr>m_width = 1280, m_height = 720, m_fps = 30, m_bitrate = 1\<rparr>]])"
    by (simp add: client_advertise_def client_new_def client_ready_def client_resolve_def
        client_begin_def Let_def resolve_def wish_default_def wish_valid_def suits_def usable_def
        wish_from_def mode_tuple_def option_list_def)
  show ?thesis using client_requests_legal[OF m] by (auto simp: Let_def)
qed

text \<open>
  The applied quality is only ever what the receiver confirmed for the pending request:
  after any events the client is staged only while a request is pending and nothing is applied,
  and a confirmation is accepted exactly if its size and rate are those of the pending request;
  otherwise the request is dropped with an error and the applied quality is unchanged.
\<close>

theorem client_confirmation:
  "(let c = run_machine client_step (client_new w) es in
     (if cl_staged c then cl_pending c \<noteq> None \<and> cl_applied c = None else True)
     \<and> (case client_confirmed c wd ht fps of (c', ok) \<Rightarrow>
          (ok \<longleftrightarrow> (\<exists>m. cl_pending c = Some m \<and> mode_tuple m = (wd, ht, fps)))
          \<and> cl_applied c' = (if ok then Some (wd, ht, fps) else cl_applied c)
          \<and> cl_pending c' = None \<and> \<not> cl_staged c' \<and> (cl_error c' = None \<longleftrightarrow> ok)))"
proof -
  have "client_inv (run_machine client_step (client_new w) es)"
    by (rule client_machine.run_inv[OF client_new_inv])
  then show ?thesis
    by (auto simp: Let_def client_inv_def client_confirmed_def client_failed_def)
qed

end
