(* ===== verification/Settings.thy ===== *)
theory Settings
  imports Ini Secure Quality_Pref
begin

text \<open>
  The saved settings, \<open>settings.rs\<close>: the record, its validation, the conversion from and to key
  values, the clamping to the edition, and the Unix store (reading the user's file and the
  fallbacks, saving over the user's file). What the build was compiled for is a record of flags;
  a file is what reading its text and its mode bits give. Saving is a sequence of operations on the
  settings file and the temporary file, each with the system's answer. The registry store of Windows is in
  \<open>Registry\<close>.
\<close>

section \<open>The record\<close>

record build =
  b_linux :: bool
  b_windows :: bool
  b_video :: bool
  b_pipewire :: bool

datatype backend = Loopback | Pipewire

definition backend_parse :: "ustr \<Rightarrow> backend option" where
  "backend_parse value =
     (if trim value = lit ''loopback'' then Some Loopback
      else if trim value = lit ''pipewire'' then Some Pipewire else None)"

definition backend_as_str :: "backend \<Rightarrow> ustr" where
  "backend_as_str b = (case b of Loopback \<Rightarrow> lit ''loopback'' | Pipewire \<Rightarrow> lit ''pipewire'')"

definition backend_available :: "build \<Rightarrow> backend \<Rightarrow> bool" where
  "backend_available cfg b =
     (case b of Loopback \<Rightarrow> b_linux cfg \<or> b_windows cfg | Pipewire \<Rightarrow> b_linux cfg \<and> b_pipewire cfg)"

record settings =
  transport :: ustr
  lan_host :: ustr
  lan_fingerprint :: ustr
  lan_key :: ustr
  last_connected :: nat
  decode :: ustr
  output_path :: ustr
  output_kind :: ustr
  rotation :: nat
  mirror :: bool
  vertical_flip :: bool
  quality_width :: u16
  quality_height :: u16
  quality_fps :: u16
  quality_warning :: "ustr option"
  quality_clamped :: bool

definition settings_default :: "build \<Rightarrow> settings" where
  "settings_default cfg =
     \<lparr>transport = lit ''usb'', lan_host = [], lan_fingerprint = [], lan_key = [],
      last_connected = 0, decode = lit ''auto'',
      output_path = (if b_windows cfg then lit ''Unity Video Capture'' else lit ''/dev/video10''),
      output_kind = lit ''loopback'', rotation = 0, mirror = True, vertical_flip = False,
      quality_width = 0, quality_height = 0, quality_fps = 0, quality_warning = None,
      quality_clamped = False\<rparr>"

definition lan_pairing_complete :: "settings \<Rightarrow> bool" where
  "lan_pairing_complete s \<longleftrightarrow> trim (lan_host s) \<noteq> [] \<and> is_hex (lan_fingerprint s) 32 \<and> is_hex (lan_key s) 16"

definition quality_wish :: "settings \<Rightarrow> wish" where
  "quality_wish s = wish_from (quality_width s, quality_height s, quality_fps s)"

definition set_quality_wish :: "settings \<Rightarrow> wish \<Rightarrow> settings" where
  "set_quality_wish s w = s\<lparr>quality_width := w_width w, quality_height := w_height w,
     quality_fps := w_fps w, quality_warning := None\<rparr>"

definition bad_line :: "ustr \<Rightarrow> bool" where
  "bad_line v \<longleftrightarrow> str_len v > 4096 \<or> 0 \<in> set v \<or> 10 \<in> set v"

definition settings_validate :: "build \<Rightarrow> settings \<Rightarrow> error + unit" where
  "settings_validate cfg s =
     (if transport s \<notin> {lit ''usb'', lit ''lan''} then Inl (Msg ''invalid transport'')
      else if (lan_fingerprint s \<noteq> [] \<and> \<not> is_hex (lan_fingerprint s) 32)
           \<or> (lan_key s \<noteq> [] \<and> \<not> is_hex (lan_key s) 16)
      then Inl (Msg ''invalid Wi-Fi pairing fingerprint or key'')
      else if rotation s \<notin> {0, 90, 180, 270} then Inl (Msg ''invalid rotation'')
      else if \<not> wish_valid (quality_wish s) then Inl (Msg ''invalid quality preference'')
      else if decode s \<notin> {lit ''auto'', lit ''off'', lit ''software'', lit ''vaapi'', lit ''cuda'',
                          lit ''d3d11va''} then Inl (Msg ''invalid decoder'')
      else if bad_line (lan_host s) \<or> bad_line (output_path s)
      then Inl (Msg ''invalid saved address or output'')
      else if b_video cfg
      then (case backend_parse (output_kind s) of
              None \<Rightarrow> Inl (Msg ''invalid output backend'')
            | Some b \<Rightarrow> if backend_available cfg b then Inr ()
                        else Inl (Msg (case b of Loopback \<Rightarrow> ''the loopback backend is not built into this host''
                           | Pipewire \<Rightarrow> ''the pipewire backend is not built into this host'')))
      else if trim (output_kind s) \<notin> {lit ''loopback'', lit ''pipewire''}
      then Inl (Msg ''invalid output backend'')
      else Inr ())"

section \<open>Key values\<close>

definition show_bool :: "bool \<Rightarrow> ustr" where
  "show_bool b = (if b then lit ''true'' else lit ''false'')"

text \<open>\<open>values()\<close>, in the order a \<open>BTreeMap\<close> iterates.\<close>

definition settings_values :: "settings \<Rightarrow> (ustr \<times> ustr) list" where
  "settings_values s =
     [(lit ''decode'', decode s),
      (lit ''lanFingerprint'', trim (lan_fingerprint s)),
      (lit ''lanHost'', trim (lan_host s)),
      (lit ''lanKey'', trim (lan_key s)),
      (lit ''lastConnected'', show_dec (last_connected s)),
      (lit ''mirror'', show_bool (mirror s)),
      (lit ''output'', trim (output_path s)),
      (lit ''outputKind'', trim (output_kind s)),
      (lit ''qualityFps'', show_dec (unat (quality_fps s))),
      (lit ''qualityHeight'', show_dec (unat (quality_height s))),
      (lit ''qualityWidth'', show_dec (unat (quality_width s))),
      (lit ''rotation'', show_dec (rotation s)),
      (lit ''transport'', transport s),
      (lit ''verticalFlip'', show_bool (vertical_flip s))]"

definition setting_keys :: "ustr list" where
  "setting_keys = map fst (settings_values (settings_default
     \<lparr>b_linux = True, b_windows = False, b_video = True, b_pipewire = False\<rparr>))"

definition parse_bool :: "ustr \<Rightarrow> error + bool" where
  "parse_bool v =
     (if v \<in> {lit ''true'', lit ''1''} then Inr True
      else if v \<in> {lit ''false'', lit ''0''} then Inr False
      else Inl (Msg ''invalid saved boolean''))"

text \<open>The value, and whether it made the preference invalid.\<close>

definition parse_quality_value :: "ustr \<Rightarrow> u16 \<times> bool" where
  "parse_quality_value v = (case parse_u16 v of Some n \<Rightarrow> (of_nat n, False) | None \<Rightarrow> (0, True))"

text \<open>
  One arm of the match in \<open>from_values\<close>; the state is the settings and the invalid flag. The keys
  come in the map's order, unknown keys have no arm.
\<close>

definition apply_value :: "settings \<times> bool \<Rightarrow> ustr \<times> ustr \<Rightarrow> error + (settings \<times> bool)" where
  "apply_value st kv =
     (let (s, bad) = st; (key, value) = kv
      in if key = lit ''transport'' then Inr (s\<lparr>transport := value\<rparr>, bad)
         else if key = lit ''lanHost'' then Inr (s\<lparr>lan_host := value\<rparr>, bad)
         else if key = lit ''lanFingerprint'' then Inr (s\<lparr>lan_fingerprint := value\<rparr>, bad)
         else if key = lit ''lanKey'' then Inr (s\<lparr>lan_key := value\<rparr>, bad)
         else if key = lit ''decode'' then Inr (s\<lparr>decode := value\<rparr>, bad)
         else if key = lit ''output'' then Inr (s\<lparr>output_path := value\<rparr>, bad)
         else if key = lit ''outputKind'' then Inr (s\<lparr>output_kind := value\<rparr>, bad)
         else if key = lit ''rotation''
         then (case parse_u16 value of
                 Some n \<Rightarrow> Inr (s\<lparr>rotation := n\<rparr>, bad) | None \<Rightarrow> Inl (Msg ''invalid number''))
         else if key = lit ''mirror'' then try_r (parse_bool value) (\<lambda>b. Inr (s\<lparr>mirror := b\<rparr>, bad))
         else if key = lit ''verticalFlip''
         then try_r (parse_bool value) (\<lambda>b. Inr (s\<lparr>vertical_flip := b\<rparr>, bad))
         else if key = lit ''qualityWidth''
         then (let (v, inv) = parse_quality_value value in Inr (s\<lparr>quality_width := v\<rparr>, bad \<or> inv))
         else if key = lit ''qualityHeight''
         then (let (v, inv) = parse_quality_value value in Inr (s\<lparr>quality_height := v\<rparr>, bad \<or> inv))
         else if key = lit ''qualityFps''
         then (let (v, inv) = parse_quality_value value in Inr (s\<lparr>quality_fps := v\<rparr>, bad \<or> inv))
         else if key = lit ''lastConnected''
         then Inr (s\<lparr>last_connected := (case parse_u64 value of Some n \<Rightarrow> n | None \<Rightarrow> 0)\<rparr>, bad)
         else Inr (s, bad))"

fun apply_values :: "settings \<times> bool \<Rightarrow> (ustr \<times> ustr) list \<Rightarrow> error + (settings \<times> bool)" where
  "apply_values st [] = Inr st"
| "apply_values st (kv # kvs) = try_r (apply_value st kv) (\<lambda>st'. apply_values st' kvs)"

definition clamp_quality_to_edition :: "settings \<Rightarrow> edition_cap \<Rightarrow> settings" where
  "clamp_quality_to_edition s cap =
     (let (w, changed) = clamp_wish cap (quality_wish s)
      in if changed
         then (set_quality_wish s w)\<lparr>quality_clamped := True, quality_warning :=
                Some (lit ''saved quality is above this edition's limit; using the best allowed'')\<rparr>
         else s)"

text \<open>The entries of a map that have a known key, in the map's order.\<close>

definition entries :: "ini_map \<Rightarrow> (ustr \<times> ustr) list" where
  "entries m = concat (map (\<lambda>k. case m k of None \<Rightarrow> [] | Some v \<Rightarrow> [(k, v)]) setting_keys)"

definition from_values :: "build \<Rightarrow> ini_map \<Rightarrow> error + settings" where
  "from_values cfg m =
     try_r (apply_values (settings_default cfg, False) (entries m)) (\<lambda>(s, bad).
       let s1 = (if bad \<or> \<not> wish_valid (quality_wish s)
                 then (set_quality_wish s wish_default)\<lparr>quality_warning :=
                        Some (lit ''invalid saved quality preference; using Auto'')\<rparr>
                 else s);
           s2 = clamp_quality_to_edition s1 active_edition
       in try_r (settings_validate cfg s2) (\<lambda>_. Inr s2))"

section \<open>The Unix store\<close>

text \<open>
  A file: what \<open>read_to_string\<close> and \<open>metadata\<close> give for it. A file that may not be read, or holds no
  UTF-8, is one whose text is an error; a file that does not exist is None.
\<close>

record file_entry =
  fe_text :: "error + ustr"
  fe_mode :: "error + nat"

definition group_or_other :: "nat \<Rightarrow> bool" where
  "group_or_other mode \<longleftrightarrow> mode mod 64 \<noteq> 0"

definition read_file :: "file_entry option \<Rightarrow> error + ustr" where
  "read_file f =
     (case f of
        None \<Rightarrow> Inr []
      | Some e \<Rightarrow>
          try_r (fe_text e) (\<lambda>data.
            if str_len data > 1024 * 1024 then Inl (Msg ''settings file exceeds 1 MiB'')
            else if list_ex (\<lambda>l. starts_with (lit ''lanKey='') (trim_start l)) (str_lines data)
            then try_r (fe_mode e) (\<lambda>mode.
                   if group_or_other mode
                   then Inl (Msg ''Wi-Fi credentials are readable by other users; run chmod 600 on the settings file'')
                   else Inr data)
            else Inr data))"

fun join_newline :: "ustr list \<Rightarrow> ustr" where
  "join_newline [] = []"
| "join_newline [l] = l"
| "join_newline (l # ls) = l @ 10 # join_newline ls"

definition read_loose_file :: "file_entry option \<Rightarrow> error + ustr" where
  "read_loose_file f =
     (case f of
        None \<Rightarrow> Inr []
      | Some e \<Rightarrow>
          try_r (fe_text e) (\<lambda>data.
            if str_len data > 1024 * 1024 then Inl (Msg ''settings file exceeds 1 MiB'')
            else Inr (join_newline (filter (\<lambda>l. \<not> (starts_with (lit ''lanKey='') (trim_start l)
                   \<or> starts_with (lit ''lanFingerprint='') (trim_start l))) (str_lines data)))))"

text \<open>\<open>entry(key).or_insert(value)\<close>, without the credentials of a fallback.\<close>

definition merge_values :: "bool \<Rightarrow> ini_map \<Rightarrow> ini_map \<Rightarrow> ini_map" where
  "merge_values primary m new =
     (\<lambda>k. case m k of Some v \<Rightarrow> Some v
        | None \<Rightarrow> if \<not> primary \<and> k \<in> {lit ''lanKey'', lit ''lanFingerprint''} then None else new k)"

fun read_fallbacks :: "ini_map \<Rightarrow> file_entry option list \<Rightarrow> error + ini_map" where
  "read_fallbacks m [] = Inr m"
| "read_fallbacks m (f # fs) =
     try_r (read_loose_file f) (\<lambda>data. try_r (parse_ini setting_keys data) (\<lambda>new.
       read_fallbacks (merge_values False m new) fs))"

definition store_read :: "build \<Rightarrow> file_entry option \<Rightarrow> file_entry option list \<Rightarrow> error + settings" where
  "store_read cfg f fallbacks =
     try_r (read_file f) (\<lambda>data. try_r (parse_ini setting_keys data) (\<lambda>new.
       try_r (read_fallbacks (merge_values True Map.empty new) fallbacks) (\<lambda>m. from_values cfg m)))"

text \<open>
  \<open>Store::save\<close> works on two files: the settings file and the temporary file beside it. Every
  operation takes the disk and gives its result and the disk after it; an error ends the sequence
  with the disk as it is then.
\<close>

record disk =
  dk_file :: "file_entry option"
  dk_temp :: "file_entry option"

type_synonym 'a disk_op = "disk \<Rightarrow> (error + 'a) \<times> disk"

definition then_op :: "'a disk_op \<Rightarrow> ('a \<Rightarrow> 'b disk_op) \<Rightarrow> 'b disk_op" where
  "then_op m f d = (case m d of (Inl e, d') \<Rightarrow> (Inl e, d') | (Inr x, d') \<Rightarrow> f x d')"

definition pure_op :: "error + 'a \<Rightarrow> 'a disk_op" where
  "pure_op r d = (r, d)"

text \<open>
  What the surroundings do to one save: the system's answers, what a reader of a torn temporary
  file would get, and what other processes make of the settings file between the first read and
  the second, and between the second read and the rename.
\<close>

record save_io =
  si_directory :: "error + unit"
  si_create :: "error + unit"
  si_write :: "error + unit"
  si_torn :: "error + ustr"
  si_flush :: "error + unit"
  si_rename :: "error + unit"
  si_sync :: "error + unit"
  si_remove :: "error + unit"
  si_other :: "file_entry option \<Rightarrow> file_entry option"
  si_late :: "file_entry option \<Rightarrow> file_entry option"

definition op_read :: "ustr disk_op" where
  "op_read d = (read_file (dk_file d), d)"

definition op_create :: "save_io \<Rightarrow> unit disk_op" where
  "op_create io d =
     (case si_create io of
        Inl e \<Rightarrow> (Inl e, d)
      | Inr _ \<Rightarrow> (Inr (), d\<lparr>dk_temp := Some \<lparr>fe_text = Inr [], fe_mode = Inr 384\<rparr>\<rparr>))"

definition op_write :: "save_io \<Rightarrow> ustr \<Rightarrow> unit disk_op" where
  "op_write io text d =
     (si_write io, d\<lparr>dk_temp := map_option (\<lambda>f. f\<lparr>fe_text :=
        (if isl (si_write io) then si_torn io else Inr text)\<rparr>) (dk_temp d)\<rparr>)"

definition op_rename :: "save_io \<Rightarrow> unit disk_op" where
  "op_rename io d =
     (case si_rename io of
        Inl e \<Rightarrow> (Inl e, d)
      | Inr _ \<Rightarrow> (Inr (), \<lparr>dk_file = dk_temp d, dk_temp = None\<rparr>))"

definition op_remove :: "save_io \<Rightarrow> disk \<Rightarrow> disk" where
  "op_remove io d = (case si_remove io of Inl _ \<Rightarrow> d | Inr _ \<Rightarrow> d\<lparr>dk_temp := None\<rparr>)"

definition op_others :: "(file_entry option \<Rightarrow> file_entry option) \<Rightarrow> unit disk_op" where
  "op_others g d = (Inr (), d\<lparr>dk_file := g (dk_file d)\<rparr>)"

text \<open>The closure that writes the temporary file and renames it over the settings file.\<close>

definition replace_file :: "save_io \<Rightarrow> ustr \<Rightarrow> ustr \<Rightarrow> unit disk_op" where
  "replace_file io data text =
     then_op (op_create io) (\<lambda>_.
     then_op (op_write io text) (\<lambda>_.
     then_op (pure_op (si_flush io)) (\<lambda>_.
     then_op (op_others (si_other io)) (\<lambda>_.
     then_op op_read (\<lambda>again.
       if again \<noteq> data
       then pure_op (Inl (Msg ''settings changed in another process; reopen the app''))
       else
         then_op (op_others (si_late io)) (\<lambda>_.
         then_op (op_rename io) (\<lambda>_.
         pure_op (si_sync io))))))))"

definition store_save :: "build \<Rightarrow> settings \<Rightarrow> save_io \<Rightarrow> unit disk_op" where
  "store_save cfg s io =
     then_op (pure_op (settings_validate cfg s)) (\<lambda>_.
     then_op op_read (\<lambda>data.
     then_op (pure_op (parse_ini setting_keys data)) (\<lambda>m.
     then_op (pure_op (from_values cfg m)) (\<lambda>_.
     then_op (pure_op (si_directory io)) (\<lambda>_ d.
       case replace_file io data (rewrite_ini (settings_values s) data) d of
         (Inl e, d') \<Rightarrow> (Inl e, op_remove io d')
       | (Inr _, d') \<Rightarrow> (Inr (), d'))))))"

text \<open>
  \<open>Store::load\<close>: a clamped wish is written back at once, best effort. Another process may change
  the file between the two.
\<close>

definition store_load ::
  "build \<Rightarrow> file_entry option list \<Rightarrow> (file_entry option \<Rightarrow> file_entry option) \<Rightarrow> save_io
    \<Rightarrow> settings disk_op" where
  "store_load cfg fallbacks other io d =
     (case store_read cfg (dk_file d) fallbacks of
        Inl e \<Rightarrow> (Inl e, d)
      | Inr s \<Rightarrow>
          if quality_clamped s
          then (case store_save cfg s io (d\<lparr>dk_file := other (dk_file d)\<rparr>) of
                  (Inr _, d') \<Rightarrow> (Inr (s\<lparr>quality_clamped := False\<rparr>), d')
                | (Inl e, d') \<Rightarrow>
                    (Inr (s\<lparr>quality_warning := Some
                       (lit ''saved quality is above this edition's limit; using the best allowed (could not save: ''
                        @ lit (error_text e) @ lit '')'')\<rparr>), d'))
          else (Inr s, d))"

lemmas disk_op_defs =
  then_op_def pure_op_def op_read_def op_create_def op_write_def op_rename_def op_others_def
  op_remove_def

section \<open>Round trips\<close>

text \<open>What a saved record reads back as: trimmed texts, the wish clamped to the edition.\<close>

definition settings_normal :: "settings \<Rightarrow> settings" where
  "settings_normal s = clamp_quality_to_edition
     (s\<lparr>lan_host := trim (lan_host s), lan_fingerprint := trim (lan_fingerprint s),
        lan_key := trim (lan_key s), output_path := trim (output_path s),
        output_kind := trim (output_kind s), quality_warning := None, quality_clamped := False\<rparr>)
     active_edition"

text \<open>What the Rust types guarantee: texts of scalar values, integers in range.\<close>

definition settings_wf :: "settings \<Rightarrow> bool" where
  "settings_wf s \<longleftrightarrow> list_all is_scalar (transport s) \<and> list_all is_scalar (lan_host s)
     \<and> list_all is_scalar (lan_fingerprint s) \<and> list_all is_scalar (lan_key s)
     \<and> list_all is_scalar (decode s) \<and> list_all is_scalar (output_path s)
     \<and> list_all is_scalar (output_kind s) \<and> last_connected s < 2 ^ 64 \<and> rotation s < 2 ^ 16"

lemma setting_keys_are: "map fst (settings_values s) = setting_keys"
  by (simp add: setting_keys_def settings_values_def)

lemma setting_keys_distinct: "distinct setting_keys"
  by (simp add: setting_keys_def settings_values_def)

lemma lit_key_ok: "key_ok (lit k)" if "k \<noteq> []" "list_all (\<lambda>c. 65 \<le> (of_char c :: nat) \<and> (of_char c :: nat) \<le> 122 \<and> (of_char c :: nat) \<noteq> 91) k"
proof -
  have a: "\<forall>x \<in> set (lit k). 65 \<le> x \<and> x \<le> 122 \<and> x \<noteq> 91"
    using that(2) by (auto simp: lit_def list_all_iff)
  have n: "lit k \<noteq> []" using that(1) by (simp add: lit_def)
  have w: "\<not> is_whitespace x" if "65 \<le> x \<and> x \<le> 122" for x
    using that by (auto simp: is_whitespace_def)
  have "hd (lit k) \<in> set (lit k)" "last (lit k) \<in> set (lit k)" using n by simp_all
  then show ?thesis using a n w unfolding key_ok_def trimmed_def by fastforce
qed

lemma setting_keys_ok: "k \<in> set setting_keys \<Longrightarrow> key_ok k"
  unfolding setting_keys_def settings_values_def by (auto simp del: lit_simps intro!: lit_key_ok)

lemma entries_of_list:
  "distinct (map fst kvs) \<Longrightarrow>
     concat (map (\<lambda>k. case map_of kvs k of None \<Rightarrow> [] | Some v \<Rightarrow> [(k, v)]) (map fst kvs)) = kvs"
proof (induction kvs)
  case (Cons kv kvs)
  obtain k v where kv: "kv = (k, v)" by (cases kv)
  let ?F = "\<lambda>k'. case map_of (kv # kvs) k' of None \<Rightarrow> [] | Some v \<Rightarrow> [(k', v)]"
  have m: "map ?F (map fst kvs) = map (\<lambda>k'. case map_of kvs k' of None \<Rightarrow> [] | Some v \<Rightarrow> [(k', v)]) (map fst kvs)"
    using Cons.prems kv by (intro map_cong) auto
  have c: "concat (map ?F (map fst kvs)) = kvs"
    unfolding m by (rule Cons.IH) (use Cons.prems in simp)
  have "map ?F (map fst (kv # kvs)) = [kv] # map ?F (map fst kvs)" by (simp add: kv)
  then show ?case using c by (simp only: concat.simps append_Cons append_Nil)
qed simp

lemma entries_values: "entries (map_of (settings_values s)) = settings_values s"
  using entries_of_list[of "settings_values s"] setting_keys_distinct
  unfolding entries_def setting_keys_are[of s] by simp

lemma parse_show_bool: "parse_bool (show_bool b) = Inr b"
  by (simp add: parse_bool_def show_bool_def)

lemma parse_show_u16: "parse_quality_value (show_dec (unat (w :: u16))) = (w, False)"
  using parse_uint_show[of 10 "unat w" 65536] unsigned_less[of w, where ?'a = nat]
  by (simp add: parse_quality_value_def)

lemma apply_settings_values:
  assumes "settings_wf s"
  shows "apply_values (settings_default cfg, False) (settings_values s) =
    Inr (s\<lparr>lan_host := trim (lan_host s), lan_fingerprint := trim (lan_fingerprint s),
        lan_key := trim (lan_key s), output_path := trim (output_path s),
        output_kind := trim (output_kind s), quality_warning := None, quality_clamped := False\<rparr>, False)"
proof -
  have "parse_u64 (show_dec (last_connected s)) = Some (last_connected s)"
    using assms by (intro parse_uint_show) (simp_all add: settings_wf_def)
  moreover have "parse_u16 (show_dec (rotation s)) = Some (rotation s)"
    using assms by (intro parse_uint_show) (simp_all add: settings_wf_def)
  ultimately show ?thesis
    by (simp add: settings_values_def apply_value_def parse_show_bool parse_show_u16
        settings_default_def)
qed


lemma trim_split: "\<exists>p q. v = p @ trim v @ q"
proof -
  obtain p where p: "v = p @ trim_start v" unfolding trim_start_def by (metis takeWhile_dropWhile_id)
  obtain q where "rev (trim_start v) = q @ dropWhile is_whitespace (rev (trim_start v))"
    by (metis takeWhile_dropWhile_id)
  then have "trim_start v = rev (dropWhile is_whitespace (rev (trim_start v))) @ rev q"
    by (metis rev_append rev_rev_ident)
  then have "trim_start v = trim v @ rev q" by (simp add: trim_def trim_end_def)
  then show ?thesis using p by metis
qed

lemma bad_line_trim: "\<not> bad_line v \<Longrightarrow> \<not> bad_line (trim v)"
proof -
  assume a: "\<not> bad_line v"
  obtain p q where v: "v = p @ trim v @ q" using trim_split by blast
  have "str_len (p @ trim v @ q) = str_len p + str_len (trim v) + str_len q"
    by (simp add: str_len_def utf8_def)
  then have "str_len (trim v) \<le> str_len v" using v by (metis le_add1 le_add2 order_trans)
  then show ?thesis using a trim_subset[of v] by (auto simp: bad_line_def)
qed

lemma hexdigit_not_space: "is_ascii_hexdigit c \<Longrightarrow> \<not> is_whitespace c"
  by (auto simp: is_ascii_hexdigit_def is_whitespace_def)

lemma utf8_hexdigits: "list_all is_ascii_hexdigit (utf8 v) \<Longrightarrow> list_all is_ascii_hexdigit v"
proof (induction v)
  case (Cons c v)
  have "c < 128" using Cons.prems by (auto simp: utf8_def utf8_char_def is_ascii_hexdigit_def split: if_splits)
  then show ?case using Cons by (simp add: utf8_def utf8_char_def)
qed simp

lemma trim_hex: "is_hex v n \<Longrightarrow> trim v = v"
proof -
  assume "is_hex v n"
  then have "list_all is_ascii_hexdigit v" by (auto simp: is_hex_def intro: utf8_hexdigits)
  then have "trimmed v" using hexdigit_not_space by (cases "v = []") (auto simp: trimmed_def list_all_iff)
  then show ?thesis by simp
qed

lemma clamp_quality_simps:
  "transport (clamp_quality_to_edition s cap) = transport s"
  "lan_host (clamp_quality_to_edition s cap) = lan_host s"
  "lan_fingerprint (clamp_quality_to_edition s cap) = lan_fingerprint s"
  "lan_key (clamp_quality_to_edition s cap) = lan_key s"
  "decode (clamp_quality_to_edition s cap) = decode s"
  "output_path (clamp_quality_to_edition s cap) = output_path s"
  "output_kind (clamp_quality_to_edition s cap) = output_kind s"
  "rotation (clamp_quality_to_edition s cap) = rotation s"
  "last_connected (clamp_quality_to_edition s cap) = last_connected s"
  "quality_wish (clamp_quality_to_edition s cap) = fst (clamp_wish cap (quality_wish s))"
  by (auto simp: clamp_quality_to_edition_def set_quality_wish_def quality_wish_def wish_from_def
      clamp_wish_def Let_def split: prod.splits)

lemma clamp_wish_valid: "wish_valid w \<Longrightarrow> wish_valid (fst (clamp_wish cap w))"
  by (auto simp: clamp_wish_def Let_def wish_valid_def)

lemma validate_iff:
  "settings_validate cfg s = Inr () \<longleftrightarrow>
     transport s \<in> {lit ''usb'', lit ''lan''}
     \<and> (lan_fingerprint s = [] \<or> is_hex (lan_fingerprint s) 32)
     \<and> (lan_key s = [] \<or> is_hex (lan_key s) 16)
     \<and> rotation s \<in> {0, 90, 180, 270} \<and> wish_valid (quality_wish s)
     \<and> decode s \<in> {lit ''auto'', lit ''off'', lit ''software'', lit ''vaapi'', lit ''cuda'', lit ''d3d11va''}
     \<and> \<not> bad_line (lan_host s) \<and> \<not> bad_line (output_path s)
     \<and> (\<exists>b. backend_parse (output_kind s) = Some b \<and> (b_video cfg \<longrightarrow> backend_available cfg b))"
  unfolding settings_validate_def
  by (auto simp: backend_parse_def split: option.splits if_splits simp del: lit_simps)

lemma validate_normal: "settings_validate cfg s = Inr () \<Longrightarrow> settings_validate cfg (settings_normal s) = Inr ()"
proof -
  assume v: "settings_validate cfg s = Inr ()"
  have q: "quality_wish (settings_normal s) = fst (clamp_wish active_edition (quality_wish s))"
    by (simp add: settings_normal_def clamp_quality_simps) (simp add: quality_wish_def)
  have f: "transport (settings_normal s) = transport s" "rotation (settings_normal s) = rotation s"
      "decode (settings_normal s) = decode s" "lan_host (settings_normal s) = trim (lan_host s)"
      "lan_fingerprint (settings_normal s) = trim (lan_fingerprint s)"
      "lan_key (settings_normal s) = trim (lan_key s)" "output_path (settings_normal s) = trim (output_path s)"
      "backend_parse (output_kind (settings_normal s)) = backend_parse (output_kind s)"
    by (simp_all add: settings_normal_def clamp_quality_simps backend_parse_def del: lit_simps)
  have h: "trim x = [] \<or> is_hex (trim x) n" if "x = [] \<or> is_hex x n" for x n
    using that trim_hex[of x n] by auto
  show ?thesis
    using v[unfolded validate_iff] h[of "lan_fingerprint s" 32] h[of "lan_key s" 16]
      bad_line_trim[of "lan_host s"] bad_line_trim[of "output_path s"]
      clamp_wish_valid[of "quality_wish s" active_edition]
    unfolding validate_iff q f by blast
qed

lemma from_values_values:
  assumes "settings_validate cfg s = Inr ()" "settings_wf s"
  shows "from_values cfg (map_of (settings_values s)) = Inr (settings_normal s)"
proof -
  have w: "wish_valid (quality_wish s)" using assms(1) by (simp add: validate_iff)
  show ?thesis
    using w validate_normal[OF assms(1)]
    unfolding from_values_def entries_values apply_settings_values[OF assms(2)]
    by (simp add: settings_normal_def Let_def) (simp add: quality_wish_def)
qed

lemma values_scalar: "settings_wf s \<Longrightarrow> \<forall>(k, v) \<in> set (settings_values s). key_ok k \<and> (\<forall>c \<in> set v. is_scalar c)"
proof -
  assume wf: "settings_wf s"
  have t: "list_all is_scalar v \<Longrightarrow> list_all is_scalar (trim v)" for v
    using trim_subset[of v] by (auto simp: list_all_iff)
  have d: "list_all is_scalar (show_dec n)" for n
    using show_dec_ascii by (fastforce simp: is_ascii_digit_def is_scalar_def list_all_iff)
  have b: "list_all is_scalar (show_bool x)" for x
    by (simp add: show_bool_def chr_def is_scalar_def)
  have k: "key_ok k" if "(k, v) \<in> set (settings_values s)" for k v
    using that setting_keys_ok unfolding setting_keys_are[of s, symmetric] by force
  have "list_all (\<lambda>kv. list_all is_scalar (snd kv)) (settings_values s)"
    using wf unfolding settings_wf_def settings_values_def by (simp add: t d b del: lit_simps)
  then have "list_all is_scalar v" if "(k, v) \<in> set (settings_values s)" for k v
    using that by (auto simp: list_all_iff)
  then show ?thesis using k by (auto simp: list_all_iff)
qed

lemma parse_saved:
  "settings_wf s \<Longrightarrow> parse_ini setting_keys (rewrite_ini (settings_values s) data) = Inr (map_of (settings_values s))"
proof (rule parse_rewrite[OF values_scalar])
  show "distinct (map fst (settings_values s))"
    unfolding setting_keys_are by (rule setting_keys_distinct)
  show "set setting_keys = fst ` set (settings_values s)"
    unfolding setting_keys_are[of s, symmetric] set_map by (rule refl)
qed

section \<open>Saving and loading\<close>

text \<open>The file a save leaves: the rewritten text, private to the user.\<close>

definition saved_entry :: "settings \<Rightarrow> ustr \<Rightarrow> file_entry" where
  "saved_entry s data = \<lparr>fe_text = Inr (rewrite_ini (settings_values s) data), fe_mode = Inr 384\<rparr>"

lemma replace_file_Inr:
  "replace_file io data text d = (Inr (), d') \<longleftrightarrow>
     si_create io = Inr () \<and> si_write io = Inr () \<and> si_flush io = Inr () \<and> si_rename io = Inr ()
     \<and> si_sync io = Inr () \<and> read_file (si_other io (dk_file d)) = Inr data
     \<and> d' = \<lparr>dk_file = Some \<lparr>fe_text = Inr text, fe_mode = Inr 384\<rparr>, dk_temp = None\<rparr>"
  by (auto simp: replace_file_def disk_op_defs split: sum.splits if_splits)

text \<open>A failure before the rename leaves the settings file to the others; one after it is the sync's.\<close>

lemma replace_file_Inl:
  assumes "replace_file io data text d = (Inl e, d')"
  shows "dk_file d' \<in> {dk_file d, si_other io (dk_file d), si_late io (si_other io (dk_file d))}
    \<or> (si_sync io = Inl e \<and> replace_file (io\<lparr>si_sync := Inr ()\<rparr>) data text d = (Inr (), d'))"
  using assms by (auto simp: replace_file_def disk_op_defs split: sum.splits if_splits)

lemma store_save_Inr:
  "store_save cfg s io d = (Inr (), d') \<longleftrightarrow>
     settings_validate cfg s = Inr () \<and> si_directory io = Inr ()
     \<and> (\<exists>data m s0. read_file (dk_file d) = Inr data \<and> parse_ini setting_keys data = Inr m
         \<and> from_values cfg m = Inr s0
         \<and> replace_file io data (rewrite_ini (settings_values s) data) d = (Inr (), d'))"
  by (auto simp: store_save_def then_op_def pure_op_def op_read_def split: sum.splits prod.splits)

lemma store_save_file:
  "store_save cfg s io d = (Inr (), d') \<Longrightarrow> settings_validate cfg s = Inr ()
     \<and> (\<exists>data. read_file (dk_file d) = Inr data \<and> read_file (si_other io (dk_file d)) = Inr data
         \<and> d' = \<lparr>dk_file = Some (saved_entry s data), dk_temp = None\<rparr>)"
  unfolding store_save_Inr replace_file_Inr saved_entry_def by blast

lemma read_fallbacks_keep:
  "read_fallbacks m fs = Inr m' \<Longrightarrow> m k = Some v \<Longrightarrow> m' k = Some v"
proof (induction fs arbitrary: m)
  case (Cons f fs)
  from Cons.prems(1) obtain data new where r: "read_fallbacks (merge_values False m new) fs = Inr m'"
    by (auto simp: try_r_Inr_iff)
  have "merge_values False m new k = Some v" using Cons.prems(2) by (simp add: merge_values_def)
  from Cons.IH[OF r this] show ?case .
qed simp

lemma read_fallbacks_credentials:
  "read_fallbacks m fs = Inr m' \<Longrightarrow> k \<in> {lit ''lanKey'', lit ''lanFingerprint''} \<Longrightarrow> m' k = m k"
proof (induction fs arbitrary: m)
  case (Cons f fs)
  from Cons.prems(1) obtain data new where r: "read_fallbacks (merge_values False m new) fs = Inr m'"
    by (auto simp: try_r_Inr_iff)
  have "merge_values False m new k = m k"
    using Cons.prems(2) by (auto simp: merge_values_def split: option.split simp del: lit_simps)
  then show ?case using Cons.IH[OF r Cons.prems(2)] by simp
qed simp

lemma read_fallbacks_error:
  "read_fallbacks m fs = Inl e \<Longrightarrow> read_fallbacks m' fs = Inl e"
  by (induction fs arbitrary: m m') (auto simp: try_r_Inl_iff)

lemma entries_cong: "(\<And>k. k \<in> set setting_keys \<Longrightarrow> m k = m' k) \<Longrightarrow> entries m = entries m'"
  unfolding entries_def by (rule arg_cong[where f = concat], rule map_cong) simp_all

lemma map_of_values: "k \<in> set setting_keys \<Longrightarrow> \<exists>v. map_of (settings_values s) k = Some v"
  unfolding setting_keys_are[of s, symmetric] by (metis map_of_eq_None_iff not_None_eq set_map)

lemma read_saved:
  assumes "settings_wf s" "settings_validate cfg s = Inr ()"
    and "str_len (rewrite_ini (settings_values s) data) \<le> 1024 * 1024"
    and "read_fallbacks Map.empty fs = Inr x"
  shows "store_read cfg (Some (saved_entry s data)) fs = Inr (settings_normal s)"
proof -
  let ?m = "map_of (settings_values s)"
  have p: "parse_ini setting_keys (rewrite_ini (settings_values s) data) = Inr ?m"
    using assms(1) by (rule parse_saved)
  have e: "merge_values True Map.empty ?m = ?m" by (simp add: merge_values_def)
  have r: "read_file (Some (saved_entry s data)) = Inr (rewrite_ini (settings_values s) data)"
    using assms(3) by (simp add: read_file_def saved_entry_def group_or_other_def)
  obtain m' where m': "read_fallbacks ?m fs = Inr m'"
    using assms(4) read_fallbacks_error[of ?m fs _ Map.empty] by (cases "read_fallbacks ?m fs") auto
  have "entries m' = entries ?m"
  proof (rule entries_cong)
    fix k assume "k \<in> set setting_keys"
    then obtain v where "?m k = Some v" using map_of_values by blast
    then show "m' k = ?m k" using read_fallbacks_keep[OF m'] by simp
  qed
  then have "from_values cfg m' = from_values cfg ?m" by (simp add: from_values_def)
  then show ?thesis
    using from_values_values[OF assms(2,1)] unfolding store_read_def r
    by (simp add: p e m')
qed

text \<open>Loading gives what was read, but for the warning and the flag of the write-back.\<close>

definition unflagged :: "settings \<Rightarrow> settings" where
  "unflagged s = s\<lparr>quality_warning := None, quality_clamped := False\<rparr>"

lemma load_of_read:
  assumes "store_read cfg (dk_file d) fs = Inr s"
  shows "\<exists>l d'. store_load cfg fs other io d = (Inr l, d') \<and> unflagged l = unflagged s
    \<and> (\<not> quality_clamped s \<longrightarrow> l = s \<and> d' = d)"
  using assms by (auto simp: store_load_def unflagged_def split: prod.splits sum.splits)

text \<open>
  C4. Saved settings come back: when a save succeeds, the file is private to the user; its lines
  contain, unchanged and in their old order, all the lines of the old file but those that set one
  of the settings in the \<open>[General]\<close> section; and, as long as it stays within the reader's size
  limit and the system-wide files are readable, \<open>load\<close> with any fallbacks gives the saved settings
  with trimmed texts and the wish clamped to the edition, and leaves the file alone unless the wish
  had to be clamped.
\<close>

theorem save_then_load:
  assumes "store_save cfg s io d = (Inr (), d')" and "settings_wf s"
    and "read_fallbacks Map.empty fs = Inr x"
  shows "\<exists>old text new_lines. read_file (dk_file d) = Inr old
    \<and> dk_file d' = Some \<lparr>fe_text = Inr text, fe_mode = Inr 384\<rparr>
    \<and> text = unlines new_lines \<and> (\<forall>l \<in> set new_lines. 10 \<notin> set l)
    \<and> subseq (nths (str_lines old) {i. \<not> assigns setting_keys (str_lines old) i}) new_lines
    \<and> (str_len text \<le> 1024 * 1024 \<longrightarrow>
        (\<exists>l d''. store_load cfg fs other io' d' = (Inr l, d'')
          \<and> unflagged l = unflagged (settings_normal s)
          \<and> (\<not> quality_clamped (settings_normal s) \<longrightarrow> l = settings_normal s \<and> d'' = d')))"
proof -
  obtain data where v: "settings_validate cfg s = Inr ()" and d: "read_file (dk_file d) = Inr data"
    and f: "d' = \<lparr>dk_file = Some (saved_entry s data), dk_temp = None\<rparr>"
    using store_save_file[OF assms(1)] by blast
  obtain ls where ls: "rewrite_ini (settings_values s) data = unlines ls" "\<forall>l \<in> set ls. 10 \<notin> set l"
    "subseq (nths (str_lines data) {i. \<not> assigns setting_keys (str_lines data) i}) ls"
    using rewrite_keeps[OF values_scalar[OF assms(2)], of data] unfolding setting_keys_are by blast
  have "\<exists>l d''. store_load cfg fs other io' d' = (Inr l, d'')
          \<and> unflagged l = unflagged (settings_normal s)
          \<and> (\<not> quality_clamped (settings_normal s) \<longrightarrow> l = settings_normal s \<and> d'' = d')"
    if "str_len (rewrite_ini (settings_values s) data) \<le> 1024 * 1024"
    by (rule load_of_read) (simp add: f read_saved[OF assms(2) v that assms(3)])
  then show ?thesis using d f ls unfolding saved_entry_def by auto
qed


definition linux_build :: build where
  "linux_build = \<lparr>b_linux = True, b_windows = False, b_video = True, b_pipewire = False\<rparr>"

lemma default_valid: "settings_validate linux_build (settings_default linux_build) = Inr ()"
  by (simp add: validate_iff settings_default_def linux_build_def quality_wish_def wish_from_def
      wish_valid_def bad_line_def backend_parse_def backend_available_def str_len_def utf8_def
      utf8_char_def chr_def trim_def trim_start_def trim_end_def is_whitespace_def)

lemma default_wf: "settings_wf (settings_default cfg)"
  by (simp add: settings_wf_def settings_default_def is_scalar_def chr_def)

lemma default_clamp: "clamp_quality_to_edition (settings_default cfg) active_edition = settings_default cfg"
  by (simp add: clamp_quality_to_edition_def clamp_wish_def quality_wish_def wish_from_def
      settings_default_def active_edition_def OSS_CAP_1080P30_def Let_def)

lemma from_no_values: "from_values linux_build Map.empty = Inr (settings_default linux_build)"
proof -
  have "wish_valid (quality_wish (settings_default linux_build))"
    using default_valid by (simp add: validate_iff)
  moreover have "entries Map.empty = []" by (simp add: entries_def)
  ultimately show ?thesis using default_valid by (simp add: from_values_def default_clamp Let_def)
qed

text \<open>A system without failures, and nobody else at work.\<close>

definition calm_io :: save_io where
  "calm_io = \<lparr>si_directory = Inr (), si_create = Inr (), si_write = Inr (), si_torn = Inr [],
     si_flush = Inr (), si_rename = Inr (), si_sync = Inr (), si_remove = Inr (),
     si_other = (\<lambda>f. f), si_late = (\<lambda>f. f)\<rparr>"

lemma save_then_load_witness:
  "\<exists>d'. store_save linux_build (settings_default linux_build) calm_io
       \<lparr>dk_file = None, dk_temp = None\<rparr> = (Inr (), d')
     \<and> (\<exists>text. dk_file d' = Some \<lparr>fe_text = Inr text, fe_mode = Inr 384\<rparr>)"
proof -
  have "store_save linux_build (settings_default linux_build) calm_io \<lparr>dk_file = None, dk_temp = None\<rparr>
     = (Inr (), \<lparr>dk_file = Some (saved_entry (settings_default linux_build) []), dk_temp = None\<rparr>)"
    unfolding store_save_Inr replace_file_Inr saved_entry_def
    by (simp add: calm_io_def default_valid read_file_def parse_ini_def str_lines_def from_no_values)
  moreover from save_then_load[OF this default_wf, of "[]" Map.empty]
  have "\<exists>text. dk_file \<lparr>dk_file = Some (saved_entry (settings_default linux_build) []), dk_temp = None\<rparr>
      = Some \<lparr>fe_text = Inr text, fe_mode = Inr 384\<rparr>" by fastforce
  ultimately show ?thesis by blast
qed

text \<open>What every accepted map of values gives.\<close>

lemma apply_value_credentials:
  "apply_value st kv = Inr st' \<Longrightarrow>
     lan_key (fst st') = (if fst kv = lit ''lanKey'' then snd kv else lan_key (fst st))
     \<and> lan_fingerprint (fst st') = (if fst kv = lit ''lanFingerprint'' then snd kv else lan_fingerprint (fst st))"
  by (cases st; cases kv)
    (auto simp: apply_value_def try_r_Inr_iff Let_def split: if_splits option.splits prod.splits simp del: lit_simps)

lemma apply_values_credentials:
  "apply_values st kvs = Inr st' \<Longrightarrow> distinct (map fst kvs) \<Longrightarrow>
     lan_key (fst st') = (case map_of kvs (lit ''lanKey'') of None \<Rightarrow> lan_key (fst st) | Some v \<Rightarrow> v)
     \<and> lan_fingerprint (fst st')
         = (case map_of kvs (lit ''lanFingerprint'') of None \<Rightarrow> lan_fingerprint (fst st) | Some v \<Rightarrow> v)"
proof (induction kvs arbitrary: st)
  case (Cons kv kvs)
  obtain st1 where s1: "apply_value st kv = Inr st1" "apply_values st1 kvs = Inr st'"
    using Cons.prems(1) by (auto simp: try_r_Inr_iff)
  obtain k v where kv: "kv = (k, v)" by (cases kv)
  have n: "map_of kvs k = None" using Cons.prems(2) kv by (simp add: map_of_eq_None_iff)
  show ?case
    using Cons.IH[OF s1(2)] Cons.prems(2) apply_value_credentials[OF s1(1)] n
    by (auto simp: kv simp del: lit_simps cong: option.case_cong split: option.splits)
qed simp

lemma map_of_entries: "k \<in> set setting_keys \<Longrightarrow> map_of (entries m) k = m k"
proof -
  have "map_of (concat (map (\<lambda>k. case m k of None \<Rightarrow> [] | Some v \<Rightarrow> [(k, v)]) ks)) k
      = (if k \<in> set ks then m k else None)" for ks
    by (induction ks) (auto split: option.splits)
  then show "k \<in> set setting_keys \<Longrightarrow> map_of (entries m) k = m k" by (simp add: entries_def)
qed

lemma distinct_entries: "distinct (map fst (entries m))"
proof -
  have "map fst (concat (map (\<lambda>k. case m k of None \<Rightarrow> [] | Some v \<Rightarrow> [(k, v)]) ks)) = filter (\<lambda>k. m k \<noteq> None) ks" for ks
    by (induction ks) (auto split: option.splits)
  then show ?thesis using setting_keys_distinct by (simp add: entries_def)
qed

lemma clamp_wish_clamped: "clamp_wish cap (fst (clamp_wish cap w)) = (fst (clamp_wish cap w), False)"
  by (auto simp: clamp_wish_def Let_def)

lemma credential_keys: "lit ''lanKey'' \<in> set setting_keys" "lit ''lanFingerprint'' \<in> set setting_keys"
  by (simp_all add: setting_keys_def settings_values_def)

lemma from_values_safe:
  assumes "from_values cfg m = Inr s"
  shows "settings_validate cfg s = Inr ()
    \<and> clamp_wish active_edition (quality_wish s) = (quality_wish s, False)
    \<and> lan_key s = (case m (lit ''lanKey'') of None \<Rightarrow> [] | Some v \<Rightarrow> v)
    \<and> lan_fingerprint s = (case m (lit ''lanFingerprint'') of None \<Rightarrow> [] | Some v \<Rightarrow> v)"
proof -
  obtain s0 bad where a: "apply_values (settings_default cfg, False) (entries m) = Inr (s0, bad)"
    using assms by (auto simp: from_values_def try_r_Inr_iff)
  define s1 where "s1 = (if bad \<or> \<not> wish_valid (quality_wish s0)
      then (set_quality_wish s0 wish_default)\<lparr>quality_warning :=
             Some (lit ''invalid saved quality preference; using Auto'')\<rparr> else s0)"
  have s: "s = clamp_quality_to_edition s1 active_edition" and v: "settings_validate cfg s = Inr ()"
    using assms a by (auto simp: from_values_def try_r_Inr_iff s1_def Let_def simp del: lit_simps)
  have "lan_key s1 = lan_key s0" "lan_fingerprint s1 = lan_fingerprint s0"
    by (simp_all add: s1_def set_quality_wish_def del: lit_simps)
  then have "lan_key s = lan_key s0" "lan_fingerprint s = lan_fingerprint s0"
    unfolding s by (simp_all add: clamp_quality_simps)
  moreover have "clamp_wish active_edition (quality_wish s) = (quality_wish s, False)"
    unfolding s clamp_quality_simps by (rule clamp_wish_clamped)
  moreover have "lan_key (settings_default cfg) = []" "lan_fingerprint (settings_default cfg) = []"
    by (simp_all add: settings_default_def)
  ultimately show ?thesis
    using v apply_values_credentials[OF a distinct_entries]
      map_of_entries[OF credential_keys(1)] map_of_entries[OF credential_keys(2)]
    by (simp del: lit_simps cong: option.case_cong)
qed

lemma read_settings_safe:
  assumes "store_read cfg f fs = Inr s"
  shows "settings_validate cfg s = Inr ()
    \<and> clamp_wish active_edition (quality_wish s) = (quality_wish s, False)
    \<and> (\<exists>data m. read_file f = Inr data \<and> parse_ini setting_keys data = Inr m
        \<and> lan_key s = (case m (lit ''lanKey'') of None \<Rightarrow> [] | Some v \<Rightarrow> v)
        \<and> lan_fingerprint s = (case m (lit ''lanFingerprint'') of None \<Rightarrow> [] | Some v \<Rightarrow> v))"
proof -
  obtain data new m where r: "read_file f = Inr data" "parse_ini setting_keys data = Inr new"
    "read_fallbacks (merge_values True Map.empty new) fs = Inr m" "from_values cfg m = Inr s"
    using assms by (auto simp: store_read_def try_r_Inr_iff)
  have k: "m k = new k" if "k \<in> {lit ''lanKey'', lit ''lanFingerprint''}" for k
    using read_fallbacks_credentials[OF r(3) that] by (simp add: merge_values_def)
  show ?thesis
    using from_values_safe[OF r(4)] r(1,2) k[of "lit ''lanKey''"] k[of "lit ''lanFingerprint''"]
    by (simp del: lit_simps)
qed

text \<open>The write-back changes nothing but the warning and the flag.\<close>

definition same_wishes :: "settings \<Rightarrow> settings \<Rightarrow> bool" where
  "same_wishes a b \<longleftrightarrow> unflagged a = unflagged b \<and> quality_wish a = quality_wish b
     \<and> lan_key a = lan_key b \<and> lan_fingerprint a = lan_fingerprint b"

lemma validate_unflagged: "settings_validate cfg (unflagged s) = settings_validate cfg s"
  by (simp add: settings_validate_def unflagged_def quality_wish_def del: lit_simps)

lemma same_wishes_valid: "same_wishes a b \<Longrightarrow> settings_validate cfg a = settings_validate cfg b"
  by (metis same_wishes_def validate_unflagged)

lemma save_failure:
  assumes "store_save cfg s io \<lparr>dk_file = f, dk_temp = None\<rparr> = (Inl e, d')"
  shows "(dk_file d' \<in> {f, si_other io f, si_late io (si_other io f)}
        \<or> (si_sync io = Inl e
           \<and> store_save cfg s (io\<lparr>si_sync := Inr ()\<rparr>) \<lparr>dk_file = f, dk_temp = None\<rparr> = (Inr (), d')))
       \<and> (dk_temp d' = None \<or> isl (si_remove io))"
proof (cases "d' = \<lparr>dk_file = f, dk_temp = None\<rparr>")
  case False
  let ?d = "\<lparr>dk_file = f, dk_temp = None\<rparr>"
  obtain data m s0 d1 where c: "settings_validate cfg s = Inr ()" "si_directory io = Inr ()"
    "read_file f = Inr data" "parse_ini setting_keys data = Inr m" "from_values cfg m = Inr s0"
    and r: "replace_file io data (rewrite_ini (settings_values s) data) ?d = (Inl e, d1)"
    and d': "d' = op_remove io d1"
    using assms False
    by (auto simp: store_save_def then_op_def pure_op_def op_read_def split: sum.splits prod.splits)
  have f: "dk_file d' = dk_file d1" "dk_temp d' = None \<or> isl (si_remove io)"
    by (auto simp: d' op_remove_def split: sum.split)
  from replace_file_Inl[OF r] show ?thesis
  proof
    assume "dk_file d1 \<in> {dk_file ?d, si_other io (dk_file ?d), si_late io (si_other io (dk_file ?d))}"
    then show ?thesis using f by simp
  next
    assume a: "si_sync io = Inl e
      \<and> replace_file (io\<lparr>si_sync := Inr ()\<rparr>) data (rewrite_ini (settings_values s) data) ?d = (Inr (), d1)"
    then have "dk_temp d1 = None" by (simp add: replace_file_Inr)
    then have "d' = d1" unfolding d' op_remove_def by (cases d1) (simp split: sum.split)
    moreover have "store_save cfg s (io\<lparr>si_sync := Inr ()\<rparr>) ?d = (Inr (), d1)"
      unfolding store_save_Inr using a c by auto
    ultimately show ?thesis using a f(2) by blast
  qed
qed simp

text \<open>
  C11. A failed save never damages the settings: whatever fails (validation, an unreadable,
  oversized or unparsable old file, the directory, the temporary file, a change by another process,
  the rename), the settings file is what it was or what another process made of it in the
  meantime; only when the last directory sync fails may the new file already be in place, and then
  it is the one a successful save would have left. The temporary file is gone, unless it could not
  be removed. A save that reports success did every step, on the file it had read, and left the
  rewritten text with mode 0600 and no temporary file.
\<close>

theorem failed_save_keeps_file:
  "case store_save cfg s io \<lparr>dk_file = f, dk_temp = None\<rparr> of
     (Inl e, d') \<Rightarrow>
       (dk_file d' \<in> {f, si_other io f, si_late io (si_other io f)}
        \<or> (si_sync io = Inl e
           \<and> store_save cfg s (io\<lparr>si_sync := Inr ()\<rparr>) \<lparr>dk_file = f, dk_temp = None\<rparr> = (Inr (), d')))
       \<and> (dk_temp d' = None \<or> isl (si_remove io))
   | (Inr _, d') \<Rightarrow>
       settings_validate cfg s = Inr () \<and> si_directory io = Inr () \<and> si_create io = Inr ()
       \<and> si_write io = Inr () \<and> si_flush io = Inr () \<and> si_rename io = Inr () \<and> si_sync io = Inr ()
       \<and> (\<exists>data m s0. read_file f = Inr data \<and> parse_ini setting_keys data = Inr m
            \<and> from_values cfg m = Inr s0 \<and> read_file (si_other io f) = Inr data
            \<and> d' = \<lparr>dk_file = Some \<lparr>fe_text = Inr (rewrite_ini (settings_values s) data),
                 fe_mode = Inr 384\<rparr>, dk_temp = None\<rparr>)"
proof (cases "store_save cfg s io \<lparr>dk_file = f, dk_temp = None\<rparr>")
  case (Pair r d')
  show ?thesis
  proof (cases r)
    case (Inr u)
    then show ?thesis
      using Pair[unfolded Inr, simplified, unfolded store_save_Inr replace_file_Inr]
      unfolding Pair Inr by auto
  next
    case (Inl e)
    show ?thesis using save_failure[OF Pair[unfolded Inl]] unfolding Pair Inl by simp
  qed
qed

text \<open>
  C12. Loaded settings are safe to use, however the write-back went: they validate, the wish is
  within the edition's cap, and the access key and the phone fingerprint are those of the user's
  own file, or empty, whatever any system-wide fallback says. The files are untouched, unless the
  saved wish was above the cap: then they are what saving the clamped settings makes of them, and
  the settings stay marked as clamped exactly if that save failed. A load that fails touches
  nothing.
\<close>

theorem loaded_settings_safe:
  "case store_load cfg fs other io d of
     (Inl _, d') \<Rightarrow> d' = d
   | (Inr s, d') \<Rightarrow>
       settings_validate cfg s = Inr ()
       \<and> clamp_wish active_edition (quality_wish s) = (quality_wish s, False)
       \<and> (\<exists>data m. read_file (dk_file d) = Inr data \<and> parse_ini setting_keys data = Inr m
           \<and> lan_key s = (case m (lit ''lanKey'') of None \<Rightarrow> [] | Some v \<Rightarrow> v)
           \<and> lan_fingerprint s = (case m (lit ''lanFingerprint'') of None \<Rightarrow> [] | Some v \<Rightarrow> v))
       \<and> (d' = d \<and> \<not> quality_clamped s
          \<or> (\<exists>s0 r. store_read cfg (dk_file d) fs = Inr s0 \<and> quality_clamped s0
               \<and> store_save cfg s0 io (d\<lparr>dk_file := other (dk_file d)\<rparr>) = (r, d')
               \<and> quality_clamped s = isl r))"
proof (cases "store_read cfg (dk_file d) fs")
  case (Inl e)
  then show ?thesis by (simp add: store_load_def)
next
  case (Inr s0)
  note safe = read_settings_safe[OF Inr]
  show ?thesis
  proof (cases "quality_clamped s0")
    case False
    then show ?thesis using Inr safe by (simp add: store_load_def)
  next
    case True
    obtain r d' where sv: "store_save cfg s0 io (d\<lparr>dk_file := other (dk_file d)\<rparr>) = (r, d')" by fastforce
    obtain s where s: "store_load cfg fs other io d = (Inr s, d')" "same_wishes s s0" "quality_clamped s = isl r"
      using sv True Inr by (cases r) (auto simp: store_load_def same_wishes_def quality_wish_def unflagged_def simp del: lit_simps)
    show ?thesis
      using safe sv True Inr s(3) same_wishes_valid[OF s(2)] s(2)
      unfolding s(1) by (auto simp: same_wishes_def)
  qed
qed

lemma loaded_settings_safe_witness:
  "store_load linux_build [] (\<lambda>f. f) calm_io \<lparr>dk_file = None, dk_temp = None\<rparr>
     = (Inr (settings_default linux_build), \<lparr>dk_file = None, dk_temp = None\<rparr>)
   \<and> settings_validate linux_build (settings_default linux_build) = Inr ()"
proof -
  have "merge_values True Map.empty Map.empty = Map.empty" by (simp add: merge_values_def fun_eq_iff)
  then have "store_read linux_build None [] = Inr (settings_default linux_build)"
    by (simp add: store_read_def read_file_def parse_ini_def str_lines_def from_no_values)
  then have l: "store_load linux_build [] (\<lambda>f. f) calm_io \<lparr>dk_file = None, dk_temp = None\<rparr>
     = (Inr (settings_default linux_build), \<lparr>dk_file = None, dk_temp = None\<rparr>)"
    by (simp add: store_load_def) (simp add: settings_default_def)
  show ?thesis
    using loaded_settings_safe[where cfg = linux_build and fs = "[]" and other = "\<lambda>f. f" and io = calm_io
        and d = "\<lparr>dk_file = None, dk_temp = None\<rparr>"]
    unfolding l by simp
qed

text \<open>
  The permission check looks for \<open>lanKey=\<close>, the parser also takes white space before the sign: a
  file every user may read passes the check with a key in it.
\<close>

definition spaced_key_text :: ustr where
  "spaced_key_text = general_header @ 10 # lit ''lanKey =00112233445566778899aabbccddeeff''"

definition spaced_key_file :: file_entry where
  "spaced_key_file = \<lparr>fe_text = Inr spaced_key_text, fe_mode = Inr 420\<rparr>"

lemma lit_chr: "map chr cs = lit cs"
  by (induction cs) simp_all

lemma spaced_key_passes_permission_check:
  "fe_mode spaced_key_file = Inr 420 \<and> group_or_other 420
   \<and> read_file (Some spaced_key_file) = Inr (spaced_key_text)
   \<and> parse_ini setting_keys (spaced_key_text)
       = Inr [lit ''lanKey'' \<mapsto> lit ''00112233445566778899aabbccddeeff'']"
proof (intro conjI)
  have d: "str_lines (spaced_key_text)
      = [general_header, lit ''lanKey =00112233445566778899aabbccddeeff'']"
    by (simp add: spaced_key_text_def general_header_def chr_def str_lines_def strip_cr_def)
  show "fe_mode spaced_key_file = Inr 420" "group_or_other 420"
    by (simp_all add: spaced_key_file_def group_or_other_def)
  have "str_len (spaced_key_text) \<le> 1024 * 1024"
    by (simp add: spaced_key_text_def general_header_def chr_def str_len_def utf8_def utf8_char_def)
  moreover have "\<not> list_ex (\<lambda>l. starts_with (lit ''lanKey='') (trim_start l)) (str_lines (spaced_key_text))"
    unfolding d by (simp add: general_header_def chr_def trim_start_def is_whitespace_def)
  ultimately show "read_file (Some spaced_key_file) = Inr (spaced_key_text)"
    by (simp add: read_file_def spaced_key_file_def)
  have t: "trim (lit ''lanKey =00112233445566778899aabbccddeeff'') = lit ''lanKey =00112233445566778899aabbccddeeff''"
    by (intro trim_trimmed) (simp add: trimmed_def is_whitespace_def chr_def)
  have sp: "split_once 61 (lit ''lanKey =00112233445566778899aabbccddeeff'')
      = Some (lit ''lanKey '', lit ''00112233445566778899aabbccddeeff'')"
    by (simp add: chr_def)
  have k: "trim (lit ''lanKey '') = lit ''lanKey''"
    by (simp add: trim_def trim_start_def trim_end_def is_whitespace_def chr_def)
  have v: "trim (lit ''00112233445566778899aabbccddeeff'') = lit ''00112233445566778899aabbccddeeff''"
    by (intro trim_trimmed) (simp add: trimmed_def is_whitespace_def chr_def)
  have dv: "decode_ini (lit ''00112233445566778899aabbccddeeff'') = Inr (lit ''00112233445566778899aabbccddeeff'')"
    by (simp add: decode_ini_def chr_def)
  have h: "\<not> starts_with [c] (lit ''lanKey =00112233445566778899aabbccddeeff'')" if "c \<in> {91, 59, 35}" for c
    using that by (auto simp: chr_def)
  have hd: "trim general_header = general_header" "starts_with [91] general_header"
    by (intro trim_trimmed) (simp_all add: trimmed_def general_header_def is_whitespace_def chr_def)
  have ne: "lit ''lanKey =00112233445566778899aabbccddeeff'' \<noteq> []" by simp
  show "parse_ini setting_keys (spaced_key_text)
      = Inr [lit ''lanKey'' \<mapsto> lit ''00112233445566778899aabbccddeeff'']"
    unfolding parse_ini_def d
    by (simp add: hd t sp k v dv h ne credential_keys(1) del: lit_simps)
qed

end
