(* ===== verification/Quality_Switch.thy ===== *)
theory Quality_Switch
  imports Quality_Pref
begin

text \<open>
  The quality-switch state machine, \<open>quality.rs\<close> (\<open>Switch\<close>): one request at a time goes through
  prepare, pause, commit and the first decoded keyframe, with a deadline while the phone works
  and none while a human has to act. The machine is an instance of the prelude's interface; the
  theorems are about whole runs.
\<close>

section \<open>State, events, actions\<close>

definition APPLY_DEADLINE_MS :: u64 where "APPLY_DEADLINE_MS = 5000"

datatype phase = Idle | Preparing | Staged | Switching | AwaitingOutput | Applied | Failed

type_synonym size_rate = "u16 \<times> u16 \<times> u16"

datatype event =
    EpochObserved u32
  | Prepare u16 u16 u16 u16
  | PrepareAccepted u32 bool
  | Rejected u32 u8
  | Paused u32 u32
  | VideoConfig u16 u16 u16
  | CaptureStarted u32 u16 u16 u16
  | OutputReady
  | DeadlineExceeded
  | UserStop

datatype action =
    SendPrepareQuality u32 u16 u16 u16 u16
  | SendCommitQuality u32 u32
  | ReleaseOutputs
  | ReportApplied u16 u16 u16
  | ReportFailed string
  | StopCapture
  | CloseConnection

record switch =
  sw_phase :: phase
  sw_request_id :: u32
  sw_epoch :: "u32 option"
  sw_requested :: "size_rate option"
  sw_applied :: "size_rate option"
  sw_deadline :: "u64 option"
  sw_next_id :: u32

definition switch_default :: switch where
  "switch_default = \<lparr>sw_phase = Idle, sw_request_id = 0, sw_epoch = None, sw_requested = None,
     sw_applied = None, sw_deadline = None, sw_next_id = 1\<rparr>"

definition busy :: "switch \<Rightarrow> bool" where
  "busy s \<longleftrightarrow> sw_phase s \<in> {Preparing, Switching, AwaitingOutput}"

definition staged :: "switch \<Rightarrow> bool" where
  "staged s \<longleftrightarrow> sw_phase s = Staged"

definition awaiting_video :: "switch \<Rightarrow> bool" where
  "awaiting_video s \<longleftrightarrow> sw_phase s \<in> {Switching, Staged, AwaitingOutput}"

definition rejection_reason :: "u8 \<Rightarrow> string" where
  "rejection_reason reason =
     (if reason = 1 then ''camera permission is not granted''
      else if reason = 2 then ''the phone left the foreground''
      else if reason = 3 then ''the mode is not supported by the phone''
      else if reason = 4 then ''the capability list changed; refresh the quality list''
      else if reason = 5 then ''another quality apply is already in flight''
      else if reason = 6 then ''the apply deadline expired''
      else if reason = 7 then ''camera capture could not start''
      else if reason = 8 then ''this edition does not allow that quality''
      else ''the phone rejected the apply'')"

section \<open>Operations\<close>

text \<open>\<open>checked_add(1)\<close>\<close>

definition checked_inc :: "'a::len word \<Rightarrow> 'a word option" where
  "checked_inc w = (if w = - 1 then None else Some (w + 1))"

definition sw_prepare :: "switch \<Rightarrow> u64 \<Rightarrow> u16 \<Rightarrow> u16 \<Rightarrow> u16 \<Rightarrow> u16 \<Rightarrow> switch \<times> action option" where
  "sw_prepare s now_ms revision width height fps =
     (if sw_phase s \<notin> {Idle, Applied, Failed} \<or> width = 0 \<or> height = 0 \<or> fps = 0
      then (s, None)
      else let request_id = sw_next_id s
           in case checked_inc request_id of
                None \<Rightarrow> (s, None)
              | Some next \<Rightarrow>
                  (s\<lparr>sw_next_id := next, sw_phase := Preparing, sw_request_id := request_id,
                     sw_requested := Some (width, height, fps),
                     sw_deadline := Some (now_ms + APPLY_DEADLINE_MS)\<rparr>,
                   Some (SendPrepareQuality request_id revision width height fps)))"

definition sw_fail :: "switch \<Rightarrow> string \<Rightarrow> switch \<times> action list" where
  "sw_fail s reason =
     (s\<lparr>sw_phase := Failed, sw_deadline := None\<rparr>,
      [ReportFailed reason, StopCapture, CloseConnection])"

fun sw_step :: "switch \<Rightarrow> u64 \<times> event \<Rightarrow> switch \<times> action list" where
  "sw_step s (now_ms, EpochObserved e) =
     (if sw_phase s \<in> {Idle, Applied, Failed} then (s\<lparr>sw_epoch := Some e\<rparr>, []) else (s, []))"
| "sw_step s (now_ms, Prepare revision width height fps) =
     (let (s', a) = sw_prepare s now_ms revision width height fps in (s', option_list a))"
| "sw_step s (now_ms, PrepareAccepted request_id streaming) =
     (if request_id \<noteq> sw_request_id s then (s, [])
      else if sw_phase s = Preparing \<and> \<not> streaming
      then (s\<lparr>sw_phase := Staged, sw_deadline := None\<rparr>, [ReleaseOutputs])
      else if sw_phase s = Staged \<and> streaming
      then (s\<lparr>sw_phase := Switching, sw_deadline := Some (now_ms + APPLY_DEADLINE_MS)\<rparr>, [])
      else (s, []))"
| "sw_step s (now_ms, Rejected request_id reason) =
     (if request_id \<noteq> sw_request_id s
         \<or> sw_phase s \<notin> {Preparing, Staged, Switching, AwaitingOutput}
      then (s, [])
      else if sw_phase s \<in> {Switching, AwaitingOutput} then sw_fail s (rejection_reason reason)
      else (s\<lparr>sw_phase := Failed, sw_deadline := None\<rparr>, [ReportFailed (rejection_reason reason)]))"
| "sw_step s (now_ms, Paused request_id e) =
     (if request_id \<noteq> sw_request_id s \<or> sw_phase s \<noteq> Preparing
         \<or> (case sw_epoch s of None \<Rightarrow> False | Some current \<Rightarrow> current \<noteq> e)
      then (s, [])
      else case checked_inc e of
             None \<Rightarrow> sw_fail s ''the video epoch overflowed''
           | Some next \<Rightarrow> (s\<lparr>sw_phase := Switching, sw_epoch := Some next\<rparr>,
                           [ReleaseOutputs, SendCommitQuality request_id next]))"
| "sw_step s (now_ms, VideoConfig width height fps) =
     (if \<not> awaiting_video s then (s, [])
      else if sw_requested s \<noteq> Some (width, height, fps)
      then sw_fail s ''the new mode did not match the request''
      else let s1 = (if sw_phase s = Staged
                     then s\<lparr>sw_deadline := Some (now_ms + APPLY_DEADLINE_MS)\<rparr> else s)
           in (s1\<lparr>sw_phase := AwaitingOutput\<rparr>, []))"
| "sw_step s (now_ms, CaptureStarted request_id width height fps) =
     (if request_id \<noteq> sw_request_id s \<or> \<not> awaiting_video s then (s, [])
      else if sw_requested s \<noteq> Some (width, height, fps)
      then sw_fail s ''the new mode did not match the request''
      else if sw_phase s = Staged
      then (s\<lparr>sw_phase := Switching, sw_deadline := Some (now_ms + APPLY_DEADLINE_MS)\<rparr>, [])
      else (s, []))"
| "sw_step s (now_ms, OutputReady) =
     (if sw_phase s \<noteq> AwaitingOutput then (s, [])
      else case sw_requested s of
             None \<Rightarrow> (s, [])
           | Some (width, height, fps) \<Rightarrow>
               (s\<lparr>sw_phase := Applied, sw_applied := sw_requested s, sw_deadline := None\<rparr>,
                [ReportApplied width height fps]))"
| "sw_step s (now_ms, DeadlineExceeded) =
     (if busy s \<and> (case sw_deadline s of None \<Rightarrow> False | Some deadline \<Rightarrow> deadline \<le> now_ms)
      then sw_fail s ''the apply deadline expired''
      else (s, []))"
| "sw_step s (now_ms, UserStop) =
     (if \<not> busy s \<and> \<not> staged s then (s, [])
      else (s\<lparr>sw_phase := Failed, sw_deadline := None\<rparr>,
            [ReportFailed ''the apply was stopped'', StopCapture]))"

abbreviation sw_run :: "(u64 \<times> event) list \<Rightarrow> switch" where
  "sw_run es \<equiv> run_machine sw_step switch_default es"

abbreviation sw_trace :: "(u64 \<times> event) list \<Rightarrow> action list" where
  "sw_trace es \<equiv> machine_trace sw_step switch_default es"

lemmas sw_defs [machine_simps] =
  busy_def staged_def awaiting_video_def sw_prepare_def sw_fail_def option_list_def Let_def
  checked_inc_def

section \<open>The invariant\<close>

definition sw_inv :: "switch \<Rightarrow> bool" where
  "sw_inv s \<longleftrightarrow>
     (busy s \<longleftrightarrow> sw_deadline s \<noteq> None)
     \<and> (sw_phase s = Idle \<or> sw_requested s \<noteq> None)
     \<and> (case sw_requested s of None \<Rightarrow> True | Some (w, h, f) \<Rightarrow> w \<noteq> 0 \<and> h \<noteq> 0 \<and> f \<noteq> 0)
     \<and> sw_request_id s < sw_next_id s
     \<and> (sw_phase s = Applied \<longrightarrow> sw_applied s = sw_requested s)"

text \<open>When an action is legal, in the state and for the event that produced it.\<close>

fun sw_legal :: "switch \<Rightarrow> u64 \<times> event \<Rightarrow> action \<Rightarrow> bool" where
  "sw_legal s e (SendPrepareQuality r rv w h f) \<longleftrightarrow>
     snd e = Prepare rv w h f \<and> \<not> busy s \<and> \<not> staged s \<and> r = sw_next_id s
       \<and> w \<noteq> 0 \<and> h \<noteq> 0 \<and> f \<noteq> 0"
| "sw_legal s e (SendCommitQuality r next) \<longleftrightarrow>
     sw_phase s = Preparing \<and> r = sw_request_id s
       \<and> (\<exists>old. snd e = Paused r old \<and> unat next = unat old + 1
            \<and> (sw_epoch s = None \<or> sw_epoch s = Some old))
       \<and> snd (sw_step s e) = [ReleaseOutputs, SendCommitQuality r next]"
| "sw_legal s e ReleaseOutputs \<longleftrightarrow> sw_phase s = Preparing"
| "sw_legal s e (ReportApplied w h f) \<longleftrightarrow>
     snd e = OutputReady \<and> sw_phase s = AwaitingOutput \<and> sw_requested s = Some (w, h, f)"
| "sw_legal s e (ReportFailed r) \<longleftrightarrow> busy s \<or> staged s"
| "sw_legal s e StopCapture \<longleftrightarrow> busy s \<or> staged s"
| "sw_legal s e CloseConnection \<longleftrightarrow> busy s \<or> staged s"

lemma checked_inc_unat: "w \<noteq> - 1 \<Longrightarrow> unat ((w :: 'a::len word) + 1) = unat w + 1"
  by (metis Suc_eq_plus1 add.commute unatSuc add_eq_0_iff)

lemma checked_inc_less: "w \<noteq> - 1 \<Longrightarrow> (w :: 'a::len word) < w + 1"
  by (simp add: word_less_nat_alt checked_inc_unat)

lemma sw_step_inv: "sw_inv s \<Longrightarrow> sw_inv (fst (sw_step s e))"
  by (cases s, cases "(s, e)" rule: sw_step.cases)
    (auto simp: sw_inv_def machine_simps checked_inc_less split: option.splits if_splits)

lemma sw_step_legal: "sw_inv s \<Longrightarrow> out \<in> set (snd (sw_step s e)) \<Longrightarrow> sw_legal s e out"
  by (cases "(s, e)" rule: sw_step.cases)
    (auto simp: machine_simps checked_inc_unat split: if_splits option.splits)

interpretation switch_machine: machine sw_step sw_inv sw_legal
  by unfold_locales (auto intro: sw_step_inv sw_step_legal)

lemma switch_default_inv: "sw_inv switch_default"
  by (simp add: sw_inv_def switch_default_def busy_def)


lemma sw_run_inv: "sw_inv (sw_run es)"
  by (rule switch_machine.run_inv[OF switch_default_inv])

lemma sw_run_snoc: "sw_run (es @ [e]) = fst (sw_step (sw_run es) e)"
  by (simp add: run_machine_append)

lemma sw_trace_snoc: "sw_trace (es @ [e]) = sw_trace es @ snd (sw_step (sw_run es) e)"
  by (simp add: machine_trace_append)

section \<open>Requests and outcomes\<close>

definition is_request :: "action \<Rightarrow> bool" where
  "is_request a = (case a of SendPrepareQuality _ _ _ _ _ \<Rightarrow> True | _ \<Rightarrow> False)"

definition is_outcome :: "action \<Rightarrow> bool" where
  "is_outcome a = (case a of ReportApplied _ _ _ \<Rightarrow> True | ReportFailed _ \<Rightarrow> True | _ \<Rightarrow> False)"

text \<open>
  Requests and outcomes alternate, a request first; the argument says whether a request is open,
  the result whether one is open at the end (None when the order is broken).
\<close>

fun open_after :: "bool \<Rightarrow> action list \<Rightarrow> bool option" where
  "open_after b [] = Some b"
| "open_after b (a # as) =
     (if is_request a then (if b then None else open_after True as)
      else if is_outcome a then (if b then open_after False as else None)
      else open_after b as)"

lemma open_after_append:
  "open_after b (as @ bs) = (case open_after b as of None \<Rightarrow> None | Some c \<Rightarrow> open_after c bs)"
  by (induction as arbitrary: b) auto

definition in_flight :: "switch \<Rightarrow> bool" where
  "in_flight s \<longleftrightarrow> busy s \<or> staged s"

lemma sw_step_open:
  "sw_inv s \<Longrightarrow> open_after (in_flight s) (snd (sw_step s e)) = Some (in_flight (fst (sw_step s e)))"
  by (cases s, cases "(s, e)" rule: sw_step.cases)
    (auto simp: in_flight_def sw_inv_def machine_simps is_request_def is_outcome_def
      split: option.splits if_splits)

lemma run_open: "open_after False (sw_trace es) = Some (in_flight (sw_run es))"
proof (induction es rule: rev_induct)
  case Nil
  show ?case by (simp add: in_flight_def switch_default_def busy_def staged_def)
next
  case (snoc e es)
  then show ?case
    using sw_step_open[OF sw_run_inv, of es e] by (simp add: sw_run_snoc sw_trace_snoc open_after_append)
qed

definition request_ids :: "action list \<Rightarrow> u32 list" where
  "request_ids as = concat (map (\<lambda>a. case a of SendPrepareQuality r _ _ _ _ \<Rightarrow> [r] | _ \<Rightarrow> []) as)"

lemma sw_step_ids:
  "sw_inv s \<Longrightarrow> (request_ids (snd (sw_step s e)) = [] \<and> sw_next_id (fst (sw_step s e)) = sw_next_id s)
     \<or> (request_ids (snd (sw_step s e)) = [sw_next_id s] \<and> sw_next_id s < sw_next_id (fst (sw_step s e)))"
  by (cases s, cases "(s, e)" rule: sw_step.cases)
    (auto simp: machine_simps request_ids_def checked_inc_less split: option.splits if_splits)

lemma run_ids:
  "sorted_wrt (<) (request_ids (sw_trace es)) \<and> list_all (\<lambda>r. r < sw_next_id (sw_run es)) (request_ids (sw_trace es))"
proof (induction es rule: rev_induct)
  case Nil
  show ?case by (simp add: request_ids_def)
next
  case (snoc e es)
  have app: "request_ids (as @ bs) = request_ids as @ request_ids bs" for as bs
    by (simp add: request_ids_def)
  show ?case
    using sw_step_ids[OF sw_run_inv, of es e] snoc
    by (auto simp: sw_run_snoc sw_trace_snoc app sorted_wrt_append list_all_iff)
qed

text \<open>What the events so far say about the request in flight.\<close>

definition flight_history :: "(u64 \<times> event) list \<Rightarrow> switch \<Rightarrow> bool" where
  "flight_history es s \<longleftrightarrow>
     (\<exists>pre t rv w h f post. es = pre @ (t, Prepare rv w h f) # post
        \<and> sw_requested s = Some (w, h, f)
        \<and> snd (sw_step (sw_run pre) (t, Prepare rv w h f)) = [SendPrepareQuality (sw_request_id s) rv w h f]
        \<and> (sw_phase s = AwaitingOutput \<longrightarrow> (\<exists>t'. (t', VideoConfig w h f) \<in> set post)))"

lemma sw_step_flight:
  "in_flight (fst (sw_step s e)) \<Longrightarrow>
     (in_flight s \<and> sw_requested (fst (sw_step s e)) = sw_requested s
        \<and> sw_request_id (fst (sw_step s e)) = sw_request_id s
        \<and> (sw_phase (fst (sw_step s e)) = AwaitingOutput \<longrightarrow> sw_phase s = AwaitingOutput
            \<or> (\<exists>w h f. snd e = VideoConfig w h f \<and> sw_requested s = Some (w, h, f))))
     \<or> (\<not> in_flight s \<and> (\<exists>rv w h f. snd e = Prepare rv w h f
            \<and> sw_requested (fst (sw_step s e)) = Some (w, h, f)
            \<and> snd (sw_step s e) = [SendPrepareQuality (sw_request_id (fst (sw_step s e))) rv w h f]
            \<and> sw_phase (fst (sw_step s e)) = Preparing))"
  by (cases s, cases "(s, e)" rule: sw_step.cases)
    (auto simp: in_flight_def machine_simps split: option.splits if_splits)

lemma flight_history_run: "in_flight (sw_run es) \<Longrightarrow> flight_history es (sw_run es)"
proof (induction es rule: rev_induct)
  case Nil
  then show ?case by (simp add: in_flight_def switch_default_def busy_def staged_def)
next
  case (snoc e es)
  obtain t ev where e: "e = (t, ev)" by (cases e)
  let ?s = "sw_run es"
  let ?s' = "fst (sw_step ?s e)"
  from snoc.prems have "in_flight ?s'" by (simp add: sw_run_snoc)
  from sw_step_flight[OF this] show ?case
  proof (elim disjE conjE exE)
    fix rv w h f
    assume a: "snd e = Prepare rv w h f" "sw_requested ?s' = Some (w, h, f)"
      "snd (sw_step ?s e) = [SendPrepareQuality (sw_request_id ?s') rv w h f]" "sw_phase ?s' = Preparing"
    then show ?thesis unfolding flight_history_def sw_run_snoc e
      by (intro exI[of _ es] exI[of _ t] exI[of _ rv] exI[of _ w] exI[of _ h] exI[of _ f] exI[of _ "[]"])
        simp
  next
    assume i: "in_flight ?s" and r: "sw_requested ?s' = sw_requested ?s"
      "sw_request_id ?s' = sw_request_id ?s"
      and p: "sw_phase ?s' = AwaitingOutput \<longrightarrow> sw_phase ?s = AwaitingOutput
            \<or> (\<exists>w h f. snd e = VideoConfig w h f \<and> sw_requested ?s = Some (w, h, f))"
    from snoc.IH[OF i] obtain pre t0 rv w h f post where
      h: "es = pre @ (t0, Prepare rv w h f) # post" "sw_requested ?s = Some (w, h, f)"
        "snd (sw_step (sw_run pre) (t0, Prepare rv w h f))
           = [SendPrepareQuality (sw_request_id ?s) rv w h f]"
        "sw_phase ?s = AwaitingOutput \<longrightarrow> (\<exists>t'. (t', VideoConfig w h f) \<in> set post)"
      unfolding flight_history_def by blast
    have "\<exists>t'. (t', VideoConfig w h f) \<in> set (post @ [e])" if "sw_phase ?s' = AwaitingOutput"
      using that p h(2,4) e by auto
    then show ?thesis unfolding flight_history_def sw_run_snoc
      using h(1-3) r
      by (intro exI[of _ pre] exI[of _ t0] exI[of _ rv] exI[of _ w] exI[of _ h] exI[of _ f]
          exI[of _ "post @ [e]"]) simp
  qed
qed


text \<open>The id an answer of the phone carries, and which answers do anything.\<close>

definition answered_id :: "event \<Rightarrow> u32 option" where
  "answered_id ev = (case ev of
       PrepareAccepted r _ \<Rightarrow> Some r
     | Rejected r _ \<Rightarrow> Some r
     | Paused r _ \<Rightarrow> Some r
     | CaptureStarted r _ _ _ \<Rightarrow> Some r
     | _ \<Rightarrow> None)"

lemma sw_step_answer:
  "answered_id ev = Some r \<Longrightarrow>
     sw_step s (t, ev) = (s, []) \<or> (in_flight s \<and> sw_request_id s = r)"
  by (cases ev) (auto simp: answered_id_def in_flight_def machine_simps)

lemma request_ids_append: "request_ids (as @ bs) = request_ids as @ request_ids bs"
  by (simp add: request_ids_def)

lemma sw_step_last_id:
  assumes "in_flight (fst (sw_step s e))"
  shows "(in_flight s \<and> request_ids (snd (sw_step s e)) = []
            \<and> sw_request_id (fst (sw_step s e)) = sw_request_id s)
       \<or> request_ids (snd (sw_step s e)) = [sw_request_id (fst (sw_step s e))]"
  using assms by (cases s, cases "(s, e)" rule: sw_step.cases)
    (auto simp: in_flight_def machine_simps request_ids_def split: option.splits if_splits)

lemma run_last_id:
  "in_flight (sw_run es) \<Longrightarrow> \<exists>old. request_ids (sw_trace es) = old @ [sw_request_id (sw_run es)]"
proof (induction es rule: rev_induct)
  case Nil
  then show ?case by (simp add: in_flight_def switch_default_def busy_def staged_def)
next
  case (snoc e es)
  from snoc.prems have "in_flight (fst (sw_step (sw_run es) e))" by (simp add: sw_run_snoc)
  from sw_step_last_id[OF this] snoc.IH show ?case
    by (auto simp: sw_run_snoc sw_trace_snoc request_ids_append)
qed

lemma answer_of_last_request:
  assumes "answered_id ev = Some r"
  shows "sw_step (sw_run es) (t, ev) = (sw_run es, [])
    \<or> ((busy (sw_run es) \<or> staged (sw_run es))
       \<and> (\<exists>old. request_ids (sw_trace es) = old @ [r] \<and> r \<notin> set old))"
proof (cases "sw_step (sw_run es) (t, ev) = (sw_run es, [])")
  case False
  with sw_step_answer[OF assms] have f: "in_flight (sw_run es)" "sw_request_id (sw_run es) = r"
    by blast+
  from run_last_id[OF f(1)] f(2) obtain old where "request_ids (sw_trace es) = old @ [r]" by auto
  moreover from this have "r \<notin> set old"
    using run_ids[of es] by (auto simp: sorted_wrt_append)
  ultimately show ?thesis using f(1) by (auto simp: in_flight_def)
qed simp


section \<open>Properties\<close>

text \<open>
  C1. Requests are strictly serial: in every run the actions alternate between a prepare request
  and one outcome (applied or failed), a request first; a request is open at the end exactly if
  the machine is busy or staged; the request ids of a run are strictly increasing; and no answer
  to an old request can be taken for a new one: an answer of the phone (accepted, rejected,
  paused, capture started) leaves the state as it is and causes no action, unless a request is
  open and the answer carries the id of the request sent last.
\<close>

theorem requests_serial:
  "open_after False (sw_trace es) = Some (busy (sw_run es) \<or> staged (sw_run es))
   \<and> sorted_wrt (<) (request_ids (sw_trace es))
   \<and> (case answered_id ev of
        None \<Rightarrow> True
      | Some r \<Rightarrow>
          sw_step (sw_run es) (t, ev) = (sw_run es, [])
          \<or> ((busy (sw_run es) \<or> staged (sw_run es))
             \<and> (\<exists>old. request_ids (sw_trace es) = old @ [r] \<and> r \<notin> set old)))"
  using run_open[of es] run_ids[of es] by (simp add: in_flight_def answer_of_last_request split: option.split)

text \<open>
  C5. A commit is sent only as the answer to the pause of the request in preparation: with its
  id, with the announced epoch plus one (never wrapped), for an epoch that does not contradict
  the last one seen, and in the same step after the outputs were released.
\<close>

theorem commit_follows_release:
  assumes "SendCommitQuality r next \<in> set (sw_trace es)"
  shows "\<exists>pre t old post. es = pre @ (t, Paused r old) # post
    \<and> unat next = unat old + 1
    \<and> sw_phase (sw_run pre) = Preparing \<and> sw_request_id (sw_run pre) = r
    \<and> sw_epoch (sw_run pre) \<in> {None, Some old}
    \<and> snd (sw_step (sw_run pre) (t, Paused r old)) = [ReleaseOutputs, SendCommitQuality r next]"
proof -
  obtain pre e post where es: "es = pre @ e # post"
    and l: "sw_legal (sw_run pre) e (SendCommitQuality r next)"
    using switch_machine.trace_legal[OF switch_default_inv assms] by blast
  obtain t ev where e: "e = (t, ev)" by (cases e)
  from l[unfolded e sw_legal.simps snd_conv] obtain old where
    "ev = Paused r old" "unat next = unat old + 1"
    "sw_epoch (sw_run pre) = None \<or> sw_epoch (sw_run pre) = Some old"
    "sw_phase (sw_run pre) = Preparing" "r = sw_request_id (sw_run pre)"
    "snd (sw_step (sw_run pre) (t, ev)) = [ReleaseOutputs, SendCommitQuality r next]"
    by blast
  then show ?thesis using es e by blast
qed

lemma commit_follows_release_witness:
  "\<exists>pre t old post. [(0 :: u64, Prepare 1 1280 720 30), (5, Paused 1 41)] = pre @ (t, Paused 1 old) # post
     \<and> unat (42 :: u32) = unat (old :: u32) + 1"
proof -
  have m: "SendCommitQuality 1 42 \<in> set (sw_trace [(0, Prepare 1 1280 720 30), (5, Paused 1 41)])"
    by (simp add: switch_default_def machine_simps)
  show ?thesis using commit_follows_release[OF m] by blast
qed

text \<open>
  Applied is never inferred from metadata: whenever a run reports an applied quality, the
  report answers an output that is ready, for a request of exactly that size and rate, and after
  that request was sent the phone announced a video configuration of exactly that size and rate.
\<close>

theorem applied_after_matching_output:
  assumes "ReportApplied w h f \<in> set (sw_trace es)"
  shows "\<exists>p1 t1 rv p2 t2 p3 t3 p4.
    es = p1 @ (t1, Prepare rv w h f) # p2 @ (t2, VideoConfig w h f) # p3 @ (t3, OutputReady) # p4
    \<and> (\<exists>r. snd (sw_step (sw_run p1) (t1, Prepare rv w h f)) = [SendPrepareQuality r rv w h f])"
proof -
  obtain pre e post where es: "es = pre @ e # post"
    and l: "sw_legal (sw_run pre) e (ReportApplied w h f)"
    using switch_machine.trace_legal[OF switch_default_inv assms] by blast
  obtain t ev where e: "e = (t, ev)" by (cases e)
  from l have o: "ev = OutputReady" "sw_phase (sw_run pre) = AwaitingOutput"
    "sw_requested (sw_run pre) = Some (w, h, f)" using e by auto
  have "in_flight (sw_run pre)" using o by (simp add: in_flight_def busy_def)
  from flight_history_run[OF this] o obtain p1 t1 rv mid t2 where
    h: "pre = p1 @ (t1, Prepare rv w h f) # mid" "(t2, VideoConfig w h f) \<in> set mid"
      "snd (sw_step (sw_run p1) (t1, Prepare rv w h f))
         = [SendPrepareQuality (sw_request_id (sw_run pre)) rv w h f]"
    by (auto simp: flight_history_def)
  from h(2) obtain p2 p3 where "mid = p2 @ (t2, VideoConfig w h f) # p3" by (meson split_list)
  then have "es = p1 @ (t1, Prepare rv w h f) # p2 @ (t2, VideoConfig w h f) # p3 @ (t, OutputReady) # post"
    using es e o(1) h(1) by simp
  then show ?thesis using h(3) by blast
qed

lemma applied_after_matching_output_witness:
  "\<exists>p1 t1 rv p2 t2 p3 t3 p4.
     [(0 :: u64, Prepare 1 1280 720 30), (1, Paused 1 41), (2, VideoConfig 1280 720 30), (3, OutputReady)]
       = p1 @ (t1, Prepare rv 1280 720 30) # p2 @ (t2, VideoConfig 1280 720 30) # p3
           @ (t3, OutputReady) # p4"
proof -
  have m: "ReportApplied 1280 720 30 \<in> set (sw_trace
      [(0, Prepare 1 1280 720 30), (1, Paused 1 41), (2, VideoConfig 1280 720 30), (3, OutputReady)])"
    by (simp add: switch_default_def machine_simps)
  show ?thesis using applied_after_matching_output[OF m] by blast
qed

text \<open>
  The phone never keeps the machine waiting: in every reachable state a deadline is set
  exactly while the machine is busy, a check at or after the deadline ends the request as failed,
  stops the capture and closes the connection, and in every state that is not busy (staged for a
  human included) such a check changes nothing and sends nothing.
\<close>

theorem deadline_only_while_busy:
  "(case sw_deadline (sw_run es) of
      Some d \<Rightarrow> busy (sw_run es)
        \<and> (if d \<le> now
           then sw_phase (fst (sw_step (sw_run es) (now, DeadlineExceeded))) = Failed
             \<and> snd (sw_step (sw_run es) (now, DeadlineExceeded))
                 = [ReportFailed ''the apply deadline expired'', StopCapture, CloseConnection]
           else sw_step (sw_run es) (now, DeadlineExceeded) = (sw_run es, []))
    | None \<Rightarrow> \<not> busy (sw_run es)
        \<and> sw_step (sw_run es) (now, DeadlineExceeded) = (sw_run es, []))"
  using sw_run_inv[of es] by (auto simp: sw_inv_def sw_fail_def split: option.splits)

text \<open>
  An undisturbed switch goes through: from a fresh machine, a prepare request, the pause for
  it, the matching video configuration and the first output produce exactly the request, the
  release of the outputs, the commit for the next epoch and the applied report; the machine is
  then idle again for the next request, with the applied quality recorded and no deadline left.
\<close>

theorem undisturbed_switch:
  assumes "w \<noteq> 0" "h \<noteq> 0" "f \<noteq> 0" "ep \<noteq> - 1"
  shows "sw_trace [(t0, EpochObserved ep), (t1, Prepare rv w h f), (t2, Paused 1 ep),
        (t3, VideoConfig w h f), (t4, OutputReady)]
      = [SendPrepareQuality 1 rv w h f, ReleaseOutputs, SendCommitQuality 1 (ep + 1),
         ReportApplied w h f]
    \<and> (let s = sw_run [(t0, EpochObserved ep), (t1, Prepare rv w h f), (t2, Paused 1 ep),
        (t3, VideoConfig w h f), (t4, OutputReady)]
       in sw_phase s = Applied \<and> sw_applied s = Some (w, h, f) \<and> sw_deadline s = None
        \<and> sw_epoch s = Some (ep + 1) \<and> sw_next_id s = 2)"
  using assms by (simp add: switch_default_def machine_simps)

lemma undisturbed_switch_witness:
  "sw_trace [(0, EpochObserved 41), (1, Prepare 7 1280 720 30), (2, Paused 1 41),
        (3, VideoConfig 1280 720 30), (4, OutputReady)]
      = [SendPrepareQuality 1 7 1280 720 30, ReleaseOutputs, SendCommitQuality 1 (41 + 1),
         ReportApplied 1280 720 30]"
  by (rule conjunct1[OF undisturbed_switch]) simp_all

text \<open>
  A human-staged request is resumed only by the capture it asked for: while staged, only an
  accepted start, a matching capture start or a matching configuration arms the deadline again
  (five seconds from that event); a configuration or start of any other size or rate ends the
  request, and a rejection or stop ends it without closing the connection.
\<close>

theorem staged_leaves_only_by:
  assumes "sw_phase s = Staged"
  shows "case snd (sw_step s (now, ev)) of
      [] \<Rightarrow> fst (sw_step s (now, ev)) = s
         \<or> (sw_deadline (fst (sw_step s (now, ev))) = Some (now + 5000)
            \<and> (ev = PrepareAccepted (sw_request_id s) True
               \<or> (\<exists>w h f. sw_requested s = Some (w, h, f)
                    \<and> (ev = VideoConfig w h f \<or> ev = CaptureStarted (sw_request_id s) w h f))))
    | a # rest \<Rightarrow> sw_phase (fst (sw_step s (now, ev))) = Failed
         \<and> (CloseConnection \<in> set (a # rest) \<longleftrightarrow>
              (\<exists>r w h f. (ev = VideoConfig w h f \<or> ev = CaptureStarted r w h f)
                 \<and> sw_requested s \<noteq> Some (w, h, f)))"
  using assms
  by (cases s, cases ev)
    (auto simp: machine_simps APPLY_DEADLINE_MS_def split: option.splits if_splits)

lemma staged_leaves_only_by_witness:
  "sw_phase (fst (sw_step (sw_run [(0, Prepare 1 1280 720 30), (1, PrepareAccepted 1 False)])
      (9, VideoConfig 640 480 30))) = Failed"
proof -
  have s: "sw_phase (sw_run [(0, Prepare 1 1280 720 30), (1, PrepareAccepted 1 False)]) = Staged"
    by (simp add: switch_default_def machine_simps)
  show ?thesis
    using staged_leaves_only_by[OF s, of 9 "VideoConfig 640 480 30"]
    by (simp add: switch_default_def machine_simps)
qed

end
