(* ===== verification/Usb.thy ===== *)
theory Usb
  imports Wire "HOL-Library.List_Lexorder" "HOL-Library.Product_Lexorder"
begin

unbundle bit_operations_syntax

text \<open>
  The USB side, \<open>usb.rs\<close>: the device list and the selection that follows the phone through unplug
  and accessory mode, the Android Open Accessory switch, the choice of the endpoints, the search for
  a frame boundary, and the byte source under the frame reader. What libusb and the system answer
  (enumeration, descriptors, transfers, the clock) are arguments; the frame reader itself is the
  \<open>io-budget\<close> crate's.
\<close>

section \<open>Devices\<close>

record device_id =
  dev_bus :: u8
  dev_address :: u8
  dev_vid :: u16
  dev_pid :: u16
  dev_ports :: "u8 list"

record candidate =
  cand_id :: device_id
  cand_name :: ustr
  cand_suggested :: bool

text \<open>What libusb says of an attached device: descriptor (vendor, product, class), port path, interfaces.\<close>

record usb_device =
  ud_bus :: u8
  ud_address :: u8
  ud_descriptor :: "error + (u16 \<times> u16 \<times> u8)"
  ud_ports :: "error + u8 list"
  ud_interfaces :: "(u8 \<times> u8 \<times> u8) list"
  ud_product :: "ustr option"

definition accessory :: "u16 \<Rightarrow> u16 \<Rightarrow> bool" where
  "accessory vid pid \<longleftrightarrow> vid = 0x18d1 \<and> pid \<in> {0x2d00, 0x2d01, 0x2d04, 0x2d05}"

definition accessory_id :: "device_id \<Rightarrow> bool" where
  "accessory_id dev \<longleftrightarrow> accessory (dev_vid dev) (dev_pid dev)"

definition suggested :: "u16 \<Rightarrow> u16 \<Rightarrow> (u8 \<times> u8 \<times> u8) list \<Rightarrow> bool" where
  "suggested vid pid interfaces \<longleftrightarrow>
     accessory vid pid \<or> list_ex (\<lambda>i. i = (0xff, 0x42, 1) \<or> i = (6, 1, 1)) interfaces"

definition identity_of :: "usb_device \<Rightarrow> error + device_id" where
  "identity_of d =
     try_r (ud_descriptor d) (\<lambda>(vid, pid, _). try_r (ud_ports d) (\<lambda>ports.
       Inr \<lparr>dev_bus = ud_bus d, dev_address = ud_address d, dev_vid = vid, dev_pid = pid, dev_ports = ports\<rparr>))"

fun join_with :: "ustr \<Rightarrow> ustr list \<Rightarrow> ustr" where
  "join_with sep [] = []"
| "join_with sep [x] = x"
| "join_with sep (x # xs) = x @ sep @ join_with sep xs"

definition pad_zero :: "nat \<Rightarrow> ustr \<Rightarrow> ustr" where
  "pad_zero n s = replicate (n - length s) (chr CHR ''0'') @ s"

definition port_path :: "u8 list \<Rightarrow> ustr" where
  "port_path ports = join_with (lit ''.'') (map (\<lambda>p. show_dec (unat p)) ports)"

text \<open>The name of a row: the product when the system knows one, and always the port.\<close>

definition candidate_name :: "usb_device \<Rightarrow> device_id \<Rightarrow> ustr" where
  "candidate_name d dev =
     (let name = lit ''USB '' @ pad_zero 4 (show_hex (unat (dev_vid dev))) @ lit '':''
                 @ pad_zero 4 (show_hex (unat (dev_pid dev)));
          name = (if dev_ports dev = [] then name
                  else case ud_product d of
                         None \<Rightarrow> name
                       | Some product \<Rightarrow> if trim product = [] then name else take 100 (trim product))
      in name @ [32, 183, 32] @ show_dec (unat (dev_bus dev)) @ lit ''-'' @ port_path (dev_ports dev))"

definition candidate_of :: "usb_device \<Rightarrow> candidate option" where
  "candidate_of d =
     (case ud_descriptor d of
        Inl _ \<Rightarrow> None
      | Inr (vid, pid, class) \<Rightarrow>
          if class = 9 then None
          else case identity_of d of
                 Inl _ \<Rightarrow> None
               | Inr dev \<Rightarrow> Some \<lparr>cand_id = dev, cand_name = candidate_name d dev,
                   cand_suggested = suggested (dev_vid dev) (dev_pid dev) (ud_interfaces d)\<rparr>)"

definition usb_list :: "error + usb_device list \<Rightarrow> error + candidate list" where
  "usb_list devices =
     try_r devices (\<lambda>ds. Inr (sort_key (\<lambda>c. (dev_bus (cand_id c), dev_ports (cand_id c)))
       (List.map_filter candidate_of ds)))"

section \<open>Finding the selected phone\<close>

definition is_selected :: "device_id \<Rightarrow> bool \<Rightarrow> usb_device \<Rightarrow> bool" where
  "is_selected dev post_switch d =
     (case identity_of d of
        Inl _ \<Rightarrow> False
      | Inr actual \<Rightarrow> dev_bus actual = dev_bus dev \<and> dev_ports actual = dev_ports dev
          \<and> (actual = dev \<or> (post_switch \<and> accessory_id actual)))"

definition selected :: "error + usb_device list \<Rightarrow> device_id \<Rightarrow> bool \<Rightarrow> error + usb_device" where
  "selected devices dev post_switch =
     (if dev_ports dev = [] then Inl (Msg ''USB physical port is unavailable; reconnect the device'')
      else try_r devices (\<lambda>ds.
        case find (is_selected dev post_switch) ds of
          Some d \<Rightarrow> Inr d
        | None \<Rightarrow> Inl (Msg ''selected USB device disconnected'')))"

text \<open>
  \<open>wait_accessory\<close>: one element per turn of the loop, the devices seen and the clock after them. A
  script that is used up has not returned.
\<close>

fun wait_accessory :: "device_id \<Rightarrow> nat \<Rightarrow> ((error + usb_device list) \<times> nat) list \<Rightarrow> (error + usb_device) option" where
  "wait_accessory dev deadline [] = None"
| "wait_accessory dev deadline ((devices, now) # turns) =
     (let again = (if deadline \<le> now then Some (Inl (Msg ''selected device did not enter accessory mode''))
                   else wait_accessory dev deadline turns)
      in case selected devices dev True of
           Inl _ \<Rightarrow> again
         | Inr d \<Rightarrow>
             (case identity_of d of
                Inl e \<Rightarrow> Some (Inl e)
              | Inr current \<Rightarrow> if accessory_id current then Some (Inr d) else again))"

definition switched_identity :: "error + usb_device list \<Rightarrow> device_id \<Rightarrow> error + device_id" where
  "switched_identity devices dev =
     try_r (selected devices dev True) (\<lambda>d. try_r (identity_of d) (\<lambda>actual.
       if accessory_id actual then Inr actual else Inl (Msg ''accessory mode ended before restart'')))"

section \<open>The accessory switch\<close>

definition aoa_strings :: "string list" where
  "aoa_strings =
     [''Android Media Bridge'', ''AMB Host'', ''Low-latency Android to Linux media bridge'', ''0'',
      ''https://github.com/nekomario28/mobile-webcam-bridge'', ''amb-g0'']"

datatype control_transfer = GetProtocol | Identify nat bytes | StartAccessory

text \<open>The answers: the protocol read (count and two bytes), each string's count, the start request.\<close>

record switch_io =
  io_devices :: "error + usb_device list"
  io_open :: "error + unit"
  io_drop :: "error + unit"
  io_protocol :: "error + (nat \<times> u16)"
  io_identify :: "nat \<Rightarrow> error + nat"
  io_start :: "error + nat"
  io_turns :: "((error + usb_device list) \<times> nat) list"
  io_now :: nat

definition c_string :: "string \<Rightarrow> bytes" where
  "c_string s = as_bytes (lit s) @ [0]"

fun identify_all :: "switch_io \<Rightarrow> nat \<Rightarrow> string list \<Rightarrow> control_transfer list \<times> (error + unit)" where
  "identify_all io i [] = ([], Inr ())"
| "identify_all io i (s # ss) =
     (case io_identify io i of
        Inl e \<Rightarrow> ([Identify i (c_string s)], Inl e)
      | Inr n \<Rightarrow>
          if n \<noteq> length (c_string s)
          then ([Identify i (c_string s)], Inl (Msg ''short AOA identification transfer''))
          else let (out, r) = identify_all io (Suc i) ss in (Identify i (c_string s) # out, r))"

text \<open>The control transfers made and the result; a wait that has not ended is None.\<close>

definition switch_selected ::
  "switch_io \<Rightarrow> device_id \<Rightarrow> nat option \<Rightarrow> control_transfer list \<times> (error + unit) option" where
  "switch_selected io dev parent =
     (case selected (io_devices io) dev False of
        Inl e \<Rightarrow> ([], Some (Inl e))
      | Inr d \<Rightarrow>
          if accessory_id dev then ([], Some (Inr ()))
          else case try_r (io_open io) (\<lambda>_. if parent = None then Inr () else io_drop io) of
                 Inl e \<Rightarrow> ([], Some (Inl e))
               | Inr _ \<Rightarrow>
                   (case io_protocol io of
                      Inl e \<Rightarrow> ([GetProtocol], Some (Inl e))
                    | Inr (n, version) \<Rightarrow>
                        if n \<noteq> 2 \<or> version = 0
                        then ([GetProtocol],
                              Some (Inl (Msg ''selected device does not support Android Open Accessory'')))
                        else case identify_all io 0 aoa_strings of
                               (out, Inl e) \<Rightarrow> (GetProtocol # out, Some (Inl e))
                             | (out, Inr _) \<Rightarrow>
                                 let trace = GetProtocol # out @ [StartAccessory]
                                 in (trace, case io_start io of
                                       Inl e \<Rightarrow> Some (Inl e)
                                     | Inr _ \<Rightarrow>
                                         map_option (\<lambda>r. try_r r (\<lambda>_. Inr ()))
                                           (wait_accessory dev (io_now io + 8000) (io_turns io)))))"

section \<open>Endpoints\<close>

record usb_endpoint =
  ep_bulk :: bool
  ep_in :: bool
  ep_address :: u8
  ep_packet :: u16

record usb_alt =
  alt_class :: u8
  alt_sub_class :: u8
  alt_interface :: u8
  alt_setting :: u8
  alt_endpoints :: "usb_endpoint list"

record usb_choice =
  ch_vendor :: bool
  ch_interface :: u8
  ch_setting :: u8
  ch_input :: u8
  ch_output :: u8
  ch_packet :: nat

text \<open>The last bulk endpoint of each direction.\<close>

fun bulk_pair :: "(u8 \<times> nat) option \<Rightarrow> u8 option \<Rightarrow> usb_endpoint list \<Rightarrow> (u8 \<times> nat) option \<times> u8 option" where
  "bulk_pair input out [] = (input, out)"
| "bulk_pair input out (e # es) =
     (if \<not> ep_bulk e then bulk_pair input out es
      else if ep_in e then bulk_pair (Some (ep_address e, unat (ep_packet e AND 0x7ff))) out es
      else bulk_pair input (Some (ep_address e)) es)"

definition alt_choice :: "usb_alt \<Rightarrow> usb_choice option" where
  "alt_choice a =
     (case bulk_pair None None (alt_endpoints a) of
        (Some (input, packet), Some out) \<Rightarrow>
          Some \<lparr>ch_vendor = (alt_class a = 0xff \<and> alt_sub_class a = 0xff), ch_interface = alt_interface a,
            ch_setting = alt_setting a, ch_input = input, ch_output = out, ch_packet = packet\<rparr>
      | _ \<Rightarrow> None)"

definition choose_endpoints :: "usb_alt list \<Rightarrow> error + usb_choice" where
  "choose_endpoints alts =
     (case sort_key (\<lambda>c. \<not> ch_vendor c) (List.map_filter alt_choice alts) of
        [] \<Rightarrow> Inl (Msg ''AOA bulk endpoints unavailable'')
      | c # _ \<Rightarrow> if ch_packet c = 0 then Inl (Msg ''invalid USB packet size'') else Inr c)"

section \<open>The frame boundary\<close>

definition amb1 :: bytes where "amb1 = as_bytes (lit ''AMB1'')"

text \<open>
  \<open>align_stream\<close>: at most \<open>n\<close> raw reads (an error ends it, an empty read means nothing is queued);
  the result is the verdict, what the reader is given first, and the reads that are left.
\<close>

fun align_reads :: "nat \<Rightarrow> bytes \<Rightarrow> (error + bytes) list \<Rightarrow> (bool \<times> bytes \<times> (error + bytes) list) option" where
  "align_reads 0 pending reads = Some (False, pending, reads)"
| "align_reads (Suc n) pending [] = None"
| "align_reads (Suc n) pending (r # reads) =
     (case r of
        Inl _ \<Rightarrow> Some (False, pending, reads)
      | Inr bs \<Rightarrow>
          if bs = [] then Some (True, pending, reads)
          else if 4 \<le> length bs \<and> take 4 bs = amb1 then Some (True, pending @ bs, reads)
          else align_reads n pending reads)"

definition align_stream :: "bytes \<Rightarrow> (error + bytes) list \<Rightarrow> (bool \<times> bytes \<times> (error + bytes) list) option" where
  "align_stream pending reads = align_reads 64 pending reads"

text \<open>\<open>reset_stream\<close> forgets the pending bytes (and the reader's partial frame) first.\<close>

definition reset_stream :: "(error + bytes) list \<Rightarrow> (bool \<times> bytes \<times> (error + bytes) list) option" where
  "reset_stream reads = align_stream [] reads"

section \<open>Opening\<close>

record connect_io =
  ci_before :: "error + usb_device list"
  ci_switch :: switch_io
  ci_after :: "error + usb_device list"
  ci_config :: "error + usb_alt list"
  ci_open :: "error + unit"
  ci_claim :: "error + unit"
  ci_alternate :: "error + unit"
  ci_reads :: "(error + bytes) list"

definition usb_connect :: "connect_io \<Rightarrow> device_id \<Rightarrow> (error + (usb_choice \<times> bytes)) option" where
  "usb_connect io dev =
     (case try_r (selected (ci_before io) dev False) (\<lambda>d. try_r (identity_of d) (\<lambda>current. Inr (d, current))) of
        Inl e \<Rightarrow> Some (Inl e)
      | Inr (before, current) \<Rightarrow>
          (case if accessory_id current then Some (Inr ()) else snd (switch_selected (ci_switch io) dev None) of
             None \<Rightarrow> None
           | Some (Inl e) \<Rightarrow> Some (Inl e)
           | Some (Inr _) \<Rightarrow>
               let device = (if accessory_id current then Inr before else selected (ci_after io) dev True)
               in case try_r device (\<lambda>d. try_r (identity_of d) (\<lambda>_.
                    try_r (ci_config io) (\<lambda>alts. try_r (choose_endpoints alts) (\<lambda>c.
                    try_r (ci_open io) (\<lambda>_. try_r (ci_claim io) (\<lambda>_.
                    if ch_setting c \<noteq> 0 then try_r (ci_alternate io) (\<lambda>_. Inr c) else Inr c)))))) of
                    Inl e \<Rightarrow> Some (Inl e)
                  | Inr c \<Rightarrow>
                      map_option (\<lambda>(_, pending, _). Inr (c, pending)) (align_stream [] (ci_reads io))))"

section \<open>The byte source under the reader\<close>

datatype bulk_read = BulkData bytes | BulkTimeout | BulkInterrupted | BulkFails string

text \<open>
  One call of the closure of \<open>poll_receive\<close> for a buffer of \<open>want\<close> bytes: bytes already read come
  first, the tail of a transfer that does not fit is kept.
\<close>

definition usb_source :: "bytes \<Rightarrow> nat \<Rightarrow> bulk_read \<Rightarrow> (error + bytes) \<times> bytes" where
  "usb_source pending want bulk =
     (let filled = (if pending = []
                    then (case bulk of
                            BulkData bs \<Rightarrow> if bs = [] then Inl (Io Interrupted ''interrupted'') else Inr bs
                          | BulkInterrupted \<Rightarrow> Inl (Io Interrupted ''interrupted'')
                          | BulkTimeout \<Rightarrow> Inl (Io TimedOut ''timed out'')
                          | BulkFails text \<Rightarrow> Inl (Io OtherKind text))
                    else Inr pending)
      in case filled of
           Inl e \<Rightarrow> (Inl e, pending)
         | Inr bs \<Rightarrow> (Inr (take (min (length bs) want) bs), drop (min (length bs) want) bs))"

text \<open>
  A run of calls with their buffer sizes. A bulk read is made only when nothing is pending; the run
  ends early where the endpoint has not answered yet.
\<close>

fun usb_source_run :: "bytes \<Rightarrow> nat list \<Rightarrow> bulk_read list \<Rightarrow> bytes \<times> bytes \<times> bulk_read list" where
  "usb_source_run pending [] bulks = ([], pending, bulks)"
| "usb_source_run pending (want # wants) bulks =
     (if pending = [] \<and> bulks = [] then ([], [], [])
      else let (r, pending') = usb_source pending want (hd bulks);
               (out, rest) = usb_source_run pending' wants (if pending = [] then tl bulks else bulks)
           in ((case r of Inl _ \<Rightarrow> out | Inr bs \<Rightarrow> bs @ out), rest))"

text \<open>\<open>receive\<close>: a poll with no frame is a timeout.\<close>

definition usb_receive :: "error + frame option \<Rightarrow> error + frame" where
  "usb_receive polled =
     try_r polled (\<lambda>f. case f of Some f \<Rightarrow> Inr f | None \<Rightarrow> Inl (Io TimedOut ''receive poll expired''))"

section \<open>Sending\<close>

text \<open>
  The write loop over one part: an answer is the count written, or the failure of the budget or of
  the transfer; the transfers made are the result's first component.
\<close>

fun usb_write :: "bytes \<Rightarrow> (error + nat) list \<Rightarrow> bytes list \<times> ((error + unit) \<times> (error + nat) list) option" where
  "usb_write bs answers =
     (if bs = [] then ([], Some (Inr (), answers))
      else case answers of
             [] \<Rightarrow> ([], None)
           | Inl e # rest \<Rightarrow> ([], Some (Inl e, rest))
           | Inr n # rest \<Rightarrow>
               if n = 0 then ([], Some (Inl (Msg ''USB write made no progress''), rest))
               else let (out, r) = usb_write (drop n bs) rest in (take n bs # out, r))"

definition usb_send :: "frame \<Rightarrow> (error + nat) list \<Rightarrow> (bytes list \<times> bytes list) \<times> (error + unit) option" where
  "usb_send f answers =
     (case try_r (frame_validate f) (\<lambda>_. header_encode (fr_header f)) of
        Inl e \<Rightarrow> (([], []), Some (Inl e))
      | Inr hb \<Rightarrow>
          (case usb_write hb answers of
             (t1, None) \<Rightarrow> ((t1, []), None)
           | (t1, Some (Inl e, _)) \<Rightarrow> ((t1, []), Some (Inl e))
           | (t1, Some (Inr _, rest)) \<Rightarrow>
               (let (t2, r) = usb_write (fr_payload f) rest in ((t1, t2), map_option fst r))))"

section \<open>Keeping the selection\<close>

definition same_port :: "device_id \<Rightarrow> candidate \<Rightarrow> bool" where
  "same_port current c \<longleftrightarrow> dev_bus (cand_id c) = dev_bus current \<and> dev_ports (cand_id c) = dev_ports current"

text \<open>\<open>reconcile_selection\<close> on the selection and the lost flag.\<close>

definition reconcile_selection :: "device_id option \<times> bool \<Rightarrow> candidate list \<Rightarrow> device_id option \<times> bool" where
  "reconcile_selection st devices =
     (let (sel, lost) = st; sugg = filter cand_suggested devices
      in case sel of
           Some current \<Rightarrow>
             if list_ex (\<lambda>c. cand_id c = current) devices then (sel, False)
             else (case find (same_port current) devices of
                     Some c \<Rightarrow> (Some (cand_id c), False)
                   | None \<Rightarrow>
                       if lost \<and> length sugg = 1 then (Some (cand_id (hd sugg)), False) else (sel, True))
         | None \<Rightarrow>
             if \<not> lost \<and> length sugg = 1 then (Some (cand_id (hd sugg)), lost) else (None, lost))"

section \<open>The stream\<close>

definition bulk_bytes :: "bulk_read \<Rightarrow> bytes" where
  "bulk_bytes b = (case b of BulkData bs \<Rightarrow> bs | _ \<Rightarrow> [])"

lemma usb_source_bytes:
  "usb_source pending want b = (r, pending') \<Longrightarrow>
     (case r of Inl _ \<Rightarrow> [] | Inr bs \<Rightarrow> bs) @ pending' = (if pending = [] then bulk_bytes b else pending)"
proof -
  assume a: "usb_source pending want b = (r, pending')"
  show ?thesis
  proof (cases "pending = []")
    case True
    then show ?thesis using a
      by (cases b) (auto simp: usb_source_def bulk_bytes_def split: if_splits)
  next
    case False
    then show ?thesis using a by (auto simp: usb_source_def)
  qed
qed

lemma usb_source_run_bytes:
  "usb_source_run pending wants bulks = (out, pending', bulks') \<Longrightarrow>
     \<exists>used. bulks = used @ bulks' \<and> out @ pending' = pending @ concat (map bulk_bytes used)"
proof (induction wants arbitrary: pending bulks out pending' bulks')
  case Nil
  then show ?case by simp
next
  case (Cons want wants)
  show ?case
  proof (cases "pending = [] \<and> bulks = []")
    case True
    then show ?thesis using Cons.prems by simp
  next
    case False
    obtain r p1 where r: "usb_source pending want (hd bulks) = (r, p1)" by fastforce
    let ?bulks = "if pending = [] then tl bulks else bulks"
    obtain out1 where run: "usb_source_run p1 wants ?bulks = (out1, pending', bulks')"
      and out: "out = (case r of Inl _ \<Rightarrow> [] | Inr bs \<Rightarrow> bs) @ out1"
      using Cons.prems False r by (auto simp: Let_def split: prod.splits sum.splits)
    obtain used where u: "?bulks = used @ bulks'" "out1 @ pending' = p1 @ concat (map bulk_bytes used)"
      using Cons.IH[OF run] by blast
    have e: "out @ pending' = (if pending = [] then bulk_bytes (hd bulks) else pending) @ concat (map bulk_bytes used)"
      unfolding out append_assoc u(2) usb_source_bytes[OF r, symmetric] by simp
    show ?thesis
    proof (cases "pending = []")
      case True
      then have "bulks = (hd bulks # used) @ bulks'" using False u(1) by (cases bulks) auto
      moreover have "out @ pending' = pending @ concat (map bulk_bytes (hd bulks # used))" using e True by simp
      ultimately show ?thesis by blast
    next
      case False
      then show ?thesis using u(1) e by auto
    qed
  qed
qed

definition stale :: "error + bytes \<Rightarrow> bool" where
  "stale r \<longleftrightarrow> (case r of Inl _ \<Rightarrow> False | Inr bs \<Rightarrow> bs \<noteq> [] \<and> take 4 bs \<noteq> amb1)"

lemma align_reads_Some:
  "align_reads n pending reads = Some (verdict, pending', rest) \<Longrightarrow>
     \<exists>dropped. length dropped \<le> n \<and> list_all stale dropped
       \<and> (if verdict then length dropped < n \<and> (\<exists>bs. reads = dropped @ Inr bs # rest
              \<and> (bs = [] \<and> pending' = pending \<or> take 4 bs = amb1 \<and> pending' = pending @ bs))
          else pending' = pending \<and> (reads = dropped @ rest \<and> length dropped = n
              \<or> (\<exists>e. reads = dropped @ Inl e # rest)))"
proof (induction n pending reads rule: align_reads.induct)
  case (3 n pending r reads)
  have len: "take 4 bs = amb1 \<Longrightarrow> 4 \<le> length bs" for bs
    by (rule ccontr) (simp add: amb1_def as_bytes_def utf8_def utf8_char_def chr_def)
  show ?case
  proof (cases "stale r")
    case True
    then have "align_reads n pending reads = Some (verdict, pending', rest)"
      using 3(2) by (auto simp: stale_def split: sum.splits if_splits)
    moreover obtain bs where r: "r = Inr bs" "bs \<noteq> []" "\<not> (4 \<le> length bs \<and> take 4 bs = amb1)"
      using True by (auto simp: stale_def split: sum.splits)
    ultimately obtain dropped where
      "length dropped \<le> n" "list_all stale dropped"
      "if verdict then length dropped < n \<and> (\<exists>bs. reads = dropped @ Inr bs # rest
              \<and> (bs = [] \<and> pending' = pending \<or> take 4 bs = amb1 \<and> pending' = pending @ bs))
          else pending' = pending \<and> (reads = dropped @ rest \<and> length dropped = n
              \<or> (\<exists>e. reads = dropped @ Inl e # rest))"
      using 3(1)[OF r] by blast
    then show ?thesis using True by (intro exI[of _ "r # dropped"]) (auto split: if_splits)
  next
    case False
    then show ?thesis using 3(2) len
      by (intro exI[of _ "[]"]) (auto simp: stale_def split: sum.splits if_splits)
  qed
next
  case (1 pending reads)
  then show ?case by (intro exI[of _ "[]"]) simp
next
  case (2 n pending)
  then show ?case by simp
qed

section \<open>Properties\<close>

text \<open>
  C21. The USB stream starts at a frame and loses nothing: when the search for the boundary ends well,
  at most 64 raw reads were made and every transfer it dropped was not the beginning of a frame; what
  the reader is then given, over any calls with any buffer sizes, is, in order and without a gap or a
  repetition, the transfer that begins the frame (if one was found) followed by the transfers after
  it, up to the bytes still pending. (This is what the code does and what its inner comment says;
  the doc comment above \<open>align_stream\<close> says that the found frame's payload transfer is discarded,
  which the code does not do.)
\<close>

theorem usb_stream_starts_at_frame:
  assumes "align_stream [] reads = Some (True, pending, rest)"
    and "usb_source_run pending wants bulks = (out, pending', bulks')"
  shows "\<exists>dropped found consumed. reads = dropped @ Inr found # rest \<and> length dropped < 64 \<and> list_all stale dropped
    \<and> (found = [] \<or> take 4 found = amb1) \<and> bulks = consumed @ bulks'
    \<and> out @ pending' = found @ concat (map bulk_bytes consumed)"
proof -
  obtain dropped bs where a: "length dropped < 64" "list_all stale dropped" "reads = dropped @ Inr bs # rest"
    "bs = [] \<and> pending = [] \<or> take 4 bs = amb1 \<and> pending = bs"
    using align_reads_Some[OF assms(1)[unfolded align_stream_def]] by auto
  obtain consumed where "bulks = consumed @ bulks'" "out @ pending' = pending @ concat (map bulk_bytes consumed)"
    using usb_source_run_bytes[OF assms(2)] by blast
  then show ?thesis using a by blast
qed

lemma usb_stream_starts_at_frame_witness:
  "fst (usb_source_run (amb1 @ [1, 2]) [4, 1, 9, 8] [BulkData [7, 8, 9]]) = amb1 @ [1, 2, 7, 8, 9]
   \<and> (\<exists>dropped found consumed. [Inr [5], Inr (amb1 @ [1, 2])] = dropped @ Inr found # ([] :: (error + bytes) list)
     \<and> length dropped < 64 \<and> list_all stale dropped \<and> (found = [] \<or> take 4 found = amb1)
     \<and> [BulkData [7, 8, 9]] = consumed @ []
     \<and> (amb1 @ [1, 2, 7, 8, 9]) @ [] = found @ concat (map bulk_bytes consumed))"
proof -
  have a: "align_stream [] [Inr [5], Inr (amb1 @ [1, 2])] = Some (True, amb1 @ [1, 2], [])"
    by (simp add: align_stream_def amb1_def as_bytes_def utf8_def utf8_char_def chr_def numeral_eq_Suc
        del: eval_nat_numeral)
  have r: "usb_source_run (amb1 @ [1, 2]) [4, 1, 9, 8] [BulkData [7, 8, 9]] = (amb1 @ [1, 2, 7, 8, 9], [], [])"
    by (simp add: usb_source_def amb1_def as_bytes_def utf8_def utf8_char_def chr_def Let_def)
  show ?thesis using usb_stream_starts_at_frame[OF a r] r by simp
qed

lemma identify_all_trace:
  "identify_all io i ss = (out, r) \<Longrightarrow> StartAccessory \<notin> set out
     \<and> (r = Inr () \<longrightarrow> out = map (\<lambda>k. Identify (i + k) (c_string (ss ! k))) [0..<length ss]
          \<and> (\<forall>k < length ss. io_identify io (i + k) = Inr (length (c_string (ss ! k)))))"
proof (induction ss arbitrary: i out r)
  case Nil
  then show ?case by simp
next
  case (Cons s ss)
  show ?case
  proof (cases "io_identify io i = Inr (length (c_string s))")
    case True
    obtain out1 where o: "identify_all io (Suc i) ss = (out1, r)" "out = Identify i (c_string s) # out1"
      using Cons.prems True by (auto split: prod.splits)
    have ih: "StartAccessory \<notin> set out1"
      "r = Inr () \<Longrightarrow> out1 = map (\<lambda>k. Identify (Suc i + k) (c_string (ss ! k))) [0..<length ss]"
      "r = Inr () \<Longrightarrow> \<forall>k < length ss. io_identify io (Suc i + k) = Inr (length (c_string (ss ! k)))"
      using Cons.IH[OF o(1)] by blast+
    have "map (\<lambda>k. Identify (i + k) (c_string ((s # ss) ! k))) [0..<length (s # ss)]
        = Identify i (c_string s) # map (\<lambda>k. Identify (Suc i + k) (c_string (ss ! k))) [0..<length ss]"
      by (simp add: map_upt_Suc del: upt_Suc)
    moreover have "\<forall>k < length (s # ss). io_identify io (i + k) = Inr (length (c_string ((s # ss) ! k)))"
      if "r = Inr ()"
    proof (intro allI impI)
      fix k assume "k < length (s # ss)"
      then show "io_identify io (i + k) = Inr (length (c_string ((s # ss) ! k)))"
        using True ih(3)[OF that] by (cases k) auto
    qed
    ultimately show ?thesis using ih(1,2) o(2) by (metis set_ConsD control_transfer.distinct(5))
  next
    case False
    then show ?thesis using Cons.prems by (auto split: sum.splits)
  qed
qed

lemma selected_Inr:
  "selected devices dev post = Inr d \<Longrightarrow> \<exists>ds actual. devices = Inr ds \<and> d \<in> set ds \<and> identity_of d = Inr actual
     \<and> dev_bus actual = dev_bus dev \<and> dev_ports actual = dev_ports dev
     \<and> (actual = dev \<or> post \<and> accessory_id actual)"
proof -
  assume a: "selected devices dev post = Inr d"
  obtain ds where ds: "devices = Inr ds" "find (is_selected dev post) ds = Some d"
    using a by (auto simp: selected_def try_r_Inr_iff split: if_splits option.splits)
  have "d \<in> set ds" "is_selected dev post d" using ds(2) by (auto simp: find_Some_iff)
  then show ?thesis using ds(1) by (auto simp: is_selected_def split: sum.splits)
qed

lemma wait_accessory_Inr:
  "wait_accessory dev deadline turns = Some (Inr d) \<Longrightarrow>
     \<exists>pre devices now post current. turns = pre @ (devices, now) # post \<and> (\<forall>t \<in> set pre. snd t < deadline)
       \<and> selected devices dev True = Inr d \<and> identity_of d = Inr current \<and> accessory_id current"
proof (induction turns)
  case (Cons t turns)
  obtain devices now where t: "t = (devices, now)" by fastforce
  consider "wait_accessory dev deadline turns = Some (Inr d)" "now < deadline"
    | current where "selected devices dev True = Inr d" "identity_of d = Inr current" "accessory_id current"
    using Cons.prems t by (auto simp: Let_def split: sum.splits if_splits)
  then show ?case
  proof cases
    case 1
    from Cons.IH[OF 1(1)] obtain pre devices' now' post current where
      "turns = pre @ (devices', now') # post" "\<forall>t \<in> set pre. snd t < deadline"
      "selected devices' dev True = Inr d" "identity_of d = Inr current" "accessory_id current" by blast
    then show ?thesis using t 1(2)
      by (intro exI[of _ "t # pre"] exI[of _ devices'] exI[of _ now'] exI[of _ post] exI[of _ current]) simp
  next
    case 2
    then show ?thesis using t
      by (intro exI[of _ "[]"] exI[of _ devices] exI[of _ now] exI[of _ turns] exI[of _ current]) simp
  qed
qed simp

text \<open>
  A phone is put into accessory mode only after it was fully identified: the start request goes
  only to the selected device (same bus, address, ids and port), which was not an accessory already,
  could be opened, reported a protocol version above zero and took all six identification strings
  whole and in order, and it is the last request of the switch. The switch then succeeds only with a
  device on the same physical port that is in accessory mode, seen before the deadline of eight
  seconds had passed on an earlier look.
\<close>

theorem aoa_start_needs_identification:
  assumes "switch_selected io dev parent = (trace, res)" and "StartAccessory \<in> set trace"
  shows "trace = GetProtocol # map (\<lambda>k. Identify k (c_string (aoa_strings ! k))) [0..<6] @ [StartAccessory]
    \<and> \<not> accessory_id dev \<and> io_open io = Inr ()
    \<and> (\<exists>d. selected (io_devices io) dev False = Inr d \<and> identity_of d = Inr dev)
    \<and> (\<exists>version. io_protocol io = Inr (2, version) \<and> version \<noteq> 0)
    \<and> (\<forall>k < 6. io_identify io k = Inr (length (c_string (aoa_strings ! k))))
    \<and> (res = Some (Inr ()) \<longrightarrow> (\<exists>pre devices now post d current. io_turns io = pre @ (devices, now) # post
         \<and> (\<forall>t \<in> set pre. snd t < io_now io + 8000)
         \<and> selected devices dev True = Inr d \<and> identity_of d = Inr current \<and> accessory_id current
         \<and> dev_bus current = dev_bus dev \<and> dev_ports current = dev_ports dev))"
proof -
  obtain d where d: "selected (io_devices io) dev False = Inr d" and na: "\<not> accessory_id dev"
    using assms by (auto simp: switch_selected_def split: sum.splits if_splits)
  have dd: "identity_of d = Inr dev" using selected_Inr[OF d] by auto
  have op: "io_open io = Inr ()"
    using assms d na by (auto simp: switch_selected_def try_r_Inr_iff split: sum.splits if_splits)
  obtain version where v: "io_protocol io = Inr (2, version)" "version \<noteq> 0"
    using assms d na by (auto simp: switch_selected_def split: sum.splits if_splits)
  obtain out r where idn: "identify_all io 0 aoa_strings = (out, r)" by fastforce
  note tr = identify_all_trace[OF idn]
  have len: "length aoa_strings = 6" by (simp add: aoa_strings_def)
  have r: "r = Inr ()" using assms d na v idn tr
    by (auto simp: switch_selected_def split: sum.splits if_splits)
  have out: "out = map (\<lambda>k. Identify k (c_string (aoa_strings ! k))) [0..<6]"
    and cnt: "\<forall>k < 6. io_identify io k = Inr (length (c_string (aoa_strings ! k)))"
    using tr r len by simp_all
  have trace: "trace = GetProtocol # out @ [StartAccessory]"
    and res: "res = (case io_start io of Inl e \<Rightarrow> Some (Inl e)
        | Inr _ \<Rightarrow> map_option (\<lambda>r. try_r r (\<lambda>_. Inr ())) (wait_accessory dev (io_now io + 8000) (io_turns io)))"
    using assms d na v idn r
    by (auto simp: switch_selected_def Let_def split: sum.splits if_splits)
  have "\<exists>pre devices now post d current. io_turns io = pre @ (devices, now) # post
         \<and> (\<forall>t \<in> set pre. snd t < io_now io + 8000)
         \<and> selected devices dev True = Inr d \<and> identity_of d = Inr current \<and> accessory_id current
         \<and> dev_bus current = dev_bus dev \<and> dev_ports current = dev_ports dev" if ok: "res = Some (Inr ())"
  proof -
    have "map_option (\<lambda>r. try_r r (\<lambda>_. Inr ())) (wait_accessory dev (io_now io + 8000) (io_turns io))
        = Some (Inr ())" using res ok by (cases "io_start io") simp_all
    then obtain w where "wait_accessory dev (io_now io + 8000) (io_turns io) = Some (Inr w)"
      by (auto simp: try_r_Inr_iff)
    then obtain pre devices now post current where w: "io_turns io = pre @ (devices, now) # post"
      "\<forall>t \<in> set pre. snd t < io_now io + 8000" "selected devices dev True = Inr w"
      "identity_of w = Inr current" "accessory_id current" using wait_accessory_Inr by blast
    have "dev_bus current = dev_bus dev" "dev_ports current = dev_ports dev"
      using selected_Inr[OF w(3)] w(4) by auto
    then show ?thesis using w by blast
  qed
  then show ?thesis using trace out cnt na op d dd v by blast
qed

definition sample_phone :: usb_device where
  "sample_phone = \<lparr>ud_bus = 1, ud_address = 5, ud_descriptor = Inr (0x04e8, 0x6860, 0), ud_ports = Inr [2],
     ud_interfaces = [], ud_product = None\<rparr>"

definition sample_switch_io :: switch_io where
  "sample_switch_io = \<lparr>io_devices = Inr [sample_phone], io_open = Inr (), io_drop = Inr (),
     io_protocol = Inr (2, 2), io_identify = (\<lambda>k. Inr (length (c_string (aoa_strings ! k)))),
     io_start = Inr 0, io_turns = [(Inr [], 100),
       (Inr [sample_phone\<lparr>ud_address := 6, ud_descriptor := Inr (0x18d1, 0x2d01, 0)\<rparr>], 200)], io_now = 0\<rparr>"

definition sample_dev :: device_id where
  "sample_dev = \<lparr>dev_bus = 1, dev_address = 5, dev_vid = 0x04e8, dev_pid = 0x6860, dev_ports = [2]\<rparr>"

lemma aoa_start_needs_identification_witness:
  "\<exists>trace. switch_selected sample_switch_io sample_dev None = (trace, Some (Inr ()))
     \<and> length trace = 8 \<and> io_protocol sample_switch_io = Inr (2, 2)"
proof -
  have idn: "identify_all sample_switch_io 0 aoa_strings
      = (map (\<lambda>k. Identify k (c_string (aoa_strings ! k))) [0..<6], Inr ())"
    unfolding aoa_strings_def sample_switch_io_def by (simp add: upt_rec aoa_strings_def)
  have sel: "selected (io_devices sample_switch_io) sample_dev False = Inr sample_phone"
    by (simp add: sample_switch_io_def selected_def is_selected_def sample_dev_def identity_of_def sample_phone_def)
  have na: "\<not> accessory_id sample_dev" by (simp add: accessory_id_def accessory_def sample_dev_def)
  have w: "\<exists>d. wait_accessory sample_dev 8000 (io_turns sample_switch_io) = Some (Inr d)"
    by (simp add: sample_switch_io_def selected_def is_selected_def sample_dev_def identity_of_def sample_phone_def
        accessory_id_def accessory_def)
  have e: "\<exists>trace. switch_selected sample_switch_io sample_dev None = (trace, Some (Inr ()))
      \<and> StartAccessory \<in> set trace"
    using sel na idn w by (auto simp: switch_selected_def sample_switch_io_def Let_def)
  then obtain trace where t: "switch_selected sample_switch_io sample_dev None = (trace, Some (Inr ()))"
    "StartAccessory \<in> set trace" by blast
  have "trace = GetProtocol # map (\<lambda>k. Identify k (c_string (aoa_strings ! k))) [0..<6] @ [StartAccessory]"
    using aoa_start_needs_identification[OF t] by blast
  then show ?thesis using t(1) by (simp add: sample_switch_io_def)
qed

text \<open>
  The selection follows the phone and never guesses: a device selected by the reconciliation is
  one that is attached; from an empty selection it is the only suggested device (and the phone was
  not lost before); a selection that is attached stays as it is; one that is not moves only to a
  device on the same physical port, or, when it had been lost before and nothing is on its port, to
  the only suggested device. Otherwise it is kept and marked as lost.
\<close>

theorem reconcile_never_guesses:
  "case reconcile_selection (sel, lost) devices of (sel', lost') \<Rightarrow>
     (case sel of
        None \<Rightarrow> lost' = lost \<and> (case sel' of None \<Rightarrow> True
          | Some d \<Rightarrow> \<not> lost \<and> (\<exists>c. filter cand_suggested devices = [c] \<and> cand_id c = d))
      | Some cur \<Rightarrow>
          (if cur \<in> cand_id ` set devices then sel' = sel \<and> \<not> lost'
           else case find (same_port cur) devices of
                  Some c \<Rightarrow> sel' = Some (cand_id c) \<and> c \<in> set devices \<and> same_port cur c \<and> \<not> lost'
                | None \<Rightarrow>
                    if lost \<and> (\<exists>c. filter cand_suggested devices = [c])
                    then sel' = Some (cand_id (hd (filter cand_suggested devices))) \<and> \<not> lost'
                    else sel' = sel \<and> lost'))"
proof (cases sel)
  case None
  then show ?thesis by (auto simp: reconcile_selection_def Let_def length_Suc_conv split: option.splits)
next
  case (Some cur)
  have mem: "list_ex (\<lambda>c. cand_id c = cur) devices \<longleftrightarrow> cur \<in> cand_id ` set devices"
    by (auto simp: list_ex_iff)
  have one: "length (filter cand_suggested devices) = 1 \<longleftrightarrow> (\<exists>c. filter cand_suggested devices = [c])"
    by (auto simp: length_Suc_conv)
  show ?thesis
  proof (cases "find (same_port cur) devices")
    case None
    have "reconcile_selection (sel, lost) devices =
        (if cur \<in> cand_id ` set devices then (sel, False)
         else if lost \<and> (\<exists>c. filter cand_suggested devices = [c])
         then (Some (cand_id (hd (filter cand_suggested devices))), False) else (sel, True))"
      unfolding reconcile_selection_def Let_def Some prod.case option.case None mem one by simp
    then show ?thesis using Some None by (auto split: if_split)
  next
    case (Some c)
    then have "c \<in> set devices" "same_port cur c" by (auto simp: find_Some_iff)
    then show ?thesis using Some \<open>sel = Some cur\<close> mem by (simp add: reconcile_selection_def Let_def)
  qed
qed

end
