(* ===== verification/Control.thy ===== *)
theory Control
  imports Settings Usb
begin

text \<open>
  The pipe between the application and its worker process, \<open>control.rs\<close>: the commands and events,
  and the framing of one JSON message per line with a bound of 16 KiB. The JSON text of a message is
  \<open>serde_json\<close>'s and a parameter; its results are used as opaque bytes.
\<close>

section \<open>Messages\<close>

definition MAX_LINE :: nat where "MAX_LINE = 16 * 1024"

datatype command =
    Start settings "device_id option"
  | TransformCmd nat bool bool
  | PrepareQualityCmd u16 u16 u16
  | Stop

datatype host_event =
    UsbPermission device_id
  | ConnectingEv
  | WaitingEv
  | AuthorizationPending ustr
  | Stats (st_decoded: u64) (st_submitted: u64) (st_active: bool) (st_width: u32) (st_height: u32)
      (st_target_fps: u32) (st_decoder: string)
  | PairingInfoEv "ustr list" ustr ustr
  | QualityCapabilities u8 u16 u32 "mode list"
  | QualityProgress bool
  | QualityApplied u16 u16 u16
  | QualityFailed string bool
  | ErrorEv string
  | StoppedEv

section \<open>Writing and reading a line\<close>

text \<open>\<open>write\<close>: the bytes handed to the writer, or the error before anything is written.\<close>

definition control_write :: "('a \<Rightarrow> error + bytes) \<Rightarrow> 'a \<Rightarrow> error + bytes" where
  "control_write to_vec message =
     try_r (to_vec message) (\<lambda>bs.
       if length bs \<ge> MAX_LINE then Inl (Io InvalidInput ''control message too large'')
       else Inr (bs @ [10]))"

text \<open>What one refill contributes: up to and with the newline, or all of it.\<close>

definition line_count :: "bytes \<Rightarrow> nat" where
  "line_count buf = (if 10 \<in> set buf then length (takeWhile (\<lambda>b. b \<noteq> 10) buf) + 1 else length buf)"

lemma line_count_pos: "buf \<noteq> [] \<Longrightarrow> 0 < line_count buf"
  by (simp add: line_count_def)

lemma line_count_le: "line_count buf \<le> length buf"
  by (induction buf) (auto simp: line_count_def split: if_splits)

text \<open>
  \<open>read\<close> up to the parser: \<open>acc\<close> is the line so far, \<open>buf\<close> what the buffered reader still holds, the
  script gives what each refill gets (nothing at the end of the stream). A script that is used up is
  still waiting.
\<close>

function read_line ::
  "bytes \<Rightarrow> bytes \<Rightarrow> (error + bytes) list \<Rightarrow> ((error + bytes option) \<times> bytes \<times> (error + bytes) list) option" where
  "read_line acc buf chunks =
     (if buf = []
      then case chunks of
             [] \<Rightarrow> None
           | c # rest \<Rightarrow>
               (case c of
                  Inl e \<Rightarrow> Some (Inl e, [], rest)
                | Inr bs \<Rightarrow>
                    if bs = []
                    then Some (if acc = [] then Inr None else Inl (Msg ''truncated control message''), [], rest)
                    else read_line acc bs rest)
      else let count = line_count buf
           in if length acc + count > MAX_LINE
              then Some (Inl (Msg ''control message exceeds 16 KiB''), buf, chunks)
              else if buf ! (count - 1) = 10
              then Some (Inr (Some (acc @ take count buf)), drop count buf, chunks)
              else read_line (acc @ take count buf) (drop count buf) chunks)"
  by pat_completeness auto

termination
  by (relation "measures [\<lambda>(_, _, chunks). length chunks, \<lambda>(_, buf, _). length buf]")
    (auto simp: line_count_pos)

declare read_line.simps [simp del]

definition control_read ::
  "(bytes \<Rightarrow> error + 'a) \<Rightarrow> bytes \<Rightarrow> (error + bytes) list
    \<Rightarrow> ((error + 'a option) \<times> bytes \<times> (error + bytes) list) option" where
  "control_read from_slice buf chunks =
     map_option (\<lambda>(r, rest). (try_r r (\<lambda>line. case line of
         None \<Rightarrow> Inr None | Some bs \<Rightarrow> try_r (from_slice bs) (\<lambda>x. Inr (Some x))), rest))
       (read_line [] buf chunks)"

section \<open>A line crosses the pipe\<close>

text \<open>A stream that delivers the given bytes in non-empty pieces.\<close>

definition delivers :: "bytes \<Rightarrow> (error + bytes) list \<Rightarrow> bytes" where
  "delivers buf chunks = buf @ concat (map (\<lambda>c. case c of Inl _ \<Rightarrow> [] | Inr bs \<Rightarrow> bs) chunks)"

definition flowing :: "(error + bytes) list \<Rightarrow> bool" where
  "flowing chunks \<longleftrightarrow> list_all (\<lambda>c. case c of Inl _ \<Rightarrow> False | Inr bs \<Rightarrow> bs \<noteq> []) chunks"

lemma line_count_newline:
  "10 \<in> set buf \<Longrightarrow> take (line_count buf) buf = takeWhile (\<lambda>b. b \<noteq> 10) buf @ [10]
     \<and> buf ! (line_count buf - 1) = 10"
  by (induction buf) (auto simp: line_count_def)

lemma line_count_none: "10 \<notin> set buf \<Longrightarrow> line_count buf = length buf"
  by (simp add: line_count_def)

lemma read_line_delivers:
  assumes "delivers buf chunks = line @ 10 # tail" "10 \<notin> set line" "flowing chunks"
    and "length acc + length line < MAX_LINE"
  shows "\<exists>buf' chunks'. read_line acc buf chunks = Some (Inr (Some (acc @ line @ [10])), buf', chunks')
    \<and> delivers buf' chunks' = tail \<and> flowing chunks'"
  using assms
proof (induction acc buf chunks arbitrary: line rule: read_line.induct)
  case (1 acc buf chunks)
  show ?case
  proof (cases "buf = []")
    case True
    then obtain bs rest where c: "chunks = Inr bs # rest" "bs \<noteq> []" "flowing rest"
      using 1(3,5) by (cases chunks) (auto simp: delivers_def flowing_def split: sum.splits)
    have "delivers bs rest = line @ 10 # tail" using 1(3) c True by (simp add: delivers_def)
    from 1(1)[OF True c(1) refl c(2) this 1(4) c(3) 1(6)]
    show ?thesis using read_line.simps[of acc "[]" "Inr bs # rest"] True c by simp
  next
    case False
    show ?thesis
    proof (cases "10 \<in> set buf")
      case True
      let ?tw = "takeWhile (\<lambda>b. b \<noteq> 10) buf"
      have tw: "takeWhile (\<lambda>b. b \<noteq> 10) (delivers buf chunks) = ?tw"
        using True by (auto simp: delivers_def takeWhile_append1)
      have "takeWhile (\<lambda>b. b \<noteq> 10) (line @ 10 # tail) = line"
        using 1(4) by (auto simp: takeWhile_append takeWhile_eq_all_conv)
      then have l: "?tw = line" using tw 1(3) by simp
      have tk: "take (line_count buf) buf = line @ [10]" "buf ! (line_count buf - 1) = 10"
        using line_count_newline[OF True] l by auto
      have n: "line_count buf = length line + 1" using True l by (simp add: line_count_def)
      have "buf = line @ 10 # drop (line_count buf) buf"
        using tk(1) by (metis append_Cons append_Nil append_assoc append_take_drop_id)
      then have "line @ 10 # drop (line_count buf) buf @ concat (map (\<lambda>c. case c of Inl _ \<Rightarrow> [] | Inr bs \<Rightarrow> bs) chunks)
          = line @ 10 # tail"
        using 1(3) by (metis append_Cons append_assoc delivers_def)
      then have "delivers (drop (line_count buf) buf) chunks = tail" by (simp add: delivers_def)
      then show ?thesis using False tk n 1(5,6)
        by (simp add: read_line.simps[of acc buf chunks] Let_def)
    next
      case nl: False
      then have n: "line_count buf = length buf" by (rule line_count_none)
      obtain line' where l: "line = buf @ line'"
      proof -
        let ?X = "concat (map (\<lambda>c. case c of Inl _ \<Rightarrow> [] | Inr bs \<Rightarrow> bs) chunks)"
        have "buf @ ?X = line @ 10 # tail" using 1(3) by (simp add: delivers_def)
        then obtain us where "buf = line @ us \<and> us @ ?X = 10 # tail \<or> buf @ us = line"
          by (auto simp: append_eq_append_conv2)
        moreover have "us = []" if "buf = line @ us" "us @ ?X = 10 # tail"
          using that nl by (cases us) auto
        ultimately show thesis using that by (metis append_Nil2)
      qed
      have last: "buf ! (line_count buf - 1) \<noteq> 10"
        using nl False n by (metis diff_less length_greater_0_conv nth_mem zero_less_one)
      have d: "delivers [] chunks = line' @ 10 # tail" using 1(3) l by (simp add: delivers_def)
      have "length (acc @ buf) + length line' < MAX_LINE" using 1(6) l by simp
      moreover have "10 \<notin> set line'" using 1(4) l by simp
      ultimately obtain buf' chunks' where
        "read_line (acc @ buf) [] chunks = Some (Inr (Some ((acc @ buf) @ line' @ [10])), buf', chunks')"
        "delivers buf' chunks' = tail" "flowing chunks'"
        using 1(2)[OF False refl, of line'] last n d 1(5,6) l by auto
      then show ?thesis using False last n 1(6) l
        by (simp add: read_line.simps[of acc buf chunks] Let_def)
    qed
  qed
qed

text \<open>
  What one side writes the other reads: a message that was written (its line is then at most 16 KiB
  long) is read back as the same message however the pipe cuts the bytes into pieces, and the bytes
  after it stay for the next read; the JSON printer and parser are assumed to be inverse to each other
  on it and to print no newline.
\<close>

theorem control_message_crosses_pipe:
  assumes "control_write to_vec message = Inr bytes"
    and "\<And>bs. to_vec message = Inr bs \<Longrightarrow> 10 \<notin> set bs \<and> from_slice (bs @ [10]) = Inr message"
    and "delivers buf chunks = bytes @ tail" "flowing chunks"
  shows "length bytes \<le> MAX_LINE \<and> (\<exists>buf' chunks'.
     control_read from_slice buf chunks = Some (Inr (Some message), buf', chunks')
     \<and> delivers buf' chunks' = tail \<and> flowing chunks')"
proof -
  obtain bs where b: "to_vec message = Inr bs" "length bs < MAX_LINE" "bytes = bs @ [10]"
    using assms(1) by (auto simp: control_write_def try_r_Inr_iff split: if_splits)
  have nl: "10 \<notin> set bs" "from_slice (bs @ [10]) = Inr message" using assms(2)[OF b(1)] by auto
  have "delivers buf chunks = bs @ 10 # tail" using assms(3) b(3) by simp
  from read_line_delivers[OF this nl(1) assms(4), of "[]"] b(2)
  obtain buf' chunks' where "read_line [] buf chunks = Some (Inr (Some (bs @ [10])), buf', chunks')"
    "delivers buf' chunks' = tail" "flowing chunks'" by auto
  then show ?thesis using nl(2) b by (auto simp: control_read_def)
qed

lemma control_message_crosses_pipe_witness:
  "\<exists>buf' chunks'. control_read (\<lambda>bs. Inr (hd bs)) [] [Inr [7], Inr [10, 8]] = Some (Inr (Some 7), buf', chunks')
     \<and> delivers buf' chunks' = [8]"
proof -
  have w: "control_write (\<lambda>b. Inr [b]) (7 :: u8) = Inr [7, 10]" by (simp add: control_write_def MAX_LINE_def)
  have d: "delivers [] [Inr [7], Inr [10, 8]] = [7, 10] @ [8 :: u8]" by (simp add: delivers_def)
  show ?thesis
    using control_message_crosses_pipe[where from_slice = "\<lambda>bs. Inr (hd bs)", OF w _ d]
    by (auto simp: flowing_def)
qed

text \<open>The reader never holds more than the bound, and a line it gives is one whole line.\<close>

lemma read_line_bounded:
  "read_line acc buf chunks = Some (Inr (Some line), buf', chunks') \<Longrightarrow>
     length line \<le> MAX_LINE \<and> (\<exists>bs. line = acc @ bs @ [10])"
proof (induction acc buf chunks rule: read_line.induct)
  case (1 acc buf chunks)
  show ?case
  proof (cases "buf = []")
    case True
    then obtain bs rest where c: "chunks = Inr bs # rest" "bs \<noteq> []"
      "read_line acc bs rest = Some (Inr (Some line), buf', chunks')"
      using 1(3) by (subst (asm) read_line.simps) (auto split: list.splits sum.splits if_splits)
    then show ?thesis using 1(1)[OF True c(1) refl c(2)] by blast
  next
    case False
    show ?thesis
    proof (cases "buf ! (line_count buf - 1) = 10")
      case True
      have "take (line_count buf) buf = take (line_count buf - 1) buf @ [10]"
        using True line_count_pos[OF False] line_count_le[of buf]
        by (metis Suc_diff_1 Suc_le_lessD take_Suc_conv_app_nth)
      then show ?thesis using 1(3) True False line_count_pos[OF False]
        by (subst (asm) read_line.simps) (auto simp: Let_def split: if_splits)
    next
      case nl: False
      then have m: "\<not> MAX_LINE < length acc + line_count buf"
        and r: "read_line (acc @ take (line_count buf) buf) (drop (line_count buf) buf) chunks
          = Some (Inr (Some line), buf', chunks')"
        using 1(3) False by (subst (asm) read_line.simps, auto simp: Let_def split: if_splits)+
      from 1(2)[OF False refl _ nl r] m show ?thesis by auto
    qed
  qed
qed

text \<open>When the reader is still waiting.\<close>

lemma read_line_waits:
  "length acc \<le> MAX_LINE \<Longrightarrow>
     read_line acc buf chunks = None \<longleftrightarrow>
       flowing chunks \<and> 10 \<notin> set (delivers buf chunks) \<and> length acc + length (delivers buf chunks) \<le> MAX_LINE"
proof (induction acc buf chunks rule: read_line.induct)
  case (1 acc buf chunks)
  note simps = read_line.simps[of acc buf chunks]
  show ?case
  proof (cases "buf = []")
    case True
    show ?thesis
    proof (cases chunks)
      case Nil
      then show ?thesis using True "1.prems" by (simp add: read_line.simps[of acc "[]" "[]"] flowing_def delivers_def)
    next
      case (Cons c rest)
      show ?thesis
      proof (cases "\<exists>bs. c = Inr bs \<and> bs \<noteq> []")
        case False
        then have "read_line acc buf chunks \<noteq> None" "\<not> flowing chunks"
          using True Cons by (auto simp: read_line.simps[of acc "[]" "c # rest"] flowing_def split: sum.splits)
        then show ?thesis by blast
      next
        case more: True
        then obtain bs where c: "c = Inr bs" "bs \<noteq> []" by blast
        have same: "delivers buf chunks = delivers bs rest" "flowing chunks = flowing rest"
          using True Cons c by (simp_all add: delivers_def flowing_def)
        have "read_line acc buf chunks = read_line acc bs rest"
          using True Cons c by (simp add: read_line.simps[of acc "[]" "Inr bs # rest"])
        then show ?thesis using "1.IH"(1)[OF True Cons c(1,2) "1.prems"] same by simp
      qed
    qed
  next
    case False
    let ?n = "line_count buf"
    show ?thesis
    proof (cases "MAX_LINE < length acc + ?n")
      case True
      moreover have "?n \<le> length (delivers buf chunks)" using line_count_le[of buf] by (simp add: delivers_def)
      ultimately show ?thesis using False by (simp add: simps Let_def)
    next
      case fits: False
      show ?thesis
      proof (cases "10 \<in> set buf")
        case True
        then show ?thesis using False fits line_count_newline[OF True]
          by (simp add: simps Let_def delivers_def)
      next
        case nl: False
        have n: "?n = length buf" using nl by (rule line_count_none)
        have last: "buf ! (?n - 1) \<noteq> 10"
          using nl False n by (metis diff_less length_greater_0_conv nth_mem zero_less_one)
        have step: "read_line acc buf chunks = read_line (acc @ buf) [] chunks"
          using False fits last n by (simp add: simps Let_def)
        have len: "length (acc @ buf) \<le> MAX_LINE" using fits n by simp
        have "read_line (acc @ buf) [] chunks = None \<longleftrightarrow>
            flowing chunks \<and> 10 \<notin> set (delivers [] chunks) \<and> length (acc @ buf) + length (delivers [] chunks) \<le> MAX_LINE"
          using "1.IH"(2)[OF False refl fits last] len n by simp
        then show ?thesis using step nl by (auto simp: delivers_def)
      qed
    qed
  qed
qed

text \<open>
  C20. Reading a control message ends exactly when it can: it is still waiting only as long as the stream
  has neither ended nor failed, brought no newline, and at most 16 KiB; a newline, the end, an error or a
  byte too many make it return.
\<close>

theorem control_read_settles:
  "control_read from_slice buf chunks = None \<longleftrightarrow>
     flowing chunks \<and> 10 \<notin> set (delivers buf chunks) \<and> length (delivers buf chunks) \<le> MAX_LINE"
  using read_line_waits[of "[]" buf chunks] by (simp add: control_read_def)

end
