(* ===== verification/Video_Stream.thy ===== *)
theory Video_Stream
  imports Control Client_Auth Quality_Switch
begin

text \<open>
  The worker process, \<open>video.rs\<close>: opening and authorizing the transport, the receive loop with the
  quality machine in it, the decoder, the virtual camera, and the worker's own command reader.

  The state of the loop is a record; a computation over it gives the new state, the actions it took,
  and a value or the error that ends the session. One turn of
  the loop has its inputs in a record: the request the application left, what the poll of the
  transport gave, what the decoder and the camera answered, and the clock at each point the code
  reads it. The decoder, the pixel conversion and the camera appear as actions with a given
  outcome; the conversion and the camera on Linux have their own theories, \<open>Pixels\<close> and \<open>Camera\<close>.
\<close>

unbundle bit_operations_syntax

section \<open>Configuration and failures\<close>

record config =
  cf_width :: u32
  cf_height :: u32
  cf_fps :: u32

definition config_parse :: "bytes \<Rightarrow> error + config" where
  "config_parse bs =
     (if length bs \<noteq> 16 \<or> bs ! 12 \<noteq> 1 \<or> bs ! 13 \<noteq> 1 then Inl (Msg ''invalid VIDEO_CONFIG'')
      else let c = \<lparr>cf_width = ucast (of_le16 (slice 0 2 bs)), cf_height = ucast (of_le16 (slice 2 4 bs)),
                    cf_fps = ucast (of_le16 (slice 4 6 bs))\<rparr>
           in if cf_width c = 0 \<or> cf_height c = 0 \<or> cf_fps c = 0 \<or> cf_width c > 8192 \<or> cf_height c > 8192
                 \<or> (ucast (cf_width c) :: u64) * ucast (cf_height c) > 33554432
              then Inl (Msg ''invalid VIDEO_CONFIG dimensions or rate'')
              else Inr c)"

record transform =
  tr_rotation :: nat
  tr_mirror :: bool
  tr_vertical :: bool

definition transform_from :: "settings \<Rightarrow> transform" where
  "transform_from s = \<lparr>tr_rotation = rotation s, tr_mirror = mirror s, tr_vertical = vertical_flip s\<rparr>"

definition describe_receive_failure :: "error \<Rightarrow> string" where
  "describe_receive_failure e =
     take 2048 (replace_all ''incomplete frame deadline expired'' ''incomplete AMB1 frame deadline expired''
       (error_text e))"

definition lower_char :: "char \<Rightarrow> char" where
  "lower_char c = (let n = of_char c :: nat in if 65 \<le> n \<and> n \<le> 90 then char_of (n + 32) else c)"

definition a_hello_would_help :: "string \<Rightarrow> bool" where
  "a_hello_would_help e =
     (let lowered = map lower_char e
      in contains ''deadline expired'' lowered \<or> contains ''poll expired'' lowered
         \<or> contains ''incomplete frame'' lowered
         \<or> contains ''does not support required per-pc authorization'' lowered
         \<or> contains ''expected authorization outcome before'' lowered)"

section \<open>Opening a session\<close>

text \<open>
  What the surroundings of \<open>receive\<close> do: the identity, the connections, the outcome of each
  authorization exchange, the host hello, and whether the phone is still an accessory.
\<close>

record open_io =
  oi_identity :: "error + unit"
  oi_lan :: "error + unit"
  oi_usb :: "error + unit"
  oi_exchange :: "route \<Rightarrow> error + outcome"
  oi_hello :: "error + unit"
  oi_again :: "route \<Rightarrow> error + outcome"
  oi_switched :: "device_id \<Rightarrow> error + device_id"

datatype open_action = LoadIdentity | ConnectLan | ConnectUsb device_id | Exchange route | HostHello

definition stream_route :: "settings \<Rightarrow> error + route" where
  "stream_route s =
     (if transport s = lit ''lan'' then try_r (parse_hex (lan_fingerprint s) 32) (\<lambda>sha. Inr (Lan sha))
      else Inr Usb)"

text \<open>The outcome of the exchange becomes leave to stream, or the error the user reads.\<close>

definition settle :: "open_io \<Rightarrow> device_id option \<Rightarrow> error + outcome \<Rightarrow> error + unit" where
  "settle io dev result =
     (case result of
        Inr (Authorized _) \<Rightarrow> Inr ()
      | Inr (Client_Auth.Rejected reason) \<Rightarrow> Inl (Msg reason)
      | Inl e \<Rightarrow>
          (case dev of
             Some d \<Rightarrow>
               (case oi_switched io d of
                  Inr _ \<Rightarrow> Inl (Msg (error_text e @ ''. The phone is still in USB accessory mode; unplug and replug the cable before trying again''))
                | Inl _ \<Rightarrow> Inl e)
           | None \<Rightarrow> Inl e))"

definition open_session :: "settings \<Rightarrow> device_id option \<Rightarrow> open_io \<Rightarrow> open_action list \<times> (error + unit)" where
  "open_session s device io =
     (case oi_identity io of
        Inl e \<Rightarrow> ([LoadIdentity], Inl e)
      | Inr _ \<Rightarrow>
          (let lan = transport s = lit ''lan'';
               dev = (if lan then None else device)
           in if \<not> lan \<and> dev = None then ([LoadIdentity], Inl (Msg ''select a USB device''))
              else let connect = (if lan then ConnectLan else ConnectUsb (the dev))
                   in case if lan then oi_lan io else oi_usb io of
                        Inl e \<Rightarrow> ([LoadIdentity, connect], Inl e)
                      | Inr _ \<Rightarrow>
                          (case stream_route s of
                             Inl e \<Rightarrow> ([LoadIdentity, connect], Inl e)
                           | Inr r \<Rightarrow>
                               let first = oi_exchange io r; acts = [LoadIdentity, connect, Exchange r]
                               in case first of
                                    Inl e \<Rightarrow>
                                      if dev \<noteq> None \<and> a_hello_would_help (error_text e)
                                      then (case oi_hello io of
                                              Inl e' \<Rightarrow> (acts @ [HostHello], Inl e')
                                            | Inr _ \<Rightarrow> (acts @ [HostHello, Exchange r], settle io dev (oi_again io r)))
                                      else (acts, settle io dev first)
                                  | Inr _ \<Rightarrow> (acts, settle io dev first))))"

section \<open>The state of the receive loop\<close>

record stream_state =
  ss_switch :: switch
  ss_modes :: "mode list"
  ss_revision :: u16
  ss_advertised :: bool
  ss_permission :: u8
  ss_config :: "config option"
  ss_output :: "config option"
  ss_decoder :: bool
  ss_transform :: transform
  ss_started :: bool
  ss_last_pts :: u64
  ss_decoded :: u64
  ss_submitted :: u64

definition stream_start :: "transform \<Rightarrow> stream_state" where
  "stream_start t = \<lparr>ss_switch = switch_default, ss_modes = [], ss_revision = 0, ss_advertised = False,
     ss_permission = PERMISSION_UNAVAILABLE, ss_config = None, ss_output = None, ss_decoder = True,
     ss_transform = t, ss_started = False, ss_last_pts = 0, ss_decoded = 0, ss_submitted = 0\<rparr>"

text \<open>What the loop does to the outside. An output is named by the configuration it was opened with.\<close>

datatype stream_out =
    Emit host_event
  | SendIdr
  | SendPrepare u32 u16 u16 u16 u16
  | SendCommit u32 u32
  | DropOutput
  | DropDecoder
  | OpenDecoder
  | FlushDecoder
  | FeedDecoder u64 bool bool
  | OpenOutput config
  | Convert config transform
  | Submit config
  | PublishPreview config

text \<open>A computation: the new state, the actions taken, and the value or the error that ends the session.\<close>

type_synonym 'a act = "stream_state \<Rightarrow> stream_state \<times> stream_out list \<times> (error + 'a)"

definition ret :: "'a \<Rightarrow> 'a act" where
  "ret x s = (s, [], Inr x)"

definition lift_r :: "error + 'a \<Rightarrow> 'a act" where
  "lift_r r s = (s, [], r)"

definition then_do :: "'a act \<Rightarrow> ('a \<Rightarrow> 'b act) \<Rightarrow> 'b act" where
  "then_do m f s =
     (case m s of
        (s', out, Inl e) \<Rightarrow> (s', out, Inl e)
      | (s', out, Inr x) \<Rightarrow> (let (s'', out', r) = f x s' in (s'', out @ out', r)))"

definition update :: "(stream_state \<Rightarrow> stream_state) \<Rightarrow> unit act" where
  "update f s = (f s, [], Inr ())"

definition get_state :: "stream_state act" where
  "get_state s = (s, [], Inr s)"

definition perform :: "stream_out \<Rightarrow> error + 'a \<Rightarrow> 'a act" where
  "perform a r s = (s, [a], r)"

fun for_each :: "('b \<Rightarrow> unit act) \<Rightarrow> 'b list \<Rightarrow> unit act" where
  "for_each f [] = ret ()"
| "for_each f (x # xs) = then_do (f x) (\<lambda>_. for_each f xs)"

section \<open>One turn of the loop\<close>

text \<open>
  One frame the decoder gave: the stop flag seen before it, its size, the transform the application
  left, and what the camera, the conversion and the clocks answered.
\<close>

record dec_frame =
  df_stop :: bool
  df_width :: u32
  df_height :: u32
  df_change :: "transform option"
  df_open :: "error + unit"
  df_ready :: "error + bool"
  df_preview :: bool
  df_convert :: "error + unit"
  df_submit :: "error + unit"
  df_now :: u64
  df_report :: bool
  df_decoder :: string

record turn =
  t_request :: "(u16 \<times> u16 \<times> u16) option"
  t_now_prepare :: u64
  t_send_prepare :: "error + unit"
  t_now_deadline :: u64
  t_poll :: "error + frame option"
  t_now_frame :: u64
  t_send_commit :: "error + unit"
  t_fresh_frame :: "error + unit"
  t_open_decoder :: "error + unit"
  t_feed :: "error + unit"
  t_frames :: "dec_frame list"
  t_frames_end :: "error + unit"
  t_emit :: "host_event \<Rightarrow> error + unit"

definition emit :: "turn \<Rightarrow> host_event \<Rightarrow> unit act" where
  "emit t e = perform (Emit e) (t_emit t e)"

text \<open>A step of the quality machine inside the loop: the actions it asks for are the value.\<close>

definition switch_act :: "u64 \<Rightarrow> event \<Rightarrow> action list act" where
  "switch_act now e s =
     (let (sw, actions) = sw_step (ss_switch s) (now, e)
      in (s\<lparr>ss_switch := sw\<rparr>, [], Inr actions))"

definition report_action :: "turn \<Rightarrow> bool \<Rightarrow> action \<Rightarrow> unit act" where
  "report_action t terminal a =
     (case a of
        ReportApplied w h f \<Rightarrow> emit t (QualityApplied w h f)
      | ReportFailed reason \<Rightarrow> emit t (QualityFailed reason terminal)
      | StopCapture \<Rightarrow> lift_r (Inl (Msg ''quality apply failed''))
      | CloseConnection \<Rightarrow> lift_r (Inl (Msg ''quality apply failed''))
      | _ \<Rightarrow> ret ())"

definition report_quality :: "turn \<Rightarrow> action list \<Rightarrow> unit act" where
  "report_quality t actions = for_each (report_action t (CloseConnection \<in> set actions)) actions"

definition send_prepare :: "turn \<Rightarrow> action \<Rightarrow> unit act" where
  "send_prepare t a =
     (case a of
        SendPrepareQuality request_id revision width height fps \<Rightarrow>
          then_do (lift_r (frame_new PREPARE_QUALITY 0 (prepare_encode
              \<lparr>pq_request_id = request_id, pq_catalog_revision = revision, pq_width = width,
               pq_height = height, pq_target_fps = fps\<rparr>))) (\<lambda>_.
            perform (SendPrepare request_id revision width height fps) (t_send_prepare t))
      | _ \<Rightarrow> ret ())"

definition request_rejection :: "stream_state \<Rightarrow> u16 \<times> u16 \<times> u16 \<Rightarrow> string option" where
  "request_rejection s q =
     (if \<not> ss_advertised s then Some ''the phone has not advertised its capabilities yet''
      else if ss_permission s \<noteq> PERMISSION_READY
      then Some ''camera permission or camera availability is not ready''
      else if \<not> list_ex (\<lambda>m. mode_tuple m = q) (ss_modes s)
      then Some ''the requested quality is not in the advertised camera modes''
      else None)"

text \<open>The application's request; the value says whether the loop goes to its next turn at once.\<close>

definition request_part :: "turn \<Rightarrow> bool act" where
  "request_part t =
     (case t_request t of
        None \<Rightarrow> ret False
      | Some (width, height, fps) \<Rightarrow>
          then_do get_state (\<lambda>s.
            case request_rejection s (width, height, fps) of
              Some reason \<Rightarrow> then_do (emit t (QualityFailed reason False)) (\<lambda>_. ret True)
            | None \<Rightarrow>
                then_do (switch_act (t_now_prepare t) (Prepare (ss_revision s) width height fps)) (\<lambda>actions.
                then_do (for_each (send_prepare t) actions) (\<lambda>_. ret False))))"

definition reason_of_expiry :: error where
  "reason_of_expiry = Msg ''the apply deadline expired''"

definition expire_action :: "turn \<Rightarrow> action \<Rightarrow> unit act" where
  "expire_action t a =
     (case a of
        ReportFailed reason \<Rightarrow> emit t (QualityFailed reason True)
      | StopCapture \<Rightarrow> lift_r (Inl reason_of_expiry)
      | CloseConnection \<Rightarrow> lift_r (Inl reason_of_expiry)
      | _ \<Rightarrow> ret ())"

definition deadline_part :: "turn \<Rightarrow> unit act" where
  "deadline_part t =
     then_do get_state (\<lambda>s.
       if busy (ss_switch s)
       then then_do (switch_act (t_now_deadline t) DeadlineExceeded) (for_each (expire_action t))
       else ret ())"

definition show_ipv4 :: "ipv4 \<Rightarrow> ustr" where
  "show_ipv4 a = (case a of (p, q, r, s) \<Rightarrow>
     join_with (lit ''.'') (map (\<lambda>b. show_dec (unat b)) [p, q, r, s]))"

definition pairing_part :: "turn \<Rightarrow> frame \<Rightarrow> unit act" where
  "pairing_part t f =
     then_do (lift_r (pairing_decode (fr_payload f))) (\<lambda>info.
       emit t (PairingInfoEv (map show_ipv4 (pi_addresses info)) (pi_fingerprint info) (pi_key info)))"

definition capabilities_part :: "turn \<Rightarrow> frame \<Rightarrow> unit act" where
  "capabilities_part t f =
     (if fr_payload f = [] \<or> hd (fr_payload f) \<noteq> 1 then ret ()
      else then_do (lift_r (caps_decode (fr_payload f))) (\<lambda>caps.
           then_do (switch_act (t_now_frame t) (EpochObserved (stream_epoch caps))) (\<lambda>_.
           then_do (update (\<lambda>s. s\<lparr>ss_revision := catalog_revision caps, ss_advertised := True,
               ss_permission := permission caps,
               ss_modes := filter usable (map mode_from (modes caps))\<rparr>)) (\<lambda>_.
           then_do get_state (\<lambda>s.
             emit t (QualityCapabilities (permission caps) (catalog_revision caps) (stream_epoch caps)
               (ss_modes s)))))))"

text \<open>The machine's event for a quality result; an unknown status is skipped.\<close>

definition result_event :: "quality_result \<Rightarrow> event option" where
  "result_event r =
     (if qr_status r = RESULT_SWITCHING \<or> qr_status r = RESULT_STAGED
      then Some (PrepareAccepted (qr_request_id r) (qr_status r = RESULT_SWITCHING))
      else if qr_status r = RESULT_REJECTED then Some (event.Rejected (qr_request_id r) (qr_reason r))
      else if qr_status r = RESULT_APPLIED
      then Some (CaptureStarted (qr_request_id r) (qr_applied_width r) (qr_applied_height r) (qr_applied_fps r))
      else None)"

definition apply_action :: "turn \<Rightarrow> action \<Rightarrow> unit act" where
  "apply_action t a =
     (case a of
        ReleaseOutputs \<Rightarrow>
          then_do (perform DropOutput (Inr ())) (\<lambda>_.
          then_do (update (\<lambda>s. s\<lparr>ss_output := None\<rparr>)) (\<lambda>_.
          then_do (emit t WaitingEv) (\<lambda>_.
          then_do (perform DropDecoder (Inr ())) (\<lambda>_.
          then_do (update (\<lambda>s. s\<lparr>ss_decoder := False\<rparr>)) (\<lambda>_.
          then_do (lift_r (t_fresh_frame t)) (\<lambda>_.
          update (\<lambda>s. s\<lparr>ss_config := None, ss_started := False, ss_decoded := 0, ss_submitted := 0,
            ss_last_pts := 0\<rparr>)))))))
      | SendCommitQuality request_id e \<Rightarrow>
          then_do (lift_r (frame_new COMMIT_QUALITY 0
              (epoch_encode \<lparr>ep_request_id = request_id, ep_stream_epoch = e\<rparr>))) (\<lambda>_.
            perform (SendCommit request_id e) (t_send_commit t))
      | _ \<Rightarrow> ret ())"

definition deliver_quality :: "turn \<Rightarrow> event \<Rightarrow> unit act" where
  "deliver_quality t e =
     then_do get_state (\<lambda>prior.
     then_do (switch_act (t_now_frame t) e) (\<lambda>actions.
     then_do (report_quality t actions) (\<lambda>_.
     then_do (for_each (apply_action t) actions) (\<lambda>_.
     then_do get_state (\<lambda>s.
       if ReleaseOutputs \<in> set actions \<or> staged (ss_switch s) \<noteq> staged (ss_switch prior)
       then emit t (QualityProgress (staged (ss_switch s))) else ret ())))))"

definition config_part :: "turn \<Rightarrow> frame \<Rightarrow> unit act" where
  "config_part t f =
     then_do (lift_r (config_parse (fr_payload f))) (\<lambda>c.
     then_do get_state (\<lambda>s.
     then_do
       (if awaiting_video (ss_switch s)
        then then_do (switch_act (t_now_frame t)
                 (VideoConfig (ucast (cf_width c)) (ucast (cf_height c)) (ucast (cf_fps c)))) (\<lambda>actions.
             then_do (report_quality t actions) (\<lambda>_.
               if staged (ss_switch s) then emit t (QualityProgress False) else ret ()))
        else if (case ss_config s of None \<Rightarrow> False | Some old \<Rightarrow> old \<noteq> c)
        then lift_r (Inl (Msg ''VIDEO_CONFIG changed during active output''))
        else ret ()) (\<lambda>_.
       update (\<lambda>s. s\<lparr>ss_config := Some c\<rparr>))))"

text \<open>The frames one access unit decodes to.\<close>

definition show_frame :: "turn \<Rightarrow> config \<Rightarrow> dec_frame \<Rightarrow> bool \<Rightarrow> unit act" where
  "show_frame t c d active =
     (if \<not> active \<and> \<not> df_preview d then ret ()
      else then_do get_state (\<lambda>s.
           then_do (perform (Convert c (ss_transform s)) (df_convert d)) (\<lambda>_.
           then_do
             (if active
              then then_do (perform (Submit c) (df_submit d)) (\<lambda>_.
                   then_do (update (\<lambda>s. s\<lparr>ss_submitted := ss_submitted s + 1\<rparr>)) (\<lambda>_.
                   then_do (switch_act (df_now d) OutputReady) (report_quality t)))
              else ret ()) (\<lambda>_.
             if df_preview d then perform (PublishPreview c) (Inr ()) else ret ()))))"

definition frame_part :: "turn \<Rightarrow> config \<Rightarrow> dec_frame \<Rightarrow> unit act" where
  "frame_part t c d =
     (if df_width d \<noteq> cf_width c \<or> df_height d \<noteq> cf_height c
      then lift_r (Inl (Msg ''decoded dimensions do not match VIDEO_CONFIG''))
      else if cf_width c mod 2 \<noteq> 0 then lift_r (Inl (Msg ''YUYV output width must be even''))
      else
        then_do (update (\<lambda>s. s\<lparr>ss_transform := (case df_change d of None \<Rightarrow> ss_transform s | Some n \<Rightarrow> n),
            ss_decoded := ss_decoded s + 1, ss_started := True\<rparr>)) (\<lambda>_.
        then_do get_state (\<lambda>s.
        then_do
          (if ss_output s = None
           then then_do (perform (OpenOutput c) (df_open d)) (\<lambda>_. update (\<lambda>s. s\<lparr>ss_output := Some c\<rparr>))
           else ret ()) (\<lambda>_.
        then_do (lift_r (df_ready d)) (\<lambda>active.
        then_do (show_frame t c d active) (\<lambda>_.
        then_do get_state (\<lambda>s.
          if df_report d
          then emit t (Stats (ss_decoded s) (ss_submitted s) active (cf_width c) (cf_height c) (cf_fps c)
                 (df_decoder d))
          else ret ())))))))"

fun frames_part :: "turn \<Rightarrow> config \<Rightarrow> dec_frame list \<Rightarrow> unit act" where
  "frames_part t c [] = lift_r (t_frames_end t)"
| "frames_part t c (d # ds) =
     (if df_stop d then ret () else then_do (frame_part t c d) (\<lambda>_. frames_part t c ds))"

definition keyframe :: "frame \<Rightarrow> bool" where
  "keyframe f \<longleftrightarrow> flags (fr_header f) AND KEYFRAME \<noteq> 0"

definition config_included :: "frame \<Rightarrow> bool" where
  "config_included f \<longleftrightarrow> flags (fr_header f) AND CONFIG_INCLUDED \<noteq> 0"

definition decode_part :: "turn \<Rightarrow> frame \<Rightarrow> config \<Rightarrow> unit act" where
  "decode_part t f c =
     then_do get_state (\<lambda>s.
     then_do
       (if ss_decoder s then ret ()
        else then_do (perform OpenDecoder (t_open_decoder t)) (\<lambda>_. update (\<lambda>s. s\<lparr>ss_decoder := True\<rparr>))) (\<lambda>_.
     then_do (if flags (fr_header f) AND DISCONTINUITY \<noteq> 0 then perform FlushDecoder (Inr ()) else ret ()) (\<lambda>_.
     then_do (perform (FeedDecoder (pts_us (fr_header f)) (keyframe f) (config_included f)) (t_feed t)) (\<lambda>_.
     then_do (update (\<lambda>s. s\<lparr>ss_last_pts := pts_us (fr_header f)\<rparr>)) (\<lambda>_.
       frames_part t c (t_frames t))))))"

definition video_part :: "turn \<Rightarrow> frame \<Rightarrow> unit act" where
  "video_part t f =
     (if kind (fr_header f) \<noteq> VIDEO_AU \<or> fr_payload f = [] then ret ()
      else then_do get_state (\<lambda>s.
        case ss_config s of
          None \<Rightarrow> ret ()
        | Some c \<Rightarrow>
            if \<not> ss_started s \<and> (\<not> keyframe f \<or> \<not> config_included f) then ret ()
            else if ss_started s \<and> pts_us (fr_header f) \<le> ss_last_pts s
            then lift_r (Inl (Msg ''non-monotonic VIDEO_AU PTS''))
            else decode_part t f c))"

definition handle_frame :: "turn \<Rightarrow> frame \<Rightarrow> unit act" where
  "handle_frame t f =
     (let k = kind (fr_header f)
      in if k = PAIRING_INFO then pairing_part t f
         else if k = QUALITY_CAPABILITIES then capabilities_part t f
         else if k = QUALITY_RESULT
         then then_do (lift_r (result_decode (fr_payload f))) (\<lambda>r.
                case result_event r of None \<Rightarrow> ret () | Some e \<Rightarrow> deliver_quality t e)
         else if k = PAUSED
         then then_do (lift_r (epoch_decode (fr_payload f))) (\<lambda>e.
                deliver_quality t (Paused (ep_request_id e) (ep_stream_epoch e)))
         else if k = VIDEO_CONFIG then config_part t f
         else video_part t f)"

definition stream_turn :: "turn \<Rightarrow> unit act" where
  "stream_turn t =
     then_do (request_part t) (\<lambda>again.
       if again then ret ()
       else then_do (deadline_part t) (\<lambda>_.
            then_do (lift_r (t_poll t)) (\<lambda>incoming.
              case incoming of None \<Rightarrow> ret () | Some f \<Rightarrow> handle_frame t f)))"

section \<open>The whole session\<close>

record stream_io =
  si_decoder :: "error + unit"
  si_idr :: "error + unit"
  si_idr_timeout :: bool
  si_waiting :: "error + unit"
  si_stop_now :: u64
  si_failed :: "host_event \<Rightarrow> error + unit"

text \<open>
  Before the loop: the decoder, the best-effort request for a keyframe (a USB timeout is not an
  error), and the waiting event.
\<close>

definition stream_open :: "settings \<Rightarrow> stream_io \<Rightarrow> unit act" where
  "stream_open cfg io =
     then_do (perform OpenDecoder (si_decoder io)) (\<lambda>_.
     then_do (lift_r (frame_new IDR_REQUEST 2 [])) (\<lambda>_.
     then_do (perform SendIdr
         (case si_idr io of
            Inl e \<Rightarrow> if transport cfg \<noteq> lit ''usb'' \<or> \<not> si_idr_timeout io then Inl e else Inr ()
          | Inr _ \<Rightarrow> Inr ())) (\<lambda>_.
       perform (Emit WaitingEv) (si_waiting io))))"

definition stop_action :: "stream_io \<Rightarrow> action \<Rightarrow> unit act" where
  "stop_action io a =
     (case a of
        ReportFailed reason \<Rightarrow> perform (Emit (QualityFailed reason False)) (si_failed io (QualityFailed reason False))
      | _ \<Rightarrow> ret ())"

definition stream_close :: "stream_io \<Rightarrow> unit act" where
  "stream_close io = then_do (switch_act (si_stop_now io) UserStop) (for_each (stop_action io))"

text \<open>
  The turns made, and then the stop, if it was seen; a session that is still running has made its
  turns and not closed.
\<close>

definition receive_stream :: "settings \<Rightarrow> stream_io \<Rightarrow> turn list \<Rightarrow> bool \<Rightarrow> unit act" where
  "receive_stream cfg io turns stopped =
     then_do (stream_open cfg io) (\<lambda>_.
     then_do (for_each stream_turn turns) (\<lambda>_.
       if stopped then stream_close io else ret ()))"

section \<open>The worker\<close>

text \<open>What the command reader leaves: the newest transform and request, and whether it asked to stop.\<close>

record worker_inbox =
  wi_transform :: "transform option"
  wi_quality :: "(u16 \<times> u16 \<times> u16) option"
  wi_stop :: bool

fun read_commands :: "worker_inbox \<Rightarrow> (error + command option) list \<Rightarrow> worker_inbox" where
  "read_commands i [] = i"
| "read_commands i (r # rs) =
     (case r of
        Inr (Some (TransformCmd rot mir ver)) \<Rightarrow>
          if rot \<in> {0, 90, 180, 270}
          then read_commands (i\<lparr>wi_transform := Some \<lparr>tr_rotation = rot, tr_mirror = mir, tr_vertical = ver\<rparr>\<rparr>) rs
          else i\<lparr>wi_stop := True\<rparr>
      | Inr (Some (PrepareQualityCmd w h f)) \<Rightarrow> read_commands (i\<lparr>wi_quality := Some (w, h, f)\<rparr>) rs
      | _ \<Rightarrow> i\<lparr>wi_stop := True\<rparr>)"

text \<open>
  \<open>worker\<close>: the first command must start a session with valid settings; then connecting, the events
  of the session, what a failure adds, and stopped. A write that fails ends the worker there.
\<close>

fun write_events :: "(host_event \<Rightarrow> error + unit) \<Rightarrow> host_event list \<Rightarrow> host_event list \<times> (error + unit)" where
  "write_events w [] = ([], Inr ())"
| "write_events w (e # es) =
     (case w e of
        Inl err \<Rightarrow> ([e], Inl err)
      | Inr _ \<Rightarrow> (let (out, r) = write_events w es in (e # out, r)))"

definition failure_events :: "device_id option \<Rightarrow> error + unit \<Rightarrow> host_event list" where
  "failure_events denied result =
     (case result of
        Inl e \<Rightarrow> (case denied of Some d \<Rightarrow> [UsbPermission d] | None \<Rightarrow> []) @ [ErrorEv (describe_receive_failure e)]
      | Inr _ \<Rightarrow> [])"

definition worker ::
  "build \<Rightarrow> error + command option \<Rightarrow> (settings \<Rightarrow> device_id option \<Rightarrow> host_event list \<times> device_id option \<times> (error + unit))
    \<Rightarrow> (host_event \<Rightarrow> error + unit) \<Rightarrow> host_event list \<times> (error + unit)" where
  "worker cfg first session w =
     (case first of
        Inl e \<Rightarrow> ([], Inl e)
      | Inr None \<Rightarrow> ([], Inl (Msg ''missing start command''))
      | Inr (Some (Start s device)) \<Rightarrow>
          (case settings_validate cfg s of
             Inl e \<Rightarrow> ([], Inl e)
           | Inr _ \<Rightarrow>
               (case w ConnectingEv of
                  Inl e \<Rightarrow> ([ConnectingEv], Inl e)
                | Inr _ \<Rightarrow>
                    let (events, denied, result) = session s device;
                        (out, r) = write_events w (failure_events denied result @ [StoppedEv])
                    in (ConnectingEv # events @ out, try_r r (\<lambda>_. result))))
      | Inr (Some _) \<Rightarrow> ([], Inl (Msg ''first command must start a session'')))"

end
