(* ===== verification/Video_Props.thy ===== *)
theory Video_Props
  imports Video_Stream
begin

text \<open>
  What the receive loop guarantees. The actions a session has taken so far (its history) say what is
  open and what was advertised; a small logic over computations relates the state to the history,
  every computation of the loop keeps that relation and takes only actions that are legal after the
  history, and the properties read the result off.
\<close>

section \<open>The history\<close>

text \<open>The output that is open, the decoder, the advertisement in force, the last time stamp fed.\<close>

definition open_step :: "config option \<Rightarrow> stream_out \<Rightarrow> config option" where
  "open_step v a = (case a of OpenOutput c \<Rightarrow> Some c | DropOutput \<Rightarrow> None | _ \<Rightarrow> v)"

definition open_output :: "stream_out list \<Rightarrow> config option" where
  "open_output h = foldl open_step None h"

definition decoder_step :: "bool \<Rightarrow> stream_out \<Rightarrow> bool" where
  "decoder_step v a = (case a of OpenDecoder \<Rightarrow> True | DropDecoder \<Rightarrow> False | _ \<Rightarrow> v)"

definition decoder_open :: "stream_out list \<Rightarrow> bool" where
  "decoder_open h = foldl decoder_step False h"

definition caps_step :: "(u8 \<times> u16 \<times> mode list) option \<Rightarrow> stream_out \<Rightarrow> (u8 \<times> u16 \<times> mode list) option" where
  "caps_step v a =
     (case a of
        Emit e \<Rightarrow> (case e of QualityCapabilities perm revision _ ms \<Rightarrow> Some (perm, revision, ms) | _ \<Rightarrow> v)
      | _ \<Rightarrow> v)"

definition advertised :: "stream_out list \<Rightarrow> (u8 \<times> u16 \<times> mode list) option" where
  "advertised h = foldl caps_step None h"

definition pts_step :: "u64 option \<Rightarrow> stream_out \<Rightarrow> u64 option" where
  "pts_step v a = (case a of FeedDecoder pts _ _ \<Rightarrow> Some pts | DropOutput \<Rightarrow> None | _ \<Rightarrow> v)"

definition last_fed :: "stream_out list \<Rightarrow> u64 option" where
  "last_fed h = foldl pts_step None h"

lemmas history_defs = open_output_def decoder_open_def advertised_def last_fed_def
lemmas history_steps = open_step_def decoder_step_def caps_step_def pts_step_def

lemma history_snoc [simp]:
  "open_output (h @ [a]) = open_step (open_output h) a"
  "decoder_open (h @ [a]) = decoder_step (decoder_open h) a"
  "advertised (h @ [a]) = caps_step (advertised h) a"
  "last_fed (h @ [a]) = pts_step (last_fed h) a"
  by (simp_all add: history_defs)

text \<open>When an action may follow a history.\<close>

fun stream_legal :: "stream_out list \<Rightarrow> stream_out \<Rightarrow> bool" where
  "stream_legal h (SendPrepare request_id revision w ht f) \<longleftrightarrow>
     (\<exists>ms m. advertised h = Some (PERMISSION_READY, revision, ms) \<and> m \<in> set ms \<and> usable m
        \<and> mode_tuple m = (w, ht, f))"
| "stream_legal h (SendCommit request_id e) \<longleftrightarrow>
     open_output h = None \<and> \<not> decoder_open h \<and> (\<exists>h0. h = h0 @ [DropOutput, Emit WaitingEv, DropDecoder])"
| "stream_legal h (FeedDecoder pts key cfg) \<longleftrightarrow>
     decoder_open h \<and> (key \<and> cfg \<or> (\<exists>p. last_fed h = Some p \<and> p < pts))
     \<and> (open_output h \<noteq> None \<longrightarrow> (\<exists>p. last_fed h = Some p \<and> p < pts))"
| "stream_legal h (OpenOutput c) \<longleftrightarrow> open_output h = None \<and> cf_width c mod 2 = 0"
| "stream_legal h (Convert c t) \<longleftrightarrow> open_output h = Some c"
| "stream_legal h (Submit c) \<longleftrightarrow> open_output h = Some c"
| "stream_legal h (PublishPreview c) \<longleftrightarrow> open_output h = Some c"
| "stream_legal h _ \<longleftrightarrow> True"

section \<open>A logic of computations\<close>

fun trace_ok :: "(stream_out list \<Rightarrow> stream_out \<Rightarrow> bool) \<Rightarrow> stream_out list \<Rightarrow> stream_out list \<Rightarrow> bool" where
  "trace_ok L h [] \<longleftrightarrow> True"
| "trace_ok L h (a # out) \<longleftrightarrow> L h a \<and> trace_ok L (h @ [a]) out"

lemma trace_ok_append: "trace_ok L h (xs @ ys) \<longleftrightarrow> trace_ok L h xs \<and> trace_ok L (h @ xs) ys"
  by (induction xs arbitrary: h) auto

lemma trace_ok_split: "trace_ok L h (pre @ a # post) \<Longrightarrow> L (h @ pre) a"
  by (simp add: trace_ok_append)

type_synonym assertion = "stream_out list \<Rightarrow> stream_state \<Rightarrow> bool"

definition act_ok :: "assertion \<Rightarrow> 'a act \<Rightarrow> ('a \<Rightarrow> assertion) \<Rightarrow> bool" where
  "act_ok P m Q \<longleftrightarrow> (\<forall>h s. P h s \<longrightarrow>
     (case m s of (s', out, r) \<Rightarrow> trace_ok stream_legal h out \<and> (case r of Inl _ \<Rightarrow> True | Inr x \<Rightarrow> Q x (h @ out) s')))"

named_theorems act_rules

lemma ok_ret [act_rules]: "(\<And>h s. P h s \<Longrightarrow> Q x h s) \<Longrightarrow> act_ok P (ret x) Q"
  by (simp add: act_ok_def ret_def)

lemma ok_lift [act_rules]: "(\<And>h s x. P h s \<Longrightarrow> r = Inr x \<Longrightarrow> Q x h s) \<Longrightarrow> act_ok P (lift_r r) Q"
  by (auto simp: act_ok_def lift_r_def split: sum.splits)

lemma ok_update [act_rules]: "(\<And>h s. P h s \<Longrightarrow> Q () h (f s)) \<Longrightarrow> act_ok P (update f) Q"
  by (simp add: act_ok_def update_def)

lemma ok_perform [act_rules]:
  "(\<And>h s. P h s \<Longrightarrow> stream_legal h a) \<Longrightarrow> (\<And>h s x. P h s \<Longrightarrow> r = Inr x \<Longrightarrow> Q x (h @ [a]) s)
     \<Longrightarrow> act_ok P (perform a r) Q"
  by (auto simp: act_ok_def perform_def split: sum.splits)

lemma ok_then:
  assumes m: "act_ok P m R" and f: "\<And>x. act_ok (R x) (f x) Q"
  shows "act_ok P (then_do m f) Q"
  unfolding act_ok_def
proof (intro allI impI)
  fix h s assume p: "P h s"
  obtain s' out r where ms: "m s = (s', out, r)" by (metis prod_cases3)
  have t: "trace_ok stream_legal h out" and q: "\<And>x. r = Inr x \<Longrightarrow> R x (h @ out) s'"
    using m[unfolded act_ok_def, rule_format, OF p, unfolded ms prod.case] by auto
  show "case then_do m f s of (s', out, r) \<Rightarrow>
      trace_ok stream_legal h out \<and> (case r of Inl _ \<Rightarrow> True | Inr x \<Rightarrow> Q x (h @ out) s')"
  proof (cases r)
    case (Inl e)
    then show ?thesis using t by (simp add: then_do_def ms)
  next
    case (Inr x)
    obtain s2 out2 r2 where fs: "f x s' = (s2, out2, r2)" by (metis prod_cases3)
    have "trace_ok stream_legal (h @ out) out2 \<and> (case r2 of Inl _ \<Rightarrow> True | Inr y \<Rightarrow> Q y (h @ out @ out2) s2)"
      using f[of x, unfolded act_ok_def, rule_format, OF q[OF Inr], unfolded fs prod.case append_assoc] .
    then show ?thesis using t Inr by (simp add: then_do_def ms fs trace_ok_append)
  qed
qed

lemma then_do_ret [simp]: "then_do (ret x) f = f x"
  by (rule ext) (simp add: then_do_def ret_def case_prod_beta)

lemma ok_get_then: "(\<And>s0. act_ok (\<lambda>h s. P h s \<and> s = s0) (f s0) Q) \<Longrightarrow> act_ok P (then_do get_state f) Q"
  by (fastforce simp: act_ok_def then_do_def get_state_def)

lemma ok_conseq: "act_ok P' m Q' \<Longrightarrow> (\<And>h s. P h s \<Longrightarrow> P' h s) \<Longrightarrow> (\<And>x h s. Q' x h s \<Longrightarrow> Q x h s) \<Longrightarrow> act_ok P m Q"
  by (fastforce simp: act_ok_def split: sum.splits)

lemma ok_if: "(C \<Longrightarrow> act_ok P m Q) \<Longrightarrow> (\<not> C \<Longrightarrow> act_ok P n Q) \<Longrightarrow> act_ok P (if C then m else n) Q"
  by simp

lemma ok_assume: "(C \<Longrightarrow> act_ok P m Q) \<Longrightarrow> (\<And>h s. P h s \<Longrightarrow> C) \<Longrightarrow> act_ok P m Q"
  by (fastforce simp: act_ok_def)

lemma ok_for_each: "(\<And>x. x \<in> set xs \<Longrightarrow> act_ok P (f x) (\<lambda>_. P)) \<Longrightarrow> act_ok P (for_each f xs) (\<lambda>_. P)"
  by (induction xs) (auto intro: ok_ret ok_then)

section \<open>The invariant\<close>

definition as_tuple :: "config \<Rightarrow> u16 \<times> u16 \<times> u16" where
  "as_tuple c = (ucast (cf_width c), ucast (cf_height c), ucast (cf_fps c))"

definition config_ok :: "config \<Rightarrow> bool" where
  "config_ok c \<longleftrightarrow> (\<exists>(w :: u16) (h :: u16) (f :: u16). c = \<lparr>cf_width = ucast w, cf_height = ucast h, cf_fps = ucast f\<rparr>)"

lemma ucast_up_down [simp]: "ucast (ucast (w :: u16) :: u32) = w"
  by transfer simp

lemma as_tuple_inj: "config_ok c \<Longrightarrow> config_ok d \<Longrightarrow> as_tuple c = as_tuple d \<Longrightarrow> c = d"
  by (auto simp: config_ok_def as_tuple_def)

lemma config_parse_ok: "config_parse bs = Inr c \<Longrightarrow> config_ok c"
  by (auto simp: config_parse_def config_ok_def Let_def split: if_splits)

text \<open>The state against the history.\<close>

definition agrees :: assertion where
  "agrees h s \<longleftrightarrow> open_output h = ss_output s \<and> decoder_open h = ss_decoder s
     \<and> advertised h = (if ss_advertised s then Some (ss_permission s, ss_revision s, ss_modes s) else None)
     \<and> (ss_started s \<longrightarrow> last_fed h = Some (ss_last_pts s))
     \<and> (ss_output s \<noteq> None \<longrightarrow> ss_started s)
     \<and> (ss_output s \<noteq> None \<longrightarrow> ss_output s = ss_config s)
     \<and> list_all usable (ss_modes s)"

text \<open>The machine's phase against the media side.\<close>

definition phase_ok :: "stream_state \<Rightarrow> bool" where
  "phase_ok s \<longleftrightarrow> sw_inv (ss_switch s)
     \<and> (sw_phase (ss_switch s) \<in> {Staged, Switching} \<longrightarrow>
          ss_config s = None \<and> ss_output s = None \<and> \<not> ss_decoder s \<and> \<not> ss_started s)
     \<and> (sw_phase (ss_switch s) = AwaitingOutput \<longrightarrow>
          (\<exists>c. ss_config s = Some c \<and> sw_requested (ss_switch s) = Some (as_tuple c)))
     \<and> (case ss_config s of None \<Rightarrow> True | Some c \<Rightarrow> config_ok c)"

definition stream_inv :: assertion where
  "stream_inv h s \<longleftrightarrow> agrees h s \<and> phase_ok s"

lemma ok_emit:
  assumes "\<And>h s. P h s \<Longrightarrow> t_emit t e = Inr () \<Longrightarrow> Q () (h @ [Emit e]) s"
  shows "act_ok P (emit t e) Q"
  unfolding emit_def by (rule ok_perform) (use assms in auto)

text \<open>Events other than an advertisement change nothing the history says.\<close>

definition quiet_event :: "host_event \<Rightarrow> bool" where
  "quiet_event e \<longleftrightarrow> (case e of QualityCapabilities _ _ _ _ \<Rightarrow> False | _ \<Rightarrow> True)"

lemma quiet_steps:
  "quiet_event e \<Longrightarrow> caps_step v (Emit e) = v"
  "open_step w (Emit e) = w" "decoder_step b (Emit e) = b" "pts_step p (Emit e) = p"
  by (auto simp: history_steps quiet_event_def split: host_event.splits)

lemma agrees_emit [simp]: "quiet_event e \<Longrightarrow> agrees (h @ [Emit e]) s = agrees h s"
  by (simp add: agrees_def quiet_steps)

lemma quiet_simps [simp]:
  "quiet_event (QualityFailed r b)" "quiet_event (QualityApplied x y z)" "quiet_event (QualityProgress b)"
  "quiet_event WaitingEv" "quiet_event (PairingInfoEv addrs fp k)" "quiet_event (Stats d n a x1 x2 x3 g)"
  by (simp_all add: quiet_event_def)

lemma ok_emit_quiet: "quiet_event e \<Longrightarrow> act_ok stream_inv (emit t e) (\<lambda>_. stream_inv)"
  by (rule ok_emit) (simp add: stream_inv_def)

lemma ok_report_action: "act_ok stream_inv (report_action t b a) (\<lambda>_. stream_inv)"
  by (cases a) (auto simp: report_action_def intro!: ok_emit_quiet ok_ret ok_lift)

lemma ok_report_quality: "act_ok stream_inv (report_quality t as) (\<lambda>_. stream_inv)"
  unfolding report_quality_def by (intro ok_for_each ok_report_action)

text \<open>A machine step: the state with the new machine, and the actions it asked for.\<close>

lemma ok_switch:
  assumes "\<And>h s. P h s \<Longrightarrow> Q (snd (sw_step (ss_switch s) (now, e))) h
      (s\<lparr>ss_switch := fst (sw_step (ss_switch s) (now, e))\<rparr>)"
  shows "act_ok P (switch_act now e) Q"
  using assms by (simp add: act_ok_def switch_act_def case_prod_beta)

lemma agrees_switch [simp]: "agrees h (s\<lparr>ss_switch := w\<rparr>) = agrees h s"
  by (simp add: agrees_def)

section \<open>Every part keeps the invariant\<close>

lemma caps_step_quiet [simp]:
  "caps_step v SendIdr = v" "caps_step v (SendPrepare r rv w h f) = v" "caps_step v (SendCommit r n) = v"
  "caps_step v DropOutput = v" "caps_step v DropDecoder = v" "caps_step v OpenDecoder = v" "caps_step v FlushDecoder = v"
  "caps_step v (FeedDecoder p k c) = v" "caps_step v (OpenOutput cf) = v" "caps_step v (Convert cf tr) = v"
  "caps_step v (Submit cf) = v" "caps_step v (PublishPreview cf) = v"
  by (simp_all add: caps_step_def)

lemma prepare_step:
  assumes "sw_inv sw"
  shows "sw_step sw (now, Prepare rv w h f) = (sw, [])
    \<or> (\<exists>sw'. sw_step sw (now, Prepare rv w h f) = (sw', [SendPrepareQuality (sw_next_id sw) rv w h f])
         \<and> sw_phase sw' = Preparing)"
  by (auto simp: sw_defs split: option.splits)

lemma phase_ok_step:
  assumes "phase_ok s" and "sw_phase w = Preparing \<or> sw_phase w = Failed \<or> sw_phase w = Applied \<or> sw_phase w = Idle"
    and "sw_inv w"
  shows "phase_ok (s\<lparr>ss_switch := w\<rparr>)"
  using assms by (auto simp: phase_ok_def)

lemma ok_send_prepare:
  assumes "\<And>h s. P h s \<Longrightarrow> stream_inv h s
      \<and> advertised h = Some (PERMISSION_READY, rv, ss_modes s) \<and> list_ex (\<lambda>m. mode_tuple m = (w, ht, f)) (ss_modes s)"
  shows "act_ok P (send_prepare t (SendPrepareQuality r rv w ht f)) (\<lambda>_. stream_inv)"
  unfolding send_prepare_def action.case
proof (rule ok_then[where R = "\<lambda>_. P"])
  show "act_ok P (perform (SendPrepare r rv w ht f) (t_send_prepare t)) (\<lambda>_. stream_inv)"
  proof (rule ok_perform)
    fix h s assume p: "P h s"
    then obtain m where "m \<in> set (ss_modes s)" "mode_tuple m = (w, ht, f)"
      using assms by (auto simp: list_ex_iff)
    moreover have "list_all usable (ss_modes s)" using assms[OF p] by (simp add: stream_inv_def agrees_def)
    ultimately show "stream_legal h (SendPrepare r rv w ht f)"
      using assms[OF p] by (auto simp: list_all_iff)
  next
    fix h s x assume "P h s"
    then show "stream_inv (h @ [SendPrepare r rv w ht f]) s"
      using assms by (auto simp: stream_inv_def agrees_def history_steps)
  qed
qed (rule ok_lift)

lemma ok_request_part: "act_ok stream_inv (request_part t) (\<lambda>_. stream_inv)"
proof (cases "t_request t")
  case None
  then show ?thesis by (simp add: request_part_def ok_ret)
next
  case (Some q)
  obtain w ht f where q: "q = (w, ht, f)" by (metis prod_cases3)
  show ?thesis
    unfolding request_part_def Some q option.case prod.case
  proof (rule ok_get_then)
    fix s0 :: stream_state
    show "act_ok (\<lambda>h s. stream_inv h s \<and> s = s0)
      (case request_rejection s0 (w, ht, f) of
         None \<Rightarrow> then_do (switch_act (t_now_prepare t) (Prepare (ss_revision s0) w ht f)) (\<lambda>actions.
             then_do (for_each (send_prepare t) actions) (\<lambda>_. ret False))
       | Some reason \<Rightarrow> then_do (emit t (QualityFailed reason False)) (\<lambda>_. ret True)) (\<lambda>_. stream_inv)"
    proof (cases "request_rejection s0 (w, ht, f)")
      case (Some reason)
      show ?thesis unfolding Some option.case
        by (rule ok_then[where R = "\<lambda>_. stream_inv"])
          (auto intro!: ok_ret intro: ok_conseq[OF ok_emit_quiet])
    next
      case None
      let ?e = "Prepare (ss_revision s0) w ht f"
      let ?st = "sw_step (ss_switch s0) (t_now_prepare t, ?e)"
      let ?R = "\<lambda>actions h s. actions = snd ?st \<and> s = s0\<lparr>ss_switch := fst ?st\<rparr> \<and> stream_inv h s
        \<and> sw_inv (ss_switch s0) \<and> advertised h = Some (PERMISSION_READY, ss_revision s0, ss_modes s0)
        \<and> list_ex (\<lambda>m. mode_tuple m = (w, ht, f)) (ss_modes s0)"
      show ?thesis unfolding None option.case
      proof (rule ok_then[where R = ?R])
        show "act_ok (\<lambda>h s. stream_inv h s \<and> s = s0) (switch_act (t_now_prepare t) ?e) ?R"
        proof (rule ok_switch)
          fix h s assume a: "stream_inv h s \<and> s = s0"
          then have i: "sw_inv (ss_switch s0)" by (auto simp: stream_inv_def phase_ok_def)
          have adv: "ss_advertised s0" "ss_permission s0 = PERMISSION_READY"
            "list_ex (\<lambda>m. mode_tuple m = (w, ht, f)) (ss_modes s0)"
            using None by (auto simp: request_rejection_def split: if_splits)
          have "stream_inv h (s0\<lparr>ss_switch := fst ?st\<rparr>)"
          proof (cases "snd ?st = []")
            case True
            then have "fst ?st = ss_switch s0" using prepare_step[OF i, of "t_now_prepare t" "ss_revision s0" w ht f]
              by (auto simp del: sw_step.simps)
            then show ?thesis using a by (auto simp del: sw_step.simps)
          next
            case False
            then have "sw_phase (fst ?st) = Preparing"
              using prepare_step[OF i, of "t_now_prepare t" "ss_revision s0" w ht f] by (auto simp del: sw_step.simps)
            then show ?thesis using a sw_step_inv[OF i, of "(t_now_prepare t, ?e)"]
              by (auto simp: stream_inv_def simp del: sw_step.simps intro!: phase_ok_step)
          qed
          moreover have "advertised h = Some (PERMISSION_READY, ss_revision s0, ss_modes s0)"
            using a adv(1,2) by (simp add: stream_inv_def agrees_def)
          ultimately show "?R (snd (sw_step (ss_switch s) (t_now_prepare t, ?e))) h
              (s\<lparr>ss_switch := fst (sw_step (ss_switch s) (t_now_prepare t, ?e))\<rparr>)"
            using conjunct2[OF a] i adv(3) by (simp del: sw_step.simps)
        qed
      next
        fix actions
        show "act_ok (?R actions) (then_do (for_each (send_prepare t) actions) (\<lambda>_. ret False)) (\<lambda>_. stream_inv)"
        proof (rule ok_then[where R = "\<lambda>_. stream_inv"])
          show "act_ok (?R actions) (for_each (send_prepare t) actions) (\<lambda>_. stream_inv)"
          proof (rule ok_assume[where C = "actions = [] \<or> actions = [SendPrepareQuality (sw_next_id (ss_switch s0)) (ss_revision s0) w ht f]"])
            assume "actions = [] \<or> actions = [SendPrepareQuality (sw_next_id (ss_switch s0)) (ss_revision s0) w ht f]"
            then show ?thesis
            proof
              assume "actions = []"
              then show ?thesis by (auto intro!: ok_ret)
            next
              assume e: "actions = [SendPrepareQuality (sw_next_id (ss_switch s0)) (ss_revision s0) w ht f]"
              show ?thesis unfolding e for_each.simps
                by (rule ok_then[OF ok_send_prepare]) (auto intro!: ok_ret)
            qed
          next
            fix h s assume "?R actions h s"
            then show "actions = [] \<or> actions = [SendPrepareQuality (sw_next_id (ss_switch s0)) (ss_revision s0) w ht f]"
              using prepare_step[of "ss_switch s0" "t_now_prepare t" "ss_revision s0" w ht f] by auto
          qed
        qed (auto intro!: ok_ret)
      qed
    qed
  qed
qed

text \<open>Machine events that leave the media side as it is.\<close>

definition tame :: "event \<Rightarrow> bool" where
  "tame e \<longleftrightarrow> e = DeadlineExceeded \<or> e = UserStop \<or> e = OutputReady \<or> (\<exists>n. e = EpochObserved n)"

lemma tame_phase:
  "tame e \<Longrightarrow> sw_step sw (now, e) = (w, as) \<Longrightarrow>
     sw_phase w \<in> {Failed, Applied} \<or> sw_phase w = sw_phase sw \<and> sw_requested w = sw_requested sw"
  by (auto simp: tame_def sw_defs split: if_splits option.splits)

lemma ok_switch_tame:
  assumes "tame e"
  shows "act_ok stream_inv (switch_act now e) (\<lambda>_. stream_inv)"
proof (rule ok_switch)
  fix h s assume a: "stream_inv h s"
  obtain w as where w: "sw_step (ss_switch s) (now, e) = (w, as)" by fastforce
  have "sw_inv w" using a sw_step_inv[of "ss_switch s" "(now, e)"] w by (auto simp: stream_inv_def phase_ok_def)
  then show "stream_inv h (s\<lparr>ss_switch := fst (sw_step (ss_switch s) (now, e))\<rparr>)"
    using a tame_phase[OF assms w] w by (auto simp: stream_inv_def phase_ok_def)
qed

lemma ok_expire_action: "act_ok stream_inv (expire_action t a) (\<lambda>_. stream_inv)"
  by (cases a) (auto simp: expire_action_def intro!: ok_emit_quiet ok_ret ok_lift)

lemma ok_deadline_part: "act_ok stream_inv (deadline_part t) (\<lambda>_. stream_inv)"
  unfolding deadline_part_def
proof (rule ok_get_then)
  fix s0 :: stream_state
  have "act_ok stream_inv (then_do (switch_act (t_now_deadline t) DeadlineExceeded) (for_each (expire_action t)))
      (\<lambda>_. stream_inv)"
    by (rule ok_then[OF ok_switch_tame]) (auto simp: tame_def intro: ok_for_each ok_expire_action)
  then show "act_ok (\<lambda>h s. stream_inv h s \<and> s = s0)
      (if busy (ss_switch s0)
       then then_do (switch_act (t_now_deadline t) DeadlineExceeded) (for_each (expire_action t)) else ret ())
      (\<lambda>_. stream_inv)"
    by (auto intro: ok_conseq ok_ret)
qed

lemma ok_pairing_part: "act_ok stream_inv (pairing_part t f) (\<lambda>_. stream_inv)"
  unfolding pairing_part_def
  by (rule ok_then[where R = "\<lambda>_. stream_inv"]) (auto intro: ok_lift ok_emit_quiet)

lemma ok_capabilities_part: "act_ok stream_inv (capabilities_part t f) (\<lambda>_. stream_inv)"
proof -
  have "act_ok stream_inv (then_do (lift_r (caps_decode (fr_payload f))) (\<lambda>caps :: capabilities.
      then_do (switch_act (t_now_frame t) (EpochObserved (stream_epoch caps))) (\<lambda>_.
      then_do (update (\<lambda>s. s\<lparr>ss_revision := catalog_revision caps, ss_advertised := True,
          ss_permission := permission caps, ss_modes := filter usable (map mode_from (modes caps))\<rparr>)) (\<lambda>_.
      then_do get_state (\<lambda>s. emit t (QualityCapabilities (permission caps) (catalog_revision caps)
          (stream_epoch caps) (ss_modes s))))))) (\<lambda>_. stream_inv)" (is "act_ok _ (then_do _ ?f) _")
  proof (rule ok_then[where R = "\<lambda>_. stream_inv"])
    fix caps :: capabilities
    let ?u = "\<lambda>s. s\<lparr>ss_revision := catalog_revision caps, ss_advertised := True,
          ss_permission := permission caps, ss_modes := filter usable (map mode_from (modes caps))\<rparr>"
    let ?R = "\<lambda>_ h s. \<exists>s1. stream_inv h s1 \<and> s = ?u s1"
    show "act_ok stream_inv (?f caps) (\<lambda>_. stream_inv)"
    proof (rule ok_then[OF ok_switch_tame])
      show "act_ok stream_inv (then_do (update ?u) (\<lambda>_. then_do get_state (\<lambda>s. emit t
          (QualityCapabilities (permission caps) (catalog_revision caps) (stream_epoch caps) (ss_modes s)))))
          (\<lambda>_. stream_inv)"
      proof (rule ok_then[where R = ?R], rule ok_update, blast, rule ok_get_then, rule ok_emit)
        fix x s0 h s
        assume "?R x h s \<and> s = s0"
        then obtain s1 where "stream_inv h s1" "s = ?u s1" "s0 = s" by blast
        then show "stream_inv (h @ [Emit (QualityCapabilities (permission caps) (catalog_revision caps)
            (stream_epoch caps) (ss_modes s0))]) s"
          by (auto simp: stream_inv_def agrees_def phase_ok_def history_steps list_all_iff)
      qed
    qed (simp add: tame_def)
  qed (rule ok_lift)
  then show ?thesis by (auto simp: capabilities_part_def intro: ok_ret)
qed

text \<open>What the machine answers to the events the phone's quality messages become.\<close>

fun delivered :: "event \<Rightarrow> bool" where
  "delivered (PrepareAccepted _ _) \<longleftrightarrow> True"
| "delivered (event.Rejected _ _) \<longleftrightarrow> True"
| "delivered (CaptureStarted _ _ _ _) \<longleftrightarrow> True"
| "delivered (Paused _ _) \<longleftrightarrow> True"
| "delivered _ \<longleftrightarrow> False"

lemma delivered_step:
  assumes "delivered e" "sw_step sw (now, e) = (w, as)"
  shows "as = [] \<and> (w = sw \<or> sw_phase sw = Staged \<and> sw_phase w = Switching)
    \<or> as = [ReleaseOutputs] \<and> sw_phase w = Staged
    \<or> (\<exists>r n. as = [ReleaseOutputs, SendCommitQuality r n]) \<and> sw_phase w = Switching
    \<or> (\<exists>reason. as = [ReportFailed reason, StopCapture, CloseConnection])
    \<or> (\<exists>reason. as = [ReportFailed reason]) \<and> sw_phase w = Failed"
proof (cases e)
  case (PrepareAccepted r b)
  consider "sw_step sw (now, e) = (sw, [])"
    | "sw_step sw (now, e) = (sw\<lparr>sw_phase := Staged, sw_deadline := None\<rparr>, [ReleaseOutputs])"
    | "sw_step sw (now, e) = (sw\<lparr>sw_phase := Switching, sw_deadline := Some (now + APPLY_DEADLINE_MS)\<rparr>, [])"
      "sw_phase sw = Staged"
    unfolding PrepareAccepted sw_step.simps by argo
  then show ?thesis using assms(2) by cases auto
next
  case (Rejected r b)
  consider "sw_step sw (now, e) = (sw, [])"
    | "sw_step sw (now, e) = sw_fail sw (rejection_reason b)"
    | "sw_step sw (now, e) = (sw\<lparr>sw_phase := Failed, sw_deadline := None\<rparr>, [ReportFailed (rejection_reason b)])"
    unfolding Rejected sw_step.simps by argo
  then show ?thesis using assms(2) by cases (auto simp: sw_fail_def)
next
  case (Paused r ep)
  show ?thesis
  proof (cases "r \<noteq> sw_request_id sw \<or> sw_phase sw \<noteq> Preparing
      \<or> (case sw_epoch sw of None \<Rightarrow> False | Some current \<Rightarrow> current \<noteq> ep)")
    case True
    then have "sw_step sw (now, e) = (sw, [])" unfolding Paused sw_step.simps by (rule if_P)
    then show ?thesis using assms(2) by simp
  next
    case False
    then have s: "sw_step sw (now, e) = (case checked_inc ep of
        None \<Rightarrow> sw_fail sw ''the video epoch overflowed''
      | Some next \<Rightarrow> (sw\<lparr>sw_phase := Switching, sw_epoch := Some next\<rparr>,
                      [ReleaseOutputs, SendCommitQuality r next]))"
      unfolding Paused sw_step.simps by (rule if_not_P)
    show ?thesis
    proof (cases "checked_inc ep")
      case None
      then show ?thesis using assms(2) s by (auto simp: sw_fail_def)
    next
      case (Some n)
      then show ?thesis using assms(2) s by auto
    qed
  qed
next
  case (CaptureStarted r x y z)
  consider "sw_step sw (now, e) = (sw, [])"
    | "sw_step sw (now, e) = sw_fail sw ''the new mode did not match the request''"
    | "sw_step sw (now, e) = (sw\<lparr>sw_phase := Switching, sw_deadline := Some (now + APPLY_DEADLINE_MS)\<rparr>, [])"
      "sw_phase sw = Staged"
    unfolding CaptureStarted sw_step.simps by argo
  then show ?thesis using assms(2) by cases (auto simp: sw_fail_def)
qed (use assms(1) in simp_all)

lemma ok_never:
  "act_ok P (report_quality t [ReportFailed r, StopCapture, CloseConnection]) (\<lambda>_ _ _. False)"
proof -
  have 1: "act_ok P (report_action t True (ReportFailed r)) (\<lambda>_ _ _. True)"
    unfolding report_action_def action.case by (rule ok_emit) simp
  have 2: "act_ok (\<lambda>_ _. True) (report_action t True StopCapture) (\<lambda>_ _ _. False)"
    unfolding report_action_def action.case by (rule ok_lift) simp
  have 3: "act_ok (\<lambda>_ _. False) m Q" for m :: "unit act" and Q by (simp add: act_ok_def)
  have t: "CloseConnection \<in> set [ReportFailed r, StopCapture, CloseConnection]" by simp
  show ?thesis unfolding report_quality_def for_each.simps using t
    by (simp only: if_True simp_thms) (rule ok_then[OF 1 ok_then[OF 2 3]])
qed

definition released :: assertion where
  "released h s \<longleftrightarrow> stream_inv h s \<and> (\<exists>h0. h = h0 @ [DropOutput, Emit WaitingEv, DropDecoder])"

definition releasing :: assertion where
  "releasing h s \<longleftrightarrow> agrees h s \<and> sw_inv (ss_switch s) \<and> sw_phase (ss_switch s) \<in> {Staged, Switching}"

lemma ok_release: "act_ok releasing (apply_action t ReleaseOutputs) (\<lambda>_. released)"
proof -
  let ?d = "\<lambda>s. s\<lparr>ss_output := None\<rparr>"
  let ?e = "\<lambda>s. s\<lparr>ss_decoder := False\<rparr>"
  let ?c = "\<lambda>s. s\<lparr>ss_config := None, ss_started := False, ss_decoded := 0, ss_submitted := 0, ss_last_pts := 0\<rparr>"
  let ?R1 = "\<lambda>_ h s. \<exists>h0. h = h0 @ [DropOutput] \<and> releasing h0 s"
  let ?R2 = "\<lambda>_ h s. \<exists>h0 s1. h = h0 @ [DropOutput] \<and> releasing h0 s1 \<and> s = ?d s1"
  let ?R3 = "\<lambda>_ h s. \<exists>h0 s1. h = (h0 @ [DropOutput]) @ [Emit WaitingEv] \<and> releasing h0 s1 \<and> s = ?d s1"
  let ?R4 = "\<lambda>_ h s. \<exists>h0 s1. h = ((h0 @ [DropOutput]) @ [Emit WaitingEv]) @ [DropDecoder] \<and> releasing h0 s1 \<and> s = ?d s1"
  let ?R5 = "\<lambda>_ h s. \<exists>h0 s1. h = ((h0 @ [DropOutput]) @ [Emit WaitingEv]) @ [DropDecoder] \<and> releasing h0 s1 \<and> s = ?e (?d s1)"
  show ?thesis
    unfolding apply_action_def action.case
  proof (rule ok_then[where R = ?R1], rule ok_perform, simp, blast, rule ok_then[where R = ?R2],
      rule ok_update, blast, rule ok_then[where R = ?R3], rule ok_emit, blast, rule ok_then[where R = ?R4],
      rule ok_perform, simp, blast, rule ok_then[where R = ?R5],
      rule ok_update, blast, rule ok_then[where R = ?R5], rule ok_lift, assumption, rule ok_update)
    fix h s
    assume "\<exists>h0 s1. h = ((h0 @ [DropOutput]) @ [Emit WaitingEv]) @ [DropDecoder] \<and> releasing h0 s1 \<and> s = ?e (?d s1)"
    then obtain h0 s1 where a: "h = ((h0 @ [DropOutput]) @ [Emit WaitingEv]) @ [DropDecoder]"
      "releasing h0 s1" "s = ?e (?d s1)" by blast
    have "agrees (((h0 @ [DropOutput]) @ [Emit WaitingEv]) @ [DropDecoder]) (?c s)"
      using a(2) unfolding a(3) agrees_def history_snoc
      by (simp only: quiet_steps quiet_simps) (auto simp: agrees_def releasing_def history_steps)
    moreover have "phase_ok (?c s)" using a(2,3) by (auto simp: phase_ok_def releasing_def)
    ultimately show "released h (?c s)" unfolding released_def stream_inv_def a(1) by simp
  qed
qed

lemma ok_commit: "act_ok released (apply_action t (SendCommitQuality r n)) (\<lambda>_. stream_inv)"
  unfolding apply_action_def action.case
proof (rule ok_then[where R = "\<lambda>_. released"], rule ok_lift, assumption, rule ok_perform)
  fix h s assume "released h s"
  then obtain h0 where h: "h = h0 @ [DropOutput, Emit WaitingEv, DropDecoder]" and "stream_inv h s"
    by (auto simp: released_def)
  have "h = ((h0 @ [DropOutput]) @ [Emit WaitingEv]) @ [DropDecoder]" using h by simp
  then have "open_output h = None \<and> \<not> decoder_open h"
    by (simp only: history_snoc quiet_steps) (simp add: history_steps)
  then show "stream_legal h (SendCommit r n)" using h by simp
next
  fix h s x assume "released h s"
  then show "stream_inv (h @ [SendCommit r n]) s"
    by (auto simp: released_def stream_inv_def agrees_def history_steps)
qed

lemma ok_deliver_quality:
  assumes "delivered e"
  shows "act_ok stream_inv (deliver_quality t e) (\<lambda>_. stream_inv)"
  unfolding deliver_quality_def
proof (rule ok_get_then)
  fix s0 :: stream_state
  obtain w as where w: "sw_step (ss_switch s0) (t_now_frame t, e) = (w, as)" by fastforce
  let ?R = "\<lambda>actions h (s :: stream_state). actions = as \<and> s = s0\<lparr>ss_switch := w\<rparr> \<and> agrees h s \<and> sw_inv w \<and> phase_ok s0"
  let ?last = "\<lambda>actions s. if ReleaseOutputs \<in> set actions \<or> staged (ss_switch s) \<noteq> staged (ss_switch s0)
      then emit t (QualityProgress (staged (ss_switch s))) else ret ()"
  have last: "act_ok stream_inv (then_do get_state (?last actions)) (\<lambda>_. stream_inv)" for actions
    by (rule ok_get_then) (auto intro: ok_ret ok_conseq[OF ok_emit_quiet])
  show "act_ok (\<lambda>h s. stream_inv h s \<and> s = s0)
      (then_do (switch_act (t_now_frame t) e) (\<lambda>actions.
       then_do (report_quality t actions) (\<lambda>_.
       then_do (for_each (apply_action t) actions) (\<lambda>_. then_do get_state (?last actions))))) (\<lambda>_. stream_inv)"
  proof (rule ok_then[where R = ?R])
    show "act_ok (\<lambda>h s. stream_inv h s \<and> s = s0) (switch_act (t_now_frame t) e) ?R"
    proof (rule ok_switch)
      fix h s assume a: "stream_inv h s \<and> s = s0"
      then have "sw_inv (ss_switch s0)" by (auto simp: stream_inv_def phase_ok_def)
      then have "sw_inv w" using sw_step_inv[of "ss_switch s0" "(t_now_frame t, e)"] w by simp
      then show "?R (snd (sw_step (ss_switch s) (t_now_frame t, e))) h
          (s\<lparr>ss_switch := fst (sw_step (ss_switch s) (t_now_frame t, e))\<rparr>)"
        using a w by (auto simp: stream_inv_def)
    qed
  next
    fix actions
    show "act_ok (?R actions) (then_do (report_quality t actions) (\<lambda>_.
       then_do (for_each (apply_action t) actions) (\<lambda>_. then_do get_state (?last actions)))) (\<lambda>_. stream_inv)"
    proof (rule ok_assume[where C = "actions = as"])
      assume actions: "actions = as"
      from delivered_step[OF assms w] show ?thesis
      proof (elim disjE conjE exE)
        assume e: "as = []" and "w = ss_switch s0"
        then have "?R as h s \<Longrightarrow> stream_inv h s" for h s by (auto simp: stream_inv_def)
        then show ?thesis unfolding actions e report_quality_def for_each.simps then_do_ret
          by (intro ok_conseq[OF last])
      next
        assume e: "as = []" and "sw_phase (ss_switch s0) = Staged" "sw_phase w = Switching"
        then have "?R as h s \<Longrightarrow> stream_inv h s" for h s by (auto simp: stream_inv_def phase_ok_def)
        then show ?thesis unfolding actions e report_quality_def for_each.simps then_do_ret
          by (intro ok_conseq[OF last])
      next
        assume e: "as = [ReleaseOutputs]" and "sw_phase w = Staged"
        then have p: "?R as h s \<Longrightarrow> releasing h s" for h s by (auto simp: releasing_def)
        have 1: "act_ok (?R as) (report_quality t [ReleaseOutputs]) (\<lambda>_. releasing)"
          by (auto simp: report_quality_def report_action_def intro!: ok_then[OF ok_ret] ok_ret p)
        have 2: "act_ok releasing (for_each (apply_action t) [ReleaseOutputs]) (\<lambda>_. stream_inv)"
          unfolding for_each.simps by (rule ok_then[OF ok_release]) (auto simp: released_def intro: ok_ret)
        show ?thesis using ok_then[OF 1 ok_then[OF 2 last]] unfolding actions e .
      next
        fix r n assume e: "as = [ReleaseOutputs, SendCommitQuality r n]" and "sw_phase w = Switching"
        then have p: "?R as h s \<Longrightarrow> releasing h s" for h s by (auto simp: releasing_def)
        have 1: "act_ok (?R as) (report_quality t [ReleaseOutputs, SendCommitQuality r n]) (\<lambda>_. releasing)"
          by (auto simp: report_quality_def report_action_def intro!: ok_then[OF ok_ret] ok_ret p)
        have 2: "act_ok releasing (for_each (apply_action t) [ReleaseOutputs, SendCommitQuality r n]) (\<lambda>_. stream_inv)"
          unfolding for_each.simps
          by (rule ok_then[OF ok_release], rule ok_then[OF ok_commit]) (auto intro: ok_ret)
        show ?thesis using ok_then[OF 1 ok_then[OF 2 last]] unfolding actions e .
      next
        fix reason assume e: "as = [ReportFailed reason, StopCapture, CloseConnection]"
        show ?thesis unfolding actions e by (rule ok_then[OF ok_never]) (simp add: act_ok_def)
      next
        fix reason assume e: "as = [ReportFailed reason]" and "sw_phase w = Failed"
        then have p: "?R as h s \<Longrightarrow> stream_inv h s" for h s by (auto simp: stream_inv_def intro!: phase_ok_step)
        have 1: "act_ok (?R as) (report_quality t as) (\<lambda>_. stream_inv)"
          by (rule ok_conseq[OF ok_report_quality]) (use p in auto)
        have 2: "act_ok stream_inv (for_each (apply_action t) as) (\<lambda>_. stream_inv)"
          unfolding e by (auto simp: apply_action_def intro!: ok_then[OF ok_ret] ok_ret)
        show ?thesis unfolding actions by (rule ok_then[OF 1 ok_then[OF 2 last]])
      qed
    qed auto
  qed
qed

lemma video_config_step:
  assumes "awaiting_video sw" "sw_step sw (now, VideoConfig w h f) = (sw', as)"
  shows "(\<exists>r. as = [ReportFailed r, StopCapture, CloseConnection])
    \<or> as = [] \<and> sw_phase sw' = AwaitingOutput \<and> sw_requested sw' = Some (w, h, f) \<and> sw_requested sw = Some (w, h, f)"
proof (cases "sw_requested sw = Some (w, h, f)")
  case True
  then show ?thesis using assms by (auto simp: Let_def)
next
  case False
  then have "sw_step sw (now, VideoConfig w h f) = sw_fail sw ''the new mode did not match the request''"
    using assms(1) by simp
  then show ?thesis using assms(2) by (auto simp: sw_fail_def)
qed

lemma config_set:
  assumes "stream_inv h s0" "awaiting_video (ss_switch s0)" "config_ok c" "sw_inv w"
    and "sw_phase w = AwaitingOutput" "sw_requested w = Some (as_tuple c)"
    and "sw_requested (ss_switch s0) = Some (as_tuple c)"
  shows "stream_inv h (s0\<lparr>ss_switch := w, ss_config := Some c\<rparr>)"
proof -
  have "ss_output s0 = None \<or> ss_config s0 = Some c"
  proof (cases "sw_phase (ss_switch s0) = AwaitingOutput")
    case True
    then obtain c0 where "ss_config s0 = Some c0" "as_tuple c0 = as_tuple c" "config_ok c0"
      using assms(1,7) by (auto simp: stream_inv_def phase_ok_def)
    then show ?thesis using as_tuple_inj[OF _ assms(3)] by blast
  next
    case False
    then show ?thesis using assms(1,2) by (auto simp: stream_inv_def phase_ok_def awaiting_video_def)
  qed
  then have "agrees h (s0\<lparr>ss_config := Some c\<rparr>)" using assms(1) by (auto simp: stream_inv_def agrees_def)
  then show ?thesis using assms by (auto simp: stream_inv_def phase_ok_def agrees_def)
qed

lemma ok_config_part: "act_ok stream_inv (config_part t f) (\<lambda>_. stream_inv)"
  unfolding config_part_def
proof (rule ok_then[where R = "\<lambda>c h s. config_ok c \<and> stream_inv h s"])
  show "act_ok stream_inv (lift_r (config_parse (fr_payload f))) (\<lambda>c h s. config_ok c \<and> stream_inv h s)"
    by (rule ok_lift) (auto intro: config_parse_ok)
next
  fix c :: config
  let ?sw = "\<lambda>s :: stream_state. then_do (switch_act (t_now_frame t)
      (VideoConfig (ucast (cf_width c)) (ucast (cf_height c)) (ucast (cf_fps c)))) (\<lambda>actions.
        then_do (report_quality t actions) (\<lambda>_. if staged (ss_switch s) then emit t (QualityProgress False) else ret ()))"
  let ?bad = "\<lambda>s. case ss_config s of None \<Rightarrow> False | Some old \<Rightarrow> old \<noteq> c"
  show "act_ok (\<lambda>h s. config_ok c \<and> stream_inv h s) (then_do get_state (\<lambda>s. then_do
       (if awaiting_video (ss_switch s) then ?sw s
        else if ?bad s then lift_r (Inl (Msg ''VIDEO_CONFIG changed during active output'')) else ret ())
       (\<lambda>_. update (\<lambda>s. s\<lparr>ss_config := Some c\<rparr>)))) (\<lambda>_. stream_inv)"
  proof (rule ok_get_then)
    fix s0 :: stream_state
    let ?P = "\<lambda>h s. (config_ok c \<and> stream_inv h s) \<and> s = s0"
    let ?R = "\<lambda>_ h s. stream_inv h (s\<lparr>ss_config := Some c\<rparr>)"
    have upd: "act_ok (?R x) (update (\<lambda>s. s\<lparr>ss_config := Some c\<rparr>)) (\<lambda>_. stream_inv)" for x :: unit
      by (rule ok_update)
    show "act_ok ?P (then_do
       (if awaiting_video (ss_switch s0) then ?sw s0
        else if ?bad s0 then lift_r (Inl (Msg ''VIDEO_CONFIG changed during active output'')) else ret ())
       (\<lambda>_. update (\<lambda>s. s\<lparr>ss_config := Some c\<rparr>))) (\<lambda>_. stream_inv)"
    proof (rule ok_then[OF _ upd])
      show "act_ok ?P (if awaiting_video (ss_switch s0) then ?sw s0
        else if ?bad s0 then lift_r (Inl (Msg ''VIDEO_CONFIG changed during active output'')) else ret ()) ?R"
      proof (cases "awaiting_video (ss_switch s0)")
        case False
        have "stream_inv h (s0\<lparr>ss_config := Some c\<rparr>)" if "stream_inv h s0" "config_ok c" "\<not> ?bad s0" for h
          using that False
          by (auto simp: stream_inv_def agrees_def phase_ok_def awaiting_video_def split: option.splits)
        then show ?thesis using False by (auto intro!: ok_lift ok_ret)
      next
        case True
        let ?e = "VideoConfig (ucast (cf_width c)) (ucast (cf_height c)) (ucast (cf_fps c))"
        obtain w as where w: "sw_step (ss_switch s0) (t_now_frame t, ?e) = (w, as)" by fastforce
        let ?R1 = "\<lambda>actions h s. actions = as \<and> s = s0\<lparr>ss_switch := w\<rparr> \<and> stream_inv h s0 \<and> config_ok c \<and> sw_inv w"
        have 1: "act_ok ?P (switch_act (t_now_frame t) ?e) ?R1"
        proof (rule ok_switch)
          fix h s assume a: "?P h s"
          then have "sw_inv (ss_switch s0)" by (auto simp: stream_inv_def phase_ok_def)
          then have "sw_inv w" using sw_step_inv[of "ss_switch s0" "(t_now_frame t, ?e)"] w by simp
          then show "?R1 (snd (sw_step (ss_switch s) (t_now_frame t, ?e))) h
              (s\<lparr>ss_switch := fst (sw_step (ss_switch s) (t_now_frame t, ?e))\<rparr>)" using a w by auto
        qed
        have 2: "act_ok (?R1 actions) (then_do (report_quality t actions) (\<lambda>_.
            if staged (ss_switch s0) then emit t (QualityProgress False) else ret ())) ?R" for actions
        proof (rule ok_assume[where C = "actions = as"])
          assume actions: "actions = as"
          from video_config_step[OF True w] show ?thesis
          proof (elim disjE exE conjE)
            fix r assume e: "as = [ReportFailed r, StopCapture, CloseConnection]"
            show ?thesis unfolding actions e by (rule ok_then[OF ok_never]) (simp add: act_ok_def)
          next
            assume e: "as = []" and p: "sw_phase w = AwaitingOutput"
              "sw_requested w = Some (ucast (cf_width c), ucast (cf_height c), ucast (cf_fps c))"
              "sw_requested (ss_switch s0) = Some (ucast (cf_width c), ucast (cf_height c), ucast (cf_fps c))"
            have r: "stream_inv h (s\<lparr>ss_config := Some c\<rparr>)" if "?R1 as h s" for h s
              using config_set[of h s0 c w] that True p by (auto simp: as_tuple_def)
            have em: "stream_inv (h @ [Emit (QualityProgress False)]) s = stream_inv h s" for h s
              by (simp add: stream_inv_def)
            show ?thesis unfolding actions e report_quality_def for_each.simps then_do_ret
              using r unfolding e by (auto intro!: ok_emit ok_ret simp: em)
          qed
        qed auto
        show ?thesis using ok_then[OF 1 2] True by simp
      qed
    qed
  qed
qed

text \<open>While one access unit is decoded: the configuration is fixed and its time stamp is the last fed.\<close>

definition decoding :: "config \<Rightarrow> bool \<Rightarrow> assertion" where
  "decoding c opened h s \<longleftrightarrow> stream_inv h s \<and> ss_config s = Some c \<and> last_fed h = Some (ss_last_pts s)
     \<and> (opened \<longrightarrow> ss_output s = Some c)"

lemma decoding_emit [simp]: "quiet_event e \<Longrightarrow> decoding c b (h @ [Emit e]) s = decoding c b h s"
  by (simp add: decoding_def stream_inv_def quiet_steps)

lemma ok_report_decoding: "act_ok (decoding c b) (report_quality t as) (\<lambda>_. decoding c b)"
proof -
  have "act_ok (decoding c b) (report_action t x a) (\<lambda>_. decoding c b)" for x a
    by (cases a) (auto simp: report_action_def intro!: ok_emit ok_ret ok_lift)
  then show ?thesis unfolding report_quality_def by (rule ok_for_each)
qed

lemma decoding_switch:
  assumes "decoding c b h s" "tame e" "sw_step (ss_switch s) (now, e) = (w, as)"
  shows "decoding c b h (s\<lparr>ss_switch := w\<rparr>)"
proof -
  have "sw_inv w" using assms sw_step_inv[of "ss_switch s" "(now, e)"]
    by (auto simp: decoding_def stream_inv_def phase_ok_def)
  then show ?thesis using assms(1) tame_phase[OF assms(2,3)]
    by (auto simp: decoding_def stream_inv_def phase_ok_def)
qed

lemma stream_inv_submitted: "stream_inv h (s\<lparr>ss_submitted := n\<rparr>) = stream_inv h s"
  by (simp add: stream_inv_def agrees_def phase_ok_def)

lemma ok_show_frame: "act_ok (decoding c True) (show_frame t c d active) (\<lambda>_. decoding c True)"
proof -
  have quiet: "decoding c True (h @ [a]) s = decoding c True h s"
    if "a = Convert c tr \<or> a = Submit c \<or> a = PublishPreview c" for h a s tr
    using that by (elim disjE) (simp_all add: decoding_def stream_inv_def agrees_def history_steps)
  have legal: "decoding c True h s \<Longrightarrow> open_output h = Some c" for h s
    by (simp add: decoding_def stream_inv_def agrees_def)
  have 1: "act_ok (\<lambda>h s. decoding c True h s \<and> s = s0) (perform (Convert c tr) r) (\<lambda>_. decoding c True)" for s0 tr r
    by (rule ok_perform) (auto simp: legal quiet)
  have 2: "act_ok (decoding c True) (perform (Submit c) r) (\<lambda>_. decoding c True)" for r
    by (rule ok_perform) (auto simp: legal quiet)
  have 3: "act_ok (decoding c True) (update (\<lambda>s. s\<lparr>ss_submitted := ss_submitted s + 1\<rparr>)) (\<lambda>_. decoding c True)"
    by (rule ok_update) (simp add: decoding_def stream_inv_submitted)
  have 4: "act_ok (decoding c True) (switch_act now OutputReady) (\<lambda>_. decoding c True)" for now
    by (rule ok_switch) (metis decoding_switch fst_conv surj_pair tame_def)
  have 5: "act_ok (decoding c True) (if df_preview d then perform (PublishPreview c) (Inr ()) else ret ())
      (\<lambda>_. decoding c True)"
    by (auto intro!: ok_perform ok_ret simp: legal quiet)
  have 6: "act_ok (decoding c True) (if active then then_do (perform (Submit c) (df_submit d)) (\<lambda>_.
        then_do (update (\<lambda>s. s\<lparr>ss_submitted := ss_submitted s + 1\<rparr>)) (\<lambda>_.
        then_do (switch_act (df_now d) OutputReady) (report_quality t))) else ret ()) (\<lambda>_. decoding c True)"
    by (rule ok_if, rule ok_then[OF 2 ok_then[OF 3 ok_then[OF 4 ok_report_decoding]]], rule ok_ret)
  show ?thesis unfolding show_frame_def
    by (rule ok_if, rule ok_ret, assumption, rule ok_get_then, rule ok_then[OF 1 ok_then[OF 6 5]])
qed

lemma ok_frame_part: "act_ok (decoding c False) (frame_part t c d) (\<lambda>_. decoding c False)"
proof -
  let ?u = "\<lambda>s. s\<lparr>ss_transform := (case df_change d of None \<Rightarrow> ss_transform s | Some n \<Rightarrow> n),
      ss_decoded := ss_decoded s + 1, ss_started := True\<rparr>"
  let ?P = "\<lambda>h s. decoding c False h s \<and> ss_started s"
  have 1: "act_ok (decoding c False) (update ?u) (\<lambda>_. ?P)"
    by (rule ok_update) (auto simp: decoding_def stream_inv_def agrees_def phase_ok_def)
  have 2: "act_ok (\<lambda>h s. ?P h s \<and> s = s0) (if ss_output s0 = None
      then then_do (perform (OpenOutput c) r) (\<lambda>_. update (\<lambda>s. s\<lparr>ss_output := Some c\<rparr>)) else ret ())
      (\<lambda>_. decoding c True)" if even: "cf_width c mod 2 = 0" for s0 r
  proof (cases "ss_output s0 = None")
    case True
    have a: "act_ok (\<lambda>h s. ?P h s \<and> s = s0) (perform (OpenOutput c) r)
        (\<lambda>_ h s. \<exists>h0. h = h0 @ [OpenOutput c] \<and> ?P h0 s \<and> s = s0)"
      by (rule ok_perform) (use True even in \<open>auto simp: decoding_def stream_inv_def agrees_def\<close>)
    have b: "act_ok (\<lambda>h s. \<exists>h0. h = h0 @ [OpenOutput c] \<and> ?P h0 s \<and> s = s0)
        (update (\<lambda>s. s\<lparr>ss_output := Some c\<rparr>)) (\<lambda>_. decoding c True)"
    proof (rule ok_update, elim exE conjE)
      fix h s h0 assume h: "h = h0 @ [OpenOutput c]" and d: "decoding c False h0 s" "ss_started s" "s = s0"
      have "sw_phase (ss_switch s) \<notin> {Staged, Switching}"
        using d(1) by (auto simp: decoding_def stream_inv_def phase_ok_def)
      then show "decoding c True h (s\<lparr>ss_output := Some c\<rparr>)" unfolding h
        using d(1,2) by (auto simp: decoding_def stream_inv_def agrees_def phase_ok_def history_steps)
    qed
    show ?thesis using ok_then[OF a b] True by simp
  next
    case False
    then show ?thesis by (auto intro!: ok_ret simp: decoding_def stream_inv_def agrees_def)
  qed
  have 3: "act_ok (decoding c True) (then_do get_state (\<lambda>s.
      if df_report d then emit t (Stats (ss_decoded s) (ss_submitted s) active (cf_width c) (cf_height c) (cf_fps c)
        (df_decoder d)) else ret ())) (\<lambda>_. decoding c False)" for active
    by (rule ok_get_then) (auto intro!: ok_emit ok_ret simp: decoding_def stream_inv_def quiet_steps)
  have 4: "act_ok (decoding c True) (lift_r r) (\<lambda>_. decoding c True)" for r :: "error + bool"
    by (rule ok_lift)
  show ?thesis unfolding frame_part_def
  proof (rule ok_if, rule ok_lift, simp, rule ok_if, rule ok_lift, simp, rule ok_then[OF 1], rule ok_get_then)
    fix s0 :: stream_state
    assume "\<not> cf_width c mod 2 \<noteq> 0"
    then have even: "cf_width c mod 2 = 0" by (rule notnotD)
    show "act_ok (\<lambda>h s. ?P h s \<and> s = s0) (then_do (if ss_output s0 = None
        then then_do (perform (OpenOutput c) (df_open d)) (\<lambda>_. update (\<lambda>s. s\<lparr>ss_output := Some c\<rparr>)) else ret ())
        (\<lambda>_. then_do (lift_r (df_ready d)) (\<lambda>active. then_do (show_frame t c d active) (\<lambda>_.
          then_do get_state (\<lambda>s. if df_report d then emit t (Stats (ss_decoded s) (ss_submitted s) active
            (cf_width c) (cf_height c) (cf_fps c) (df_decoder d)) else ret ()))))) (\<lambda>_. decoding c False)"
      by (rule ok_then[OF 2[OF even] ok_then[OF 4 ok_then[OF ok_show_frame 3]]])
  qed
qed

lemma ok_frames_part: "act_ok (decoding c False) (frames_part t c ds) (\<lambda>_. decoding c False)"
  by (induction ds) (auto intro: ok_lift ok_ret ok_then[OF ok_frame_part])

lemma ok_decode_part:
  "act_ok (\<lambda>h s. stream_inv h s \<and> ss_config s = Some c
      \<and> (if ss_started s then ss_last_pts s < pts_us (fr_header f) else keyframe f \<and> config_included f))
     (decode_part t f c) (\<lambda>_. stream_inv)"
proof -
  let ?G = "\<lambda>h s. stream_inv h s \<and> ss_config s = Some c
      \<and> (if ss_started s then ss_last_pts s < pts_us (fr_header f) else keyframe f \<and> config_included f)"
  let ?D = "\<lambda>h s. ?G h s \<and> ss_decoder s"
  have flush: "stream_inv (h @ [FlushDecoder]) s = stream_inv h s" for h s
    by (simp add: stream_inv_def agrees_def history_steps)
  let ?F = "FeedDecoder (pts_us (fr_header f)) (keyframe f) (config_included f)"
  have 1: "act_ok (\<lambda>h s. ?G h s \<and> s = s0) (if ss_decoder s0 then ret ()
      else then_do (perform OpenDecoder (t_open_decoder t)) (\<lambda>_. update (\<lambda>s. s\<lparr>ss_decoder := True\<rparr>)))
      (\<lambda>_. ?D)" for s0
  proof (cases "ss_decoder s0")
    case True
    then show ?thesis by (auto intro!: ok_ret)
  next
    case False
    have "act_ok (\<lambda>h s. ?G h s \<and> s = s0) (perform OpenDecoder (t_open_decoder t))
        (\<lambda>_ h s. \<exists>h0. h = h0 @ [OpenDecoder] \<and> ?G h0 s)" by (rule ok_perform) auto
    moreover have "act_ok (\<lambda>h s. \<exists>h0. h = h0 @ [OpenDecoder] \<and> ?G h0 s)
        (update (\<lambda>s. s\<lparr>ss_decoder := True\<rparr>)) (\<lambda>_. ?D)"
    proof (rule ok_update, elim exE conjE)
      fix h s h0 assume h: "h = h0 @ [OpenDecoder]" and i: "stream_inv h0 s" and c: "ss_config s = Some c"
        and g: "if ss_started s then ss_last_pts s < pts_us (fr_header f) else keyframe f \<and> config_included f"
      have "stream_inv h (s\<lparr>ss_decoder := True\<rparr>)" unfolding h
        using i c by (auto simp: stream_inv_def agrees_def phase_ok_def history_steps)
      then show "?D h (s\<lparr>ss_decoder := True\<rparr>)" using c g by simp
    qed
    ultimately show ?thesis using False by (simp only: if_False) (rule ok_then)
  qed
  have 2: "act_ok ?D (if flags (fr_header f) AND DISCONTINUITY \<noteq> 0 then perform FlushDecoder (Inr ()) else ret ())
      (\<lambda>_. ?D)"
    by (rule ok_if, rule ok_perform, simp, simp add: flush, rule ok_ret)
  have 3: "act_ok ?D (perform ?F (t_feed t)) (\<lambda>_ h s. \<exists>h0. h = h0 @ [?F] \<and> ?D h0 s)"
  proof (rule ok_perform)
    fix h s assume d: "?D h s"
    show "stream_legal h ?F"
      using d by (cases "ss_started s") (auto simp: stream_inv_def agrees_def)
  qed auto
  have 4: "act_ok (\<lambda>h s. \<exists>h0. h = h0 @ [?F] \<and> ?D h0 s) (update (\<lambda>s. s\<lparr>ss_last_pts := pts_us (fr_header f)\<rparr>))
      (\<lambda>_. decoding c False)"
  proof (rule ok_update, elim exE conjE)
    fix h s h0 assume h: "h = h0 @ [?F]" and i: "stream_inv h0 s" and c: "ss_config s = Some c"
    show "decoding c False h (s\<lparr>ss_last_pts := pts_us (fr_header f)\<rparr>)" unfolding h
      using i c by (simp add: decoding_def stream_inv_def agrees_def phase_ok_def history_steps)
  qed
  have 5: "act_ok (decoding c False) (frames_part t c ds) (\<lambda>_. stream_inv)" for ds
    by (rule ok_conseq[OF ok_frames_part]) (auto simp: decoding_def)
  show ?thesis unfolding decode_part_def
    by (rule ok_get_then, rule ok_then[OF 1 ok_then[OF 2 ok_then[OF 3 ok_then[OF 4 5]]]])
qed

lemma ok_video_part: "act_ok stream_inv (video_part t f) (\<lambda>_. stream_inv)"
proof -
  have "act_ok stream_inv (then_do get_state (\<lambda>s.
        case ss_config s of
          None \<Rightarrow> ret ()
        | Some c \<Rightarrow>
            if \<not> ss_started s \<and> (\<not> keyframe f \<or> \<not> config_included f) then ret ()
            else if ss_started s \<and> pts_us (fr_header f) \<le> ss_last_pts s
            then lift_r (Inl (Msg ''non-monotonic VIDEO_AU PTS''))
            else decode_part t f c)) (\<lambda>_. stream_inv)"
  proof (rule ok_get_then)
    fix s0 :: stream_state
    have d: "act_ok (\<lambda>h s. stream_inv h s \<and> s = s0) (decode_part t f c) (\<lambda>_. stream_inv)"
      if "ss_config s0 = Some c" "\<not> (\<not> ss_started s0 \<and> (\<not> keyframe f \<or> \<not> config_included f))"
        "\<not> (ss_started s0 \<and> pts_us (fr_header f) \<le> ss_last_pts s0)" for c
      by (rule ok_conseq[OF ok_decode_part]) (use that in auto)
    show "act_ok (\<lambda>h s. stream_inv h s \<and> s = s0) (case ss_config s0 of
          None \<Rightarrow> ret ()
        | Some c \<Rightarrow>
            if \<not> ss_started s0 \<and> (\<not> keyframe f \<or> \<not> config_included f) then ret ()
            else if ss_started s0 \<and> pts_us (fr_header f) \<le> ss_last_pts s0
            then lift_r (Inl (Msg ''non-monotonic VIDEO_AU PTS''))
            else decode_part t f c) (\<lambda>_. stream_inv)"
    proof (cases "ss_config s0")
      case None
      then show ?thesis by (auto intro: ok_ret)
    next
      case (Some c)
      show ?thesis unfolding Some option.case
        by (rule ok_if, rule ok_ret, simp, rule ok_if, rule ok_lift, simp, rule d[OF Some])
    qed
  qed
  then show ?thesis by (auto simp: video_part_def intro: ok_ret)
qed

lemma ok_handle_frame: "act_ok stream_inv (handle_frame t f) (\<lambda>_. stream_inv)"
proof -
  have result: "act_ok stream_inv (then_do (lift_r (result_decode (fr_payload f))) (\<lambda>r.
      case result_event r of None \<Rightarrow> ret () | Some e \<Rightarrow> deliver_quality t e)) (\<lambda>_. stream_inv)"
  proof (rule ok_then[where R = "\<lambda>_. stream_inv"], rule ok_lift, assumption)
    fix r
    show "act_ok stream_inv (case result_event r of None \<Rightarrow> ret () | Some e \<Rightarrow> deliver_quality t e) (\<lambda>_. stream_inv)"
    proof (cases "result_event r")
      case (Some e)
      then have "delivered e" by (auto simp: result_event_def split: if_splits)
      then show ?thesis using Some ok_deliver_quality by simp
    qed (simp add: ok_ret)
  qed
  have paused: "act_ok stream_inv (then_do (lift_r (epoch_decode (fr_payload f))) (\<lambda>e.
      deliver_quality t (Paused (ep_request_id e) (ep_stream_epoch e)))) (\<lambda>_. stream_inv)"
    by (rule ok_then[where R = "\<lambda>_. stream_inv"], rule ok_lift, assumption, rule ok_deliver_quality) simp
  show ?thesis unfolding handle_frame_def Let_def
    by (intro ok_if ok_pairing_part ok_capabilities_part result paused ok_config_part ok_video_part)
qed

lemma ok_stream_turn: "act_ok stream_inv (stream_turn t) (\<lambda>_. stream_inv)"
proof -
  have 1: "act_ok stream_inv (case incoming of None \<Rightarrow> ret () | Some f \<Rightarrow> handle_frame t f) (\<lambda>_. stream_inv)"
    for incoming by (cases incoming) (auto intro: ok_ret ok_handle_frame)
  have 2: "act_ok stream_inv (lift_r (t_poll t)) (\<lambda>_. stream_inv)" by (rule ok_lift)
  have 3: "act_ok stream_inv (if again then ret () else then_do (deadline_part t) (\<lambda>_.
      then_do (lift_r (t_poll t)) (\<lambda>incoming. case incoming of None \<Rightarrow> ret () | Some f \<Rightarrow> handle_frame t f)))
      (\<lambda>_. stream_inv)" for again
    by (rule ok_if, rule ok_ret, assumption, rule ok_then[OF ok_deadline_part ok_then[OF 2 1]])
  show ?thesis unfolding stream_turn_def by (rule ok_then[OF ok_request_part 3])
qed

lemma ok_stream_open:
  "act_ok (\<lambda>h s. h = [] \<and> s = stream_start tr) (stream_open cfg io) (\<lambda>_. stream_inv)"
proof -
  have start: "stream_inv [OpenDecoder] (stream_start tr)"
    by (simp add: stream_inv_def agrees_def phase_ok_def stream_start_def sw_inv_def switch_default_def busy_def
        open_output_def decoder_open_def advertised_def history_steps)
  have 1: "act_ok (\<lambda>h s. h = [] \<and> s = stream_start tr) (perform OpenDecoder (si_decoder io)) (\<lambda>_. stream_inv)"
    by (rule ok_perform) (auto simp: start)
  have idr: "stream_inv (h @ [SendIdr]) s = stream_inv h s" for h s
    by (simp add: stream_inv_def agrees_def history_steps)
  have 2: "act_ok stream_inv (lift_r (frame_new IDR_REQUEST 2 [])) (\<lambda>_. stream_inv)" by (rule ok_lift)
  have 3: "act_ok stream_inv (perform SendIdr r) (\<lambda>_. stream_inv)" for r :: "error + unit"
    by (rule ok_perform) (auto simp: idr)
  have 4: "act_ok stream_inv (perform (Emit WaitingEv) r) (\<lambda>_. stream_inv)" for r :: "error + unit"
    by (rule ok_perform) (auto simp: stream_inv_def)
  show ?thesis unfolding stream_open_def by (rule ok_then[OF 1 ok_then[OF 2 ok_then[OF 3 4]]])
qed

lemma ok_stream_close: "act_ok stream_inv (stream_close io) (\<lambda>_. stream_inv)"
proof -
  have "act_ok stream_inv (stop_action io a) (\<lambda>_. stream_inv)" for a
    by (cases a) (auto simp: stop_action_def stream_inv_def intro!: ok_perform ok_ret)
  then show ?thesis unfolding stream_close_def
    by (intro ok_then[OF ok_switch_tame ok_for_each]) (auto simp: tame_def)
qed

lemma session_ok:
  "act_ok (\<lambda>h s. h = [] \<and> s = stream_start tr) (receive_stream cfg io turns stopped) (\<lambda>_. stream_inv)"
  unfolding receive_stream_def
  by (rule ok_then[OF ok_stream_open ok_then[OF ok_for_each[OF ok_stream_turn] ok_if[OF ok_stream_close ok_ret]]])

lemma session_legal:
  assumes "receive_stream cfg io turns stopped (stream_start tr) = (s, out, r)" "out = pre @ a # post"
  shows "stream_legal pre a"
proof -
  have "trace_ok stream_legal [] out" using session_ok[of tr cfg io turns stopped] assms(1) by (auto simp: act_ok_def)
  then show ?thesis using trace_ok_split[of stream_legal "[]" pre a post] assms(2) by simp
qed

lemma session_state:
  assumes "receive_stream cfg io turns stopped (stream_start tr) = (s, out, r)" and "r = Inr ()"
  shows "ss_output s = open_output out \<and> ss_decoder s = decoder_open out
    \<and> (sw_phase (ss_switch s) \<in> {Staged, Switching} \<longrightarrow>
         ss_config s = None \<and> ss_output s = None \<and> \<not> ss_decoder s \<and> \<not> ss_started s)"
proof -
  have "stream_inv out s"
    using session_ok[of tr cfg io turns stopped] assms by (auto simp: act_ok_def)
  then show ?thesis by (simp add: stream_inv_def agrees_def phase_ok_def)
qed

section \<open>Properties\<close>

text \<open>
  C17. What the worker asks of the phone: a switch is requested only for a mode in the latest
  advertisement the application was shown, with that advertisement's revision, and only while the
  phone reported its camera as ready; the new epoch is committed only right after the output was
  dropped, the application was told to wait and the decoder was dropped; and a session that is
  still running and waits for the new video (staged or switching) holds no configuration, output or
  decoder of the old one, and has not started to decode. What is open by the actions taken is what
  the session holds.
\<close>

theorem session_quality_requests:
  assumes "receive_stream cfg io turns stopped (stream_start tr) = (s, out, r)"
  shows "(\<forall>pre a post. out = pre @ a # post \<longrightarrow> (case a of
      SendPrepare request_id revision w h f \<Rightarrow>
        (\<exists>ms m. advertised pre = Some (PERMISSION_READY, revision, ms) \<and> m \<in> set ms \<and> usable m
           \<and> mode_tuple m = (w, h, f))
    | SendCommit request_id e \<Rightarrow>
        open_output pre = None \<and> \<not> decoder_open pre
        \<and> (\<exists>before. pre = before @ [DropOutput, Emit WaitingEv, DropDecoder])
    | _ \<Rightarrow> True))
    \<and> (r = Inr () \<longrightarrow>
        ss_output s = open_output out \<and> ss_decoder s = decoder_open out
        \<and> (sw_phase (ss_switch s) \<in> {Staged, Switching} \<longrightarrow>
             ss_config s = None \<and> ss_output s = None \<and> \<not> ss_decoder s \<and> \<not> ss_started s))"
proof (intro conjI allI impI)
  fix pre a post assume "out = pre @ a # post"
  from session_legal[OF assms this]
  show "case a of
      SendPrepare request_id revision w h f \<Rightarrow>
        (\<exists>ms m. advertised pre = Some (PERMISSION_READY, revision, ms) \<and> m \<in> set ms \<and> usable m
           \<and> mode_tuple m = (w, h, f))
    | SendCommit request_id e \<Rightarrow>
        open_output pre = None \<and> \<not> decoder_open pre
        \<and> (\<exists>before. pre = before @ [DropOutput, Emit WaitingEv, DropDecoder])
    | _ \<Rightarrow> True" by (cases a) auto
qed (use session_state[OF assms] in blast)+

text \<open>
  C18. Media order: the decoder is fed only while it is open; the first unit after a start or a
  release is a keyframe with its configuration, and once an output is open every unit's time stamp is
  above the one fed before it since the last release.
\<close>

theorem session_media_order:
  assumes "receive_stream cfg io turns stopped (stream_start tr) = (s, out, r)"
    and "out = pre @ FeedDecoder pts key included # post"
  shows "decoder_open pre
    \<and> (case last_fed pre of None \<Rightarrow> key \<and> included | Some p \<Rightarrow> p < pts \<or> key \<and> included)
    \<and> (case open_output pre of None \<Rightarrow> True | Some _ \<Rightarrow> \<exists>p. last_fed pre = Some p \<and> p < pts)"
  using session_legal[OF assms] by (auto split: option.splits)

text \<open>
  What reaches the virtual camera: a picture is converted and submitted, and a preview published,
  only while an output opened for exactly that configuration is open; an output is opened only while
  none is, with an even width.
\<close>

theorem session_output_matches:
  assumes "receive_stream cfg io turns stopped (stream_start tr) = (s, out, r)" "out = pre @ a # post"
  shows "case a of
      OpenOutput c \<Rightarrow> open_output pre = None \<and> even (cf_width c)
    | Convert c t \<Rightarrow> open_output pre = Some c
    | Submit c \<Rightarrow> open_output pre = Some c
    | PublishPreview c \<Rightarrow> open_output pre = Some c
    | _ \<Rightarrow> True"
  using session_legal[OF assms] by (cases a) (auto simp: even_iff_mod_2_eq_zero)

section \<open>A session\<close>

text \<open>A session on concrete inputs: advertisement, request, pause, commit, configuration, picture.\<close>

definition quiet_turn :: turn where
  "quiet_turn = \<lparr>t_request = None, t_now_prepare = 0, t_send_prepare = Inr (), t_now_deadline = 0,
     t_poll = Inr None, t_now_frame = 0, t_send_commit = Inr (), t_fresh_frame = Inr (),
     t_open_decoder = Inr (), t_feed = Inr (), t_frames = [], t_frames_end = Inr (), t_emit = (\<lambda>_. Inr ())\<rparr>"

definition frame_turn :: "u8 \<Rightarrow> u16 \<Rightarrow> u64 \<Rightarrow> bytes \<Rightarrow> turn" where
  "frame_turn k fl pts payload = quiet_turn\<lparr>t_poll := Inr (Some
     \<lparr>fr_header = \<lparr>kind = k, flags = fl, sequence = 0, payload_len = of_nat (length payload), pts_us = pts\<rparr>,
      fr_payload = payload\<rparr>)\<rparr>"

definition sample_picture :: dec_frame where
  "sample_picture = \<lparr>df_stop = False, df_width = 640, df_height = 480, df_change = None, df_open = Inr (),
     df_ready = Inr True, df_preview = True, df_convert = Inr (), df_submit = Inr (), df_now = 100,
     df_report = False, df_decoder = ''software''\<rparr>"

text \<open>Advertisement, request, pause, configuration, and a first unit that decodes to one picture.\<close>

definition sample_turns :: "turn list" where
  "sample_turns =
     [frame_turn QUALITY_CAPABILITIES 0 0 ([1, 0, 7, 0, 3, 0, 0, 0, 1, 0] @
        [128, 2, 224, 1, 30, 0, 0, 0, 64, 66, 15, 0]),
      quiet_turn\<lparr>t_request := Some (640, 480, 30)\<rparr>,
      frame_turn PAUSED 0 0 [1, 0, 0, 0, 3, 0, 0, 0],
      frame_turn VIDEO_CONFIG 0 0 [128, 2, 224, 1, 30, 0, 0, 0, 0, 0, 0, 0, 1, 1, 0, 0],
      (frame_turn VIDEO_AU 3 5000 [9])\<lparr>t_frames := [sample_picture]\<rparr>]"

definition sample_io :: stream_io where
  "sample_io = \<lparr>si_decoder = Inr (), si_idr = Inr (), si_idr_timeout = False, si_waiting = Inr (),
     si_stop_now = 0, si_failed = (\<lambda>_. Inr ())\<rparr>"
definition sample_tr :: transform where
  "sample_tr = \<lparr>tr_rotation = 0, tr_mirror = False, tr_vertical = False\<rparr>"

definition sample_out :: "stream_out list" where
  "sample_out =
    [OpenDecoder, SendIdr, Emit WaitingEv,
     Emit (QualityCapabilities 0 7 3 [\<lparr>m_width = 640, m_height = 480, m_fps = 30, m_bitrate = 1000000\<rparr>]),
     SendPrepare 1 7 640 480 30,
     DropOutput, Emit WaitingEv, DropDecoder, SendCommit 1 4, Emit (QualityProgress False),
     OpenDecoder, FeedDecoder 5000 True True, OpenOutput \<lparr>cf_width = 640, cf_height = 480, cf_fps = 30\<rparr>,
     Convert \<lparr>cf_width = 640, cf_height = 480, cf_fps = 30\<rparr> sample_tr,
     Submit \<lparr>cf_width = 640, cf_height = 480, cf_fps = 30\<rparr>,
     Emit (QualityApplied 640 480 30), PublishPreview \<lparr>cf_width = 640, cf_height = 480, cf_fps = 30\<rparr>]"

lemmas run_defs = then_do_def ret_def lift_r_def update_def get_state_def perform_def emit_def switch_act_def


lemmas stream_run_defs = run_defs stream_turn_def frame_turn_def quiet_turn_def request_part_def deadline_part_def
  handle_frame_def capabilities_part_def caps_decode_def need_def
  slice_def of_le16_def of_le32_def wire_consts decode_modes.simps mode_of_chunk_def mode_from_def usable_def
  wish_valid_def wish_from_def mode_tuple_def Let_def request_rejection_def send_prepare_def
  frame_new_def header_encode_def validate_payload_size_def prepare_encode_def epoch_decode_def epoch_encode_def
  deliver_quality_def report_quality_def report_action_def apply_action_def config_part_def config_parse_def
  video_part_def decode_part_def keyframe_def config_included_def frame_part_def show_frame_def
  stream_start_def switch_default_def sw_defs APPLY_DEADLINE_MS_def sample_picture_def

lemma sample_session:
  "\<exists>s. receive_stream (settings_default linux_build) sample_io sample_turns False (stream_start sample_tr)
     = (s, sample_out, Inr ())"
  by (simp add: receive_stream_def stream_open_def sample_io_def sample_turns_def stream_run_defs sample_out_def)

lemma session_quality_requests_witness:
  "\<exists>pre post. sample_out = pre @ SendPrepare 1 7 640 480 30 # post
     \<and> (\<exists>ms m. advertised pre = Some (PERMISSION_READY, 7, ms) \<and> m \<in> set ms \<and> mode_tuple m = (640, 480, 30))"
proof -
  obtain s where s: "receive_stream (settings_default linux_build) sample_io sample_turns False
      (stream_start sample_tr) = (s, sample_out, Inr ())" using sample_session by blast
  have o: "sample_out = take 4 sample_out @ SendPrepare 1 7 640 480 30 # drop 5 sample_out"
    by (simp add: sample_out_def)
  have "\<exists>ms m. advertised (take 4 sample_out) = Some (PERMISSION_READY, 7, ms) \<and> m \<in> set ms
      \<and> mode_tuple m = (640, 480, 30)"
    using session_quality_requests[OF s, THEN conjunct1, rule_format, OF o] by auto
  then show ?thesis using o by blast
qed

lemma session_media_order_witness:
  "\<exists>pre post. sample_out = pre @ FeedDecoder 5000 True True # post \<and> decoder_open pre"
proof -
  obtain s where s: "receive_stream (settings_default linux_build) sample_io sample_turns False
      (stream_start sample_tr) = (s, sample_out, Inr ())" using sample_session by blast
  have o: "sample_out = take 11 sample_out @ FeedDecoder 5000 True True # drop 12 sample_out"
    by (simp add: sample_out_def)
  have "decoder_open (take 11 sample_out)" using session_media_order[OF s o] by blast
  then show ?thesis using o by blast
qed

lemma session_output_matches_witness:
  "\<exists>c pre post. sample_out = pre @ Submit c # post \<and> cf_width c = 640 \<and> open_output pre = Some c"
proof -
  obtain s where s: "receive_stream (settings_default linux_build) sample_io sample_turns False
      (stream_start sample_tr) = (s, sample_out, Inr ())" using sample_session by blast
  let ?c = "\<lparr>cf_width = 640, cf_height = 480, cf_fps = 30\<rparr>"
  have o: "sample_out = take 14 sample_out @ Submit ?c # drop 15 sample_out"
    by (simp add: sample_out_def)
  have "open_output (take 14 sample_out) = Some ?c" using session_output_matches[OF s o] by simp
  then show ?thesis using o by (intro exI[of _ ?c] exI[of _ "take 14 sample_out"] exI[of _ "drop 15 sample_out"]) simp
qed

end
