(* ===== verification/Video_Refine.thy ===== *)
theory Video_Refine
  imports Video_Props
begin

text \<open>
  The receive loop refines the quality machine: whatever a session does, the machine inside it went
  through some sequence of machine events, and the protocol messages the session sent are those the
  machine asked for on that sequence, in order. So the theorems about the machine's runs hold of the
  messages of a session.
\<close>

section \<open>Protocol actions\<close>

definition is_send :: "action \<Rightarrow> bool" where
  "is_send a \<longleftrightarrow> (case a of SendPrepareQuality _ _ _ _ _ \<Rightarrow> True | SendCommitQuality _ _ \<Rightarrow> True | _ \<Rightarrow> False)"

definition asked :: "action list \<Rightarrow> action list" where
  "asked actions = filter is_send actions"

fun sends :: "stream_out list \<Rightarrow> action list" where
  "sends [] = []"
| "sends (SendPrepare r rv w h f # out) = SendPrepareQuality r rv w h f # sends out"
| "sends (SendCommit r e # out) = SendCommitQuality r e # sends out"
| "sends (_ # out) = sends out"

lemma sends_append [simp]: "sends (xs @ ys) = sends xs @ sends ys"
  by (induction xs rule: sends.induct) simp_all

lemma asked_append [simp]: "asked (xs @ ys) = asked xs @ asked ys"
  by (simp add: asked_def)

lemma asked_simps [simp]:
  "asked [] = []" "asked (SendPrepareQuality r rv w h f # as) = SendPrepareQuality r rv w h f # asked as"
  "asked (SendCommitQuality r e # as) = SendCommitQuality r e # asked as"
  "asked (ReleaseOutputs # as) = asked as" "asked (ReportApplied w h f # as) = asked as"
  "asked (ReportFailed m # as) = asked as" "asked (StopCapture # as) = asked as"
  "asked (CloseConnection # as) = asked as"
  by (simp_all add: asked_def is_send_def)

section \<open>Computations that follow the machine\<close>

text \<open>A computation that leaves the machine alone and sends the given actions, or a prefix if it fails.\<close>

definition handles :: "action list \<Rightarrow> 'a act \<Rightarrow> bool" where
  "handles as m \<longleftrightarrow> (\<forall>s. case m s of (s', out, r) \<Rightarrow> ss_switch s' = ss_switch s
     \<and> (\<exists>rest. as = sends out @ rest \<and> (case r of Inl _ \<Rightarrow> True | Inr _ \<Rightarrow> rest = [])))"

text \<open>A computation that drives the machine by some events and sends what it asks for.\<close>

definition follows :: "'a act \<Rightarrow> bool" where
  "follows m \<longleftrightarrow> (\<forall>s. case m s of (s', out, r) \<Rightarrow> \<exists>es rest.
     ss_switch s' = run_machine sw_step (ss_switch s) es
     \<and> asked (machine_trace sw_step (ss_switch s) es) = sends out @ rest
     \<and> (case r of Inl _ \<Rightarrow> True | Inr _ \<Rightarrow> rest = []))"

lemma handles_then:
  assumes "handles as m" "\<And>x. handles bs (f x)"
  shows "handles (as @ bs) (then_do m f)"
  unfolding handles_def
proof
  fix s :: stream_state
  obtain s' out r where m: "m s = (s', out, r)" by (metis prod_cases3)
  have h: "ss_switch s' = ss_switch s"
    "\<exists>rest. as = sends out @ rest \<and> (case r of Inl _ \<Rightarrow> True | Inr _ \<Rightarrow> rest = [])"
    using assms(1)[unfolded handles_def, rule_format, of s, unfolded m prod.case] by auto
  show "case then_do m f s of (s', out, r) \<Rightarrow> ss_switch s' = ss_switch s
     \<and> (\<exists>rest. as @ bs = sends out @ rest \<and> (case r of Inl _ \<Rightarrow> True | Inr _ \<Rightarrow> rest = []))"
  proof (cases r)
    case (Inl e)
    then show ?thesis using h m by (auto simp: then_do_def)
  next
    case (Inr x)
    obtain s2 out2 r2 where f: "f x s' = (s2, out2, r2)" by (metis prod_cases3)
    have "ss_switch s2 = ss_switch s'"
      "\<exists>rest. bs = sends out2 @ rest \<and> (case r2 of Inl _ \<Rightarrow> True | Inr _ \<Rightarrow> rest = [])"
      using assms(2)[of x, unfolded handles_def, rule_format, of s', unfolded f prod.case] by auto
    then show ?thesis using h Inr m f by (auto simp: then_do_def)
  qed
qed

lemma follows_then:
  assumes "follows m" "\<And>x. follows (f x)"
  shows "follows (then_do m f)"
  unfolding follows_def
proof
  fix s :: stream_state
  obtain s' out r where m: "m s = (s', out, r)" by (metis prod_cases3)
  obtain es rest where h: "ss_switch s' = run_machine sw_step (ss_switch s) es"
    "asked (machine_trace sw_step (ss_switch s) es) = sends out @ rest"
    "case r of Inl _ \<Rightarrow> True | Inr _ \<Rightarrow> rest = []"
    using assms(1)[unfolded follows_def, rule_format, of s, unfolded m prod.case] by auto
  show "case then_do m f s of (s', out, r) \<Rightarrow> \<exists>es rest.
     ss_switch s' = run_machine sw_step (ss_switch s) es
     \<and> asked (machine_trace sw_step (ss_switch s) es) = sends out @ rest
     \<and> (case r of Inl _ \<Rightarrow> True | Inr _ \<Rightarrow> rest = [])"
  proof (cases r)
    case (Inl e)
    then show ?thesis using h m by (auto simp: then_do_def)
  next
    case (Inr x)
    obtain s2 out2 r2 where f: "f x s' = (s2, out2, r2)" by (metis prod_cases3)
    obtain es2 rest2 where h2: "ss_switch s2 = run_machine sw_step (ss_switch s') es2"
      "asked (machine_trace sw_step (ss_switch s') es2) = sends out2 @ rest2"
      "case r2 of Inl _ \<Rightarrow> True | Inr _ \<Rightarrow> rest2 = []"
      using assms(2)[of x, unfolded follows_def, rule_format, of s', unfolded f prod.case] by auto
    have "run_machine sw_step (ss_switch s) (es @ es2) = ss_switch s2"
      using h(1) h2(1) by (simp add: run_machine_append)
    moreover have "asked (machine_trace sw_step (ss_switch s) (es @ es2)) = sends (out @ out2) @ rest2"
      using h h2(2) Inr by (simp add: machine_trace_append)
    moreover have "then_do m f s = (s2, out @ out2, r2)" using m f Inr by (simp add: then_do_def)
    ultimately show ?thesis using h2(3)
      by (simp only: prod.case) (rule exI[of _ "es @ es2"], rule exI[of _ rest2], simp)
  qed
qed

lemma follows_handles: "handles [] m \<Longrightarrow> follows m"
  unfolding follows_def
proof
  fix s :: stream_state
  assume a: "handles [] m"
  obtain s' out r where m: "m s = (s', out, r)" by (metis prod_cases3)
  have "ss_switch s' = ss_switch s" "sends out = []"
    using a[unfolded handles_def, rule_format, of s, unfolded m prod.case] by auto
  then show "case m s of (s', out, r) \<Rightarrow> \<exists>es rest. ss_switch s' = run_machine sw_step (ss_switch s) es
     \<and> asked (machine_trace sw_step (ss_switch s) es) = sends out @ rest
     \<and> (case r of Inl _ \<Rightarrow> True | Inr _ \<Rightarrow> rest = [])"
    unfolding m prod.case
    by - (rule exI[of _ "[]"], rule exI[of _ "[]"], simp split: sum.split)
qed

text \<open>One machine step and the computation that carries its answer out.\<close>

lemma follows_switch:
  assumes "\<And>sw w as. sw_step sw (now, e) = (w, as) \<Longrightarrow> handles (asked as) (f as)"
  shows "follows (then_do (switch_act now e) f)"
  unfolding follows_def
proof
  fix s :: stream_state
  obtain w as where w: "sw_step (ss_switch s) (now, e) = (w, as)" by fastforce
  obtain s2 out r where f: "f as (s\<lparr>ss_switch := w\<rparr>) = (s2, out, r)" by (metis prod_cases3)
  have h: "ss_switch s2 = w"
    "\<exists>rest. asked as = sends out @ rest \<and> (case r of Inl _ \<Rightarrow> True | Inr _ \<Rightarrow> rest = [])"
    using assms[OF w, unfolded handles_def, rule_format, of "s\<lparr>ss_switch := w\<rparr>", unfolded f prod.case] by auto
  have m: "then_do (switch_act now e) f s = (s2, out, r)"
    using w f by (simp add: then_do_def switch_act_def del: sw_step.simps)
  obtain rest where rest: "asked as = sends out @ rest" "case r of Inl _ \<Rightarrow> True | Inr _ \<Rightarrow> rest = []"
    using h(2) by blast
  show "case then_do (switch_act now e) f s of (s', out, r) \<Rightarrow> \<exists>es rest.
     ss_switch s' = run_machine sw_step (ss_switch s) es
     \<and> asked (machine_trace sw_step (ss_switch s) es) = sends out @ rest
     \<and> (case r of Inl _ \<Rightarrow> True | Inr _ \<Rightarrow> rest = [])"
    unfolding m prod.case
    by (rule exI[of _ "[(now, e)]"], rule exI[of _ rest]) (use w h(1) rest in \<open>simp del: sw_step.simps\<close>)
qed

section \<open>Every part of the loop\<close>

lemma quiet_basic [simp, intro]:
  "handles [] (ret x)" "handles [] (lift_r r)" "handles [] get_state" "handles [] (emit t e)"
  by (simp_all add: handles_def ret_def lift_r_def get_state_def emit_def perform_def split: sum.split)

lemma quiet_update: "(\<And>s. ss_switch (f s) = ss_switch s) \<Longrightarrow> handles [] (update f)"
  by (simp add: handles_def update_def)

lemma quiet_perform: "sends [a] = [] \<Longrightarrow> handles [] (perform a r)"
  by (auto simp: handles_def perform_def split: sum.split)

lemma quiet_then: "handles [] m \<Longrightarrow> (\<And>x. handles [] (f x)) \<Longrightarrow> handles [] (then_do m f)"
  using handles_then[of "[]" m "[]" f] by simp

lemma handles_after: "handles [] m \<Longrightarrow> (\<And>x. handles as (f x)) \<Longrightarrow> handles as (then_do m f)"
  using handles_then[of "[]" m as f] by simp

lemma handles_first: "handles as m \<Longrightarrow> (\<And>x. handles [] (f x)) \<Longrightarrow> handles as (then_do m f)"
  using handles_then[of as m "[]" f] by simp

lemma quiet_if: "(C \<Longrightarrow> handles as m) \<Longrightarrow> (\<not> C \<Longrightarrow> handles as n) \<Longrightarrow> handles as (if C then m else n)"
  by simp

lemma quiet_each: "(\<And>x. handles [] (f x)) \<Longrightarrow> handles [] (for_each f xs)"
  by (induction xs) (auto intro: quiet_then)

lemma follows_if: "(C \<Longrightarrow> follows m) \<Longrightarrow> (\<not> C \<Longrightarrow> follows n) \<Longrightarrow> follows (if C then m else n)"
  by simp

lemma follows_each: "(\<And>x. follows (f x)) \<Longrightarrow> follows (for_each f xs)"
  by (induction xs) (auto intro: follows_then follows_handles)

lemma quiet_report: "handles [] (report_quality t as)"
proof -
  have "handles [] (report_action t b a)" for b a by (cases a) (auto simp: report_action_def)
  then show ?thesis unfolding report_quality_def by (rule quiet_each)
qed

lemma quiet_expire: "handles [] (for_each (expire_action t) as)"
proof -
  have "handles [] (expire_action t a)" for a by (cases a) (auto simp: expire_action_def)
  then show ?thesis by (rule quiet_each)
qed

text \<open>Which events make the machine ask for a message.\<close>

lemma asked_none:
  "sw_step sw (now, e) = (w, as) \<Longrightarrow> (\<forall>rv wd h f. e \<noteq> Prepare rv wd h f) \<Longrightarrow> (\<forall>r n. e \<noteq> Paused r n)
     \<Longrightarrow> asked as = []"
  by (cases e) (auto simp: sw_defs split: if_splits option.splits)

lemma asked_prepare:
  "sw_step sw (now, Prepare rv w h f) = (sw', as) \<Longrightarrow> as = [] \<or> (\<exists>r. as = [SendPrepareQuality r rv w h f])"
  by (auto simp: sw_defs split: option.splits if_splits)

lemma follows_quiet_event:
  assumes "\<forall>rv wd h f. e \<noteq> Prepare rv wd h f" "\<forall>r n. e \<noteq> Paused r n" "\<And>as. handles [] (f as)"
  shows "follows (then_do (switch_act now e) f)"
  by (rule follows_switch) (use asked_none assms in fastforce)

lemma follows_get: "(\<And>s. follows (f s)) \<Longrightarrow> follows (then_do get_state f)"
  by (rule follows_then) (auto intro: follows_handles)

lemma follows_lift: "(\<And>x. follows (f x)) \<Longrightarrow> follows (then_do (lift_r r) f)"
  by (rule follows_then) (auto intro: follows_handles)

lemma follows_request_part: "follows (request_part t)"
proof -
  have send: "handles as (for_each (send_prepare t) as)"
    if "as = [] \<or> (\<exists>r rv w h f. as = [SendPrepareQuality r rv w h f])" for as
  proof -
    have "handles [SendPrepareQuality r rv w h f] (perform (SendPrepare r rv w h f) x)"
      for r rv w h f and x :: "error + unit"
      by (auto simp: handles_def perform_def split: sum.split)
    then have "handles [SendPrepareQuality r rv w h f] (send_prepare t (SendPrepareQuality r rv w h f))"
      for r rv w h f by (auto simp: send_prepare_def intro: handles_after[OF quiet_basic(2)])
    from handles_first[where f = ret, OF this quiet_basic(1)] show ?thesis using that by auto
  qed
  have "follows (then_do (switch_act now (Prepare rv w h f)) (\<lambda>actions.
      then_do (for_each (send_prepare t) actions) (\<lambda>_. ret False)))" for now rv w h f
  proof (rule follows_switch)
    fix sw sw' as assume "sw_step sw (now, Prepare rv w h f) = (sw', as)"
    from asked_prepare[OF this] have a: "asked as = as"
      and b: "as = [] \<or> (\<exists>r rv w h f. as = [SendPrepareQuality r rv w h f])" by auto
    show "handles (asked as) (then_do (for_each (send_prepare t) as) (\<lambda>_. ret False))"
      unfolding a by (rule handles_first[OF send[OF b] quiet_basic(1)])
  qed
  then show ?thesis unfolding request_part_def
    by (auto split: option.split intro!: follows_handles[OF quiet_basic(1)] follows_get
        follows_handles[OF quiet_then])
qed

lemma follows_deliver: "follows (deliver_quality t e)" if "delivered e"
proof -
  have applied: "handles (asked as) (for_each (apply_action t) as)"
    if "sw_step sw (now, e) = (w, as)" for sw now w as
  proof -
    have one: "handles [] (apply_action t ReleaseOutputs)"
      by (auto simp: apply_action_def intro!: quiet_then quiet_perform quiet_update)
    have two: "handles [SendCommitQuality r n] (apply_action t (SendCommitQuality r n))" for r n
    proof -
      have "handles [SendCommitQuality r n] (perform (SendCommit r n) x)" for x :: "error + unit"
        by (auto simp: handles_def perform_def split: sum.split)
      then show ?thesis by (auto simp: apply_action_def intro!: handles_after)
    qed
    have three: "handles [] (apply_action t (ReportFailed reason))" "handles [] (apply_action t StopCapture)"
      "handles [] (apply_action t CloseConnection)" for reason by (simp_all add: apply_action_def)
    from delivered_step[OF \<open>delivered e\<close> that] show ?thesis
      by (elim disjE conjE exE)
        (auto intro!: handles_first[OF two] handles_after[OF one] quiet_then one three)
  qed
  show ?thesis unfolding deliver_quality_def
  proof (rule follows_get, rule follows_switch)
    fix s0 sw w as assume "sw_step sw (t_now_frame t, e) = (w, as)"
    from applied[OF this] show "handles (asked as) (then_do (report_quality t as) (\<lambda>_.
        then_do (for_each (apply_action t) as) (\<lambda>_. then_do get_state (\<lambda>s.
          if ReleaseOutputs \<in> set as \<or> staged (ss_switch s) \<noteq> staged (ss_switch s0)
          then emit t (QualityProgress (staged (ss_switch s))) else ret ()))))"
      by (intro handles_after[OF quiet_report] handles_first quiet_then quiet_if) auto
  qed
qed

lemma follows_handle_frame: "follows (handle_frame t f)"
proof -
  have caps: "follows (capabilities_part t f)"
    unfolding capabilities_part_def
    by (intro follows_if follows_handles[OF quiet_basic(1)] follows_lift follows_quiet_event)
      (auto intro!: quiet_then quiet_update)
  have config: "follows (config_part t f)"
    unfolding config_part_def
    by (intro follows_lift follows_get follows_then[OF follows_if] follows_quiet_event
        follows_handles[OF quiet_if] quiet_then quiet_report quiet_if follows_handles[OF quiet_update])
      auto
  have show_frame: "follows (show_frame t c d active)" for c d active
    unfolding show_frame_def
    by (intro follows_if follows_handles[OF quiet_basic(1)] follows_get follows_then[OF follows_handles[OF quiet_perform]]
        follows_then[OF follows_if] follows_then[OF follows_handles[OF quiet_update]] follows_quiet_event quiet_report
        follows_handles[OF quiet_if] quiet_perform) auto
  have frame: "follows (frame_part t c d)" for c d
    unfolding frame_part_def
    by (intro follows_if follows_handles[OF quiet_basic(2)] follows_then[OF follows_handles[OF quiet_update]] follows_get
        follows_then[OF follows_handles[OF quiet_if]] quiet_then quiet_perform quiet_update follows_lift
        follows_then[OF show_frame] follows_handles[OF quiet_if]) auto
  have frames: "follows (frames_part t c ds)" for c ds
    by (induction ds) (auto intro!: follows_if follows_handles[OF quiet_basic(1)] follows_handles[OF quiet_basic(2)] follows_then[OF frame])
  have decode: "follows (decode_part t f c)" for c
    unfolding decode_part_def
    by (intro follows_get follows_then[OF follows_handles[OF quiet_if]] quiet_then quiet_perform quiet_update
        follows_then[OF follows_handles[OF quiet_perform]] follows_then[OF follows_handles[OF quiet_update]] frames) auto
  have video: "follows (video_part t f)"
    unfolding video_part_def
    by (auto split: option.split intro!: follows_if follows_handles[OF quiet_basic(1)] follows_handles[OF quiet_basic(2)] follows_get decode)
  have pairing: "follows (pairing_part t f)"
    unfolding pairing_part_def by (auto intro: follows_lift follows_handles)
  have result: "follows (case result_event r of None \<Rightarrow> ret () | Some e \<Rightarrow> deliver_quality t e)" for r
  proof (cases "result_event r")
    case (Some e)
    then have "delivered e" by (auto simp: result_event_def split: if_splits)
    then show ?thesis using Some follows_deliver by simp
  qed (simp add: follows_handles)
  show ?thesis unfolding handle_frame_def Let_def
    by (intro follows_if pairing caps config video follows_lift result follows_deliver) auto
qed

lemma follows_turn: "follows (stream_turn t)"
proof -
  have deadline: "follows (deadline_part t)"
    unfolding deadline_part_def
    by (intro follows_get follows_if follows_quiet_event quiet_expire follows_handles[OF quiet_basic(1)]) auto
  have "follows (case incoming of None \<Rightarrow> ret () | Some f \<Rightarrow> handle_frame t f)" for incoming
    by (cases incoming) (auto intro: follows_handles follows_handle_frame)
  then show ?thesis unfolding stream_turn_def
    by (intro follows_then[OF follows_request_part] follows_if follows_handles[OF quiet_basic(1)]
        follows_then[OF deadline] follows_lift) auto
qed

lemma follows_session: "follows (receive_stream cfg io turns stopped)"
proof -
  have opened: "follows (stream_open cfg io)"
    unfolding stream_open_def by (intro follows_handles quiet_then quiet_perform quiet_basic) auto
  have stop: "handles [] (stop_action io a)" for a
    by (cases a) (auto simp: stop_action_def intro: quiet_perform)
  have close: "follows (stream_close io)"
    unfolding stream_close_def by (intro follows_quiet_event quiet_each stop) auto
  show ?thesis unfolding receive_stream_def
    by (intro follows_then[OF opened] follows_then[OF follows_each[OF follows_turn]] follows_if close
        follows_handles[OF quiet_basic(1)])
qed

section \<open>Properties\<close>

text \<open>
  C19. The loop implements the quality machine: for every session there is a sequence of machine
  events whose run from the fresh machine ends in the session's machine state, and the protocol
  messages the session sent are, in order, those the machine asked for on that run: all of them when
  the session has not failed, the first ones when it has.
\<close>

theorem session_refines_switch:
  assumes "receive_stream cfg io turns stopped (stream_start tr) = (s, out, r)"
  shows "\<exists>es unsent. ss_switch s = sw_run es \<and> asked (sw_trace es) = sends out @ unsent
    \<and> (case r of Inl _ \<Rightarrow> True | Inr _ \<Rightarrow> unsent = [])"
  using follows_session[of cfg io turns stopped] assms
  by (auto simp: follows_def stream_start_def dest!: spec[of _ "stream_start tr"])

lemma session_refines_switch_witness:
  "\<exists>es. asked (sw_trace es) = [SendPrepareQuality 1 7 640 480 30, SendCommitQuality 1 4]"
proof -
  obtain s where s: "receive_stream (settings_default linux_build) sample_io sample_turns False
      (stream_start sample_tr) = (s, sample_out, Inr ())" using sample_session by blast
  from session_refines_switch[OF s] show ?thesis by (auto simp: sample_out_def)
qed

text \<open>
  A phone that stalls cannot hang an apply: once the deadline of a busy machine has passed, the
  next turn without a new request ends the session, whatever the transport would have given, with one
  final report to the application and nothing sent to the phone; the machine has then failed.
\<close>

theorem expired_apply_ends_session:
  assumes "t_request t = None" "busy (ss_switch s)"
    and "sw_deadline (ss_switch s) = Some d" "d \<le> t_now_deadline t"
  shows "\<exists>s'. stream_turn t s =
      (s', [Emit (QualityFailed ''the apply deadline expired'' True)],
       case t_emit t (QualityFailed ''the apply deadline expired'' True) of
         Inl e \<Rightarrow> Inl e | Inr _ \<Rightarrow> Inl reason_of_expiry)
    \<and> sw_phase (ss_switch s') = Failed \<and> sw_deadline (ss_switch s') = None"
proof -
  have sw: "sw_step (ss_switch s) (t_now_deadline t, DeadlineExceeded)
      = sw_fail (ss_switch s) ''the apply deadline expired''"
    using assms by simp
  show ?thesis
    using assms(1,2) sw
    by (auto simp: stream_turn_def request_part_def deadline_part_def then_do_def ret_def get_state_def
        switch_act_def sw_fail_def expire_action_def emit_def perform_def lift_r_def
        simp del: sw_step.simps split: sum.split)
qed

lemma expired_apply_ends_session_witness:
  "\<exists>s'. stream_turn (quiet_turn\<lparr>t_now_deadline := 9000\<rparr>)
      ((stream_start sample_tr)\<lparr>ss_switch := fst (sw_step switch_default (100, Prepare 7 640 480 30))\<rparr>)
    = (s', [Emit (QualityFailed ''the apply deadline expired'' True)], Inl reason_of_expiry)
    \<and> sw_phase (ss_switch s') = Failed"
proof -
  let ?s = "(stream_start sample_tr)\<lparr>ss_switch := fst (sw_step switch_default (100, Prepare 7 640 480 30))\<rparr>"
  let ?t = "quiet_turn\<lparr>t_now_deadline := 9000\<rparr>"
  have "t_request ?t = None" "busy (ss_switch ?s)" "sw_deadline (ss_switch ?s) = Some 5100" "5100 \<le> t_now_deadline ?t"
    by (simp_all add: quiet_turn_def sw_defs switch_default_def APPLY_DEADLINE_MS_def)
  from expired_apply_ends_session[OF this] show ?thesis by (auto simp: quiet_turn_def simp del: sw_step.simps)
qed

end
