(* ===== verification/Session.thy ===== *)
theory Session
  imports Control
begin

text \<open>
  The application's side of the worker process, \<open>session.rs\<close>: starting it, the commands queued for it,
  the events polled from it, stopping and reaping it, and the helper process that runs the host setup
  first. Time is in milliseconds; what a poll finds (the events that have arrived, the clock at each
  place it is read, the process status) is a record. The effects on the outside are a list. Repaint
  requests, the reader thread's channel and the Windows job object are not modelled.
\<close>

section \<open>State\<close>

datatype state =
    Idle
  | Connecting
  | ApprovalPending ustr
  | Waiting
  | Streaming
  | Stopping
  | Failed string

text \<open>The commands waiting for the writer: the newest of each kind, a quality request first.\<close>

record pending =
  pe_quality :: "command option"
  pe_transform :: "command option"

definition pending_none :: pending where
  "pending_none = \<lparr>pe_quality = None, pe_transform = None\<rparr>"

definition pending_take :: "pending \<Rightarrow> command option \<times> pending" where
  "pending_take p =
     (case pe_quality p of
        Some c \<Rightarrow> (Some c, p\<lparr>pe_quality := None\<rparr>)
      | None \<Rightarrow> (pe_transform p, p\<lparr>pe_transform := None\<rparr>))"

record auxiliary =
  aux_restart :: "(settings \<times> device_id option \<times> bool) option"

record session =
  se_child :: bool
  se_events :: bool
  se_stop :: bool
  se_pending :: pending
  se_deadline :: "nat option"
  se_quality_deadline :: "nat option"
  se_writer :: bool
  se_pairing_info :: "pairing_info option"
  se_state :: state
  se_stats :: "host_event option"
  se_stats_at :: "nat option"
  se_usb_permission :: "device_id option"
  se_quality :: client
  se_auxiliary :: "auxiliary option"

definition session_new :: session where
  "session_new = \<lparr>se_child = False, se_events = False, se_stop = False, se_pending = pending_none,
     se_deadline = None, se_quality_deadline = None, se_writer = False, se_pairing_info = None,
     se_state = Idle, se_stats = None, se_stats_at = None, se_usb_permission = None,
     se_quality = client_new wish_default, se_auxiliary = None\<rparr>"

text \<open>What is sent to the standard input of a helper, and the effects.\<close>

datatype helper_input = NoInput | DeviceInput device_id | ScriptInput ustr

datatype effect =
    SpawnWorker settings "device_id option"
  | SpawnHelper "ustr list" helper_input
  | KillWorker
  | KillHelper
  | WakeWriter

definition running :: "session \<Rightarrow> bool" where
  "running s \<longleftrightarrow> se_auxiliary s \<noteq> None \<or> se_child s"

definition apply_expiry :: "nat \<Rightarrow> nat" where
  "apply_expiry now = now + 5000"

section \<open>Operations\<close>

text \<open>\<open>spawned\<close> is the outcome of creating the process and taking its pipes.\<close>

definition session_start ::
  "settings \<Rightarrow> device_id option \<Rightarrow> error + unit \<Rightarrow> session \<Rightarrow> (error + unit) \<times> session \<times> effect list" where
  "session_start cfg device spawned s =
     (if running s then (Inl (Msg ''session is already running''), s, [])
      else let s1 = s\<lparr>se_stop := False, se_pending := pending_none, se_stats := None, se_stats_at := None,
                     se_usb_permission := None, se_quality := client_new (quality_wish cfg),
                     se_quality_deadline := None\<rparr>
           in case spawned of
                Inl e \<Rightarrow> (Inl e, s1, [])
              | Inr _ \<Rightarrow> (Inr (), s1\<lparr>se_writer := True, se_child := True, se_events := True, se_state := Connecting\<rparr>,
                         [SpawnWorker cfg device]))"

text \<open>
  The writer thread: the start command, then at every turn the stop flag and the waiting commands it
  finds; and the reader thread: what it passes on of the worker's messages. Commands whose write was
  attempted, events sent; a script that is used up is still waiting.
\<close>

fun writer_loop :: "(command \<Rightarrow> error + unit) \<Rightarrow> (bool \<times> pending) list \<Rightarrow> command list" where
  "writer_loop w [] = []"
| "writer_loop w ((stop, p) # turns) =
     (if stop then [Stop]
      else case fst (pending_take p) of
             None \<Rightarrow> writer_loop w turns
           | Some c \<Rightarrow> c # (case w c of Inl _ \<Rightarrow> [] | Inr _ \<Rightarrow> writer_loop w turns))"

definition writer_run ::
  "(command \<Rightarrow> error + unit) \<Rightarrow> settings \<Rightarrow> device_id option \<Rightarrow> (bool \<times> pending) list \<Rightarrow> command list" where
  "writer_run w cfg device turns =
     Start cfg device # (case w (Start cfg device) of Inl _ \<Rightarrow> [] | Inr _ \<Rightarrow> writer_loop w turns)"

definition reader_end :: "bool \<Rightarrow> host_event list" where
  "reader_end stopped = (if stopped then [] else [ErrorEv ''Receiver stopped unexpectedly'']) @ [StoppedEv]"

fun reader_run :: "bool \<Rightarrow> (error + host_event option) list \<Rightarrow> host_event list" where
  "reader_run stopped [] = []"
| "reader_run stopped (r # rs) =
     (case r of
        Inr (Some e) \<Rightarrow> e # reader_run (stopped \<or> e = StoppedEv) rs
      | Inr None \<Rightarrow> reader_end stopped
      | Inl e \<Rightarrow> ErrorEv (error_text e) # reader_end stopped)"

definition wake :: "session \<Rightarrow> effect list" where
  "wake s = (if se_writer s then [WakeWriter] else [])"

definition queue_quality :: "mode \<Rightarrow> session \<Rightarrow> session \<times> effect list" where
  "queue_quality m s =
     (s\<lparr>se_pending := (se_pending s)\<lparr>pe_quality := Some (PrepareQualityCmd (m_width m) (m_height m) (m_fps m))\<rparr>\<rparr>,
      wake s)"

definition failed_state :: "state \<Rightarrow> bool" where
  "failed_state st \<longleftrightarrow> (case st of Failed _ \<Rightarrow> True | _ \<Rightarrow> False)"

definition session_prepare :: "u16 \<Rightarrow> u16 \<Rightarrow> u16 \<Rightarrow> nat \<Rightarrow> session \<Rightarrow> bool \<times> session \<times> effect list" where
  "session_prepare width height fps now s =
     (let w = wish_from (width, height, fps)
      in if \<not> running s \<or> se_state s = Stopping \<or> failed_state (se_state s)
            \<or> cl_pending (se_quality s) \<noteq> None \<or> \<not> client_ready (se_quality s)
            \<or> client_resolve (se_quality s) w = None
         then (False, s, [])
         else case client_begin (se_quality s) w of
                (q, None) \<Rightarrow> (True, s\<lparr>se_quality := q\<rparr>, [])
              | (q, Some m) \<Rightarrow>
                  let (s', out) = queue_quality m (s\<lparr>se_quality := q, se_quality_deadline := Some (apply_expiry now)\<rparr>)
                  in (True, s', out))"

definition session_transform :: "settings \<Rightarrow> session \<Rightarrow> session \<times> effect list" where
  "session_transform cfg s =
     (case se_auxiliary s of
        Some aux \<Rightarrow>
          (s\<lparr>se_auxiliary := Some (aux\<lparr>aux_restart := map_option (\<lambda>(st, d, sw).
              (st\<lparr>rotation := rotation cfg, mirror := mirror cfg, vertical_flip := vertical_flip cfg\<rparr>, d, sw))
              (aux_restart aux)\<rparr>)\<rparr>, [])
      | None \<Rightarrow>
          if running s
          then (s\<lparr>se_pending := (se_pending s)\<lparr>pe_transform :=
                  Some (TransformCmd (rotation cfg) (mirror cfg) (vertical_flip cfg))\<rparr>\<rparr>, wake s)
          else (s, []))"

definition session_stop :: "nat \<Rightarrow> session \<Rightarrow> session \<times> effect list" where
  "session_stop now s =
     (let s1 = s\<lparr>se_quality_deadline := None,
                se_quality := (se_quality s)\<lparr>cl_pending := None, cl_staged := False\<rparr>\<rparr>
      in case se_auxiliary s1 of
           Some aux \<Rightarrow> (s1\<lparr>se_auxiliary := Some (aux\<lparr>aux_restart := None\<rparr>), se_state := Stopping\<rparr>, [KillHelper])
         | None \<Rightarrow>
             if running s1
             then (s1\<lparr>se_stop := True, se_deadline := Some (now + 1000), se_state := Stopping\<rparr>, wake s1)
             else (s1, []))"

definition take_pairing_info :: "session \<Rightarrow> pairing_info option \<times> session" where
  "take_pairing_info s = (se_pairing_info s, s\<lparr>se_pairing_info := None\<rparr>)"

section \<open>Events\<close>

text \<open>\<open>Ipv4Addr::from_str\<close>: four decimal numbers below 256, without leading zeros.\<close>

definition parse_octet :: "ustr \<Rightarrow> u8 option" where
  "parse_octet s =
     (if s = [] \<or> length s > 3 \<or> \<not> list_all is_ascii_digit s \<or> (hd s = chr CHR ''0'' \<and> length s > 1) then None
      else case parse_digits 10 0 s of
             None \<Rightarrow> None | Some n \<Rightarrow> if n < 256 then Some (of_nat n) else None)"

definition parse_ipv4 :: "ustr \<Rightarrow> ipv4 option" where
  "parse_ipv4 s =
     (case map parse_octet (split_char (chr CHR ''.'') s) of
        [Some a, Some b, Some c, Some d] \<Rightarrow> Some (a, b, c, d) | _ \<Rightarrow> None)"

definition pairing_taken :: "ustr list \<Rightarrow> ustr \<Rightarrow> ustr \<Rightarrow> pairing_info option" where
  "pairing_taken addresses fingerprint key =
     (let parsed = List.map_filter parse_ipv4 addresses
      in if parsed \<noteq> [] \<and> str_len fingerprint = 64 \<and> str_len key = 32 \<and> is_hex fingerprint 32 \<and> is_hex key 16
         then Some \<lparr>pi_addresses = parsed, pi_fingerprint = fingerprint, pi_key = key\<rparr> else None)"

text \<open>
  One event of the worker while the session is not stopping: the new state, whether the session is
  finished, and the effects. \<open>now\<close> is the clock at the event.
\<close>

definition on_stats :: "nat \<Rightarrow> host_event \<Rightarrow> session \<Rightarrow> session" where
  "on_stats now e s =
     (let live = st_active e \<and> st_submitted e > 0;
          q = se_quality s
      in s\<lparr>se_quality := (if live \<and> cl_pending q = None
              then q\<lparr>cl_applied := Some (ucast (st_width e), ucast (st_height e), ucast (st_target_fps e))\<rparr> else q),
           se_state := (if live then Streaming else Waiting), se_stats := Some e, se_stats_at := Some now\<rparr>)"

definition on_progress :: "nat \<Rightarrow> bool \<Rightarrow> session \<Rightarrow> session" where
  "on_progress now staged s =
     (let was_staged = cl_staged (se_quality s); q = client_progress (se_quality s) staged
      in s\<lparr>se_quality := q,
           se_quality_deadline := (if staged then None
             else if was_staged \<and> cl_pending q \<noteq> None then Some (apply_expiry now)
             else se_quality_deadline s)\<rparr>)"

definition on_capabilities :: "nat \<Rightarrow> u8 \<Rightarrow> mode list \<Rightarrow> session \<Rightarrow> session \<times> effect list" where
  "on_capabilities now perm ms s =
     (case client_advertise (se_quality s) perm ms of
        (q, None) \<Rightarrow> (s\<lparr>se_quality := q\<rparr>, [])
      | (q, Some m) \<Rightarrow> queue_quality m (s\<lparr>se_quality := q, se_quality_deadline := Some (apply_expiry now)\<rparr>))"

fun live_event :: "nat \<Rightarrow> host_event \<Rightarrow> session \<Rightarrow> session \<times> bool \<times> effect list" where
  "live_event now (PairingInfoEv addresses fingerprint key) s =
     (case pairing_taken addresses fingerprint key of
        None \<Rightarrow> (s, False, []) | Some info \<Rightarrow> (s\<lparr>se_pairing_info := Some info\<rparr>, False, []))"
| "live_event now ConnectingEv s = (s\<lparr>se_state := Connecting\<rparr>, False, [])"
| "live_event now WaitingEv s = (s\<lparr>se_state := Waiting\<rparr>, False, [])"
| "live_event now (AuthorizationPending client_id) s =
     (if str_len client_id = 32 \<and> list_all is_ascii_hexdigit (utf8 client_id)
      then (s\<lparr>se_state := ApprovalPending client_id\<rparr>, False, [])
      else (s\<lparr>se_state := Failed ''receiver reported an invalid PC ID''\<rparr>, True, []))"
| "live_event now (Stats decoded submitted active width height fps decoder) s =
     (on_stats now (Stats decoded submitted active width height fps decoder) s, False, [])"
| "live_event now (ErrorEv message) s = (s\<lparr>se_state := Failed message\<rparr>, False, [])"
| "live_event now (UsbPermission device) s = (s\<lparr>se_usb_permission := Some device\<rparr>, False, [])"
| "live_event now (QualityCapabilities perm revision ep ms) s =
     (let (s', out) = on_capabilities now perm ms s in (s', False, out))"
| "live_event now (QualityProgress staged) s = (on_progress now staged s, False, [])"
| "live_event now (QualityApplied width height fps) s =
     (case client_confirmed (se_quality s) width height fps of
        (q, True) \<Rightarrow> (s\<lparr>se_quality_deadline := None, se_quality := q\<rparr>, False, [])
      | (q, False) \<Rightarrow> (s\<lparr>se_quality_deadline := None, se_quality := q,
           se_state := Failed ''receiver confirmed an unexpected quality''\<rparr>, True, []))"
| "live_event now (QualityFailed reason terminal) s =
     (let s1 = s\<lparr>se_quality_deadline := None, se_quality := client_failed (se_quality s) reason\<rparr>
      in if terminal then (s1\<lparr>se_state := Failed reason\<rparr>, True, []) else (s1, False, []))"
| "live_event now StoppedEv s = (s, True, [])"

definition on_event :: "nat \<Rightarrow> host_event \<Rightarrow> session \<times> bool \<Rightarrow> session \<times> bool \<times> effect list" where
  "on_event now e sf =
     (case sf of (s, finished) \<Rightarrow>
       if se_state s = Stopping \<or> finished then (s, finished \<or> e = StoppedEv, []) else live_event now e s)"

fun on_events :: "(host_event \<times> nat) list \<Rightarrow> session \<times> bool \<Rightarrow> session \<times> bool \<times> effect list" where
  "on_events [] sf = (fst sf, snd sf, [])"
| "on_events ((e, now) # es) sf =
     (let (s, finished, out) = on_event now e sf; (s', finished', out') = on_events es (s, finished)
      in (s', finished', out @ out'))"

section \<open>Polling\<close>

text \<open>What waiting for a process answers (an exit has a success flag and its text), and what a poll finds.\<close>

datatype exit_status = StillRunning | Exited bool string | WaitFails error

record poll_io =
  pl_events :: "(host_event \<times> nat) list"
  pl_now_stats :: nat
  pl_now_quality :: nat
  pl_now_stop :: nat
  pl_now_end :: nat
  pl_status :: exit_status
  pl_helper_error :: string
  pl_switched :: "device_id \<Rightarrow> error + device_id"
  pl_spawn :: "error + unit"

definition poll_restart :: "poll_io \<Rightarrow> settings \<times> device_id option \<times> bool \<Rightarrow> session \<Rightarrow> session \<times> effect list" where
  "poll_restart io restart s =
     (case restart of (cfg, device, switched) \<Rightarrow>
       (case (if switched
              then (case device of
                      None \<Rightarrow> Inl (Msg ''missing switched USB device'')
                    | Some d \<Rightarrow> try_r (pl_switched io d) (\<lambda>d'. Inr (Some d')))
              else Inr device) of
          Inl e \<Rightarrow> (s\<lparr>se_state := Failed (error_text e)\<rparr>, [])
        | Inr dev \<Rightarrow>
            (case session_start cfg dev (pl_spawn io) s of
               (Inl e, s', out) \<Rightarrow> (s'\<lparr>se_state := Failed (error_text e)\<rparr>, out)
             | (Inr _, s', out) \<Rightarrow> (s', out))))"

definition poll_helper :: "poll_io \<Rightarrow> auxiliary \<Rightarrow> session \<Rightarrow> session \<times> effect list" where
  "poll_helper io aux s =
     (case pl_status io of
        StillRunning \<Rightarrow> (s, [])
      | WaitFails e \<Rightarrow> (s\<lparr>se_auxiliary := None, se_state := Failed (error_text e)\<rparr>, [])
      | Exited success status \<Rightarrow>
          if success \<or> se_state s = Stopping
          then (let s1 = s\<lparr>se_auxiliary := None, se_state := Idle\<rparr>
                in case aux_restart aux of None \<Rightarrow> (s1, []) | Some restart \<Rightarrow> poll_restart io restart s1)
          else (s\<lparr>se_auxiliary := None,
                  se_state := Failed (''USB/setup request failed ('' @ status @ ''): '' @ pl_helper_error io)\<rparr>, []))"

definition stale_stats :: "nat \<Rightarrow> session \<Rightarrow> session" where
  "stale_stats now s =
     (if se_state s = Streaming \<and> (case se_stats_at s of None \<Rightarrow> False | Some t \<Rightarrow> now - t \<ge> 3000)
      then s\<lparr>se_state := Waiting\<rparr> else s)"

definition reached :: "nat option \<Rightarrow> nat \<Rightarrow> bool" where
  "reached deadline now \<longleftrightarrow> (case deadline of None \<Rightarrow> False | Some d \<Rightarrow> now \<ge> d)"

definition expire_quality :: "nat \<Rightarrow> session \<times> bool \<Rightarrow> session \<times> bool" where
  "expire_quality now sf =
     (case sf of (s, finished) \<Rightarrow>
       if reached (se_quality_deadline s) now
       then (s\<lparr>se_quality_deadline := None,
               se_quality := client_failed (se_quality s) ''the quality apply deadline expired'',
               se_state := Failed ''the quality apply deadline expired''\<rparr>, True)
       else (s, finished))"

text \<open>The stop deadline and the exit status: the state, whether it is finished, whether it is reaped.\<close>

definition reap :: "poll_io \<Rightarrow> session \<times> bool \<Rightarrow> session \<times> bool \<times> bool \<times> effect list" where
  "reap io sf =
     (case sf of (s, finished) \<Rightarrow>
       let late = reached (se_deadline s) (pl_now_stop io);
           out = (if late \<and> se_child s then [KillWorker] else []);
           finished = (finished \<or> late)
       in if \<not> se_child s then (s, finished, True, out)
          else case pl_status io of
                 StillRunning \<Rightarrow> (s, finished, False, out)
               | WaitFails e \<Rightarrow> (s\<lparr>se_state := Failed (error_text e)\<rparr>, True, False, out)
               | Exited success status \<Rightarrow>
                   ((if \<not> success \<and> \<not> failed_state (se_state s) \<and> se_state s \<noteq> Stopping
                     then s\<lparr>se_state := Failed (''receiver exited ('' @ status @ '')'')\<rparr> else s), True, True, out))"

definition finish :: "nat \<Rightarrow> bool \<Rightarrow> session \<Rightarrow> session \<times> effect list" where
  "finish now reaped s =
     (let s1 = s\<lparr>se_quality_deadline := None, se_quality := client_disconnected (se_quality s), se_stop := True,
                se_writer := False, se_events := False\<rparr>
      in if \<not> reaped
         then (s1\<lparr>se_state := (if failed_state (se_state s) then se_state s else Stopping),
                 se_deadline := Some (now + 100)\<rparr>, wake s @ (if se_child s then [KillWorker] else []))
         else (s1\<lparr>se_child := False, se_deadline := None,
                 se_state := (if failed_state (se_state s) then se_state s else Idle)\<rparr>, wake s))"

definition poll_worker :: "poll_io \<Rightarrow> session \<Rightarrow> session \<times> effect list" where
  "poll_worker io s =
     (let (s1, finished1, out1) = (if se_events s then on_events (pl_events io) (s, False) else (s, False, []));
          (s2, finished2) = expire_quality (pl_now_quality io) (stale_stats (pl_now_stats io) s1, finished1);
          (s3, finished3, reaped, out3) = reap io (s2, finished2)
      in if finished3
         then (let (s4, out4) = finish (pl_now_end io) reaped s3 in (s4, out1 @ out3 @ out4))
         else (s3, out1 @ out3))"

definition session_poll :: "poll_io \<Rightarrow> session \<Rightarrow> session \<times> effect list" where
  "session_poll io s = (case se_auxiliary s of Some aux \<Rightarrow> poll_helper io aux s | None \<Rightarrow> poll_worker io s)"

definition session_drop :: "session \<Rightarrow> effect list" where
  "session_drop s = wake s @ (if se_child s then [KillWorker] else [])
     @ (if se_auxiliary s \<noteq> None then [KillHelper] else [])"

end
