(* ===== verification/Session_Setup.thy ===== *)
theory Session_Setup
  imports Session
begin

text \<open>
  The Linux half of \<open>session.rs\<close>: what is run with the user's consent as root. The packaged helper's
  path, the device as JSON, the embedded setup script, the command line that is built from them, and
  the entry points (\<open>connect\<close>, \<open>allow_usb\<close>, \<open>setup\<close>). What the file system, \<open>serde_json\<close>, libusb
  and the new process answer are arguments, and so are the assets the build embeds.
\<close>

section \<open>What the root helper is given\<close>

record assets =
  as_script :: ustr
  as_rules :: ustr
  as_modprobe :: ustr
  as_modules :: ustr

definition terminator :: ustr where "terminator = lit ''MOBILE_WEBCAM_ASSET_END''"

definition trim_newlines :: "ustr \<Rightarrow> ustr" where
  "trim_newlines s = rev (dropWhile (\<lambda>c. c = 10) (rev s))"

definition asset_safe :: "ustr \<Rightarrow> bool" where
  "asset_safe asset \<longleftrightarrow> terminator \<notin> set (str_lines asset) \<and> \<not> contains (lit ''__MOBILE_WEBCAM_'') asset"

definition placeholders :: "ustr list" where
  "placeholders = [lit ''__MOBILE_WEBCAM_UDEV_RULES__'', lit ''__MOBILE_WEBCAM_MODPROBE_CONF__'',
     lit ''__MOBILE_WEBCAM_MODULES_CONF__'']"

definition embedded_setup_script :: "assets \<Rightarrow> error + ustr" where
  "embedded_setup_script a =
     (if \<not> list_all asset_safe [as_rules a, as_modprobe a, as_modules a]
      then Inl (Msg ''host setup asset is not safe to embed'')
      else let script = replace_all (lit ''__MOBILE_WEBCAM_MODULES_CONF__'') (trim_newlines (as_modules a))
                 (replace_all (lit ''__MOBILE_WEBCAM_MODPROBE_CONF__'') (trim_newlines (as_modprobe a))
                 (replace_all (lit ''__MOBILE_WEBCAM_UDEV_RULES__'') (trim_newlines (as_rules a)) (as_script a)))
           in if list_ex (\<lambda>p. contains p script) placeholders
              then Inl (Msg ''host setup script is missing embedded assets'')
              else Inr script)"

definition device_json :: "device_id \<Rightarrow> ustr" where
  "device_json d =
     lit ''{'' @ [34] @ lit ''bus'' @ [34] @ lit '':'' @ show_dec (unat (dev_bus d))
     @ lit '','' @ [34] @ lit ''address'' @ [34] @ lit '':'' @ show_dec (unat (dev_address d))
     @ lit '','' @ [34] @ lit ''vid'' @ [34] @ lit '':'' @ show_dec (unat (dev_vid d))
     @ lit '','' @ [34] @ lit ''pid'' @ [34] @ lit '':'' @ show_dec (unat (dev_pid d))
     @ lit '','' @ [34] @ lit ''ports'' @ [34] @ lit '':['' @ join_with (lit '','') (map (\<lambda>p. show_dec (unat p)) (dev_ports d))
     @ lit '']}''"

definition validated_device_json :: "(ustr \<Rightarrow> error + device_id) \<Rightarrow> device_id \<Rightarrow> error + ustr" where
  "validated_device_json from_str d =
     (if length (dev_ports d) > 32 then Inl (Msg ''Invalid device identity.'')
      else try_r (from_str (device_json d)) (\<lambda>parsed.
        if parsed \<noteq> d then Inl (Msg ''Invalid device identity.'') else Inr (device_json d)))"

text \<open>
  The packaged helper: whether the executable has a parent directory, what is at the path beside it
  (nothing, or a file type that is regular or not, links not followed), and its canonical path when
  that is text. \<open>path_parts\<close> is \<open>Path::components\<close> of an absolute path without its root.
\<close>

record helper_probe =
  hp_parent :: bool
  hp_meta :: "error + bool option"
  hp_canonical :: "error + ustr option"

definition path_parts :: "ustr \<Rightarrow> ustr list" where
  "path_parts text = filter (\<lambda>c. c \<noteq> [] \<and> c \<noteq> lit ''.'') (split_char (chr CHR ''/'') text)"

definition helper_path_ok :: "ustr \<Rightarrow> bool" where
  "helper_path_ok text \<longleftrightarrow>
     path_parts text \<noteq> [] \<and> last (path_parts text) = lit ''mobile-webcam-usb''
     \<and> starts_with (lit ''/'') text \<and> 10 \<notin> set text \<and> 0 \<notin> set text
     \<and> lit ''..'' \<notin> set (path_parts text)"

definition packaged_usb_helper :: "helper_probe \<Rightarrow> error + ustr option" where
  "packaged_usb_helper p =
     (if \<not> hp_parent p then Inr None
      else try_r (hp_meta p) (\<lambda>meta. case meta of
        None \<Rightarrow> Inr None
      | Some regular \<Rightarrow>
          if \<not> regular then Inl (Msg ''Invalid USB helper path.'')
          else try_r (hp_canonical p) (\<lambda>canonical. case canonical of
            None \<Rightarrow> Inl (Msg ''Invalid USB helper path.'')
          | Some text \<Rightarrow>
              if helper_path_ok text then Inr (Some text) else Inl (Msg ''Invalid USB helper path.''))))"

section \<open>The command line\<close>

definition setup_prefix :: "ustr list" where
  "setup_prefix = [lit ''pkexec'', lit ''--disable-internal-agent'', lit ''/bin/sh'', lit ''-s'', lit ''--'']"

definition helper_args :: "ustr option \<Rightarrow> ustr list" where
  "helper_args helper = (case helper of None \<Rightarrow> [] | Some h \<Rightarrow> [lit ''--helper'', h])"

definition switch_args :: "nat \<Rightarrow> ustr option \<Rightarrow> ustr list" where
  "switch_args parent json = (case json of None \<Rightarrow> []
     | Some j \<Rightarrow> [lit ''--switch-parent'', show_dec parent, lit ''--device-json'', j])"

text \<open>The command with its arguments, and the script for its standard input.\<close>

definition host_setup_invocation ::
  "helper_probe \<Rightarrow> (ustr \<Rightarrow> error + device_id) \<Rightarrow> assets \<Rightarrow> nat \<Rightarrow> device_id option \<Rightarrow> error + (ustr list \<times> ustr)" where
  "host_setup_invocation probe from_str a parent device =
     (if parent = 0 then Inl (Msg ''Invalid parent PID.'')
      else try_r (packaged_usb_helper probe) (\<lambda>helper.
        if device \<noteq> None \<and> helper = None then Inl (Msg ''USB helper is not included in this build.'')
        else try_r (case device of None \<Rightarrow> Inr None
                    | Some d \<Rightarrow> try_r (validated_device_json from_str d) (\<lambda>j. Inr (Some j))) (\<lambda>json.
          try_r (embedded_setup_script a) (\<lambda>script.
            Inr (setup_prefix @ helper_args helper @ switch_args parent json, script)))))"

definition switch_command :: "nat \<Rightarrow> ustr list" where
  "switch_command parent =
     [lit ''pkexec'', lit ''--disable-internal-agent'', lit ''/usr/lib/mobile-webcam/mobile-webcam-usb'',
      lit ''--switch'', lit ''--parent'', show_dec parent]"

section \<open>The helper process\<close>

text \<open>
  What the surroundings answer: whether the setup files are packaged, whether the phone's device
  refuses access, the process id, the probe of the helper, the JSON parser, whether the output device
  is writable, whether the system helper is installed, and the new process (creation, its pipes, the
  write to its input).
\<close>

record setup_io =
  su_available :: bool
  su_denied :: "device_id \<Rightarrow> error + bool"
  su_pid :: nat
  su_probe :: helper_probe
  su_from_str :: "ustr \<Rightarrow> error + device_id"
  su_assets :: assets
  su_writable :: bool
  su_installed :: bool
  su_spawn :: "error + unit"
  su_stdin :: "error + unit"
  su_write :: "error + unit"
  su_stderr :: "error + unit"
  su_worker :: "error + unit"

text \<open>The diagnostics kept of the helper's error output: the first 2048 bytes.\<close>

fun diagnostics :: "bytes \<Rightarrow> (error + bytes) list \<Rightarrow> bytes" where
  "diagnostics acc [] = acc"
| "diagnostics acc (r # rs) =
     (case r of
        Inl _ \<Rightarrow> acc
      | Inr chunk \<Rightarrow> if chunk = [] then acc else diagnostics (acc @ take (2048 - length acc) chunk) rs)"

lemma diagnostics_bounded: "length acc \<le> 2048 \<Longrightarrow> length (diagnostics acc rs) \<le> 2048"
  by (induction rs arbitrary: acc) (auto split: sum.splits)

definition session_auxiliary ::
  "ustr list \<Rightarrow> device_id option \<Rightarrow> ustr option \<Rightarrow> (settings \<times> device_id option \<times> bool) option \<Rightarrow> setup_io \<Rightarrow> session
    \<Rightarrow> (error + unit) \<times> session \<times> effect list" where
  "session_auxiliary command message script restart io s =
     (if running s then (Inl (Msg ''session is already running''), s, [])
      else if script \<noteq> None \<and> message \<noteq> None
      then (Inl (Msg ''host setup cannot share standard input''), s, [])
      else case su_spawn io of
             Inl e \<Rightarrow> (Inl e, s, [])
           | Inr _ \<Rightarrow>
               let input = (case script of Some text \<Rightarrow> ScriptInput text
                 | None \<Rightarrow> (case message of Some d \<Rightarrow> DeviceInput d | None \<Rightarrow> NoInput));
                   spawned = SpawnHelper command input
               in if input \<noteq> NoInput \<and> su_stdin io \<noteq> Inr ()
                  then (Inl (Msg ''helper input unavailable''), s, [spawned])
                  else case (if input = NoInput then Inr () else su_write io) of
                         Inl e \<Rightarrow> (Inl e, s, [spawned, KillHelper])
                       | Inr _ \<Rightarrow>
                           if su_stderr io \<noteq> Inr () then (Inl (Msg ''helper diagnostics unavailable''), s, [spawned])
                           else (Inr (), s\<lparr>se_usb_permission := None, se_auxiliary := Some \<lparr>aux_restart = restart\<rparr>,
                                   se_state := Connecting\<rparr>, [spawned]))"

definition session_setup ::
  "settings \<Rightarrow> device_id option \<Rightarrow> setup_io \<Rightarrow> session \<Rightarrow> (error + unit) \<times> session \<times> effect list" where
  "session_setup cfg device io s =
     (if \<not> su_available io then (Inl (Msg ''host setup is not included in this build''), s, [])
      else case (case device of
                   Some d \<Rightarrow> if accessory_id d then Inr False else su_denied io d
                 | None \<Rightarrow> Inr False) of
             Inl e \<Rightarrow> (Inl e, s, [])
           | Inr switched \<Rightarrow>
               (case host_setup_invocation (su_probe io) (su_from_str io) (su_assets io) (su_pid io)
                       (if switched then device else None) of
                  Inl e \<Rightarrow> (Inl e, s, [])
                | Inr (command, script) \<Rightarrow>
                    session_auxiliary command None (Some script) (Some (cfg, device, switched)) io s))"

definition allow_usb :: "settings \<Rightarrow> setup_io \<Rightarrow> session \<Rightarrow> (error + unit) \<times> session \<times> effect list" where
  "allow_usb cfg io s =
     (case se_usb_permission s of
        None \<Rightarrow> (Inl (Msg ''USB permission was not requested''), s, [])
      | Some d \<Rightarrow>
          if accessory_id d \<or> \<not> su_installed io then session_setup cfg (Some d) io s
          else session_auxiliary (switch_command (su_pid io)) (Some d) None (Some (cfg, Some d, True)) io s)"

definition session_connect ::
  "build \<Rightarrow> settings \<Rightarrow> device_id option \<Rightarrow> setup_io \<Rightarrow> session \<Rightarrow> (error + unit) \<times> session \<times> effect list" where
  "session_connect b cfg device io s =
     (case settings_validate b cfg of
        Inl e \<Rightarrow> (Inl e, s, [])
      | Inr _ \<Rightarrow>
          (let dev = (if transport cfg = lit ''usb'' then device else None)
           in if transport cfg = lit ''usb'' \<and> dev = None then (Inl (Msg ''select a USB device''), s, [])
              else if trim (output_path cfg) = lit ''/dev/video10'' \<and> \<not> su_writable io \<and> su_available io
              then session_setup cfg dev io s
              else session_start cfg dev (su_worker io) s))"

end
