(* ===== verification/Session_Props.thy ===== *)
theory Session_Props
  imports Session_Setup
begin

text \<open>
  The session as a machine: its entry points in any order, its invariant, what is run as root, and
  that a stopped worker is killed and reaped.
\<close>

section \<open>The machine\<close>

datatype session_op =
    ConnectOp build settings "device_id option" setup_io
  | AllowUsbOp settings setup_io
  | PrepareOp u16 u16 u16 nat
  | TransformOp settings
  | StopOp nat
  | TakePairingOp
  | PollOp poll_io

fun session_step :: "session \<Rightarrow> session_op \<Rightarrow> session \<times> effect list" where
  "session_step s (ConnectOp b cfg device io) = snd (session_connect b cfg device io s)"
| "session_step s (AllowUsbOp cfg io) = snd (allow_usb cfg io s)"
| "session_step s (PrepareOp w h f now) = snd (session_prepare w h f now s)"
| "session_step s (TransformOp cfg) = session_transform cfg s"
| "session_step s (StopOp now) = session_stop now s"
| "session_step s TakePairingOp = (snd (take_pairing_info s), [])"
| "session_step s (PollOp io) = session_poll io s"

definition quality_ok :: "client \<Rightarrow> nat option \<Rightarrow> bool \<Rightarrow> bool" where
  "quality_ok q deadline child \<longleftrightarrow> client_inv q
     \<and> (deadline \<noteq> None \<longleftrightarrow> cl_pending q \<noteq> None \<and> \<not> cl_staged q)
     \<and> (\<not> child \<longrightarrow> cl_pending q = None \<and> cl_modes q = None)"

definition process_ok :: "bool \<Rightarrow> bool \<Rightarrow> bool \<Rightarrow> nat option \<Rightarrow> state \<Rightarrow> bool" where
  "process_ok helper child events deadline st \<longleftrightarrow>
     (helper \<longrightarrow> \<not> child) \<and> (events \<longrightarrow> child) \<and> (deadline \<noteq> None \<longrightarrow> child)
     \<and> (child \<and> (st = Stopping \<or> \<not> events) \<longrightarrow> deadline \<noteq> None)
     \<and> (\<not> helper \<and> \<not> child \<longrightarrow> st = Idle \<or> failed_state st)"

definition session_inv :: "session \<Rightarrow> bool" where
  "session_inv s \<longleftrightarrow> quality_ok (se_quality s) (se_quality_deadline s) (se_child s)
     \<and> process_ok (se_auxiliary s \<noteq> None) (se_child s) (se_events s) (se_deadline s) (se_state s)"

lemma failed_state_simps [simp]:
  "failed_state (Failed m)" "\<not> failed_state Idle" "\<not> failed_state Connecting" "\<not> failed_state Waiting"
  "\<not> failed_state Streaming" "\<not> failed_state Stopping" "\<not> failed_state (ApprovalPending c)"
  by (simp_all add: failed_state_def)

lemma client_inv_parts:
  "client_inv c \<Longrightarrow> cl_staged c \<Longrightarrow> cl_pending c \<noteq> None"
  "client_inv c \<Longrightarrow> cl_pending c \<noteq> None \<Longrightarrow> initial_checked c"
  by (auto simp: client_inv_def split: option.splits)

lemma client_inv_calls:
  assumes "client_inv c"
  shows "client_inv (fst (client_advertise c p ms))" "client_inv (fst (client_begin c w))"
    "client_inv (client_progress c b)" "client_inv (fst (client_confirmed c x y z))"
    "client_inv (client_failed c reason)" "client_inv (client_disconnected c)"
    "client_inv (c\<lparr>cl_pending := None, cl_staged := False\<rparr>)"
    "cl_pending c = None \<Longrightarrow> client_inv (c\<lparr>cl_applied := a\<rparr>)"
proof -
  have "client_inv (fst (client_step c e))" for e by (rule client_step_inv[OF assms])
  from this[of "Advertise p ms"] this[of "Begin w"] this[of "Progress b"] this[of "Confirmed x y z"]
  show "client_inv (fst (client_advertise c p ms))" "client_inv (fst (client_begin c w))"
    "client_inv (client_progress c b)" "client_inv (fst (client_confirmed c x y z))"
    by (simp_all add: Let_def case_prod_beta)
qed (use assms in \<open>auto simp: client_inv_def client_failed_def client_disconnected_def split: option.splits\<close>)

lemma client_new_fields [simp]:
  "cl_pending (client_new w) = None" "\<not> cl_staged (client_new w)" "cl_modes (client_new w) = None"
  by (simp_all add: client_new_def)

lemma quality_ok_idle:
  "client_inv q \<Longrightarrow> cl_pending q = None \<Longrightarrow> cl_modes q = None \<Longrightarrow> quality_ok q None child"
  by (auto simp: quality_ok_def)

section \<open>The invariant, operation by operation\<close>

lemma new_inv: "session_inv session_new"
  by (simp add: session_inv_def session_new_def process_ok_def quality_ok_idle client_new_inv)

lemma not_running: "session_inv s \<Longrightarrow> \<not> running s \<Longrightarrow> se_auxiliary s = None \<and> \<not> se_child s \<and> \<not> se_events s
    \<and> se_deadline s = None \<and> (se_state s = Idle \<or> failed_state (se_state s))
    \<and> client_inv (se_quality s) \<and> cl_pending (se_quality s) = None \<and> cl_modes (se_quality s) = None
    \<and> se_quality_deadline s = None"
  by (auto simp: running_def session_inv_def quality_ok_def process_ok_def)

lemma start_inv:
  assumes "session_inv s"
  shows "session_inv (fst (snd (session_start cfg device spawned s)))"
proof (cases "running s")
  case False
  note idle = not_running[OF assms False]
  show ?thesis
  proof (cases spawned)
    case (Inl e)
    then show ?thesis
      using idle False by (simp add: session_start_def Let_def session_inv_def process_ok_def quality_ok_idle client_new_inv)
  next
    case (Inr u)
    then show ?thesis
      using idle False by (simp add: session_start_def Let_def session_inv_def process_ok_def quality_ok_idle client_new_inv)
  qed
qed (simp add: session_start_def assms)

lemma auxiliary_result:
  "session_auxiliary command message script restart io s = (r, s', out) \<Longrightarrow>
     s' = s \<or> (\<not> running s \<and> s' = s\<lparr>se_usb_permission := None,
       se_auxiliary := Some \<lparr>aux_restart = restart\<rparr>, se_state := Connecting\<rparr>)"
  unfolding session_auxiliary_def Let_def
  by (cases "running s"; cases "su_spawn io"; cases "su_write io") (auto split: if_splits)

lemma auxiliary_inv:
  assumes inv: "session_inv s"
  shows "session_inv (fst (snd (session_auxiliary command message script restart io s)))"
proof -
  obtain r s' out where run: "session_auxiliary command message script restart io s = (r, s', out)"
    by (metis prod_cases3)
  have "session_inv s'"
    using auxiliary_result[OF run] not_running[OF inv] inv
    by (auto simp: session_inv_def process_ok_def quality_ok_idle)
  then show ?thesis using run by simp
qed

lemma setup_inv:
  assumes "session_inv s"
  shows "session_inv (fst (snd (session_setup cfg device io s)))"
  using assms by (auto simp: session_setup_def auxiliary_inv split: sum.splits prod.splits option.splits)

lemma connect_inv:
  assumes "session_inv s"
  shows "session_inv (fst (snd (session_connect b cfg device io s)))"
  using assms by (auto simp: session_connect_def Let_def setup_inv start_inv split: sum.splits)

lemma allow_inv:
  assumes "session_inv s"
  shows "session_inv (fst (snd (allow_usb cfg io s)))"
  using assms by (auto simp: allow_usb_def setup_inv auxiliary_inv split: option.splits)

text \<open>A request goes out: the command is queued and the deadline set.\<close>

lemma queue_fields [simp]:
  "queue_quality m s = (s\<lparr>se_pending := (se_pending s)\<lparr>pe_quality :=
     Some (PrepareQualityCmd (m_width m) (m_height m) (m_fps m))\<rparr>\<rparr>, wake s)"
  by (simp add: queue_quality_def)

lemma quality_ok_call:
  assumes "quality_ok q d child"
  shows "client_advertise q p ms = (q', None) \<Longrightarrow> child \<Longrightarrow> quality_ok q' d child"
    and "client_advertise q p ms = (q', Some m) \<Longrightarrow> child \<Longrightarrow> quality_ok q' (Some t) child"
    and "client_begin q w = (q', None) \<Longrightarrow> quality_ok q' d child"
    and "client_begin q w = (q', Some m) \<Longrightarrow> child \<Longrightarrow> quality_ok q' (Some t) child"
proof -
  have i: "client_inv q" using assms by (simp add: quality_ok_def)
  have a: "client_advertise q p ms = (q', o') \<Longrightarrow> client_inv q'"
    and b: "client_begin q w = (q', o') \<Longrightarrow> client_inv q'" for o'
    using client_inv_calls[OF i] by (metis fst_conv)+
  show "client_advertise q p ms = (q', None) \<Longrightarrow> child \<Longrightarrow> quality_ok q' d child"
    using client_advertise_cases[of q p ms q' None] a assms by (auto simp: quality_ok_def)
  show "client_advertise q p ms = (q', Some m) \<Longrightarrow> child \<Longrightarrow> quality_ok q' (Some t) child"
    using client_advertise_cases[of q p ms q' "Some m"] a by (auto simp: quality_ok_def)
  show "client_begin q w = (q', None) \<Longrightarrow> quality_ok q' d child"
    using client_begin_cases[of q w q' None] b assms by (auto simp: quality_ok_def)
  show "client_begin q w = (q', Some m) \<Longrightarrow> child \<Longrightarrow> quality_ok q' (Some t) child"
    using client_begin_cases[of q w q' "Some m"] b by (auto simp: quality_ok_def)
qed

lemma prepare_inv:
  assumes inv: "session_inv s"
  shows "session_inv (fst (snd (session_prepare w h f now s)))"
proof -
  obtain q out where b: "client_begin (se_quality s) (wish_from (w, h, f)) = (q, out)" by fastforce
  have q: "quality_ok (se_quality s) (se_quality_deadline s) (se_child s)"
    using inv by (simp add: session_inv_def)
  have child: "client_ready (se_quality s) \<Longrightarrow> se_child s"
    using q by (auto simp: quality_ok_def client_ready_def)
  have result: "fst (snd (session_prepare w h f now s)) = s \<or> (client_ready (se_quality s)
      \<and> fst (snd (session_prepare w h f now s)) = (case out of
          None \<Rightarrow> s\<lparr>se_quality := q\<rparr>
        | Some m \<Rightarrow> fst (queue_quality m (s\<lparr>se_quality := q, se_quality_deadline := Some (apply_expiry now)\<rparr>))))"
    by (auto simp: session_prepare_def Let_def b split: option.splits)
  have new: "session_inv (s\<lparr>se_quality := q\<rparr>)" if "out = None"
    using inv quality_ok_call(3)[OF q, of "wish_from (w, h, f)" q] b that by (simp add: session_inv_def)
  have asked: "session_inv (fst (queue_quality m (s\<lparr>se_quality := q, se_quality_deadline := Some t\<rparr>)))"
    if "out = Some m" "client_ready (se_quality s)" for m t
    using inv quality_ok_call(4)[OF q, of "wish_from (w, h, f)" q m t] b that child
    by (simp add: session_inv_def)
  show ?thesis
    using result inv new asked by (cases out) auto
qed

lemma transform_inv: "session_inv s \<Longrightarrow> session_inv (fst (session_transform cfg s))"
  by (auto simp: session_transform_def session_inv_def split: option.splits)

lemma stop_inv:
  assumes inv: "session_inv s"
  shows "session_inv (fst (session_stop now s))"
proof -
  have q: "quality_ok ((se_quality s)\<lparr>cl_pending := None, cl_staged := False\<rparr>) None (se_child s)"
    using inv client_inv_calls(7)[of "se_quality s"] by (simp add: session_inv_def quality_ok_def)
  show ?thesis
    using inv q by (auto simp: session_stop_def Let_def session_inv_def process_ok_def running_def split: option.splits)
qed

section \<open>Events and polls\<close>

lemma live_event_inv:
  assumes inv: "session_inv s" and ev: "se_events s" and st: "se_state s \<noteq> Stopping"
  shows "session_inv (fst (live_event now e s)) \<and> se_events (fst (live_event now e s))
    \<and> se_state (fst (live_event now e s)) \<noteq> Stopping"
proof -
  have child: "se_child s" and q: "quality_ok (se_quality s) (se_quality_deadline s) True"
    and p: "process_ok False True True (se_deadline s) (se_state s)" and aux: "se_auxiliary s = None"
    using inv ev by (auto simp: session_inv_def process_ok_def quality_ok_def)
  have i: "client_inv (se_quality s)" using q by (simp add: quality_ok_def)
  have p': "process_ok False True True (se_deadline s) st"
    if "st \<noteq> Stopping" for st
    using p that by (simp add: process_ok_def)
  show ?thesis
  proof (cases e)
    case (Stats decoded submitted active width height fps decoder)
    show ?thesis
      using q i st ev aux child client_inv_calls(8)[OF i]
      by (simp add: Stats on_stats_def Let_def session_inv_def p' quality_ok_def)
  next
    case (QualityCapabilities perm revision ep ms)
    obtain q' out where a: "client_advertise (se_quality s) perm ms = (q', out)" by fastforce
    show ?thesis
      using quality_ok_call(1)[OF q, of perm ms q'] quality_ok_call(2)[OF q, of perm ms q'] a st ev aux child p'
      by (cases out) (simp_all add: QualityCapabilities on_capabilities_def session_inv_def)
  next
    case (QualityProgress staged)
    show ?thesis
      using q i st ev aux child p' client_inv_calls(3)[OF i, of staged]
      by (auto simp: QualityProgress on_progress_def Let_def session_inv_def quality_ok_def client_progress_def)
  next
    case (QualityApplied width height fps)
    obtain q' ok where c: "client_confirmed (se_quality s) width height fps = (q', ok)" by fastforce
    then have "client_inv q'" "cl_pending q' = None"
      using client_inv_calls(4)[OF i, of width height fps]
      by (auto simp: client_confirmed_def client_failed_def split: if_splits)
    then show ?thesis
      using st ev aux child p' c
      by (cases ok) (auto simp: QualityApplied session_inv_def quality_ok_def)
  next
    case (QualityFailed reason terminal)
    have "cl_pending (client_failed (se_quality s) reason) = None" by (simp add: client_failed_def)
    then show ?thesis
      using st ev aux child p' client_inv_calls(5)[OF i]
      by (auto simp: QualityFailed Let_def session_inv_def quality_ok_def)
  qed (use q st ev aux child p' in \<open>auto simp: session_inv_def split: option.splits\<close>)
qed

lemma on_event_inv:
  assumes "session_inv s" "se_events s"
  shows "session_inv (fst (on_event now e (s, finished))) \<and> se_events (fst (on_event now e (s, finished)))"
  using assms live_event_inv[OF assms] by (simp add: on_event_def)

lemma on_events_inv:
  "session_inv s \<Longrightarrow> se_events s \<Longrightarrow> session_inv (fst (on_events es (s, finished)))"
proof (induction es arbitrary: s finished)
  case (Cons en es)
  obtain e now where en: "en = (e, now)" by fastforce
  obtain s' finished' out where one: "on_event now e (s, finished) = (s', finished', out)"
    by (metis prod_cases3)
  show ?case
    using Cons.IH[of s' finished'] on_event_inv[OF Cons.prems, of now e finished] one
    by (simp add: en Let_def case_prod_beta)
qed simp

lemma on_events_child:
  "se_child (fst (on_events es (s, finished))) = se_child s
    \<and> se_auxiliary (fst (on_events es (s, finished))) = se_auxiliary s
    \<and> se_events (fst (on_events es (s, finished))) = se_events s
    \<and> se_deadline (fst (on_events es (s, finished))) = se_deadline s"
proof (induction es arbitrary: s finished)
  case (Cons en es)
  obtain e now where en: "en = (e, now)" by fastforce
  have kept: "se_child (fst (live_event now e s)) = se_child s
    \<and> se_auxiliary (fst (live_event now e s)) = se_auxiliary s
    \<and> se_events (fst (live_event now e s)) = se_events s
    \<and> se_deadline (fst (live_event now e s)) = se_deadline s"
    by (cases e) (auto simp: Let_def on_stats_def on_progress_def on_capabilities_def
        split: option.splits prod.splits bool.splits)
  obtain s' finished' out where one: "on_event now e (s, finished) = (s', finished', out)"
    by (metis prod_cases3)
  then have "s' = s \<or> s' = fst (live_event now e s)" by (auto simp: on_event_def split: if_splits)
  then show ?case
    using Cons.IH[of s' finished'] one kept by (auto simp: en Let_def case_prod_beta)
qed simp

lemma stale_stats_inv: "session_inv s \<Longrightarrow> session_inv (stale_stats now s)"
  by (auto simp: stale_stats_def session_inv_def process_ok_def)

lemma stale_stats_fields [simp]:
  "se_child (stale_stats now s) = se_child s" "se_auxiliary (stale_stats now s) = se_auxiliary s"
  "se_events (stale_stats now s) = se_events s" "se_deadline (stale_stats now s) = se_deadline s"
  "se_quality (stale_stats now s) = se_quality s"
  "se_quality_deadline (stale_stats now s) = se_quality_deadline s"
  by (simp_all add: stale_stats_def)

lemma expire_quality_result:
  "expire_quality now (s, finished) = (s', finished') \<Longrightarrow>
     (\<not> reached (se_quality_deadline s) now \<and> s' = s \<and> finished' = finished)
     \<or> (reached (se_quality_deadline s) now \<and> finished' \<and> se_child s' = se_child s
        \<and> se_auxiliary s' = se_auxiliary s \<and> se_events s' = se_events s \<and> se_deadline s' = se_deadline s
        \<and> se_quality s' = client_failed (se_quality s) ''the quality apply deadline expired''
        \<and> se_state s' = Failed ''the quality apply deadline expired'')"
  by (auto simp: expire_quality_def split: if_splits)

lemma expire_quality_inv:
  assumes "session_inv s" "se_auxiliary s = None" "expire_quality now (s, finished) = (s', finished')"
  shows "client_inv (se_quality s')" "se_auxiliary s' = None" "\<not> finished' \<Longrightarrow> session_inv s'"
proof -
  have i: "client_inv (se_quality s)" using assms(1) by (simp add: session_inv_def quality_ok_def)
  have "client_inv (se_quality s') \<and> se_auxiliary s' = None \<and> (\<not> finished' \<longrightarrow> session_inv s')"
  proof (cases "reached (se_quality_deadline s) now")
    case True
    then show ?thesis
      using assms(3) client_inv_calls(5)[OF i] assms(2) unfolding expire_quality_def by auto
  next
    case False
    then show ?thesis using assms i unfolding expire_quality_def by auto
  qed
  then show "client_inv (se_quality s')" "se_auxiliary s' = None" "\<not> finished' \<Longrightarrow> session_inv s'" by simp_all
qed

lemma reap_cases:
  assumes "reap io (s, finished) = (s', finished', reaped, out)"
  shows reap_fields: "se_quality s' = se_quality s" "se_auxiliary s' = se_auxiliary s"
      "se_child s' = se_child s" "se_quality_deadline s' = se_quality_deadline s"
    and reap_open: "\<not> finished' \<Longrightarrow> s' = s" "\<not> finished' \<Longrightarrow> \<not> finished"
      "\<not> finished' \<Longrightarrow> \<not> reached (se_deadline s) (pl_now_stop io)"
      "\<not> finished' \<Longrightarrow> se_child s \<Longrightarrow> pl_status io = StillRunning"
    and reap_reaped: "reaped = (\<not> se_child s \<or> (\<exists>ok status. pl_status io = Exited ok status))"
    and reap_state: "failed_state (se_state s) \<Longrightarrow> failed_state (se_state s')"
      "se_state s = Stopping \<Longrightarrow> se_state s' = Stopping \<or> failed_state (se_state s')"
    and reap_kills: "se_child s \<Longrightarrow> reached (se_deadline s) (pl_now_stop io) \<Longrightarrow> KillWorker \<in> set out"
  using assms by (cases "pl_status io"; auto simp: reap_def Let_def split: if_splits)+

lemma finish_inv:
  assumes "client_inv (se_quality s)" "se_auxiliary s = None" "reaped \<or> se_child s"
  shows "session_inv (fst (finish now reaped s))"
  using assms client_inv_calls(6)[OF assms(1)]
  by (auto simp: finish_def Let_def session_inv_def quality_ok_def process_ok_def client_disconnected_def)

text \<open>A poll of the worker in its three stages.\<close>

lemma poll_worker_stages:
  obtains s1 finished1 out1 s2 finished2 s3 finished3 reaped out3
  where "(s1, finished1, out1) = (if se_events s then on_events (pl_events io) (s, False) else (s, False, []))"
    and "expire_quality (pl_now_quality io) (stale_stats (pl_now_stats io) s1, finished1) = (s2, finished2)"
    and "reap io (s2, finished2) = (s3, finished3, reaped, out3)"
    and "poll_worker io s =
      (if finished3 then (fst (finish (pl_now_end io) reaped s3), out1 @ out3 @ snd (finish (pl_now_end io) reaped s3))
       else (s3, out1 @ out3))"
proof -
  obtain s1 finished1 out1
    where a: "(s1, finished1, out1) = (if se_events s then on_events (pl_events io) (s, False) else (s, False, []))"
    by (metis prod_cases3)
  obtain s2 finished2
    where b: "expire_quality (pl_now_quality io) (stale_stats (pl_now_stats io) s1, finished1) = (s2, finished2)"
    by fastforce
  obtain s3 finished3 reaped out3 where c: "reap io (s2, finished2) = (s3, finished3, reaped, out3)"
    by (metis prod_cases4)
  have "poll_worker io s =
      (if finished3 then (fst (finish (pl_now_end io) reaped s3), out1 @ out3 @ snd (finish (pl_now_end io) reaped s3))
       else (s3, out1 @ out3))"
    using b c by (simp add: poll_worker_def flip: a) (simp add: Let_def case_prod_beta)
  then show thesis using a b c that by blast
qed

lemma poll_worker_inv:
  assumes inv: "session_inv s" and aux: "se_auxiliary s = None"
  shows "session_inv (fst (poll_worker io s))"
proof (cases rule: poll_worker_stages[of s io])
  case (1 s1 finished1 out1 s2 finished2 s3 finished3 reaped out3)
  have inv1: "session_inv s1" and aux1: "se_auxiliary s1 = None"
    using 1(1) on_events_inv[OF inv, of "pl_events io" False] on_events_child[of "pl_events io" s False] inv aux
    by (cases "se_events s"; auto dest: sym)+
  have inv': "session_inv (stale_stats (pl_now_stats io) s1)" using stale_stats_inv[OF inv1] .
  have i1: "client_inv (se_quality s1)" using inv1 by (simp add: session_inv_def quality_ok_def)
  have i2: "client_inv (se_quality s2)" and aux2: "se_auxiliary s2 = None"
    and unfinished: "\<not> finished2 \<Longrightarrow> session_inv s2"
    using expire_quality_inv[OF inv' _ 1(2)] aux1 by simp_all
  show ?thesis
  proof (cases finished3)
    case True
    have "client_inv (se_quality s3)" using i2 reap_fields(1)[OF 1(3)] by simp
    moreover have "se_auxiliary s3 = None" using aux2 reap_fields(2)[OF 1(3)] by simp
    moreover have "reaped \<or> se_child s3" using reap_reaped[OF 1(3)] reap_fields(3)[OF 1(3)] by simp
    ultimately have "session_inv (fst (finish (pl_now_end io) reaped s3))" by (rule finish_inv)
    then show ?thesis using 1(4) True by simp
  next
    case False
    then have "s3 = s2" "\<not> finished2" using reap_open[OF 1(3)] by simp_all
    then show ?thesis using 1(4) False unfinished by simp
  qed
qed

lemma start_failed: "session_start cfg device spawned s = (Inl e, s', out) \<Longrightarrow> running s' = running s"
  by (auto simp: session_start_def running_def Let_def split: if_splits sum.splits)

lemma poll_helper_inv:
  assumes inv: "session_inv s" and aux: "se_auxiliary s = Some aux"
  shows "session_inv (fst (poll_helper io aux s))"
proof -
  have q: "client_inv (se_quality s)" "cl_pending (se_quality s) = None" "cl_modes (se_quality s) = None"
    "se_quality_deadline s = None" and p: "\<not> se_child s" "\<not> se_events s" "se_deadline s = None"
    using inv aux by (auto simp: session_inv_def quality_ok_def process_ok_def)
  have idle: "session_inv (s\<lparr>se_auxiliary := None, se_state := st\<rparr>)" if "st = Idle \<or> failed_state st" for st
    using q p that by (auto simp: session_inv_def process_ok_def quality_ok_idle)
  have failed: "session_inv (t\<lparr>se_state := Failed m\<rparr>)" if t: "session_inv t" "\<not> running t" for t m
    using not_running[OF t] t by (simp add: session_inv_def process_ok_def)
  have restart: "session_inv (fst (poll_restart io r t))" if t: "session_inv t" "\<not> running t" for r t
  proof -
    obtain cfg device switched where r: "r = (cfg, device, switched)" by (metis prod_cases3)
    have started: "session_inv (fst (case session_start cfg dev (pl_spawn io) t of
        (Inl e, t', out) \<Rightarrow> (t'\<lparr>se_state := Failed (error_text e)\<rparr>, out) | (Inr _, t', out) \<Rightarrow> (t', out)))" for dev
      using start_inv[OF t(1), of cfg dev "pl_spawn io"] start_failed[of cfg dev "pl_spawn io" t] failed t(2)
      by (auto split: sum.splits prod.splits)
    show ?thesis unfolding poll_restart_def r prod.case
      using started failed[OF t] by (auto split: sum.splits)
  qed
  show ?thesis
  proof (cases "pl_status io")
    case (Exited success status)
    have "\<not> running (s\<lparr>se_auxiliary := None, se_state := Idle\<rparr>)" using p by (simp add: running_def)
    then show ?thesis
      using restart[OF idle] idle by (auto simp: Exited poll_helper_def Let_def split: option.splits)
  qed (use inv idle in \<open>auto simp: poll_helper_def\<close>)
qed

lemma session_step_inv: "session_inv s \<Longrightarrow> session_inv (fst (session_step s op))"
proof (cases op)
  case (PollOp io)
  assume inv: "session_inv s"
  show ?thesis
    using poll_helper_inv[OF inv] poll_worker_inv[OF inv]
    by (cases "se_auxiliary s") (auto simp: PollOp session_poll_def)
next
  case TakePairingOp
  assume "session_inv s"
  then show ?thesis by (simp add: TakePairingOp take_pairing_info_def session_inv_def)
qed (simp_all add: connect_inv allow_inv prepare_inv transform_inv stop_inv)

section \<open>A stopped worker is killed and reaped\<close>

definition closing :: "session \<Rightarrow> bool" where
  "closing s \<longleftrightarrow> se_auxiliary s = None \<and> se_child s \<and> se_quality_deadline s = None
     \<and> (se_state s = Stopping \<or> (failed_state (se_state s) \<and> \<not> se_events s))"

definition exited :: "exit_status \<Rightarrow> bool" where
  "exited st \<longleftrightarrow> (case st of Exited _ _ \<Rightarrow> True | _ \<Rightarrow> False)"

lemma on_events_stopping:
  "se_state s = Stopping \<Longrightarrow> fst (on_events es (s, finished)) = s \<and> snd (snd (on_events es (s, finished))) = []"
  by (induction es arbitrary: finished) (auto simp: on_event_def Let_def case_prod_beta)

lemma stage_kept:
  assumes "closing s" and "(s1, finished1, out1) = (if se_events s then on_events es (s, False) else (s, False, []))"
    and "expire_quality now (stale_stats now' s1, finished1) = (s2, finished2)"
  shows "s2 = s" "out1 = []"
proof -
  have "s1 = s \<and> out1 = []"
  proof (cases "se_events s")
    case True
    then show ?thesis
      using assms(1,2) on_events_stopping[of s es False] by (metis closing_def fst_conv snd_conv)
  next
    case False
    then show ?thesis using assms(2) by simp
  qed
  moreover have "stale_stats now' s = s" using assms(1) by (auto simp: stale_stats_def closing_def)
  ultimately show "s2 = s" "out1 = []"
    using assms(1,3) by (auto simp: expire_quality_def closing_def reached_def)
qed

lemma closing_poll:
  assumes c: "closing s" and st: "\<not> exited (pl_status io)"
  shows "closing (fst (session_poll io s))
    \<and> (KillWorker \<in> set (snd (session_poll io s))
       \<or> fst (session_poll io s) = s \<and> \<not> reached (se_deadline s) (pl_now_stop io))"
proof (cases rule: poll_worker_stages[of s io])
  case (1 s1 finished1 out1 s2 finished2 s3 finished3 reaped out3)
  have s2: "s2 = s" using stage_kept(1)[OF c 1(1) 1(2)] .
  have child: "se_child s3" using reap_fields(3)[OF 1(3)] c s2 by (simp add: closing_def)
  have reaped: "\<not> reaped"
    using reap_reaped[OF 1(3)] st c s2 by (auto simp: closing_def exited_def)
  have poll: "session_poll io s = poll_worker io s" using c by (simp add: session_poll_def closing_def)
  show ?thesis
  proof (cases finished3)
    case False
    then show ?thesis using reap_open(1,3)[OF 1(3)] 1(4) s2 c poll by simp
  next
    case True
    have "se_auxiliary s3 = None" using reap_fields(2)[OF 1(3)] c s2 by (simp add: closing_def)
    then have "closing (fst (finish (pl_now_end io) reaped s3))"
      using reaped child by (simp add: finish_def Let_def closing_def)
    moreover have "KillWorker \<in> set (snd (finish (pl_now_end io) reaped s3))"
      using reaped child by (simp add: finish_def Let_def)
    ultimately show ?thesis using 1(4) True poll by simp
  qed
qed

lemma closing_polls:
  "closing s \<Longrightarrow> list_all (\<lambda>io. \<not> exited (pl_status io)) polls \<Longrightarrow>
     closing (run_machine session_step s (map PollOp polls))
     \<and> (list_ex (\<lambda>io. reached (se_deadline s) (pl_now_stop io)) polls
          \<longrightarrow> KillWorker \<in> set (machine_trace session_step s (map PollOp polls)))"
proof (induction polls arbitrary: s)
  case (Cons io polls)
  let ?s = "fst (session_poll io s)"
  have st: "\<not> exited (pl_status io)" "list_all (\<lambda>io. \<not> exited (pl_status io)) polls"
    using Cons.prems(2) by simp_all
  note one = closing_poll[OF Cons.prems(1) st(1)]
  note rest = Cons.IH[OF conjunct1[OF one] st(2)]
  have trace: "set (machine_trace session_step s (map PollOp (io # polls)))
      = set (snd (session_poll io s)) \<union> set (machine_trace session_step ?s (map PollOp polls))" by simp
  have "KillWorker \<in> set (machine_trace session_step s (map PollOp (io # polls)))"
    if due: "list_ex (\<lambda>io. reached (se_deadline s) (pl_now_stop io)) (io # polls)"
  proof (cases "KillWorker \<in> set (snd (session_poll io s))")
    case False
    then have same: "?s = s" "\<not> reached (se_deadline s) (pl_now_stop io)" using one by blast+
    then have "list_ex (\<lambda>io. reached (se_deadline ?s) (pl_now_stop io)) polls" using due by simp
    then show ?thesis using rest unfolding trace by blast
  next
    case True
    then show ?thesis unfolding trace by blast
  qed
  then show ?case using rest by simp
qed simp

lemma closing_exit:
  assumes c: "closing s" and st: "exited (pl_status io)"
  shows "\<not> running (fst (session_poll io s))"
    "se_state (fst (session_poll io s)) = Idle \<or> failed_state (se_state (fst (session_poll io s)))"
proof -
  have "\<not> running (fst (session_poll io s))
    \<and> (se_state (fst (session_poll io s)) = Idle \<or> failed_state (se_state (fst (session_poll io s))))"
  proof (cases rule: poll_worker_stages[of s io])
    case (1 s1 finished1 out1 s2 finished2 s3 finished3 reaped out3)
    have s2: "s2 = s" using stage_kept(1)[OF c 1(1) 1(2)] .
    have reaped: "reaped" using reap_reaped[OF 1(3)] st by (auto simp: exited_def split: exit_status.splits)
    have fin: "finished3"
      using reap_open(4)[OF 1(3)] st c s2 by (auto simp: exited_def closing_def split: exit_status.splits)
    have "se_auxiliary s3 = None" using reap_fields(2)[OF 1(3)] c s2 by (simp add: closing_def)
    moreover have "session_poll io s = poll_worker io s" using c by (simp add: session_poll_def closing_def)
    ultimately show ?thesis using 1(4) fin reaped by (simp add: finish_def Let_def running_def)
  qed
  then show "\<not> running (fst (session_poll io s))"
    "se_state (fst (session_poll io s)) = Idle \<or> failed_state (se_state (fst (session_poll io s)))" by auto
qed

lemma stop_closing: "session_inv s \<Longrightarrow> se_child s \<Longrightarrow> closing (fst (session_stop now s))
    \<and> se_deadline (fst (session_stop now s)) = Some (now + 1000)"
  by (auto simp: session_stop_def Let_def closing_def running_def session_inv_def process_ok_def split: option.splits)

section \<open>What the session starts\<close>

text \<open>
  A setup command that passed the checks, for the surroundings and the device it was asked for: the
  helper is what the probe found, the device is the one asked for, refused access, is no accessory
  yet, has at most 32 ports and its JSON text was read back as that very device; the script is the
  embedded one, of safe assets and with no placeholder left.
\<close>

definition setup_checked :: "setup_io \<Rightarrow> device_id option \<Rightarrow> ustr list \<Rightarrow> ustr \<Rightarrow> bool" where
  "setup_checked io wanted args script \<longleftrightarrow>
     (\<exists>helper device.
        args = setup_prefix @ helper_args helper @ switch_args (su_pid io) (map_option device_json device)
        \<and> 0 < su_pid io
        \<and> packaged_usb_helper (su_probe io) = Inr helper \<and> list_all helper_path_ok (option_list helper)
        \<and> (case device of
             None \<Rightarrow> True
           | Some d \<Rightarrow> helper \<noteq> None \<and> wanted = Some d \<and> su_denied io d = Inr True \<and> \<not> accessory_id d
               \<and> length (dev_ports d) \<le> 32 \<and> su_from_str io (device_json d) = Inr d))
     \<and> embedded_setup_script (su_assets io) = Inr script
     \<and> list_all asset_safe [as_rules (su_assets io), as_modprobe (su_assets io), as_modules (su_assets io)]
     \<and> list_all (\<lambda>p. \<not> contains p script) placeholders"

definition session_legal :: "session \<Rightarrow> session_op \<Rightarrow> effect \<Rightarrow> bool" where
  "session_legal s op e \<longleftrightarrow>
     (case e of
        SpawnWorker cfg device \<Rightarrow> \<not> se_child s
          \<and> (se_auxiliary s = None \<or> (case op of PollOp io \<Rightarrow> exited (pl_status io) | _ \<Rightarrow> False))
      | SpawnHelper args input \<Rightarrow> \<not> running s
          \<and> (case input of
               NoInput \<Rightarrow> False
             | ScriptInput script \<Rightarrow>
                 (case op of
                    ConnectOp _ _ device io \<Rightarrow> setup_checked io device args script
                  | AllowUsbOp _ io \<Rightarrow> setup_checked io (se_usb_permission s) args script
                  | _ \<Rightarrow> False)
             | DeviceInput d \<Rightarrow>
                 (case op of
                    AllowUsbOp _ io \<Rightarrow> args = switch_command (su_pid io) \<and> su_installed io
                      \<and> se_usb_permission s = Some d \<and> \<not> accessory_id d
                  | _ \<Rightarrow> False))
      | KillWorker \<Rightarrow> se_child s
      | _ \<Rightarrow> True)"

lemma packaged_helper_ok: "packaged_usb_helper p = Inr (Some h) \<Longrightarrow> helper_path_ok h"
  by (auto simp: packaged_usb_helper_def try_r_Inr_iff split: if_splits option.splits)

lemma embedded_script_ok:
  "embedded_setup_script a = Inr script \<Longrightarrow> list_all (\<lambda>p. \<not> contains p script) placeholders
     \<and> list_all asset_safe [as_rules a, as_modprobe a, as_modules a]"
  unfolding embedded_setup_script_def Let_def list_ex_iff list_all_iff by (auto split: if_splits)

lemma validated_json:
  "validated_device_json from_str d = Inr j \<Longrightarrow>
     j = device_json d \<and> length (dev_ports d) \<le> 32 \<and> from_str (device_json d) = Inr d"
  by (auto simp: validated_device_json_def try_r_Inr_iff split: if_splits)

lemma invocation_checked:
  assumes "host_setup_invocation (su_probe io) (su_from_str io) (su_assets io) (su_pid io) device = Inr (args, script)"
    and "case device of None \<Rightarrow> True | Some d \<Rightarrow> wanted = Some d \<and> su_denied io d = Inr True \<and> \<not> accessory_id d"
  shows "setup_checked io wanted args script"
proof -
  obtain helper json where h: "packaged_usb_helper (su_probe io) = Inr helper" and n: "\<not> (device \<noteq> None \<and> helper = None)"
    and j: "(case device of None \<Rightarrow> Inr None
                    | Some d \<Rightarrow> try_r (validated_device_json (su_from_str io) d) (\<lambda>j. Inr (Some j))) = Inr json"
    and s: "embedded_setup_script (su_assets io) = Inr script" and p: "su_pid io \<noteq> 0"
    and args: "args = setup_prefix @ helper_args helper @ switch_args (su_pid io) json"
    using assms(1) by (auto simp: host_setup_invocation_def try_r_Inr_iff split: if_splits)
  have json: "json = map_option device_json device"
    "case device of None \<Rightarrow> True
     | Some d \<Rightarrow> length (dev_ports d) \<le> 32 \<and> su_from_str io (device_json d) = Inr d"
    using j validated_json by (fastforce simp: try_r_Inr_iff split: option.splits)+
  have "list_all helper_path_ok (option_list helper)"
    using h packaged_helper_ok by (cases helper) (auto simp: option_list_def)
  moreover have "case device of None \<Rightarrow> True
      | Some d \<Rightarrow> helper \<noteq> None \<and> wanted = Some d \<and> su_denied io d = Inr True \<and> \<not> accessory_id d
          \<and> length (dev_ports d) \<le> 32 \<and> su_from_str io (device_json d) = Inr d"
    using assms(2) json(2) n by (cases device) simp_all
  ultimately show ?thesis
    unfolding setup_checked_def using args json(1) h p s embedded_script_ok[OF s] by blast
qed

lemma auxiliary_out:
  "e \<in> set (snd (snd (session_auxiliary command message script restart io s))) \<Longrightarrow>
     \<not> running s \<and> (e = KillHelper \<or> e = SpawnHelper command (case script of Some text \<Rightarrow> ScriptInput text
       | None \<Rightarrow> (case message of Some d \<Rightarrow> DeviceInput d | None \<Rightarrow> NoInput)))"
  by (auto simp: session_auxiliary_def Let_def split: if_splits sum.splits)

lemma setup_out:
  assumes "e \<in> set (snd (snd (session_setup cfg device io s)))"
    and op: "(\<exists>b c d. op = ConnectOp b c d io \<and> (device = None \<or> device = d))
      \<or> (\<exists>c. op = AllowUsbOp c io \<and> device = se_usb_permission s)"
  shows "session_legal s op e"
proof -
  define refused where "refused = (case device of
      Some d \<Rightarrow> if accessory_id d then Inr False else su_denied io d | None \<Rightarrow> Inr False)"
  obtain switched command script where r: "refused = Inr switched"
    and i: "host_setup_invocation (su_probe io) (su_from_str io) (su_assets io) (su_pid io)
        (if switched then device else None) = Inr (command, script)"
    and e: "e \<in> set (snd (snd (session_auxiliary command None (Some script) (Some (cfg, device, switched)) io s)))"
    using assms(1) unfolding session_setup_def refused_def[symmetric]
    by (auto split: if_splits sum.splits prod.splits)
  have d: "case (if switched then device else None) of None \<Rightarrow> True
      | Some d \<Rightarrow> device = Some d \<and> su_denied io d = Inr True \<and> \<not> accessory_id d"
    using r by (cases switched) (auto simp: refused_def split: option.splits if_splits)
  have "setup_checked io device command script"
    by (rule invocation_checked[OF i d])
  moreover have "setup_checked io w command script" if "device = None" for w
  proof -
    have "(if switched then device else None) = None" using that by simp
    with i show ?thesis by (intro invocation_checked[OF i]) simp
  qed
  ultimately show ?thesis using auxiliary_out[OF e] op by (auto simp: session_legal_def)
qed

lemma start_out:
  "e \<in> set (snd (snd (session_start cfg device spawned s))) \<Longrightarrow> \<not> running s \<and> e = SpawnWorker cfg device"
  by (auto simp: session_start_def Let_def split: if_splits sum.splits)

lemma start_spawns:
  "session_start cfg device spawned s = (r, s', out) \<Longrightarrow> e \<in> set out \<Longrightarrow> e = SpawnWorker cfg device"
  using start_out[of e cfg device spawned s] by simp

lemma connect_out:
  assumes "e \<in> set (snd (snd (session_connect b cfg device io s)))"
  shows "session_legal s (ConnectOp b cfg device io) e"
proof -
  define dev where "dev = (if transport cfg = lit ''usb'' then device else None)"
  have "e \<in> set (snd (snd (session_setup cfg dev io s))) \<or> e \<in> set (snd (snd (session_start cfg dev (su_worker io) s)))"
    using assms unfolding session_connect_def dev_def[symmetric] Let_def
    by (auto split: if_splits sum.splits)
  then show ?thesis
  proof
    assume "e \<in> set (snd (snd (session_setup cfg dev io s)))"
    then show ?thesis by (rule setup_out) (auto simp: dev_def)
  next
    assume "e \<in> set (snd (snd (session_start cfg dev (su_worker io) s)))"
    then show ?thesis by (auto simp: session_legal_def running_def dest!: start_out)
  qed
qed

lemma allow_out:
  assumes "e \<in> set (snd (snd (allow_usb cfg io s)))"
  shows "session_legal s (AllowUsbOp cfg io) e"
proof (cases "se_usb_permission s")
  case (Some d)
  show ?thesis
  proof (cases "accessory_id d \<or> \<not> su_installed io")
    case True
    then have "e \<in> set (snd (snd (session_setup cfg (Some d) io s)))" using assms Some by (simp add: allow_usb_def)
    then show ?thesis by (rule setup_out) (use Some in simp)
  next
    case False
    then show ?thesis using assms Some
      by (auto simp: allow_usb_def session_legal_def dest!: auxiliary_out)
  qed
qed (use assms in \<open>simp add: allow_usb_def\<close>)

lemma wake_out: "e \<in> set (wake s) \<Longrightarrow> e = WakeWriter"
  by (simp add: wake_def split: if_splits)

lemma on_events_out: "e \<in> set (snd (snd (on_events es sf))) \<Longrightarrow> e = WakeWriter"
proof (induction es arbitrary: sf)
  case (Cons en es)
  have "x \<in> set (snd (snd (live_event now ev s))) \<Longrightarrow> x = WakeWriter" for x now ev s
    by (cases ev) (auto simp: Let_def on_capabilities_def dest: wake_out
        split: option.splits prod.splits bool.splits if_splits)
  then show ?case
    using Cons by (cases en) (auto simp: on_event_def Let_def case_prod_beta split: if_splits)
qed simp

lemma reap_out:
  "reap io (s, finished) = (s', finished', reaped, out) \<Longrightarrow> e \<in> set out \<Longrightarrow> e = KillWorker \<and> se_child s"
  by (cases "pl_status io") (auto simp: reap_def Let_def split: if_splits)

lemma finish_out: "e \<in> set (snd (finish now reaped s)) \<Longrightarrow> e = WakeWriter \<or> (e = KillWorker \<and> se_child s)"
  by (auto simp: finish_def Let_def dest: wake_out split: if_splits)

lemma poll_worker_out:
  assumes "e \<in> set (snd (poll_worker io s))"
  shows "e = WakeWriter \<or> (e = KillWorker \<and> se_child s)"
proof (cases rule: poll_worker_stages[of s io])
  case (1 s1 finished1 out1 s2 finished2 s3 finished3 reaped out3)
  have "se_child s1 = se_child s"
    using 1(1) on_events_child[of "pl_events io" s False] by (metis fst_conv)
  moreover have "se_child s2 = se_child s1"
    using expire_quality_result[OF 1(2)] by (elim disjE conjE) (simp only: stale_stats_fields)+
  ultimately have child: "se_child s2 = se_child s" "se_child s3 = se_child s"
    using reap_fields(3)[OF 1(3)] by simp_all
  have "x \<in> set out1 \<Longrightarrow> x = WakeWriter" for x
    using 1(1) on_events_out[of x "pl_events io" "(s, False)"] by (cases "se_events s") (metis snd_conv, simp)
  then show ?thesis
    using assms 1(4) reap_out[OF 1(3)] finish_out[of e "pl_now_end io" reaped s3] child
    by (auto split: if_splits)
qed

lemma poll_helper_out:
  assumes "e \<in> set (snd (poll_helper io aux s))"
  shows "exited (pl_status io) \<and> (\<exists>cfg device. e = SpawnWorker cfg device)"
proof -
  have "\<exists>cfg device. e = SpawnWorker cfg device" if "e \<in> set (snd (poll_restart io r t))" for r t
    using that by (auto simp: poll_restart_def dest: start_spawns split: prod.splits sum.splits if_splits)
  then show ?thesis
    using assms by (auto simp: poll_helper_def exited_def Let_def split: exit_status.splits if_splits option.splits)
qed

lemma session_step_out:
  assumes inv: "session_inv s" and e: "e \<in> set (snd (session_step s op))"
  shows "session_legal s op e"
proof (cases op)
  case (PollOp io)
  have aux: "se_auxiliary s = Some aux \<Longrightarrow> \<not> se_child s" for aux
    using inv by (auto simp: session_inv_def process_ok_def)
  show ?thesis
  proof (cases "se_auxiliary s")
    case None
    then have "e = WakeWriter \<or> (e = KillWorker \<and> se_child s)"
      using e poll_worker_out[of e io s] by (simp add: PollOp session_poll_def)
    then show ?thesis by (auto simp: session_legal_def)
  next
    case (Some a)
    then have "exited (pl_status io) \<and> (\<exists>cfg device. e = SpawnWorker cfg device)"
      using e poll_helper_out[of e io a s] by (simp add: PollOp session_poll_def)
    then show ?thesis using aux[OF Some] by (auto simp: session_legal_def PollOp)
  qed
next
  case (PrepareOp w h f now)
  have "e = WakeWriter"
    using e by (auto simp: PrepareOp session_prepare_def Let_def dest: wake_out split: if_splits option.splits prod.splits)
  then show ?thesis by (simp add: session_legal_def)
next
  case (TransformOp cfg)
  have "e = WakeWriter"
    using e by (auto simp: TransformOp session_transform_def dest: wake_out split: if_splits option.splits)
  then show ?thesis by (simp add: session_legal_def)
next
  case (StopOp now)
  have "e = WakeWriter \<or> e = KillHelper"
    using e by (auto simp: StopOp session_stop_def Let_def dest: wake_out split: if_splits option.splits)
  then show ?thesis by (auto simp: session_legal_def)
qed (use e in \<open>simp_all add: connect_out allow_out\<close>)

interpretation session_machine: machine session_step session_inv session_legal
  by unfold_locales (simp_all add: session_step_inv session_step_out)

section \<open>Properties\<close>

text \<open>
  C22. Whatever the user, the worker and the helper do, in any order: at most one of worker and helper
  runs; a session that runs neither is idle or failed; the apply deadline is armed exactly while a
  requested quality is neither confirmed nor waiting for the phone's user; the quality controls have
  modes only while a worker runs; and a worker that is stopping or no longer listened to has a deadline
  at which it is killed.
\<close>

theorem session_invariant:
  assumes "s = run_machine session_step session_new ops"
  shows "\<not> (se_child s \<and> se_auxiliary s \<noteq> None)
    \<and> (running s \<or> se_state s = Idle \<or> failed_state (se_state s))
    \<and> (se_quality_deadline s \<noteq> None \<longleftrightarrow> cl_pending (se_quality s) \<noteq> None \<and> \<not> cl_staged (se_quality s))
    \<and> (cl_modes (se_quality s) \<noteq> None \<longrightarrow> se_child s)
    \<and> (se_child s \<and> (se_state s = Stopping \<or> \<not> se_events s) \<longrightarrow> se_deadline s \<noteq> None)"
proof -
  have "session_inv s" unfolding assms by (rule session_machine.run_inv[OF new_inv])
  then show ?thesis by (auto simp: session_inv_def quality_ok_def process_ok_def running_def)
qed

text \<open>
  C23. Nothing runs as root that was not checked: a helper is started only when the session keeps
  neither a worker nor a helper, and it is either the installed helper, given the device that the
  worker reported as refused and that is not yet an accessory, or the shell that reads the embedded
  script of this build (made of safe assets, no placeholder left), with no arguments but the path of
  the packaged helper, which is absolute, named and free of parent components, and, only with a
  helper, the device asked for, which refused access, is not yet an accessory and whose JSON text was
  read back as that device. A worker is started only while none runs and no helper is kept, but in
  the poll that found the kept helper exited (a helper whose wait failed is not kept any more).
\<close>

theorem started_processes_checked:
  assumes "e \<in> set (machine_trace session_step session_new ops)"
  shows "\<exists>pre op post. ops = pre @ op # post \<and> (let s = run_machine session_step session_new pre in
    (case e of
       SpawnWorker cfg device \<Rightarrow> \<not> se_child s
         \<and> (se_auxiliary s = None \<or> (case op of PollOp io \<Rightarrow> exited (pl_status io) | _ \<Rightarrow> False))
     | SpawnHelper args input \<Rightarrow> \<not> running s
         \<and> (case input of
              NoInput \<Rightarrow> False
            | ScriptInput script \<Rightarrow>
                 (case op of
                    ConnectOp _ _ device io \<Rightarrow> setup_checked io device args script
                  | AllowUsbOp _ io \<Rightarrow> setup_checked io (se_usb_permission s) args script
                  | _ \<Rightarrow> False)
            | DeviceInput d \<Rightarrow>
                 (case op of
                    AllowUsbOp _ io \<Rightarrow> args = switch_command (su_pid io) \<and> su_installed io
                      \<and> se_usb_permission s = Some d \<and> \<not> accessory_id d
                  | _ \<Rightarrow> False))
     | KillWorker \<Rightarrow> se_child s
     | _ \<Rightarrow> True))"
  using session_machine.trace_legal[OF new_inv assms] by (auto simp: session_legal_def Let_def)

text \<open>
  C24. Stop always ends: once a running worker was told to stop, every poll before its exit keeps the
  session stopping (or failed), the first poll a second later has killed it, and the poll that finds it
  exited leaves nothing running and the session idle or failed, ready for the next start.
\<close>

theorem stopped_worker_is_reaped:
  assumes "s = run_machine session_step session_new ops" "se_child s"
    and "t = fst (session_stop now s)"
    and "list_all (\<lambda>io. \<not> exited (pl_status io)) polls"
    and "u = run_machine session_step t (map PollOp polls)"
  shows "(se_state u = Stopping \<or> failed_state (se_state u))
    \<and> (list_ex (\<lambda>io. now + 1000 \<le> pl_now_stop io) polls
         \<longrightarrow> KillWorker \<in> set (machine_trace session_step t (map PollOp polls)))
    \<and> (exited (pl_status final) \<longrightarrow> (let v = fst (session_poll final u) in
         \<not> running v \<and> (se_state v = Idle \<or> failed_state (se_state v))))"
proof -
  have "session_inv s" unfolding assms(1) by (rule session_machine.run_inv[OF new_inv])
  then have c: "closing t" and d: "se_deadline t = Some (now + 1000)"
    using stop_closing[of s now] assms(2,3) by auto
  have cu: "closing u" using closing_polls[OF c assms(4)] assms(5) by simp
  have kill: "list_ex (\<lambda>io. now + 1000 \<le> pl_now_stop io) polls
         \<longrightarrow> KillWorker \<in> set (machine_trace session_step t (map PollOp polls))"
    using closing_polls[OF c assms(4)] d by (simp add: reached_def)
  have "exited (pl_status final) \<longrightarrow> (let v = fst (session_poll final u) in
         \<not> running v \<and> (se_state v = Idle \<or> failed_state (se_state v)))"
    using closing_exit[OF cu, of final] by (simp add: Let_def)
  moreover have "se_state u = Stopping \<or> failed_state (se_state u)" using cu by (auto simp: closing_def)
  ultimately show ?thesis using kill by simp
qed

text \<open>
  An apply cannot outlast its deadline: after every poll of the worker, a quality that is still
  requested (and not waiting for the phone's user) has a deadline later than the poll's clock; and
  when the deadline has passed with nothing new from the worker, the poll withdraws the request, the
  session is failed, and the worker is killed or was found exited.
\<close>

theorem apply_never_outlives_deadline:
  assumes "s = run_machine session_step session_new ops" and aux: "se_auxiliary s = None"
    and t: "t = fst (session_poll io s)"
  shows "(cl_pending (se_quality t) \<noteq> None \<and> \<not> cl_staged (se_quality t)
       \<longrightarrow> (\<exists>d. se_quality_deadline t = Some d \<and> pl_now_quality io < d))
    \<and> (reached (se_quality_deadline s) (pl_now_quality io) \<and> pl_events io = []
       \<longrightarrow> cl_pending (se_quality t) = None \<and> failed_state (se_state t)
         \<and> (\<not> se_child t \<or> KillWorker \<in> set (snd (session_poll io s))))"
proof (cases rule: poll_worker_stages[of s io])
  case (1 s1 finished1 out1 s2 finished2 s3 finished3 reaped out3)
  let ?d = "pl_now_quality io"
  have inv: "session_inv s" unfolding assms(1) by (rule session_machine.run_inv[OF new_inv])
  have poll: "session_poll io s = poll_worker io s" using aux by (simp add: session_poll_def)
  have closed: "cl_pending (se_quality t) = None \<and> (\<not> se_child t \<or> KillWorker \<in> set (snd (session_poll io s)))
      \<and> (failed_state (se_state s3) \<longrightarrow> failed_state (se_state t))" if finished3
    using that 1(4) t poll by (auto simp: finish_def Let_def client_disconnected_def)
  have "\<not> reached (se_quality_deadline t) ?d" if "\<not> finished3"
  proof -
    have "\<not> finished2" "t = s2" using reap_open[OF 1(3) that] 1(4) that t poll by simp_all
    then show ?thesis using expire_quality_result[OF 1(2)] by auto
  qed
  moreover have "session_inv t" using poll_worker_inv[OF inv aux, of io] t poll by simp
  ultimately have later: "cl_pending (se_quality t) \<noteq> None \<and> \<not> cl_staged (se_quality t)
       \<longrightarrow> (\<exists>d. se_quality_deadline t = Some d \<and> ?d < d)"
    using closed by (cases finished3) (auto simp: session_inv_def quality_ok_def reached_def)
  have "finished3 \<and> failed_state (se_state s3)" if "reached (se_quality_deadline s) ?d" "pl_events io = []"
  proof -
    have "s1 = s" using 1(1) that(2) by (cases "se_events s") simp_all
    then have "finished2 \<and> failed_state (se_state s2)"
      using expire_quality_result[OF 1(2)] that(1) by (elim disjE conjE; simp add: failed_state_def)
    then show ?thesis using reap_open(2)[OF 1(3)] reap_state(1)[OF 1(3)] by blast
  qed
  then show ?thesis using later closed by blast
qed

section \<open>A sample session\<close>

definition sample_assets :: assets where
  "sample_assets = \<lparr>as_script = lit ''A=__MOBILE_WEBCAM_UDEV_RULES__'', as_rules = lit ''rule'',
     as_modprobe = lit ''conf'', as_modules = lit ''mods''\<rparr>"

definition sample_setup :: setup_io where
  "sample_setup = \<lparr>su_available = True, su_denied = (\<lambda>_. Inr True), su_pid = 7,
     su_probe = \<lparr>hp_parent = True, hp_meta = Inr (Some True),
       hp_canonical = Inr (Some (lit ''/opt/mobile-webcam-usb''))\<rparr>,
     su_from_str = (\<lambda>_. Inr sample_dev), su_assets = sample_assets, su_writable = False, su_installed = False,
     su_spawn = Inr (), su_stdin = Inr (), su_write = Inr (), su_stderr = Inr (), su_worker = Inr ()\<rparr>"

definition sample_connect :: "bool \<Rightarrow> session_op" where
  "sample_connect writable = ConnectOp linux_build (settings_default linux_build) (Some sample_dev)
     (sample_setup\<lparr>su_writable := writable\<rparr>)"

definition sample_poll :: "(host_event \<times> nat) list \<Rightarrow> nat \<Rightarrow> exit_status \<Rightarrow> poll_io" where
  "sample_poll evs now st = \<lparr>pl_events = evs, pl_now_stats = now, pl_now_quality = now, pl_now_stop = now,
     pl_now_end = now, pl_status = st, pl_helper_error = [], pl_switched = (\<lambda>d. Inr d), pl_spawn = Inr ()\<rparr>"

definition sample_caps :: host_event where
  "sample_caps = QualityCapabilities 0 7 0 [\<lparr>m_width = 1280, m_height = 720, m_fps = 30, m_bitrate = 1\<rparr>]"

definition sample_session :: session where
  "sample_session = run_machine session_step session_new [sample_connect True]"

lemma sample_session_is: "sample_session = session_new\<lparr>se_quality := client_new wish_default, se_writer := True,
    se_child := True, se_events := True, se_state := Connecting\<rparr>"
proof -
  have "quality_wish (settings_default linux_build) = wish_default"
    by (simp add: quality_wish_def settings_default_def wish_from_def wish_default_def)
  moreover have "transport (settings_default linux_build) = lit ''usb''" by (simp add: settings_default_def)
  ultimately show ?thesis
    by (simp add: sample_session_def sample_connect_def session_connect_def default_valid Let_def
        session_start_def running_def session_new_def sample_setup_def)
qed

lemma session_invariant_witness: "\<not> (se_child sample_session \<and> se_auxiliary sample_session \<noteq> None)
    \<and> running sample_session"
  using session_invariant[OF sample_session_def] by (simp add: sample_session_is running_def)

lemma stopped_worker_is_reaped_witness:
  "\<exists>t u. se_state u = Stopping \<and> KillWorker \<in> set (machine_trace session_step t [PollOp (sample_poll [] 1000 StillRunning)])
    \<and> \<not> running (fst (session_poll (sample_poll [] 1010 (Exited True [])) u))"
proof -
  let ?polls = "[sample_poll [] 1000 StillRunning]"
  let ?t = "fst (session_stop 0 sample_session)"
  have "se_child sample_session" "list_all (\<lambda>io. \<not> exited (pl_status io)) ?polls"
    by (simp_all add: sample_session_is sample_poll_def exited_def)
  note reaped = stopped_worker_is_reaped[OF sample_session_def this(1) refl this(2) refl,
      where final = "sample_poll [] 1010 (Exited True [])" and now = 0]
  have u: "se_state (run_machine session_step ?t (map PollOp ?polls)) = Stopping"
    by (simp add: sample_session_is session_stop_def running_def session_new_def sample_poll_def session_poll_def
        poll_worker_def stale_stats_def expire_quality_def reached_def reap_def finish_def Let_def)
  have "exited (pl_status (sample_poll [] 1010 (Exited True [])))"
    "list_ex (\<lambda>io. 0 + 1000 \<le> pl_now_stop io) ?polls"
    by (simp_all add: sample_poll_def exited_def)
  then show ?thesis
    using reaped u by (intro exI[of _ ?t] exI[of _ "run_machine session_step ?t (map PollOp ?polls)"]) (simp add: Let_def)
qed

definition sample_request :: session where
  "sample_request = run_machine session_step session_new
     [sample_connect True, PollOp (sample_poll [(sample_caps, 10)] 10 StillRunning)]"

lemma sample_request_is: "se_quality_deadline sample_request = Some 5010" "se_auxiliary sample_request = None"
proof -
  have r: "sample_request = fst (session_poll (sample_poll [(sample_caps, 10)] 10 StillRunning) sample_session)"
    by (simp add: sample_request_def sample_session_def)
  have a: "client_advertise (client_new wish_default) 0 [\<lparr>m_width = 1280, m_height = 720, m_fps = 30, m_bitrate = 1\<rparr>]
      = ((client_new wish_default)\<lparr>cl_permission := Some 0,
          cl_modes := Some [\<lparr>m_width = 1280, m_height = 720, m_fps = 30, m_bitrate = 1\<rparr>], initial_checked := True,
          cl_pending := Some \<lparr>m_width = 1280, m_height = 720, m_fps = 30, m_bitrate = 1\<rparr>\<rparr>,
         Some \<lparr>m_width = 1280, m_height = 720, m_fps = 30, m_bitrate = 1\<rparr>)"
    by (simp add: client_advertise_def client_new_def client_ready_def client_resolve_def client_begin_def Let_def
        resolve_def suits_def usable_def wish_valid_def wish_from_def mode_tuple_def wish_default_def)
  show "se_quality_deadline sample_request = Some 5010" "se_auxiliary sample_request = None"
    unfolding r by (simp_all add: a sample_session_is sample_poll_def sample_caps_def session_poll_def session_new_def
        poll_worker_def on_event_def on_capabilities_def stale_stats_def expire_quality_def reached_def reap_def
        apply_expiry_def Let_def)
qed

lemma apply_never_outlives_deadline_witness:
  "cl_pending (se_quality (fst (session_poll (sample_poll [] 5010 StillRunning) sample_request))) = None
   \<and> failed_state (se_state (fst (session_poll (sample_poll [] 5010 StillRunning) sample_request)))"
  using apply_never_outlives_deadline[OF sample_request_def sample_request_is(2) refl,
      of "sample_poll [] 5010 StillRunning"] sample_request_is(1)
  by (simp add: sample_poll_def reached_def)

text \<open>A session whose camera device is not writable runs the setup.\<close>

lemma sample_script: "embedded_setup_script sample_assets = Inr (lit ''A=rule'')"
  by (simp add: embedded_setup_script_def sample_assets_def asset_safe_def str_lines_def terminator_def
    trim_newlines_def placeholders_def Let_def chr_def)

lemma sample_helper: "packaged_usb_helper (su_probe sample_setup) = Inr (Some (lit ''/opt/mobile-webcam-usb''))"
  by (simp add: packaged_usb_helper_def sample_setup_def helper_path_ok_def path_parts_def chr_def)

definition sample_command :: "ustr list" where
  "sample_command = setup_prefix @ helper_args (Some (lit ''/opt/mobile-webcam-usb''))
     @ switch_args 7 (Some (device_json sample_dev))"

lemma sample_invocation:
  "host_setup_invocation (su_probe sample_setup) (\<lambda>_. Inr sample_dev) sample_assets 7 (Some sample_dev)
     = Inr (sample_command, lit ''A=rule'')"
  by (simp add: host_setup_invocation_def sample_helper sample_script validated_device_json_def sample_command_def)
    (simp add: sample_dev_def)

lemma sample_setup_fields [simp]:
  "su_available sample_setup" "su_denied sample_setup d = Inr True" "su_pid sample_setup = 7"
  "su_from_str sample_setup = (\<lambda>_. Inr sample_dev)" "su_assets sample_setup = sample_assets"
  "su_spawn sample_setup = Inr ()" "su_stdin sample_setup = Inr ()" "su_write sample_setup = Inr ()"
  "su_stderr sample_setup = Inr ()"
  by (simp_all add: sample_setup_def)

lemma sample_setup_run:
  "SpawnHelper sample_command (ScriptInput (lit ''A=rule''))
     \<in> set (machine_trace session_step session_new [sample_connect False])"
proof -
  have "transport (settings_default linux_build) = lit ''usb''"
    "trim (output_path (settings_default linux_build)) = lit ''/dev/video10''"
    by (simp_all add: settings_default_def linux_build_def trim_def trim_start_def trim_end_def is_whitespace_def chr_def)
  moreover have "\<not> accessory_id sample_dev" by (simp add: accessory_id_def accessory_def sample_dev_def)
  ultimately show ?thesis
    by (simp add: sample_connect_def session_connect_def default_valid Let_def session_setup_def sample_invocation
        session_auxiliary_def running_def session_new_def)
qed

lemma started_processes_checked_witness:
  "setup_checked (sample_setup\<lparr>su_writable := False\<rparr>) (Some sample_dev) sample_command (lit ''A=rule'')"
proof -
  from started_processes_checked[OF sample_setup_run] obtain pre op post where
    o: "[sample_connect False] = pre @ op # post" and
    c: "case op of ConnectOp _ _ device io \<Rightarrow> setup_checked io device sample_command (lit ''A=rule'')
        | AllowUsbOp _ io \<Rightarrow> setup_checked io
            (se_usb_permission (run_machine session_step session_new pre)) sample_command (lit ''A=rule'')
        | _ \<Rightarrow> False"
    unfolding Let_def effect.case helper_input.case by blast
  from o have "op = sample_connect False" by (cases pre) auto
  then show ?thesis using c by (simp add: sample_connect_def del: lit_simps)
qed

end
