(* ===== verification/Retry.thy ===== *)
theory Retry
  imports Video_Stream Session
begin

text \<open>
  The reconnection logic of the window, \<open>gui.rs\<close>: which failures are worth another attempt, the
  plan after a failure, the automatic dial, and the part of every frame that drives them, composed with
  the USB selection (\<open>reconcile_selection\<close>), the settings, and the state the session shows. Drawing,
  texts, the preview texture and the statistics stamp are not modelled. Time is in milliseconds.
\<close>

section \<open>Reading an error\<close>

definition mentions :: "string \<Rightarrow> string \<Rightarrow> bool" where
  "mentions needle e = contains needle (map lower_char e)"

datatype refusal = Revoked | Expired | TooMany | Signature | UnknownPc

definition refusal_of :: "string \<Rightarrow> refusal option" where
  "refusal_of e =
     (if mentions ''access was revoked'' e then Some Revoked
      else if mentions ''authorization expired'' e then Some Expired
      else if mentions ''too many pcs'' e then Some TooMany
      else if mentions ''rejected this pc's signature'' e then Some Signature
      else if mentions ''was not authorized'' e \<or> mentions ''is not known to the phone'' e then Some UnknownPc
      else if mentions ''rejected this pc'' e then Some UnknownPc
      else None)"

definition wants_replug :: "string \<Rightarrow> bool" where
  "wants_replug e \<longleftrightarrow> mentions ''unplug'' e \<or> mentions ''selected usb device disconnected'' e
     \<or> mentions ''physical port'' e"

definition hopeless :: "string list" where
  "hopeless = [''fingerprint'', ''access key'', ''explicit recovery'', ''pairing'', ''not authorized'', ''unauthorized'',
     ''v4l2loopback'', ''host setup is not included'', ''setup request failed'', ''access denied'', ''winusb'',
     ''does not support android open accessory'']"

definition auto_retry_is_useful :: "string \<Rightarrow> bool" where
  "auto_retry_is_useful e \<longleftrightarrow> \<not> list_ex (\<lambda>needle. mentions needle e) hopeless"

section \<open>The plan\<close>

definition AUTO_RETRY_LIMIT :: nat where "AUTO_RETRY_LIMIT = 8"

text \<open>Seconds.\<close>

definition auto_retry_delay :: "nat \<Rightarrow> nat" where
  "auto_retry_delay attempt =
     (if attempt \<le> 1 then 2 else if attempt = 2 then 4 else if attempt = 3 then 8 else 15)"

definition saturating_inc :: "nat \<Rightarrow> nat" where
  "saturating_inc n = min (2 ^ 32 - 1) (n + 1)"

record retry_input =
  ri_suppressed :: bool
  ri_pending_or_live :: bool
  ri_retries :: nat
  ri_usb :: bool
  ri_device_absent :: bool
  ri_error :: string

datatype retry_plan = IgnoreFailure | StopRetrying | Exhausted | WaitForDevice | DialAgain nat nat

definition plan_retry :: "retry_input \<Rightarrow> retry_plan" where
  "plan_retry i =
     (if \<not> ri_pending_or_live i then IgnoreFailure
      else if ri_suppressed i \<or> \<not> auto_retry_is_useful (ri_error i) then StopRetrying
      else if ri_usb i \<and> (ri_device_absent i \<or> wants_replug (ri_error i)) then WaitForDevice
      else let attempt = saturating_inc (ri_retries i)
           in if attempt > AUTO_RETRY_LIMIT then Exhausted else DialAgain attempt (auto_retry_delay attempt))"

definition usb_may_dial :: "bool \<Rightarrow> bool \<Rightarrow> bool \<Rightarrow> bool" where
  "usb_may_dial wait_for_device absent absent_seen =
     (if absent then False else if wait_for_device \<and> \<not> absent_seen then False else True)"

section \<open>The window's state\<close>

record app =
  ap_settings :: settings
  ap_session :: state
  ap_running :: bool
  ap_devices :: "candidate list"
  ap_selection :: "device_id option \<times> bool"
  ap_confirm :: bool
  ap_attempted :: bool
  ap_retry :: "nat option"
  ap_retries :: nat
  ap_suppressed :: bool
  ap_pending :: bool
  ap_recover :: bool
  ap_wait :: bool
  ap_absent_seen :: bool
  ap_switch :: bool

definition app_new :: "settings \<Rightarrow> app" where
  "app_new cfg = \<lparr>ap_settings = cfg, ap_session = Idle, ap_running = False, ap_devices = [],
     ap_selection = (None, False), ap_confirm = False,
     ap_attempted = False, ap_retry = None, ap_retries = 0, ap_suppressed = False, ap_pending = False,
     ap_recover = False, ap_wait = False, ap_absent_seen = False, ap_switch = False\<rparr>"

datatype app_out = AutoDial settings "device_id option" | ManualDial settings "device_id option" | SaveSettings settings | StopSession | ReplaceStoredKey

definition on_usb :: "app \<Rightarrow> bool" where
  "on_usb a \<longleftrightarrow> transport (ap_settings a) = lit ''usb''"

definition lan_ready :: "app \<Rightarrow> bool" where
  "lan_ready a \<longleftrightarrow> transport (ap_settings a) = lit ''lan'' \<and> lan_pairing_complete (ap_settings a)"

definition device_absent :: "app \<Rightarrow> bool" where
  "device_absent a \<longleftrightarrow> fst (ap_selection a) = None \<or> snd (ap_selection a)"

text \<open>What the session shows after it was asked to connect.\<close>

definition connected :: "error + unit \<Rightarrow> app \<Rightarrow> app" where
  "connected result a =
     (case result of
        Inr _ \<Rightarrow> a\<lparr>ap_running := True, ap_session := Connecting\<rparr>
      | Inl e \<Rightarrow> a\<lparr>ap_session := Failed (error_text e)\<rparr>)"

definition auto_dial :: "error + unit \<Rightarrow> app \<Rightarrow> app \<times> app_out list" where
  "auto_dial result a =
     (let a1 = connected result (a\<lparr>ap_pending := True\<rparr>)
      in (case result of Inr _ \<Rightarrow> a1\<lparr>ap_retry := None\<rparr> | Inl _ \<Rightarrow> a1,
          [AutoDial (ap_settings a) (fst (ap_selection a))]))"

definition auto_connect :: "error + unit \<Rightarrow> nat \<Rightarrow> app \<Rightarrow> app \<times> app_out list" where
  "auto_connect result now a =
     (if ap_running a then (a, [])
      else if on_usb a
      then (if \<not> ap_wait a \<and> ap_retries a = 0 then (a, [])
            else let absent = device_absent a;
                     a1 = (if absent then a\<lparr>ap_absent_seen := True\<rparr> else a)
                 in if \<not> usb_may_dial (ap_wait a1) absent (ap_absent_seen a1)
                    then (let a2 = (if absent then a1\<lparr>ap_wait := True\<rparr> else a1)
                          in (if ap_suppressed a2 then a2 else a2\<lparr>ap_retry := Some (now + 1000 * auto_retry_delay 1)\<rparr>, []))
                    else auto_dial result (a1\<lparr>ap_wait := False, ap_absent_seen := False\<rparr>))
      else if \<not> lan_ready a then (a, [])
      else auto_dial result a)"

definition arm_retry :: "string \<Rightarrow> nat \<Rightarrow> app \<Rightarrow> app" where
  "arm_retry e now a =
     (case plan_retry \<lparr>ri_suppressed = ap_suppressed a, ri_pending_or_live = True, ri_retries = ap_retries a,
             ri_usb = on_usb a, ri_device_absent = device_absent a, ri_error = e\<rparr> of
        IgnoreFailure \<Rightarrow> a
      | StopRetrying \<Rightarrow> a\<lparr>ap_retry := None, ap_wait := False, ap_absent_seen := False\<rparr>
      | Exhausted \<Rightarrow> a\<lparr>ap_retry := None, ap_wait := False, ap_absent_seen := False,
          ap_retries := saturating_inc AUTO_RETRY_LIMIT\<rparr>
      | WaitForDevice \<Rightarrow> a\<lparr>ap_wait := True, ap_absent_seen := (ap_absent_seen a \<or> device_absent a),
          ap_retry := Some (now + 1000 * auto_retry_delay 1)\<rparr>
      | DialAgain attempt delay \<Rightarrow> a\<lparr>ap_wait := False, ap_absent_seen := False, ap_retries := attempt,
          ap_retry := Some (now + 1000 * delay)\<rparr>)"

section \<open>One frame\<close>

text \<open>
  What a frame meets: the clock where it is read, the result of every connection the frame may start,
  pairing details the session took over, what the poll leaves of the session, the device lists that
  arrived, and the user's action.
\<close>

datatype ui_action =
    NoAction
  | MainButton "error + unit"
  | SwitchToWifi
  | ChooseTransport ustr
  | EditSettings settings
  | SelectDevice device_id
  | AskReplaceKey
  | ReplaceKey "error + unit"
  | CancelReplaceKey

record frame_in =
  fi_now_arm :: nat
  fi_now_timer :: nat
  fi_now_auto :: nat
  fi_now_devices :: nat
  fi_pairing :: "pairing_info option"
  fi_connect_switch :: "error + unit"
  fi_connect_timer :: "error + unit"
  fi_connect_devices :: "error + unit"
  fi_polled :: "state \<times> bool"
  fi_devices :: "(error + candidate list) list"
  fi_action :: ui_action

text \<open>A confirmation armed in one failure does not carry into a different state.\<close>

definition confirm_part :: "app \<Rightarrow> app" where
  "confirm_part a = (case ap_session a of Failed _ \<Rightarrow> a | _ \<Rightarrow> a\<lparr>ap_confirm := False\<rparr>)"

definition state_part :: "nat \<Rightarrow> app \<Rightarrow> app" where
  "state_part now a =
     (case ap_session a of
        Waiting \<Rightarrow> a\<lparr>ap_pending := False, ap_retries := 0, ap_retry := None, ap_recover := True, ap_wait := False,
          ap_absent_seen := False\<rparr>
      | Streaming \<Rightarrow> a\<lparr>ap_pending := False, ap_retries := 0, ap_retry := None, ap_recover := True, ap_wait := False,
          ap_absent_seen := False\<rparr>
      | Connecting \<Rightarrow> a\<lparr>ap_pending := False, ap_recover := True, ap_retry := None\<rparr>
      | ApprovalPending _ \<Rightarrow> a\<lparr>ap_pending := False, ap_recover := True, ap_retry := None\<rparr>
      | Failed e \<Rightarrow>
          if ap_pending a \<or> ap_recover a
          then arm_retry e now (a\<lparr>ap_pending := False, ap_recover := False\<rparr>)
          else a
      | _ \<Rightarrow> a)"

definition pairing_take :: "pairing_info option \<Rightarrow> app \<Rightarrow> app \<times> app_out list" where
  "pairing_take info a =
     (case info of
        None \<Rightarrow> (a, [])
      | Some i \<Rightarrow>
          (case preferred_address i of
             None \<Rightarrow> (a, [])
           | Some address \<Rightarrow>
               (let cfg = (ap_settings a)\<lparr>lan_host := show_ipv4 address, lan_fingerprint := pi_fingerprint i,
                            lan_key := pi_key i\<rparr>
                in (a\<lparr>ap_settings := cfg\<rparr>, [SaveSettings cfg]))))"

definition switch_part :: "frame_in \<Rightarrow> app \<Rightarrow> app \<times> app_out list" where
  "switch_part f a =
     (if ap_switch a \<and> \<not> ap_running a
      then let cfg = (ap_settings a)\<lparr>transport := lit ''lan''\<rparr>;
               (a', out) = auto_connect (fi_connect_switch f) (fi_now_auto f)
                 (a\<lparr>ap_switch := False, ap_settings := cfg, ap_retries := 0, ap_suppressed := False\<rparr>)
           in (a', SaveSettings cfg # out)
      else (a, []))"

definition timer_part :: "frame_in \<Rightarrow> app \<Rightarrow> app \<times> app_out list" where
  "timer_part f a =
     (if \<not> ap_attempted a then auto_connect (fi_connect_timer f) (fi_now_auto f) (a\<lparr>ap_attempted := True\<rparr>)
      else case ap_retry a of
             None \<Rightarrow> (a, [])
           | Some due \<Rightarrow>
               if fi_now_timer f \<ge> due then auto_connect (fi_connect_timer f) (fi_now_auto f) (a\<lparr>ap_retry := None\<rparr>)
               else (a, []))"

fun devices_part :: "frame_in \<Rightarrow> (error + candidate list) list \<Rightarrow> app \<Rightarrow> app \<times> app_out list" where
  "devices_part f [] a = (a, [])"
| "devices_part f (r # rs) a =
     (let (a1, out) =
        (case r of
           Inl _ \<Rightarrow> (a, [])
         | Inr devices \<Rightarrow>
             (let a' = a\<lparr>ap_selection := reconcile_selection (ap_selection a) devices, ap_devices := devices\<rparr>
              in if ap_wait a' \<and> \<not> device_absent a' \<and> \<not> ap_running a' \<and> \<not> ap_suppressed a'
                 then auto_connect (fi_connect_devices f) (fi_now_devices f) a' else (a', [])));
          (a2, out') = devices_part f rs a1
      in (a2, out @ out'))"

definition button_allowed :: "app \<Rightarrow> bool" where
  "button_allowed a \<longleftrightarrow> ap_running a \<or> lan_ready a \<or> (on_usb a \<and> \<not> device_absent a)"

text \<open>The device box is there over USB unless the one device of the list is the selection.\<close>

definition device_box :: "app \<Rightarrow> bool" where
  "device_box a \<longleftrightarrow> \<not> ap_running a \<and> transport (ap_settings a) \<noteq> lit ''lan'' \<and> ap_devices a \<noteq> []
     \<and> (length (ap_devices a) \<noteq> 1 \<or> device_absent a)"

text \<open>Replacing the stored key is offered after a failure that names it, and confirmed once.\<close>

definition replace_offered :: "app \<Rightarrow> bool" where
  "replace_offered a \<longleftrightarrow>
     (case ap_session a of Failed e \<Rightarrow> contains ''explicit recovery required'' e | _ \<Rightarrow> False)"

definition action_part :: "ui_action \<Rightarrow> app \<Rightarrow> app \<times> app_out list" where
  "action_part act a =
     (case act of
        NoAction \<Rightarrow> (a, [])
      | MainButton result \<Rightarrow>
          if \<not> button_allowed a then (a, [])
          else if ap_running a
          then (a\<lparr>ap_retry := None, ap_suppressed := True, ap_recover := False, ap_wait := False,
                  ap_absent_seen := False, ap_pending := False, ap_session := Stopping\<rparr>,
                [SaveSettings (ap_settings a), StopSession])
          else (connected result (a\<lparr>ap_suppressed := False, ap_retries := 0, ap_pending := True, ap_wait := False,
                  ap_absent_seen := False, ap_recover := False\<rparr>),
                [SaveSettings (ap_settings a), ManualDial (ap_settings a) (fst (ap_selection a))])
      | SwitchToWifi \<Rightarrow>
          (a\<lparr>ap_switch := True, ap_session := (if ap_running a then Stopping else ap_session a)\<rparr>, [StopSession])
      | ChooseTransport mode \<Rightarrow>
          if ap_running a then (a, [])
          else (a\<lparr>ap_settings := (ap_settings a)\<lparr>transport := mode\<rparr>, ap_session := Idle\<rparr>, [])
      | EditSettings cfg \<Rightarrow> (a\<lparr>ap_settings := cfg\<lparr>transport := transport (ap_settings a)\<rparr>\<rparr>, [])
      | SelectDevice d \<Rightarrow>
          if device_box a \<and> d \<in> cand_id ` set (ap_devices a) \<and> fst (ap_selection a) \<noteq> Some d
          then (a\<lparr>ap_selection := (Some d, False)\<rparr>, []) else (a, [])
      | AskReplaceKey \<Rightarrow> (if replace_offered a then a\<lparr>ap_confirm := True\<rparr> else a, [])
      | ReplaceKey result \<Rightarrow>
          if replace_offered a \<and> ap_confirm a
          then (a\<lparr>ap_confirm := False,
                  ap_session := (case result of Inr _ \<Rightarrow> Idle | Inl e \<Rightarrow> Failed (error_text e))\<rparr>,
                [ReplaceStoredKey])
          else (a, [])
      | CancelReplaceKey \<Rightarrow> (a\<lparr>ap_confirm := False\<rparr>, []))"

definition poll_part :: "state \<times> bool \<Rightarrow> app \<Rightarrow> app" where
  "poll_part polled a = (if ap_running a then a\<lparr>ap_session := fst polled, ap_running := snd polled\<rparr> else a)"

definition app_frame :: "app \<Rightarrow> frame_in \<Rightarrow> app \<times> app_out list" where
  "app_frame a f =
     (let a1 = state_part (fi_now_arm f) (confirm_part a);
          (a2, out2) = pairing_take (fi_pairing f) a1;
          (a3, out3) = switch_part f a2;
          (a4, out4) = timer_part f a3;
          a5 = poll_part (fi_polled f) a4;
          (a6, out6) = devices_part f (fi_devices f) a5;
          (a7, out7) = action_part (fi_action f) a6
      in (a7, out2 @ out3 @ out4 @ out6 @ out7))"

end
