(* ===== verification/Retry_Props.thy ===== *)
theory Retry_Props
  imports Retry
begin

text \<open>
  What the reconnection logic guarantees: how many dials it makes on its own, that it stays quiet after
  a disconnect, and how it reads the refusals of the authorization exchange.
\<close>

section \<open>Reading the refusals\<close>

text \<open>
  Every refusal text the authorization exchange can end with is classified, and as what it is.
\<close>

theorem refusals_classified:
  "refusal_of (reason_text r) = Some
     (if r = AUTH_REASON_REVOKED then Revoked
      else if r = AUTH_REASON_EXPIRED then Expired
      else if r = AUTH_REASON_TOO_MANY then TooMany
      else if r = AUTH_REASON_BAD_SIGNATURE then Signature
      else UnknownPc)"
proof -
  have "refusal_of ''this PC is not known to the phone'' = Some UnknownPc"
    "refusal_of ''this PC's access was revoked on the phone'' = Some Revoked"
    "refusal_of ''this PC's authorization expired on the phone'' = Some Expired"
    "refusal_of ''the phone already authorizes too many PCs'' = Some TooMany"
    "refusal_of ''the phone rejected this PC's signature'' = Some Signature"
    "refusal_of ''the phone rejected this PC'' = Some UnknownPc"
    by code_simp+
  then show ?thesis by (simp add: reason_text_def)
qed

text \<open>None of them counts as hopeless: a refused PC is dialed again.\<close>

lemma refusals_retried: "auto_retry_is_useful (reason_text r)"
proof -
  have "auto_retry_is_useful ''this PC is not known to the phone''"
    "auto_retry_is_useful ''this PC's access was revoked on the phone''"
    "auto_retry_is_useful ''this PC's authorization expired on the phone''"
    "auto_retry_is_useful ''the phone already authorizes too many PCs''"
    "auto_retry_is_useful ''the phone rejected this PC's signature''"
    "auto_retry_is_useful ''the phone rejected this PC''"
    by code_simp+
  then show ?thesis by (simp add: reason_text_def)
qed

section \<open>A budget for the dials\<close>

definition failed_session :: "state \<Rightarrow> bool" where
  "failed_session st \<longleftrightarrow> (case st of Failed _ \<Rightarrow> True | _ \<Rightarrow> False)"

text \<open>
  A timer that is not waiting for a device, or a device that was seen to leave, stands for one dial;
  a timer left by a failed start is replaced before it can fire.
\<close>

definition timer_token :: "app \<Rightarrow> nat" where
  "timer_token a = (if ap_retry a \<noteq> None \<and> \<not> ap_wait a \<and> \<not> (ap_pending a \<and> failed_session (ap_session a)) then 1 else 0)"

definition tokens :: "app \<Rightarrow> nat" where
  "tokens a = timer_token a + (if ap_absent_seen a then 1 else 0)"

definition dial_budget :: "app \<Rightarrow> nat" where
  "dial_budget a = (if ap_attempted a then 1 else 0) + min AUTO_RETRY_LIMIT (ap_retries a)"

definition absent_now :: "app \<Rightarrow> nat" where
  "absent_now a = (if on_usb a \<and> device_absent a then 1 else 0)"

fun is_auto :: "app_out \<Rightarrow> bool" where
  "is_auto (AutoDial _ _) = True"
| "is_auto _ = False"

definition dials :: "app_out list \<Rightarrow> nat" where
  "dials out = length (filter is_auto out)"

lemma dials_simps [simp]:
  "dials [] = 0" "dials (xs @ ys) = dials xs + dials ys"
  "dials (x # xs) = (if is_auto x then 1 else 0) + dials xs"
  by (simp_all add: dials_def)

definition calm_frame :: "frame_in \<Rightarrow> bool" where
  "calm_frame f \<longleftrightarrow> fst (fi_polled f) \<noteq> Waiting \<and> fst (fi_polled f) \<noteq> Streaming
     \<and> (case fi_action f of NoAction \<Rightarrow> True | EditSettings _ \<Rightarrow> True | _ \<Rightarrow> False)"

definition calm :: "app \<Rightarrow> bool" where
  "calm a \<longleftrightarrow> ap_session a \<noteq> Waiting \<and> ap_session a \<noteq> Streaming \<and> \<not> ap_switch a
     \<and> (\<not> on_usb a \<longrightarrow> \<not> ap_wait a \<and> \<not> ap_absent_seen a)
     \<and> (\<not> ap_attempted a \<longrightarrow> ap_session a = Idle \<and> ap_retry a = None \<and> \<not> ap_pending a \<and> \<not> ap_recover a \<and> \<not> ap_wait a)"

lemma failed_session_simps [simp]:
  "failed_session (Failed m)" "\<not> failed_session Idle" "\<not> failed_session Connecting" "\<not> failed_session Waiting"
  "\<not> failed_session Streaming" "\<not> failed_session Stopping" "\<not> failed_session (ApprovalPending c)"
  by (simp_all add: failed_session_def)

text \<open>
  Inside a frame an absent device counts already; \<open>pays\<close> is what a stage may spend: its dials and what
  is left, against what was there and the budget gained.
\<close>

definition absent_usb :: "app \<Rightarrow> bool" where
  "absent_usb a \<longleftrightarrow> on_usb a \<and> device_absent a"

definition credit :: "app \<Rightarrow> nat" where
  "credit a = timer_token a + (if ap_absent_seen a \<or> absent_usb a then 1 else 0)"

definition pays :: "nat \<Rightarrow> app \<Rightarrow> app \<Rightarrow> bool" where
  "pays n a b \<longleftrightarrow> n + credit b + dial_budget a \<le> credit a + dial_budget b"

lemma pays_trans: "pays m a b \<Longrightarrow> pays n b c \<Longrightarrow> pays (m + n) a c"
  by (simp add: pays_def)

lemma pays_refl [simp]: "pays 0 a a"
  by (simp add: pays_def)

section \<open>The stages\<close>

lemma on_usb_update [simp]:
  "on_usb (a\<lparr>ap_session := x_ap_session\<rparr>) = on_usb a" "device_absent (a\<lparr>ap_session := x_ap_session\<rparr>) = device_absent a"
  "on_usb (a\<lparr>ap_running := x_ap_running\<rparr>) = on_usb a" "device_absent (a\<lparr>ap_running := x_ap_running\<rparr>) = device_absent a"
  "on_usb (a\<lparr>ap_attempted := x_ap_attempted\<rparr>) = on_usb a" "device_absent (a\<lparr>ap_attempted := x_ap_attempted\<rparr>) = device_absent a"
  "on_usb (a\<lparr>ap_retry := x_ap_retry\<rparr>) = on_usb a" "device_absent (a\<lparr>ap_retry := x_ap_retry\<rparr>) = device_absent a"
  "on_usb (a\<lparr>ap_retries := x_ap_retries\<rparr>) = on_usb a" "device_absent (a\<lparr>ap_retries := x_ap_retries\<rparr>) = device_absent a"
  "on_usb (a\<lparr>ap_suppressed := x_ap_suppressed\<rparr>) = on_usb a" "device_absent (a\<lparr>ap_suppressed := x_ap_suppressed\<rparr>) = device_absent a"
  "on_usb (a\<lparr>ap_pending := x_ap_pending\<rparr>) = on_usb a" "device_absent (a\<lparr>ap_pending := x_ap_pending\<rparr>) = device_absent a"
  "on_usb (a\<lparr>ap_recover := x_ap_recover\<rparr>) = on_usb a" "device_absent (a\<lparr>ap_recover := x_ap_recover\<rparr>) = device_absent a"
  "on_usb (a\<lparr>ap_wait := x_ap_wait\<rparr>) = on_usb a" "device_absent (a\<lparr>ap_wait := x_ap_wait\<rparr>) = device_absent a"
  "on_usb (a\<lparr>ap_absent_seen := x_ap_absent_seen\<rparr>) = on_usb a" "device_absent (a\<lparr>ap_absent_seen := x_ap_absent_seen\<rparr>) = device_absent a"
  "on_usb (a\<lparr>ap_switch := x_ap_switch\<rparr>) = on_usb a" "device_absent (a\<lparr>ap_switch := x_ap_switch\<rparr>) = device_absent a"
  "on_usb (a\<lparr>ap_confirm := x_ap_confirm\<rparr>) = on_usb a" "device_absent (a\<lparr>ap_confirm := x_ap_confirm\<rparr>) = device_absent a"
  "on_usb (a\<lparr>ap_selection := sel\<rparr>) = on_usb a"
  "on_usb (a\<lparr>ap_selection := sel, ap_devices := ds\<rparr>) = on_usb a"
  by (simp_all add: on_usb_def device_absent_def)

definition same_device :: "app \<Rightarrow> app \<Rightarrow> bool" where
  "same_device a b \<longleftrightarrow> on_usb b = on_usb a \<and> device_absent b = device_absent a"

lemma same_device_trans: "same_device a b \<Longrightarrow> same_device b c \<Longrightarrow> same_device a c"
  by (simp add: same_device_def)

definition settled :: "app \<Rightarrow> bool" where
  "settled a \<longleftrightarrow> \<not> (ap_pending a \<and> failed_session (ap_session a) \<and> ap_retry a \<noteq> None)"

definition quiet :: "app \<Rightarrow> bool" where
  "quiet a \<longleftrightarrow> \<not> (ap_pending a \<and> failed_session (ap_session a))"

lemma arm_retry_pays:
  assumes c: "calm a" and pend: "\<not> ap_pending a" and att: "ap_attempted a"
  shows "pays 0 a (arm_retry e now a) \<and> calm (arm_retry e now a) \<and> quiet (arm_retry e now a)
    \<and> same_device a (arm_retry e now a)"
proof -
  let ?i = "\<lparr>ri_suppressed = ap_suppressed a, ri_pending_or_live = True, ri_retries = ap_retries a,
             ri_usb = on_usb a, ri_device_absent = device_absent a, ri_error = e\<rparr>"
  let ?b = "arm_retry e now a"
  show ?thesis
  proof (cases "plan_retry ?i")
    case (DialAgain attempt delay)
    then have n: "attempt = ap_retries a + 1" "attempt \<le> AUTO_RETRY_LIMIT" "\<not> absent_usb a"
      by (auto simp: plan_retry_def saturating_inc_def AUTO_RETRY_LIMIT_def absent_usb_def Let_def split: if_splits)
    have b: "?b = a\<lparr>ap_wait := False, ap_absent_seen := False, ap_retries := attempt, ap_retry := Some (now + 1000 * delay)\<rparr>"
      unfolding arm_retry_def DialAgain by simp
    have "credit ?b = 1" using pend n(3) by (simp add: b credit_def timer_token_def absent_usb_def)
    moreover have "dial_budget ?b = dial_budget a + 1" using n by (simp add: b dial_budget_def)
    ultimately show ?thesis using c pend att by (simp add: pays_def b calm_def quiet_def same_device_def)
  next
    case Exhausted
    then have n: "AUTO_RETRY_LIMIT \<le> ap_retries a"
      by (auto simp: plan_retry_def saturating_inc_def AUTO_RETRY_LIMIT_def Let_def split: if_splits)
    have b: "?b = a\<lparr>ap_retry := None, ap_wait := False, ap_absent_seen := False,
        ap_retries := saturating_inc AUTO_RETRY_LIMIT\<rparr>"
      unfolding arm_retry_def Exhausted by simp
    have "credit ?b \<le> credit a" by (simp add: b credit_def timer_token_def absent_usb_def)
    moreover have "dial_budget ?b = dial_budget a" using n by (simp add: b dial_budget_def saturating_inc_def AUTO_RETRY_LIMIT_def)
    ultimately show ?thesis using c att pend by (simp add: pays_def b calm_def quiet_def same_device_def)
  next
    case WaitForDevice
    then have u: "on_usb a" by (auto simp: plan_retry_def Let_def split: if_splits)
    have b: "?b = a\<lparr>ap_wait := True, ap_absent_seen := (ap_absent_seen a \<or> device_absent a),
          ap_retry := Some (now + 1000 * auto_retry_delay 1)\<rparr>"
      unfolding arm_retry_def WaitForDevice by simp
    have "credit ?b \<le> credit a" using u by (simp add: b credit_def timer_token_def absent_usb_def)
    moreover have "dial_budget ?b = dial_budget a" by (simp add: b dial_budget_def)
    ultimately show ?thesis using c u att pend by (simp add: pays_def b calm_def quiet_def same_device_def)
  next
    case StopRetrying
    have b: "?b = a\<lparr>ap_retry := None, ap_wait := False, ap_absent_seen := False\<rparr>"
      unfolding arm_retry_def StopRetrying by simp
    have "credit ?b \<le> credit a" by (simp add: b credit_def timer_token_def absent_usb_def)
    moreover have "dial_budget ?b = dial_budget a" by (simp add: b dial_budget_def)
    ultimately show ?thesis using c att pend by (simp add: pays_def b calm_def quiet_def same_device_def)
  next
    case IgnoreFailure
    have b: "?b = a" unfolding arm_retry_def IgnoreFailure by simp
    show ?thesis using c pend by (simp add: b quiet_def same_device_def)
  qed
qed

text \<open>A new plan replaces the timer.\<close>

lemma arm_retry_overwrites: "arm_retry e now (a\<lparr>ap_retry := due\<rparr>) = arm_retry e now a"
proof -
  have "plan_retry \<lparr>ri_suppressed = ap_suppressed a, ri_pending_or_live = True, ri_retries = ap_retries a,
             ri_usb = on_usb a, ri_device_absent = device_absent a, ri_error = e\<rparr> \<noteq> IgnoreFailure"
    by (simp add: plan_retry_def Let_def)
  then show ?thesis by (simp add: arm_retry_def split: retry_plan.splits)
qed

lemma state_part_pays:
  assumes c: "calm a"
  shows "pays 0 a (state_part now a) \<and> calm (state_part now a) \<and> quiet (state_part now a)
    \<and> same_device a (state_part now a)"
proof -
  have live: "pays 0 a (a\<lparr>ap_pending := False, ap_recover := True, ap_retry := None\<rparr>)"
    by (simp add: pays_def credit_def timer_token_def absent_usb_def dial_budget_def)
  show ?thesis
  proof (cases "ap_session a")
    case (Failed e)
    let ?a = "a\<lparr>ap_pending := False, ap_recover := False\<rparr>"
    show ?thesis
    proof (cases "ap_pending a \<or> ap_recover a")
      case True
      let ?c = "?a\<lparr>ap_retry := None\<rparr>"
      have first: "pays 0 a ?c" by (simp add: pays_def credit_def timer_token_def absent_usb_def dial_budget_def)
      have "calm ?c" "ap_attempted ?c" using c True by (auto simp: calm_def)
      then have "pays 0 ?c (arm_retry e now ?c) \<and> calm (arm_retry e now ?c) \<and> quiet (arm_retry e now ?c)
          \<and> same_device ?c (arm_retry e now ?c)" by (intro arm_retry_pays) simp_all
      then have arm: "pays 0 ?c (arm_retry e now ?a)" "calm (arm_retry e now ?a)" "quiet (arm_retry e now ?a)"
          "same_device ?c (arm_retry e now ?a)" by (simp_all add: arm_retry_overwrites)
      have "same_device a (arm_retry e now ?a)" using arm(4) by (simp add: same_device_def)
      then show ?thesis
        using pays_trans[OF first arm(1)] arm(2,3) True by (simp add: state_part_def Failed)
    next
      case False
      then show ?thesis using c by (simp add: state_part_def Failed quiet_def same_device_def)
    qed
  qed (use c live in \<open>auto simp: state_part_def calm_def quiet_def same_device_def\<close>)
qed

lemma auto_dial_pays:
  assumes c: "calm a" and att: "ap_attempted a" and run: "\<not> ap_wait a" "\<not> ap_absent_seen a"
    and dial: "auto_dial result a = (b, out)"
  shows "dials out = 1 \<and> dial_budget b = dial_budget a \<and> calm b \<and> same_device a b \<and> timer_token b = 0 \<and> \<not> ap_absent_seen b
    \<and> (ap_retry a = None \<longrightarrow> settled b) \<and> ap_attempted b"
  using assms
  by (cases result) (auto simp: auto_dial_def connected_def Let_def dial_budget_def calm_def same_device_def timer_token_def settled_def)

lemma auto_connect_pays:
  assumes c: "calm a" and att: "ap_attempted a" and auto: "auto_connect result now a = (b, out)"
  shows "dial_budget b = dial_budget a \<and> calm b \<and> same_device a b \<and> ap_attempted b
    \<and> (ap_retry a = None \<and> quiet a \<longrightarrow> settled b
         \<and> dials out + credit b \<le> (if ap_wait a then 0 else 1) + (if ap_absent_seen a \<or> absent_usb a then 1 else 0))
    \<and> (ap_wait a \<and> \<not> absent_usb a \<longrightarrow> dials out + tokens b \<le> tokens a)"
proof -
  consider (run) "ap_running a"
    | (cold) "\<not> ap_running a" "on_usb a" "\<not> ap_wait a" "ap_retries a = 0"
    | (usb) "\<not> ap_running a" "on_usb a" "ap_wait a \<or> ap_retries a \<noteq> 0"
    | (off) "\<not> ap_running a" "\<not> on_usb a" "\<not> lan_ready a"
    | (lan) "\<not> ap_running a" "\<not> on_usb a" "lan_ready a" by blast
  then show ?thesis
  proof cases
    case lan
    then have "\<not> ap_wait a" "\<not> ap_absent_seen a" using c by (simp_all add: calm_def)
    moreover have "auto_dial result a = (b, out)" using auto lan by (simp add: auto_connect_def)
    ultimately show ?thesis
      using auto_dial_pays[OF c att] lan by (simp add: credit_def absent_usb_def same_device_def)
  next
    case usb
    show ?thesis
    proof (cases "device_absent a")
      case True
      let ?a = "a\<lparr>ap_absent_seen := True, ap_wait := True\<rparr>"
      have b: "out = []" "b = (if ap_suppressed a then ?a else ?a\<lparr>ap_retry := Some (now + 1000 * auto_retry_delay 1)\<rparr>)"
        using auto usb True by (auto simp: auto_connect_def usb_may_dial_def Let_def)
      have "quiet a \<longrightarrow> settled b" using b(2) by (auto simp: settled_def quiet_def)
      then show ?thesis
        using b c usb True att
        by (simp add: dial_budget_def calm_def same_device_def credit_def timer_token_def absent_usb_def)
    next
      case False
      show ?thesis
      proof (cases "ap_wait a \<and> \<not> ap_absent_seen a")
        case True
        then have b: "out = []" "b = (if ap_suppressed a then a else a\<lparr>ap_retry := Some (now + 1000 * auto_retry_delay 1)\<rparr>)"
          using auto usb False by (auto simp: auto_connect_def usb_may_dial_def Let_def)
        then show ?thesis
          using c usb False True att
          by (simp add: dial_budget_def same_device_def credit_def tokens_def timer_token_def absent_usb_def settled_def
              quiet_def calm_def) blast
      next
        case go: False
        let ?a = "a\<lparr>ap_wait := False, ap_absent_seen := False\<rparr>"
        have "auto_dial result ?a = (b, out)" using auto usb False go by (auto simp: auto_connect_def usb_may_dial_def)
        moreover have "calm ?a" using c att by (simp add: calm_def)
        ultimately have d: "dials out = 1 \<and> dial_budget b = dial_budget ?a \<and> calm b \<and> same_device ?a b \<and> timer_token b = 0
            \<and> \<not> ap_absent_seen b \<and> (ap_retry ?a = None \<longrightarrow> settled b) \<and> ap_attempted b"
          using att by (intro auto_dial_pays) simp_all
        moreover have "dial_budget ?a = dial_budget a" "same_device a b" using d by (simp_all add: dial_budget_def same_device_def)
        moreover have "\<not> absent_usb b" using d False by (simp add: absent_usb_def same_device_def)
        ultimately show ?thesis using go by (auto simp: credit_def tokens_def)
      qed
    qed
  qed (use c att auto in \<open>simp_all add: auto_connect_def credit_def tokens_def timer_token_def settled_def same_device_def\<close>)
qed

lemma timer_part_pays:
  assumes c: "calm a" and q: "quiet a" and run: "timer_part f a = (b, out)"
  shows "pays (dials out) a b \<and> calm b \<and> settled b \<and> same_device a b \<and> ap_attempted b"
proof (cases "ap_attempted a")
  case False
  let ?a = "a\<lparr>ap_attempted := True\<rparr>"
  have a: "calm ?a" "quiet ?a" "ap_attempted ?a" "ap_retry ?a = None" "\<not> ap_wait ?a"
    using c q False by (simp_all add: calm_def quiet_def)
  have auto: "auto_connect (fi_connect_timer f) (fi_now_auto f) ?a = (b, out)"
    using run False by (simp add: timer_part_def)
  have "dial_budget ?a = dial_budget a + 1" "credit ?a = credit a" "credit a = (if ap_absent_seen a \<or> absent_usb a then 1 else 0)"
    using a False by (simp_all add: dial_budget_def credit_def timer_token_def absent_usb_def)
  then show ?thesis
    using auto_connect_pays[OF a(1) a(3) auto] a
    by (simp add: pays_def same_device_def absent_usb_def calm_def)
next
  case att: True
  show ?thesis
  proof (cases "ap_retry a = None \<or> (\<exists>due. ap_retry a = Some due \<and> fi_now_timer f < due)")
    case True
    then have "b = a" "out = []" using run att by (auto simp: timer_part_def)
    then show ?thesis using c q att by (auto simp: settled_def quiet_def same_device_def)
  next
    case False
    let ?a = "a\<lparr>ap_retry := None\<rparr>"
    have a: "calm ?a" "quiet ?a" "ap_attempted ?a" using c q att by (simp_all add: calm_def quiet_def)
    have auto: "auto_connect (fi_connect_timer f) (fi_now_auto f) ?a = (b, out)"
      using run att False by (auto simp: timer_part_def not_less)
    have "credit a = (if ap_wait a then 0 else 1) + (if ap_absent_seen a \<or> absent_usb a then 1 else 0)"
      using False q by (auto simp: credit_def timer_token_def quiet_def)
    moreover have "dial_budget ?a = dial_budget a" by (simp add: dial_budget_def)
    moreover have "absent_usb ?a = absent_usb a" by (simp add: absent_usb_def)
    moreover note auto_connect_pays[OF a(1) a(3) auto]
    ultimately show ?thesis using a(2) by (simp add: pays_def same_device_def)
  qed
qed

lemma poll_part_pays:
  assumes "calm a" "settled a" "ap_attempted a" "fst polled \<noteq> Waiting" "fst polled \<noteq> Streaming"
  shows "pays 0 a (poll_part polled a) \<and> calm (poll_part polled a) \<and> same_device a (poll_part polled a)
    \<and> ap_attempted (poll_part polled a)"
  using assms
  by (auto simp: poll_part_def pays_def credit_def timer_token_def absent_usb_def dial_budget_def calm_def settled_def
      same_device_def)

lemma devices_part_pays:
  "calm a \<Longrightarrow> ap_attempted a \<Longrightarrow> devices_part f ds a = (b, out) \<Longrightarrow>
     dials out + tokens b \<le> tokens a \<and> dial_budget b = dial_budget a \<and> calm b \<and> ap_attempted b \<and> on_usb b = on_usb a"
proof (induction ds arbitrary: a out)
  case Nil
  then show ?case by simp
next
  case (Cons r rs)
  obtain a1 out1 where one: "(case r of Inl _ \<Rightarrow> (a, [])
      | Inr devices \<Rightarrow> (let a' = a\<lparr>ap_selection := reconcile_selection (ap_selection a) devices, ap_devices := devices\<rparr>
          in if ap_wait a' \<and> \<not> device_absent a' \<and> \<not> ap_running a' \<and> \<not> ap_suppressed a'
             then auto_connect (fi_connect_devices f) (fi_now_devices f) a' else (a', []))) = (a1, out1)"
    by fastforce
  obtain out2 where rest: "devices_part f rs a1 = (b, out2)" "out = out1 @ out2"
    using Cons.prems(3) one by (cases "devices_part f rs a1") simp
  have first: "dials out1 + tokens a1 \<le> tokens a \<and> dial_budget a1 = dial_budget a \<and> calm a1 \<and> ap_attempted a1 \<and> on_usb a1 = on_usb a"
  proof (cases r)
    case (Inl e)
    then show ?thesis using one Cons.prems by simp
  next
    case (Inr devices)
    let ?a = "a\<lparr>ap_selection := reconcile_selection (ap_selection a) devices, ap_devices := devices\<rparr>"
    have a: "calm ?a" "ap_attempted ?a" "tokens ?a = tokens a" "dial_budget ?a = dial_budget a" "on_usb ?a = on_usb a"
      using Cons.prems by (simp_all add: calm_def tokens_def timer_token_def dial_budget_def)
    show ?thesis
    proof (cases "ap_wait ?a \<and> \<not> device_absent ?a \<and> \<not> ap_running ?a \<and> \<not> ap_suppressed ?a")
      case True
      then have "auto_connect (fi_connect_devices f) (fi_now_devices f) ?a = (a1, out1)" using one Inr by (simp add: Let_def)
      then show ?thesis
        using auto_connect_pays[OF a(1,2)] a True by (simp add: absent_usb_def same_device_def calm_def)
    next
      case False
      then have "a1 = ?a" "out1 = []" using one Inr by (auto simp: Let_def split: if_splits)
      then show ?thesis using a by simp
    qed
  qed
  then show ?case using Cons.IH[of a1 out2] rest by auto
qed

text \<open>What a disconnect leaves.\<close>

definition resting :: "app \<Rightarrow> bool" where
  "resting a \<longleftrightarrow> ap_suppressed a \<and> ap_retry a = None \<and> \<not> ap_wait a \<and> ap_attempted a \<and> \<not> ap_switch a"

lemma settings_update [simp]:
  "tokens (a\<lparr>ap_settings := cfg\<rparr>) = tokens a" "dial_budget (a\<lparr>ap_settings := cfg\<rparr>) = dial_budget a"
  "quiet (a\<lparr>ap_settings := cfg\<rparr>) = quiet a" "resting (a\<lparr>ap_settings := cfg\<rparr>) = resting a"
  "timer_token (a\<lparr>ap_settings := cfg\<rparr>) = timer_token a" "device_absent (a\<lparr>ap_settings := cfg\<rparr>) = device_absent a"
  by (simp_all add: tokens_def timer_token_def dial_budget_def quiet_def resting_def device_absent_def)

lemma settings_same_transport:
  assumes "transport cfg = transport (ap_settings a)"
  shows "on_usb (a\<lparr>ap_settings := cfg\<rparr>) = on_usb a" "credit (a\<lparr>ap_settings := cfg\<rparr>) = credit a"
    "same_device a (a\<lparr>ap_settings := cfg\<rparr>)" "calm (a\<lparr>ap_settings := cfg\<rparr>) = calm a"
proof -
  show u: "on_usb (a\<lparr>ap_settings := cfg\<rparr>) = on_usb a" using assms by (simp add: on_usb_def)
  show "credit (a\<lparr>ap_settings := cfg\<rparr>) = credit a" by (simp add: credit_def absent_usb_def u)
  show "same_device a (a\<lparr>ap_settings := cfg\<rparr>)" by (simp add: same_device_def u)
  show "calm (a\<lparr>ap_settings := cfg\<rparr>) = calm a" unfolding calm_def u by simp
qed

text \<open>Pairing details and edited settings leave everything but the settings, and keep the transport.\<close>

lemma pairing_take_settings:
  assumes "pairing_take info a = (b, out)"
  obtains cfg where "b = a\<lparr>ap_settings := cfg\<rparr>" "transport cfg = transport (ap_settings a)" "dials out = 0"
proof (cases "\<exists>i address. info = Some i \<and> preferred_address i = Some address")
  case True
  then obtain i address where i: "info = Some i" "preferred_address i = Some address" by blast
  let ?c = "(ap_settings a)\<lparr>lan_host := show_ipv4 address, lan_fingerprint := pi_fingerprint i, lan_key := pi_key i\<rparr>"
  have "b = a\<lparr>ap_settings := ?c\<rparr>" "dials out = 0" using assms i by (auto simp: pairing_take_def Let_def)
  then show thesis using that[of ?c] by simp
next
  case False
  then have "b = a" "dials out = 0" using assms by (auto simp: pairing_take_def split: option.splits)
  then show thesis using that[of "ap_settings a"] by simp
qed

lemma pairing_take_part:
  assumes "pairing_take info a = (b, out)"
  shows "dials out = 0 \<and> tokens b = tokens a \<and> credit b = credit a \<and> dial_budget b = dial_budget a \<and> same_device a b
    \<and> (calm a \<longrightarrow> calm b) \<and> (quiet a \<longrightarrow> quiet b)"
  using assms by (rule pairing_take_settings) (simp add: settings_same_transport)

lemma action_part_calm:
  assumes run: "action_part act a = (b, out)" and c: "calm a"
    and act: "case act of NoAction \<Rightarrow> True | EditSettings _ \<Rightarrow> True | _ \<Rightarrow> False"
  shows "dials out = 0 \<and> tokens b = tokens a \<and> dial_budget b = dial_budget a \<and> calm b"
proof (cases act)
  case (EditSettings cfg)
  let ?c = "cfg\<lparr>transport := transport (ap_settings a)\<rparr>"
  have b: "b = a\<lparr>ap_settings := ?c\<rparr>" "out = []" using run EditSettings by (simp_all add: action_part_def)
  have "calm b" unfolding b(1) using c settings_same_transport(4)[of ?c a] by simp
  then show ?thesis using b by simp
qed (use assms in \<open>simp_all add: action_part_def\<close>)

text \<open>The confirmation flag is no part of any of this.\<close>

lemma confirm_part_fields [simp]:
  "calm (confirm_part a) = calm a" "quiet (confirm_part a) = quiet a" "tokens (confirm_part a) = tokens a"
  "credit (confirm_part a) = credit a" "dial_budget (confirm_part a) = dial_budget a"
  "absent_usb (confirm_part a) = absent_usb a" "resting (confirm_part a) = resting a"
  "ap_switch (confirm_part a) = ap_switch a" "ap_attempted (confirm_part a) = ap_attempted a"
  by (cases "ap_session a"; simp add: confirm_part_def calm_def quiet_def tokens_def timer_token_def credit_def
      absent_usb_def dial_budget_def resting_def)+

lemma app_frame_pays:
  assumes c: "calm a" and f: "calm_frame f" and run: "app_frame a f = (b, out)"
  shows "dials out + tokens b + dial_budget a \<le> tokens a + absent_now a + dial_budget b \<and> calm b"
proof -
  let ?a1 = "state_part (fi_now_arm f) (confirm_part a)"
  obtain a2 o2 where r2: "pairing_take (fi_pairing f) ?a1 = (a2, o2)" by fastforce
  obtain a4 o4 where r4: "timer_part f a2 = (a4, o4)" by fastforce
  let ?a5 = "poll_part (fi_polled f) a4"
  obtain a6 o6 where r6: "devices_part f (fi_devices f) ?a5 = (a6, o6)" by fastforce
  obtain a7 o7 where r7: "action_part (fi_action f) a6 = (a7, o7)" by fastforce
  have c0: "calm (confirm_part a)" using c by simp
  have s1: "pays 0 a ?a1 \<and> calm ?a1 \<and> quiet ?a1"
    using state_part_pays[OF c0, of "fi_now_arm f"] by (simp add: pays_def)
  have c1: "calm ?a1" "quiet ?a1" using s1 by simp_all
  note s2 = pairing_take_part[OF r2]
  have c2: "calm a2" "quiet a2" using s2 c1 by simp_all
  have r3: "switch_part f a2 = (a2, [])" using c2(1) by (simp add: switch_part_def calm_def)
  note s4 = timer_part_pays[OF c2 r4]
  have polled: "fst (fi_polled f) \<noteq> Waiting" "fst (fi_polled f) \<noteq> Streaming" using f by (simp_all add: calm_frame_def)
  have c4: "calm a4" "settled a4" "ap_attempted a4" using s4 by simp_all
  note s5 = poll_part_pays[OF c4 polled]
  have c5: "calm ?a5" "ap_attempted ?a5" using s5 by simp_all
  note s6 = devices_part_pays[OF c5 r6]
  have c6: "calm a6" using s6 by simp
  have act: "case fi_action f of NoAction \<Rightarrow> True | EditSettings _ \<Rightarrow> True | _ \<Rightarrow> False"
    using f by (simp add: calm_frame_def)
  note s7 = action_part_calm[OF r7 c6 act]
  have b: "b = a7" "out = o2 @ o4 @ o6 @ o7" using run r2 r3 r4 r6 r7 by (simp_all add: app_frame_def Let_def)
  have start: "credit a \<le> tokens a + absent_now a" by (simp add: credit_def tokens_def absent_now_def absent_usb_def)
  have after: "tokens ?a5 \<le> credit ?a5" by (simp add: credit_def tokens_def)
  have "dials o4 + credit ?a5 + dial_budget a \<le> credit a + dial_budget ?a5"
    using s1 s2 s4 s5 unfolding pays_def by linarith
  then have "dials o4 + dials o6 + tokens a6 + dial_budget a \<le> tokens a + absent_now a + dial_budget a6"
    using start after s6 by linarith
  then show ?thesis using s2 s7 b by simp
qed

section \<open>The bound\<close>

text \<open>The frames that begin without the selected USB device.\<close>

fun absent_frames :: "app \<Rightarrow> frame_in list \<Rightarrow> nat" where
  "absent_frames a [] = 0"
| "absent_frames a (f # fs) = absent_now a + absent_frames (fst (app_frame a f)) fs"

lemma budget_bound: "dial_budget a \<le> 9"
  by (simp add: dial_budget_def AUTO_RETRY_LIMIT_def min_def)

lemma calm_run:
  "calm a \<Longrightarrow> \<forall>f \<in> set fs. calm_frame f \<Longrightarrow>
     dials (machine_trace app_frame a fs) + dial_budget a \<le> tokens a + absent_frames a fs + 9"
proof (induction fs arbitrary: a)
  case Nil
  then show ?case using budget_bound[of a] by simp
next
  case (Cons f fs)
  obtain b out where step: "app_frame a f = (b, out)" by fastforce
  have "calm_frame f" using Cons.prems(2) by simp
  note pays = app_frame_pays[OF Cons.prems(1) this step]
  have "dials (machine_trace app_frame b fs) + dial_budget b \<le> tokens b + absent_frames b fs + 9"
    using Cons pays by simp
  then show ?case using pays step by simp
qed

lemma calm_new: "calm (app_new cfg)"
  by (simp add: calm_def app_new_def)

text \<open>
  C25. Left alone and without ever reaching the phone, the window dials at most nine times: once at the
  start and eight retries; over USB a frame that begins without the selected device may add one more.
\<close>

theorem auto_dials_bounded:
  assumes "\<forall>f \<in> set fs. calm_frame f"
  shows "length (filter is_auto (machine_trace app_frame (app_new cfg) fs)) \<le> 9 + absent_frames (app_new cfg) fs"
proof -
  have "dial_budget (app_new cfg) = 0" "tokens (app_new cfg) = 0"
    by (simp_all add: dial_budget_def tokens_def timer_token_def app_new_def AUTO_RETRY_LIMIT_def)
  then show ?thesis using calm_run[OF calm_new assms, of cfg] by (simp add: dials_def)
qed

definition sample_lan :: settings where
  "sample_lan = (settings_default linux_build)\<lparr>transport := lit ''lan'', lan_host := lit ''10.0.0.2'',
     lan_fingerprint := replicate 64 97, lan_key := replicate 32 98\<rparr>"

definition sample_frame :: "ui_action \<Rightarrow> frame_in" where
  "sample_frame act = \<lparr>fi_now_arm = 0, fi_now_timer = 0, fi_now_auto = 0, fi_now_devices = 0, fi_pairing = None,
     fi_connect_switch = Inr (), fi_connect_timer = Inr (), fi_connect_devices = Inr (),
     fi_polled = (Connecting, True), fi_devices = [], fi_action = act\<rparr>"

lemma sample_lan_complete: "lan_pairing_complete sample_lan"
proof -
  have "trim (lit ''10.0.0.2'') = lit ''10.0.0.2''"
    by (intro trim_trimmed) (simp add: trimmed_def is_whitespace_def chr_def)
  then show ?thesis
    by (simp add: lan_pairing_complete_def sample_lan_def is_hex_def utf8_def utf8_char_def is_ascii_hexdigit_def
        str_len_def map_replicate_const[symmetric] concat_replicate_single list_all_iff)
qed

lemma sample_first_frame:
  "app_frame (app_new sample_lan) (sample_frame act)
     = (let (a, out) = action_part act ((app_new sample_lan)\<lparr>ap_attempted := True, ap_pending := True,
          ap_running := True, ap_session := Connecting\<rparr>) in (a, AutoDial sample_lan None # out))"
proof -
  have "transport sample_lan \<noteq> lit ''usb''" "lan_ready (app_new sample_lan)"
    using sample_lan_complete by (simp_all add: lan_ready_def app_new_def sample_lan_def)
  then show ?thesis
    by (simp add: app_frame_def sample_frame_def state_part_def app_new_def pairing_take_def switch_part_def
        timer_part_def confirm_part_def auto_connect_def auto_dial_def connected_def Let_def poll_part_def lan_ready_def on_usb_def split: prod.splits)
qed

lemma auto_dials_bounded_witness:
  "AutoDial sample_lan None \<in> set (machine_trace app_frame (app_new sample_lan) [sample_frame NoAction])
   \<and> length (filter is_auto (machine_trace app_frame (app_new sample_lan) [sample_frame NoAction]))
       \<le> 9 + absent_frames (app_new sample_lan) [sample_frame NoAction]"
proof -
  have "\<forall>f \<in> set [sample_frame NoAction]. calm_frame f" by (simp add: calm_frame_def sample_frame_def)
  from auto_dials_bounded[OF this] show ?thesis by (simp add: sample_first_frame action_part_def)
qed

section \<open>After a disconnect\<close>

definition untouched :: "frame_in \<Rightarrow> bool" where
  "untouched f \<longleftrightarrow> (case fi_action f of MainButton _ \<Rightarrow> False | SwitchToWifi \<Rightarrow> False | _ \<Rightarrow> True)"

lemma arm_retry_resting: "resting a \<Longrightarrow> resting (arm_retry e now a)"
  by (simp add: resting_def arm_retry_def plan_retry_def)

lemma state_part_resting: "resting a \<Longrightarrow> resting (state_part now a)"
proof (cases "ap_session a")
  case (Failed e)
  assume r: "resting a"
  have "resting (arm_retry e now (a\<lparr>ap_pending := False, ap_recover := False\<rparr>))"
    by (rule arm_retry_resting) (use r in \<open>simp add: resting_def\<close>)
  then show ?thesis using r by (simp add: state_part_def Failed)
qed (simp_all add: state_part_def resting_def)

lemma devices_part_resting: "resting a \<Longrightarrow> resting (fst (devices_part f ds a)) \<and> dials (snd (devices_part f ds a)) = 0"
proof (induction ds arbitrary: a)
  case (Cons r rs)
  show ?case
  proof (cases r)
    case (Inl e)
    then show ?thesis using Cons.IH[OF Cons.prems] by (simp split: prod.splits)
  next
    case (Inr devices)
    let ?a = "a\<lparr>ap_selection := reconcile_selection (ap_selection a) devices, ap_devices := devices\<rparr>"
    have "resting ?a" "\<not> ap_wait ?a" using Cons.prems by (simp_all add: resting_def)
    then show ?thesis using Cons.IH[of ?a] Inr by (simp add: Let_def split: prod.splits)
  qed
qed simp

lemma app_frame_resting:
  assumes r: "resting a" and u: "untouched f"
  shows "resting (fst (app_frame a f)) \<and> dials (snd (app_frame a f)) = 0"
proof -
  let ?a1 = "state_part (fi_now_arm f) (confirm_part a)"
  obtain a2 o2 where r2: "pairing_take (fi_pairing f) ?a1 = (a2, o2)" by fastforce
  let ?a5 = "poll_part (fi_polled f) a2"
  obtain a6 o6 where r6: "devices_part f (fi_devices f) ?a5 = (a6, o6)" by fastforce
  obtain a7 o7 where r7: "action_part (fi_action f) a6 = (a7, o7)" by fastforce
  have c1: "resting ?a1" by (rule state_part_resting) (simp add: r)
  have c2: "resting a2 \<and> dials o2 = 0" using r2 by (rule pairing_take_settings) (simp add: c1)
  have r3: "switch_part f a2 = (a2, [])" using c2 by (simp add: switch_part_def resting_def)
  have r4: "timer_part f a2 = (a2, [])" using c2 by (simp add: timer_part_def resting_def)
  have "resting ?a5" using c2 by (simp add: poll_part_def resting_def)
  from devices_part_resting[OF this, of f "fi_devices f"] have c6: "resting a6 \<and> dials o6 = 0" by (simp add: r6)
  have c7: "resting a7 \<and> dials o7 = 0" using r7 c6 u
    by (cases "fi_action f") (auto simp: action_part_def resting_def untouched_def split: if_splits)
  have "app_frame a f = (a7, o2 @ o6 @ o7)" using r2 r3 r4 r6 r7 by (simp add: app_frame_def Let_def)
  then show ?thesis using c2 c6 c7 by simp
qed

lemma run_resting:
  "resting a \<Longrightarrow> \<forall>f \<in> set fs. untouched f \<Longrightarrow> dials (machine_trace app_frame a fs) = 0"
  by (induction fs arbitrary: a) (simp_all add: app_frame_resting)

text \<open>The parts before the action neither stop the session nor forget the first attempt.\<close>

definition undisturbed :: "app \<Rightarrow> app \<Rightarrow> app_out list \<Rightarrow> bool" where
  "undisturbed a b out \<longleftrightarrow> StopSession \<notin> set out \<and> (ap_attempted a \<longrightarrow> ap_attempted b) \<and> (\<not> ap_switch a \<longrightarrow> \<not> ap_switch b)"

lemma auto_dial_steady: "auto_dial result a = (b, out) \<Longrightarrow> undisturbed a b out"
  by (cases result) (auto simp: auto_dial_def connected_def Let_def undisturbed_def)

lemma auto_connect_steady:
  assumes "auto_connect result now a = (b, out)"
  shows "undisturbed a b out"
proof (cases "out = []")
  case True
  have "ap_attempted b = ap_attempted a \<and> ap_switch b = ap_switch a"
    using assms True by (auto simp: auto_connect_def auto_dial_def Let_def split: if_splits)
  then show ?thesis using True by (simp add: undisturbed_def)
next
  case False
  then consider "auto_dial result a = (b, out)"
    | (usb) "auto_dial result ((if device_absent a then a\<lparr>ap_absent_seen := True\<rparr> else a)\<lparr>ap_wait := False, ap_absent_seen := False\<rparr>)
        = (b, out)"
    using assms by (auto simp: auto_connect_def Let_def split: if_splits)
  then show ?thesis
  proof cases
    case usb
    from auto_dial_steady[OF this] show ?thesis by (auto simp: undisturbed_def split: if_splits)
  qed (rule auto_dial_steady)
qed

lemma timer_part_steady: "timer_part f a = (b, out) \<Longrightarrow> undisturbed a b out \<and> ap_attempted b"
  by (auto simp: timer_part_def undisturbed_def dest!: auto_connect_steady split: if_splits option.splits)

lemma devices_part_steady: "devices_part f ds a = (b, out) \<Longrightarrow> undisturbed a b out"
proof (induction ds arbitrary: a out)
  case Nil
  then show ?case by (simp add: undisturbed_def)
next
  case (Cons r rs)
  obtain a1 out1 where one: "(case r of Inl _ \<Rightarrow> (a, [])
      | Inr devices \<Rightarrow> (let a' = a\<lparr>ap_selection := reconcile_selection (ap_selection a) devices, ap_devices := devices\<rparr>
          in if ap_wait a' \<and> \<not> device_absent a' \<and> \<not> ap_running a' \<and> \<not> ap_suppressed a'
             then auto_connect (fi_connect_devices f) (fi_now_devices f) a' else (a', []))) = (a1, out1)"
    by fastforce
  obtain out2 where rest: "devices_part f rs a1 = (b, out2)" "out = out1 @ out2"
    using Cons.prems one by (cases "devices_part f rs a1") simp
  have "undisturbed a a1 out1"
    using one by (auto simp: undisturbed_def Let_def dest!: auto_connect_steady split: sum.splits if_splits)
  then show ?case using Cons.IH[OF rest(1)] rest(2) by (auto simp: undisturbed_def)
qed

lemma state_part_switch: "ap_switch (state_part now a) = ap_switch a"
  by (auto simp: state_part_def arm_retry_def split: state.splits retry_plan.splits)

lemma stopping_frame:
  assumes quiet: "\<not> ap_switch a" and act: "fi_action f = MainButton result"
    and stop: "StopSession \<in> set (snd (app_frame a f))"
  shows "resting (fst (app_frame a f))"
proof -
  let ?a1 = "state_part (fi_now_arm f) (confirm_part a)"
  obtain a2 o2 where r2: "pairing_take (fi_pairing f) ?a1 = (a2, o2)" by fastforce
  obtain a4 o4 where r4: "timer_part f a2 = (a4, o4)" by fastforce
  let ?a5 = "poll_part (fi_polled f) a4"
  obtain a6 o6 where r6: "devices_part f (fi_devices f) ?a5 = (a6, o6)" by fastforce
  obtain a7 o7 where r7: "action_part (fi_action f) a6 = (a7, o7)" by fastforce
  have s2: "\<not> ap_switch a2 \<and> StopSession \<notin> set o2"
    using r2 quiet by (auto simp: pairing_take_def state_part_switch Let_def split: option.splits)
  then have r3: "switch_part f a2 = (a2, [])" by (simp add: switch_part_def)
  note s4 = timer_part_steady[OF r4]
  have s5: "\<not> ap_switch ?a5" "ap_attempted ?a5" using s2 s4 by (simp_all add: undisturbed_def poll_part_def)
  note s6 = devices_part_steady[OF r6]
  have frame: "app_frame a f = (a7, o2 @ o4 @ o6 @ o7)" using r2 r3 r4 r6 r7 by (simp add: app_frame_def Let_def)
  then have "StopSession \<in> set o7" using stop s2 s4 s6 by (simp add: undisturbed_def)
  then have "ap_running a6" "a7 = fst (action_part (MainButton result) a6)"
    using r7 act by (auto simp: action_part_def connected_def split: if_splits)
  moreover have "\<not> ap_switch a6" "ap_attempted a6" using s5 s6 by (simp_all add: undisturbed_def)
  ultimately show ?thesis by (simp add: frame action_part_def button_allowed_def resting_def)
qed

text \<open>
  C26. Disconnecting is final: after a frame in which the user stopped a session with the main button,
  and unless a move to Wi-Fi that was asked for before still waits for that session to end, the window
  dials nothing on its own, whatever the devices, the clock, the session and new pairing details do,
  and whatever the user edits, selects or replaces, until the user presses the main button again or
  asks to move to Wi-Fi. (A waiting move to Wi-Fi does dial once the session ended.)
\<close>

theorem disconnect_is_final:
  assumes "\<not> ap_switch a" "fi_action f = MainButton result" "StopSession \<in> set (snd (app_frame a f))"
    and "\<forall>g \<in> set fs. untouched g"
  shows "AutoDial cfg device \<notin> set (machine_trace app_frame (fst (app_frame a f)) fs)"
proof -
  have "dials (machine_trace app_frame (fst (app_frame a f)) fs) = 0"
    by (rule run_resting[OF stopping_frame[OF assms(1-3)] assms(4)])
  then show ?thesis by (auto simp: dials_def filter_empty_conv)
qed

lemma disconnect_is_final_witness:
  "StopSession \<in> set (snd (app_frame (app_new sample_lan) (sample_frame (MainButton (Inr ())))))
   \<and> AutoDial sample_lan None \<notin> set (machine_trace app_frame
       (fst (app_frame (app_new sample_lan) (sample_frame (MainButton (Inr ()))))) [sample_frame NoAction])"
proof -
  have off: "\<not> ap_switch (app_new sample_lan)" by (simp add: app_new_def)
  have act: "fi_action (sample_frame (MainButton (Inr ()))) = MainButton (Inr ())" by (simp add: sample_frame_def)
  have stop: "StopSession \<in> set (snd (app_frame (app_new sample_lan) (sample_frame (MainButton (Inr ())))))"
    by (simp add: sample_first_frame action_part_def button_allowed_def)
  have "\<forall>g \<in> set [sample_frame NoAction]. untouched g" by (simp add: untouched_def sample_frame_def)
  from disconnect_is_final[OF off act stop this] stop show ?thesis by blast
qed

text \<open>
  A disconnect while a move to Wi-Fi waits for the session to end does not call the move off: two frames
  later, when the session has ended, the window dials.
\<close>

lemma app_frame_switch:
  "x \<in> set (snd (switch_part f (fst (pairing_take (fi_pairing f) (state_part (fi_now_arm f) (confirm_part a))))))
     \<Longrightarrow> x \<in> set (snd (app_frame a f))"
  by (simp add: app_frame_def Let_def case_prod_beta)

definition moving :: app where
  "moving = (app_new sample_lan)\<lparr>ap_attempted := True, ap_pending := True, ap_running := True,
     ap_session := Stopping, ap_switch := True\<rparr>"

lemma disconnect_keeps_the_switch:
  "fst (app_frame (app_new sample_lan) (sample_frame SwitchToWifi)) = moving
   \<and> StopSession \<in> set (snd (app_frame moving ((sample_frame (MainButton (Inr ())))\<lparr>fi_polled := (Stopping, True)\<rparr>)))
   \<and> AutoDial sample_lan None \<in> set (machine_trace app_frame
        (fst (app_frame moving ((sample_frame (MainButton (Inr ())))\<lparr>fi_polled := (Stopping, True)\<rparr>)))
        [(sample_frame NoAction)\<lparr>fi_polled := (Idle, False)\<rparr>, sample_frame NoAction])"
proof -
  have lan: "sample_lan\<lparr>transport := lit ''lan''\<rparr> = sample_lan" by (simp add: sample_lan_def)
  have t: "lan_pairing_complete (sample_lan\<lparr>transport := lit ''lan''\<rparr>)" "lit ''lan'' \<noteq> lit ''usb''"
    unfolding lan by (simp_all add: sample_lan_complete)
  define stopped where "stopped = fst (app_frame moving
      ((sample_frame (MainButton (Inr ())))\<lparr>fi_polled := (Stopping, True)\<rparr>))"
  define ended where "ended = fst (app_frame stopped ((sample_frame NoAction)\<lparr>fi_polled := (Idle, False)\<rparr>))"
  have m: "fst (app_frame (app_new sample_lan) (sample_frame SwitchToWifi)) = moving"
    unfolding sample_first_frame by (simp add: action_part_def moving_def app_new_def)
  note frame = app_frame_def sample_frame_def state_part_def confirm_part_def pairing_take_def switch_part_def
    timer_part_def poll_part_def
  have s: "app_frame moving ((sample_frame (MainButton (Inr ())))\<lparr>fi_polled := (Stopping, True)\<rparr>)
      = (moving\<lparr>ap_suppressed := True, ap_pending := False\<rparr>, [SaveSettings sample_lan, StopSession])"
    by (simp add: frame moving_def app_new_def action_part_def button_allowed_def)
  have e: "ended = moving\<lparr>ap_suppressed := True, ap_pending := False, ap_running := False, ap_session := Idle\<rparr>"
    unfolding ended_def stopped_def s fst_conv by (simp add: frame action_part_def moving_def app_new_def)
  have "AutoDial (sample_lan\<lparr>transport := lit ''lan''\<rparr>) None \<in> set (snd (app_frame ended (sample_frame NoAction)))"
  proof (rule app_frame_switch)
    have "pairing_take (fi_pairing (sample_frame NoAction)) (state_part (fi_now_arm (sample_frame NoAction)) (confirm_part ended))
        = (ended, [])"
      unfolding e by (simp add: moving_def app_new_def sample_frame_def state_part_def confirm_part_def pairing_take_def)
    then show "AutoDial (sample_lan\<lparr>transport := lit ''lan''\<rparr>) None \<in> set (snd (switch_part (sample_frame NoAction)
        (fst (pairing_take (fi_pairing (sample_frame NoAction))
          (state_part (fi_now_arm (sample_frame NoAction)) (confirm_part ended))))))"
      using t unfolding e by (simp add: moving_def app_new_def sample_frame_def switch_part_def auto_connect_def
          auto_dial_def connected_def lan_ready_def on_usb_def Let_def del: lit_simps)
  qed
  then show ?thesis using m s unfolding stopped_def[symmetric] lan by (simp add: ended_def[symmetric])
qed

end
