(* ===== verification/Picture.thy ===== *)
theory Picture
  imports Video_Stream
begin

text \<open>
  The pixel routines of \<open>video/transform.rs\<close>: the rectangle a rotated picture is fitted into
  (\<open>fit\<close>), the rotation of an RGB buffer (\<open>rotate\<close>) and the mirror and flip of an output
  buffer (\<open>flips\<close>). The loops are written with their indices, every indexing a possible panic. The
  reference is a picture as a list of rows: a quarter turn is \<open>transpose\<close> with every row reversed, a
  mirror \<open>rev\<close> of every row, a flip \<open>rev\<close> of the rows. \<open>usize\<close> has 64 bits and the dimensions come from 32-bit
  values, so that the products of \<open>fit\<close> do not wrap.
\<close>

section \<open>Fitting\<close>

record rect =
  r_x :: nat
  r_y :: nat
  r_width :: nat
  r_height :: nat

text \<open>\<open>n & !1\<close>\<close>

definition even_part :: "nat \<Rightarrow> nat" where
  "even_part n = 2 * (n div 2)"

definition fit :: "nat \<Rightarrow> nat \<Rightarrow> nat \<Rightarrow> nat \<Rightarrow> error + rect" where
  "fit width height out_width out_height =
     (if width = 0 \<or> height = 0 \<or> out_width < 2 \<or> odd out_width \<or> out_height = 0
      then Inl (Msg ''invalid fit dimensions'')
      else let (w, h) = (if width * out_height \<le> height * out_width
                         then (even_part (width * out_height div height), out_height)
                         else (out_width, height * out_width div width))
           in if w < 2 \<or> h = 0 then Inl (Msg ''rotated image is too narrow'')
              else Inr \<lparr>r_x = even_part ((out_width - w) div 2), r_y = (out_height - h) div 2,
                        r_width = w, r_height = h\<rparr>)"

section \<open>Indexing\<close>

definition index_panic :: "error + 'a" where
  "index_panic = Inl (Panic ''index out of bounds'')"

definition get_at :: "nat \<Rightarrow> nat \<Rightarrow> 'a list \<Rightarrow> error + 'a list" where
  "get_at i n xs = (if i + n \<le> length xs then Inr (slice i (i + n) xs) else index_panic)"

text \<open>\<open>xs[i..i + n].copy_from_slice(ys)\<close> for \<open>n = ys.len()\<close>\<close>

definition put_at :: "nat \<Rightarrow> 'a list \<Rightarrow> 'a list \<Rightarrow> error + 'a list" where
  "put_at i ys xs = (if i + length ys \<le> length xs then Inr (take i xs @ ys @ drop (i + length ys) xs) else index_panic)"

definition swap_at :: "nat \<Rightarrow> nat \<Rightarrow> 'a list \<Rightarrow> error + 'a list" where
  "swap_at i j xs = (if i < length xs \<and> j < length xs then Inr (xs[i := xs ! j, j := xs ! i]) else index_panic)"

fun swaps :: "(nat \<times> nat) list \<Rightarrow> 'a list \<Rightarrow> error + 'a list" where
  "swaps [] xs = Inr xs"
| "swaps ((i, j) # ps) xs = try_r (swap_at i j xs) (swaps ps)"

section \<open>Rotation\<close>

definition rotate_target :: "nat \<Rightarrow> nat \<Rightarrow> nat \<Rightarrow> nat \<Rightarrow> nat \<Rightarrow> error + nat \<times> nat" where
  "rotate_target width height angle x y =
     (if angle = 0 then Inr (x, y)
      else if angle = 90 then Inr (height - y - 1, x)
      else if angle = 180 then Inr (width - x - 1, height - y - 1)
      else if angle = 270 then Inr (y, width - x - 1)
      else Inl (Msg ''invalid rotation''))"

fun rotate_pixels :: "bytes \<Rightarrow> nat \<Rightarrow> nat \<Rightarrow> nat \<Rightarrow> nat \<Rightarrow> nat \<Rightarrow> (nat \<times> nat) list \<Rightarrow> bytes \<Rightarrow> error + bytes" where
  "rotate_pixels source width height stride out_stride angle [] destination = Inr destination"
| "rotate_pixels source width height stride out_stride angle ((x, y) # ps) destination =
     try_r (rotate_target width height angle x y) (\<lambda>(dx, dy).
     try_r (get_at (y * stride + x * 3) 3 source) (\<lambda>px.
     try_r (put_at (dy * out_stride + dx * 3) px destination)
       (rotate_pixels source width height stride out_stride angle ps)))"

text \<open>\<open>for y in 0..height { for x in 0..width { .. } }\<close>\<close>

definition grid :: "nat \<Rightarrow> nat \<Rightarrow> (nat \<times> nat) list" where
  "grid width height = concat (map (\<lambda>y. map (\<lambda>x. (x, y)) [0..<width]) [0..<height])"

definition turned_size :: "nat \<Rightarrow> nat \<Rightarrow> nat \<Rightarrow> nat \<times> nat" where
  "turned_size width height angle = (if angle = 90 \<or> angle = 270 then (height, width) else (width, height))"

definition rotate_pic :: "bytes \<Rightarrow> nat \<Rightarrow> nat \<Rightarrow> nat \<Rightarrow> bytes \<Rightarrow> nat \<Rightarrow> nat \<Rightarrow> error + bytes" where
  "rotate_pic source width height stride destination out_stride angle =
     (let (ow, oh) = turned_size width height angle
      in if width = 0 \<or> height = 0 \<or> stride < width * 3 \<or> out_stride < ow * 3
            \<or> length source div stride < height \<or> length destination div out_stride < oh
         then Inl (Msg ''invalid RGB buffer'')
         else rotate_pixels source width height stride out_stride angle (grid width height) destination)"

section \<open>Mirror and flip\<close>

definition mirror_rgba_row :: "nat \<Rightarrow> bytes \<Rightarrow> error + bytes" where
  "mirror_rgba_row width =
     swaps (concat (map (\<lambda>x. map (\<lambda>c. (x * 4 + c, (width - x - 1) * 4 + c)) [0..<4]) [0..<width div 2]))"

text \<open>The luma samples of every full chunk of four bytes, then the pairs.\<close>

definition mirror_yuyv_row :: "nat \<Rightarrow> bytes \<Rightarrow> error + bytes" where
  "mirror_yuyv_row width row =
     try_r (swaps (map (\<lambda>k. (4 * k, 4 * k + 2)) [0..<length row div 4]) row)
       (swaps (concat (map (\<lambda>p. map (\<lambda>c. (p * 4 + c, (width div 2 - p - 1) * 4 + c)) [0..<4]) [0..<width div 4])))"

definition mirror_row :: "bool \<Rightarrow> bool \<Rightarrow> nat \<Rightarrow> bytes \<Rightarrow> error + bytes" where
  "mirror_row rgba horizontal width row =
     (if horizontal then if rgba then mirror_rgba_row width row else mirror_yuyv_row width row else Inr row)"

fun flip_rows :: "bool \<Rightarrow> bool \<Rightarrow> nat \<Rightarrow> nat \<Rightarrow> nat \<Rightarrow> nat list \<Rightarrow> bytes \<Rightarrow> error + bytes" where
  "flip_rows rgba horizontal width stride row_bytes [] bs = Inr bs"
| "flip_rows rgba horizontal width stride row_bytes (y # ys) bs =
     try_r (get_at (y * stride) row_bytes bs) (\<lambda>row.
     try_r (mirror_row rgba horizontal width row) (\<lambda>row'.
     try_r (put_at (y * stride) row' bs)
       (flip_rows rgba horizontal width stride row_bytes ys)))"

definition flips :: "bytes \<Rightarrow> nat \<Rightarrow> nat \<Rightarrow> nat \<Rightarrow> bool \<Rightarrow> bool \<Rightarrow> bool \<Rightarrow> error + bytes" where
  "flips bs width height stride rgba horizontal vertical =
     (let row_bytes = width * (if rgba then 4 else 2)
      in try_r (flip_rows rgba horizontal width stride row_bytes [0..<height] bs) (\<lambda>bs'.
           if vertical
           then swaps (concat (map (\<lambda>y. map (\<lambda>x. (y * stride + x, (height - y - 1) * stride + x)) [0..<row_bytes])
                  [0..<height div 2])) bs'
           else Inr bs'))"

end
