(* ===== verification/Picture_Props.thy ===== *)
theory Picture_Props
  imports Picture
begin

text \<open>
  The pixel loops against the pictures they should make: fitting stays inside and is as large as the
  aspect ratio allows, rotating is repeated quarter turns, mirroring and flipping reverse rows and pixels.
\<close>

section \<open>Fitting\<close>

lemma even_part_simps [simp]: "even (even_part n)" "even_part n \<le> n"
  by (simp_all add: even_part_def)

lemma even_part_near: "n \<le> even_part n + 1"
  by (simp add: even_part_def)

definition fit_valid :: "nat \<Rightarrow> nat \<Rightarrow> nat \<Rightarrow> nat \<Rightarrow> bool" where
  "fit_valid width height out_width out_height \<longleftrightarrow>
     width \<noteq> 0 \<and> height \<noteq> 0 \<and> 2 \<le> out_width \<and> even out_width \<and> out_height \<noteq> 0"

text \<open>The largest rectangle of the picture's shape: one side is full, the other rounded down.\<close>

definition largest_fit :: "nat \<Rightarrow> nat \<Rightarrow> nat \<Rightarrow> nat \<Rightarrow> rect \<Rightarrow> bool" where
  "largest_fit width height ow oh r \<longleftrightarrow>
     (r_height r = oh \<and> r_width r * height \<le> width * oh \<and> width * oh < (r_width r + 2) * height)
     \<or> (r_width r = ow \<and> r_height r * width \<le> height * ow \<and> height * ow < (r_height r + 1) * width)"

definition centred :: "nat \<Rightarrow> nat \<Rightarrow> rect \<Rightarrow> bool" where
  "centred ow oh r \<longleftrightarrow> r_x r + r_width r \<le> ow \<and> r_y r + r_height r \<le> oh
     \<and> ow - r_width r - r_x r \<in> {r_x r, r_x r + 2} \<and> oh - r_height r - r_y r \<in> {r_y r, r_y r + 1}"

lemma fit_centred:
  assumes "w \<le> ow" "even w" "even ow" "h \<le> oh"
  shows "centred ow oh \<lparr>r_x = even_part ((ow - w) div 2), r_y = (oh - h) div 2, r_width = w, r_height = h\<rparr>"
proof -
  obtain d where d: "ow = w + 2 * d" using assms by (metis evenE le_add_diff_inverse dvd_diff_nat)
  have "d = even_part d \<or> d = even_part d + 1" by (auto simp: even_part_def)
  then have "2 * d - even_part d \<in> {even_part d, even_part d + 2}" by auto
  moreover have "even_part d \<le> 2 * d" using even_part_simps(2)[of d] by linarith
  moreover have "oh - h - (oh - h) div 2 \<in> {(oh - h) div 2, (oh - h) div 2 + 1}" by auto presburger
  moreover have "(oh - h) div 2 + h \<le> oh" using assms(4) by linarith
  ultimately show ?thesis by (simp add: centred_def d)
qed

lemma fit_wide:
  assumes "width * oh \<le> height * ow" "height \<noteq> 0" "even ow"
  defines "w \<equiv> even_part (width * oh div height)"
  shows "w \<le> ow" "even w" "w * height \<le> width * oh" "width * oh < (w + 2) * height"
proof -
  let ?q = "width * oh div height"
  have q: "w \<le> ?q" "?q < w + 2" using even_part_near[of ?q] by (simp_all add: w_def)
  have "?q \<le> height * ow div height" using assms(1) by (rule div_le_mono)
  then show "w \<le> ow" using q assms(2) by simp
  show "even w" by (simp add: w_def)
  have "w * height \<le> ?q * height" using q by (intro mult_right_mono) simp_all
  also have "\<dots> \<le> width * oh" by simp
  finally show "w * height \<le> width * oh" .
  have "width * oh < (?q + 1) * height" using assms(2) dividend_less_div_times[of height "width * oh"] by simp
  also have "\<dots> \<le> (w + 2) * height" using q by (intro mult_right_mono) simp_all
  finally show "width * oh < (w + 2) * height" .
qed

lemma fit_tall:
  fixes width oh height ow :: nat
  assumes "\<not> width * oh \<le> height * ow" "width \<noteq> 0"
  defines "h \<equiv> height * ow div width"
  shows "h \<le> oh" "h * width \<le> height * ow" "height * ow < (h + 1) * width"
proof -
  have "h \<le> width * oh div width" unfolding h_def by (rule div_le_mono) (use assms(1) in simp)
  then show "h \<le> oh" using assms(2) by simp
  show "h * width \<le> height * ow" by (simp add: h_def)
  show "height * ow < (h + 1) * width"
    using assms(2) dividend_less_div_times[of width "height * ow"] by (simp add: h_def)
qed

lemma fit_result:
  "case fit width height ow oh of
     Inr r \<Rightarrow> fit_valid width height ow oh \<and> centred ow oh r \<and> largest_fit width height ow oh r
       \<and> even (r_x r) \<and> even (r_width r) \<and> 2 \<le> r_width r \<and> 1 \<le> r_height r
   | Inl e \<Rightarrow> (\<not> fit_valid width height ow oh \<and> e = Msg ''invalid fit dimensions'')
       \<or> (fit_valid width height ow oh \<and> (width * oh < 2 * height \<or> height * ow < width)
          \<and> e = Msg ''rotated image is too narrow'')"
proof (cases "fit_valid width height ow oh")
  case False
  then have "fit width height ow oh = Inl (Msg ''invalid fit dimensions'')"
    by (auto simp: fit_def fit_valid_def)
  then show ?thesis using False by simp
next
  case True
  then have v: "width \<noteq> 0" "height \<noteq> 0" "even ow" "2 \<le> ow" "oh \<noteq> 0"
    "\<not> (width = 0 \<or> height = 0 \<or> ow < 2 \<or> odd ow \<or> oh = 0)" by (auto simp: fit_valid_def)
  show ?thesis
  proof (cases "width * oh \<le> height * ow")
    case wide: True
    let ?w = "even_part (width * oh div height)"
    note f = fit_wide[OF wide v(2,3)]
    have "?w < 2 \<Longrightarrow> width * oh < 2 * height"
    proof -
      assume "?w < 2"
      then have "?w = 0" using f(2) by (cases "?w = 1") auto
      then show ?thesis using f(4) by simp
    qed
    then show ?thesis using True v f fit_centred[OF f(1,2) v(3), of oh oh] wide
      by (auto simp: fit_def largest_fit_def)
  next
    case tall: False
    let ?h = "height * ow div width"
    note f = fit_tall[OF tall v(1)]
    have "?h = 0 \<Longrightarrow> height * ow < width" using f(3) by simp
    then show ?thesis using True v f fit_centred[OF _ v(3) v(3) f(1)] tall
      by (auto simp: fit_def largest_fit_def)
  qed
qed

text \<open>
  A rotated picture is fitted into a rectangle that lies inside the output, starts on an even column
  and has an even width, is centred to the pixel, and is as large as its aspect ratio allows; fitting
  fails only for invalid dimensions or a picture too narrow or too flat for one column pair or one row.
\<close>

theorem fit_largest_inside:
  "case fit width height ow oh of
     Inr r \<Rightarrow> fit_valid width height ow oh \<and> centred ow oh r \<and> largest_fit width height ow oh r
       \<and> even (r_x r) \<and> even (r_width r) \<and> 2 \<le> r_width r \<and> 1 \<le> r_height r
   | Inl e \<Rightarrow> (\<not> fit_valid width height ow oh \<and> e = Msg ''invalid fit dimensions'')
       \<or> (fit_valid width height ow oh \<and> (width * oh < 2 * height \<or> height * ow < width)
          \<and> e = Msg ''rotated image is too narrow'')"
  by (rule fit_result)

section \<open>Loops of swaps\<close>

lemma get_at_ok [simp]: "i + n \<le> length xs \<Longrightarrow> get_at i n xs = Inr (slice i (i + n) xs)"
  by (simp add: get_at_def)

lemma put_at_ok [simp]:
  "i + length ys \<le> length xs \<Longrightarrow> put_at i ys xs = Inr (take i xs @ ys @ drop (i + length ys) xs)"
  by (simp add: put_at_def)

lemma nth_put:
  assumes "i + length ys \<le> length xs" "k < length xs"
  shows "(take i xs @ ys @ drop (i + length ys) xs) ! k
     = (if i \<le> k \<and> k < i + length ys then ys ! (k - i) else xs ! k)"
  using assms by (auto simp: nth_append)

definition permuted :: "(nat \<Rightarrow> nat) \<Rightarrow> 'a list \<Rightarrow> 'a list" where
  "permuted m xs = map (\<lambda>k. xs ! m k) [0..<length xs]"

lemma length_permuted [simp]: "length (permuted m xs) = length xs"
  by (simp add: permuted_def)

lemma nth_permuted [simp]: "k < length xs \<Longrightarrow> permuted m xs ! k = xs ! m k"
  by (simp add: permuted_def)

text \<open>
  Swapping every index of a list with its mirror image, the images outside the list, is the mirror on
  the indices it meets.
\<close>

definition mirrors :: "(nat \<Rightarrow> nat) \<Rightarrow> nat \<Rightarrow> bool" where
  "mirrors m n \<longleftrightarrow> (\<forall>k < n. m k < n \<and> m (m k) = k)"

lemma swaps_partial:
  "mirrors m (length xs) \<Longrightarrow> distinct is \<Longrightarrow> set is \<subseteq> {..<length xs}
     \<Longrightarrow> (\<forall>i \<in> set is. m i \<in> set is \<longrightarrow> m i = i)
     \<Longrightarrow> swaps (map (\<lambda>i. (i, m i)) is) xs = Inr (permuted (\<lambda>k. if k \<in> set is \<or> m k \<in> set is then m k else k) xs)"
proof (induction "is" arbitrary: xs)
  case Nil
  show ?case by (simp add: permuted_def map_nth)
next
  case (Cons i rest)
  let ?ys = "xs[i := xs ! m i, m i := xs ! i]"
  have m: "\<And>k. k < length xs \<Longrightarrow> m k < length xs \<and> m (m k) = k" using Cons.prems(1) by (simp add: mirrors_def)
  have i: "i < length xs" "m i < length xs" "m (m i) = i" using Cons.prems(3) m by auto
  have fresh: "i \<notin> set rest" "m i \<notin> set rest" using Cons.prems(2,4) by auto
  have rest: "swaps (map (\<lambda>i. (i, m i)) rest) ?ys
      = Inr (permuted (\<lambda>k. if k \<in> set rest \<or> m k \<in> set rest then m k else k) ?ys)"
    using Cons.prems by (intro Cons.IH) auto
  have "permuted (\<lambda>k. if k \<in> set rest \<or> m k \<in> set rest then m k else k) ?ys
      = permuted (\<lambda>k. if k \<in> set (i # rest) \<or> m k \<in> set (i # rest) then m k else k) xs"
  proof (rule nth_equalityI)
    fix k assume "k < length (permuted (\<lambda>k. if k \<in> set rest \<or> m k \<in> set rest then m k else k) ?ys)"
    then have k: "k < length xs" by simp
    note mk = m[OF k]
    have mi: "m k = i \<longleftrightarrow> k = m i" using mk i by metis
    consider (met) "k \<in> set rest \<or> m k \<in> set rest" | (here) "k = i \<or> k = m i" "\<not> (k \<in> set rest \<or> m k \<in> set rest)"
      | (other) "k \<noteq> i" "k \<noteq> m i" "\<not> (k \<in> set rest \<or> m k \<in> set rest)" by blast
    then show "permuted (\<lambda>k. if k \<in> set rest \<or> m k \<in> set rest then m k else k) ?ys ! k
        = permuted (\<lambda>k. if k \<in> set (i # rest) \<or> m k \<in> set (i # rest) then m k else k) xs ! k"
    proof cases
      case met
      then have "m k \<noteq> i" "m k \<noteq> m i" using fresh mi mk i by metis+
      then show ?thesis using k met mk by auto
    next
      case here
      then show ?thesis using k i by (auto simp: nth_list_update)
    next
      case other
      then show ?thesis using k mi by (auto simp: nth_list_update)
    qed
  qed simp
  then show ?case using rest i by (simp add: swap_at_def)
qed

lemma swaps_mirror:
  assumes "mirrors m (length xs)" "distinct is" "set is \<subseteq> {..<length xs}"
    and "\<forall>i \<in> set is. m i \<in> set is \<longrightarrow> m i = i"
    and "\<And>k. k < length xs \<Longrightarrow> k \<in> set is \<or> m k \<in> set is \<or> m k = k"
  shows "swaps (map (\<lambda>i. (i, m i)) is) xs = Inr (permuted m xs)"
proof -
  have "permuted (\<lambda>k. if k \<in> set is \<or> m k \<in> set is then m k else k) xs = permuted m xs"
  proof (rule nth_equalityI)
    fix k assume "k < length (permuted (\<lambda>k. if k \<in> set is \<or> m k \<in> set is then m k else k) xs)"
    then have "k < length xs" by simp
    then show "permuted (\<lambda>k. if k \<in> set is \<or> m k \<in> set is then m k else k) xs ! k = permuted m xs ! k"
      using assms(5)[of k] by auto
  qed simp
  then show ?thesis using swaps_partial[OF assms(1-4)] by simp
qed

section \<open>The rows\<close>

lemma blocks4: "concat (map (\<lambda>x. map (\<lambda>c. f (x * 4 + c)) [0..<4]) [0..<n]) = map f [0..<4 * n]"
proof (induction n)
  case (Suc n)
  have "[0..<4 * Suc n] = [0..<4 * n] @ map (\<lambda>c. n * 4 + c) [0..<4]"
    by (simp add: numeral_eq_Suc)
  then show ?case by (simp add: Suc comp_def)
qed simp

text \<open>The mirror of blocks of four bytes, and of the two luma samples of a block.\<close>

definition block_mirror :: "nat \<Rightarrow> nat \<Rightarrow> nat" where
  "block_mirror n k = (n - 1 - k div 4) * 4 + k mod 4"

definition luma_mirror :: "nat \<Rightarrow> nat" where
  "luma_mirror k = (if k mod 4 = 0 then k + 2 else if k mod 4 = 2 then k - 2 else k)"

lemma block_mirror_simps [simp]:
  "block_mirror n k div 4 = n - 1 - k div 4" "block_mirror n k mod 4 = k mod 4"
  by (simp_all add: block_mirror_def)

lemma block_mirror_mirrors: "mirrors (block_mirror n) (4 * n)"
proof (unfold mirrors_def, intro allI impI conjI)
  fix k assume k: "k < 4 * n"
  then have q: "k div 4 < n" by simp
  have "block_mirror n k div 4 < n" using q by simp
  then show "block_mirror n k < 4 * n" by linarith
  have "block_mirror n (block_mirror n k) = (n - 1 - (n - 1 - k div 4)) * 4 + k mod 4"
    unfolding block_mirror_def[of n "block_mirror n k"] by simp
  then show "block_mirror n (block_mirror n k) = k" using q by simp
qed

lemma swap_blocks:
  assumes "length xs = 4 * n"
  shows "swaps (map (\<lambda>k. (k, block_mirror n k)) [0..<4 * (n div 2)]) xs = Inr (permuted (block_mirror n) xs)"
proof (rule swaps_mirror)
  have half: "k < 4 * (n div 2) \<longleftrightarrow> k div 4 < n div 2" for k by linarith
  show "\<forall>i \<in> set [0..<4 * (n div 2)]. block_mirror n i \<in> set [0..<4 * (n div 2)] \<longrightarrow> block_mirror n i = i"
    by (auto simp: half)
  fix k assume "k < length xs"
  then have q: "k div 4 < n" using assms by simp
  show "k \<in> set [0..<4 * (n div 2)] \<or> block_mirror n k \<in> set [0..<4 * (n div 2)] \<or> block_mirror n k = k"
  proof (cases "k div 4 < n div 2 \<or> n - 1 - k div 4 < n div 2")
    case True
    then show ?thesis by (auto simp: half)
  next
    case False
    then have "n - 1 - k div 4 = k div 4" using q by linarith
    then have "block_mirror n k = k" by (simp add: block_mirror_def)
    then show ?thesis by simp
  qed
qed (use assms block_mirror_mirrors in auto)

lemma mirror_rgba_permutes:
  assumes "length row = width * 4"
  shows "mirror_rgba_row width row = Inr (permuted (block_mirror width) row)"
proof -
  have eq: "(\<lambda>x. map (\<lambda>c. (x * 4 + c, (width - x - 1) * 4 + c)) [0..<4])
      = (\<lambda>x. map (\<lambda>c. (\<lambda>k. (k, block_mirror width k)) (x * 4 + c)) [0..<4])"
    by (auto simp: block_mirror_def fun_eq_iff)
  show ?thesis unfolding mirror_rgba_row_def eq blocks4[of "\<lambda>k. (k, block_mirror width k)"]
    using swap_blocks assms by (simp add: mult.commute)
qed

lemma luma_mirror_split:
  assumes "r < 4"
  shows "luma_mirror (4 * q + r) = 4 * q + (if r = 0 then 2 else if r = 2 then 0 else r)"
proof -
  have "(4 * q + r) mod 4 = r" using assms by simp
  then show ?thesis by (simp add: luma_mirror_def)
qed

lemma luma_mirror_block: "luma_mirror k div 4 = k div 4 \<and> luma_mirror (luma_mirror k) = k"
proof -
  obtain q r where k: "k = 4 * q + r" "r < 4" by (metis mult_div_mod_eq mod_less_divisor zero_less_numeral)
  define r' where "r' = (if r = 0 then 2 else if r = 2 then 0 else r)"
  have r': "r' < 4" "(if r' = 0 then 2 else if r' = 2 then 0 else r') = r" using k(2) by (auto simp: r'_def)
  have "luma_mirror k = 4 * q + r'" using luma_mirror_split[OF k(2)] by (simp add: k(1) r'_def)
  then show ?thesis using luma_mirror_split[OF r'(1), of q] r' k by simp
qed

lemma swap_luma:
  assumes "length xs = 4 * n"
  shows "swaps (map (\<lambda>k. (4 * k, 4 * k + 2)) [0..<n]) xs = Inr (permuted luma_mirror xs)"
proof -
  have "map (\<lambda>k. (4 * k, 4 * k + 2)) [0..<n] = map (\<lambda>i. (i, luma_mirror i)) (map (\<lambda>k. 4 * k) [0..<n])"
    by (simp add: luma_mirror_def)
  moreover have "swaps (map (\<lambda>i. (i, luma_mirror i)) (map (\<lambda>k. 4 * k) [0..<n])) xs = Inr (permuted luma_mirror xs)"
  proof (rule swaps_mirror)
    show "mirrors luma_mirror (length xs)"
    proof (unfold mirrors_def assms, intro allI impI conjI)
      fix k assume "k < 4 * n"
      then have "luma_mirror k div 4 < n" using luma_mirror_block[of k] by simp
      then show "luma_mirror k < 4 * n" by linarith
    qed (simp add: luma_mirror_block)
    show "distinct (map (\<lambda>k. 4 * k) [0..<n])" by (simp add: distinct_map inj_on_def)
    show "\<forall>i \<in> set (map (\<lambda>k. 4 * k) [0..<n]). luma_mirror i \<in> set (map (\<lambda>k. 4 * k) [0..<n]) \<longrightarrow> luma_mirror i = i"
    proof (intro ballI impI)
      fix i assume "i \<in> set (map (\<lambda>k. 4 * k) [0..<n])" "luma_mirror i \<in> set (map (\<lambda>k. 4 * k) [0..<n])"
      then obtain a b where "i = 4 * a" "luma_mirror i = 4 * b" by auto
      then show "luma_mirror i = i" using luma_mirror_block[of i] by simp
    qed
    fix k assume "k < length xs"
    then have k: "k div 4 < n" using assms by simp
    obtain q r where qr: "k = 4 * q + r" "r < 4" by (metis mult_div_mod_eq mod_less_divisor zero_less_numeral)
    then have "q < n" using k by simp
    moreover consider "r = 0" | "r = 2" | "r = 1 \<or> r = 3" using qr(2) by linarith
    then have "k = 4 * q \<or> luma_mirror k = 4 * q \<or> luma_mirror k = k"
      using luma_mirror_split[OF qr(2), of q] by cases (auto simp: qr(1))
    ultimately show "k \<in> set (map (\<lambda>k. 4 * k) [0..<n]) \<or> luma_mirror k \<in> set (map (\<lambda>k. 4 * k) [0..<n]) \<or> luma_mirror k = k"
      by auto
  qed (use assms in auto)
  ultimately show ?thesis by (simp only:)
qed

definition yuyv_mirror :: "nat \<Rightarrow> nat \<Rightarrow> nat" where
  "yuyv_mirror n k = luma_mirror (block_mirror n k)"

lemma mirror_yuyv_permutes:
  assumes "length row = width * 2" "even width"
  shows "mirror_yuyv_row width row = Inr (permuted (yuyv_mirror (width div 2)) row)"
proof -
  let ?n = "width div 2"
  have n: "length row = 4 * ?n" "length row div 4 = ?n" "width div 4 = ?n div 2" using assms by auto
  have eq: "(\<lambda>p. map (\<lambda>c. (p * 4 + c, (width div 2 - p - 1) * 4 + c)) [0..<4])
      = (\<lambda>x. map (\<lambda>c. (\<lambda>k. (k, block_mirror ?n k)) (x * 4 + c)) [0..<4])"
    by (auto simp: block_mirror_def fun_eq_iff)
  have "mirror_yuyv_row width row = swaps (map (\<lambda>k. (k, block_mirror ?n k)) [0..<4 * (?n div 2)]) (permuted luma_mirror row)"
    unfolding mirror_yuyv_row_def eq blocks4[of "\<lambda>k. (k, block_mirror ?n k)"] n(2,3) using swap_luma[OF n(1)] by simp
  also have "\<dots> = Inr (permuted (block_mirror ?n) (permuted luma_mirror row))" using n(1) by (intro swap_blocks) simp
  also have "permuted (block_mirror ?n) (permuted luma_mirror row) = permuted (yuyv_mirror ?n) row"
    using block_mirror_mirrors[of ?n] n(1)
    by (intro nth_equalityI) (simp_all add: yuyv_mirror_def mirrors_def)
  finally show ?thesis .
qed

section \<open>The buffer\<close>

definition row_bytes_of :: "bool \<Rightarrow> nat \<Rightarrow> nat" where
  "row_bytes_of rgba width = width * (if rgba then 4 else 2)"

definition row_mirror :: "bool \<Rightarrow> bool \<Rightarrow> nat \<Rightarrow> nat \<Rightarrow> nat" where
  "row_mirror rgba horizontal width = (if \<not> horizontal then id else if rgba then block_mirror width else yuyv_mirror (width div 2))"

lemma yuyv_mirror_bound: "k < 4 * n \<Longrightarrow> yuyv_mirror n k < 4 * n"
proof -
  assume k: "k < 4 * n"
  have "yuyv_mirror n k div 4 = n - 1 - k div 4" by (simp add: yuyv_mirror_def luma_mirror_block)
  moreover have "n - 1 - k div 4 < n" using k by auto
  ultimately show ?thesis by linarith
qed

lemma row_mirror_bound:
  assumes "k < row_bytes_of rgba width" "rgba \<or> even width"
  shows "row_mirror rgba horizontal width k < row_bytes_of rgba width"
  using assms block_mirror_mirrors[of width] yuyv_mirror_bound[of k "width div 2"]
  by (auto simp: row_mirror_def row_bytes_of_def mirrors_def mult.commute)

lemma mirror_row_permutes:
  assumes "length row = row_bytes_of rgba width" "rgba \<or> even width"
  shows "mirror_row rgba horizontal width row = Inr (permuted (row_mirror rgba horizontal width) row)"
proof (cases horizontal)
  case True
  then show ?thesis using assms mirror_rgba_permutes mirror_yuyv_permutes
    by (auto simp: mirror_row_def row_mirror_def row_bytes_of_def)
next
  case False
  then show ?thesis by (simp add: mirror_row_def row_mirror_def permuted_def map_nth)
qed

text \<open>The same mirror in every row of a set of rows.\<close>

definition in_rows :: "(nat \<Rightarrow> nat) \<Rightarrow> nat \<Rightarrow> nat \<Rightarrow> nat set \<Rightarrow> nat \<Rightarrow> nat" where
  "in_rows m stride n ys k = (if k mod stride < n \<and> k div stride \<in> ys then k div stride * stride + m (k mod stride) else k)"

lemma row_index:
  fixes n stride :: nat
  assumes "n \<le> stride"
  shows "c < n \<Longrightarrow> (y * stride + c) div stride = y" "c < n \<Longrightarrow> (y * stride + c) mod stride = c"
    "y * stride \<le> k \<and> k < y * stride + n \<longleftrightarrow> k mod stride < n \<and> k div stride = y"
proof -
  show div: "c < n \<Longrightarrow> (y * stride + c) div stride = y" and "c < n \<Longrightarrow> (y * stride + c) mod stride = c" for c
    using less_le_trans[of c n stride] assms by auto
  show "y * stride \<le> k \<and> k < y * stride + n \<longleftrightarrow> k mod stride < n \<and> k div stride = y"
  proof
    assume k: "y * stride \<le> k \<and> k < y * stride + n"
    then obtain c where "k = y * stride + c" "c < n" by (metis le_iff_add nat_add_left_cancel_less)
    then show "k mod stride < n \<and> k div stride = y" using less_le_trans[of c n stride] assms by auto
  next
    assume k: "k mod stride < n \<and> k div stride = y"
    then have "k = y * stride + k mod stride" by (metis div_mult_mod_eq)
    then show "y * stride \<le> k \<and> k < y * stride + n" using k by linarith
  qed
qed

lemma put_row:
  assumes n: "n \<le> stride" "y * stride + n \<le> length bs" and m: "\<And>c. c < n \<Longrightarrow> m c < n"
  shows "take (y * stride) bs @ permuted m (slice (y * stride) (y * stride + n) bs) @ drop (y * stride + n) bs
     = permuted (in_rows m stride n {y}) bs" (is "?l = ?r")
proof (rule nth_equalityI)
  show "length ?l = length ?r" using n by (simp add: length_slice)
  fix k assume "k < length ?l"
  then have k: "k < length bs" using n by (simp add: length_slice)
  let ?row = "permuted m (slice (y * stride) (y * stride + n) bs)"
  have len: "length ?row = n" using n by (simp add: length_slice)
  have l: "?l ! k = (if y * stride \<le> k \<and> k < y * stride + n then ?row ! (k - y * stride) else bs ! k)"
    using nth_put[of "y * stride" ?row bs k] n k unfolding len by simp
  show "?l ! k = ?r ! k"
  proof (cases "k mod stride < n \<and> k div stride = y")
    case True
    then have "y * stride \<le> k \<and> k < y * stride + n" using row_index(3)[OF n(1)] by blast
    moreover have "k - y * stride = k mod stride" using True by (metis minus_div_mult_eq_mod)
    ultimately show ?thesis using True l m k n
      by (simp add: length_slice nth_slice in_rows_def)
  next
    case False
    then show ?thesis using l k row_index(3)[OF n(1), of y k] by (auto simp: in_rows_def)
  qed
qed

lemma in_rows_step:
  assumes "y \<notin> ys" "n \<le> stride" "\<And>c. c < n \<Longrightarrow> m c < n"
  shows "in_rows m stride n {y} (in_rows m stride n ys k) = in_rows m stride n (insert y ys) k"
proof (cases "k mod stride < n \<and> k div stride \<in> ys")
  case True
  let ?k = "k div stride * stride + m (k mod stride)"
  have "?k div stride = k div stride" using row_index(1)[OF assms(2)] assms(3) True by blast
  then show ?thesis using True assms(1) by (auto simp: in_rows_def)
next
  case False
  then have "in_rows m stride n ys k = k" by (auto simp: in_rows_def)
  then show ?thesis using False by (auto simp: in_rows_def)
qed

lemma in_rows_bound:
  assumes "\<And>y. y \<in> ys \<Longrightarrow> y * stride + n \<le> len" "\<And>c. c < n \<Longrightarrow> m c < n" "k < len"
  shows "in_rows m stride n ys k < len"
proof (cases "k mod stride < n \<and> k div stride \<in> ys")
  case True
  then have "k div stride * stride + n \<le> len" "m (k mod stride) < n" using assms by auto
  then show ?thesis using True by (simp add: in_rows_def)
next
  case False
  then show ?thesis using assms(3) by (auto simp: in_rows_def)
qed

lemma flip_rows_permutes:
  assumes w: "rgba \<or> even width" and n: "n = row_bytes_of rgba width" "n \<le> stride"
  shows "distinct ys \<Longrightarrow> (\<And>y. y \<in> set ys \<Longrightarrow> y * stride + n \<le> length bs) \<Longrightarrow>
     flip_rows rgba horizontal width stride n ys bs
       = Inr (permuted (in_rows (row_mirror rgba horizontal width) stride n (set ys)) bs)"
proof (induction ys arbitrary: bs)
  case Nil
  show ?case by (simp add: in_rows_def permuted_def map_nth)
next
  case (Cons y ys)
  let ?m = "row_mirror rgba horizontal width"
  let ?row = "slice (y * stride) (y * stride + n) bs"
  let ?bs = "permuted (in_rows ?m stride n {y}) bs"
  have y: "y * stride + n \<le> length bs" using Cons.prems by simp
  have m: "\<And>c. c < n \<Longrightarrow> ?m c < n" using row_mirror_bound w n(1) by simp
  have row: "mirror_row rgba horizontal width ?row = Inr (permuted ?m ?row)"
    using y n w by (intro mirror_row_permutes) (simp_all add: length_slice)
  have rest: "flip_rows rgba horizontal width stride n ys ?bs = Inr (permuted (in_rows ?m stride n (set ys)) ?bs)"
    using Cons.prems by (intro Cons.IH) simp_all
  have "permuted (in_rows ?m stride n (set ys)) ?bs = permuted (in_rows ?m stride n (set (y # ys))) bs"
  proof (rule nth_equalityI)
    fix k assume "k < length (permuted (in_rows ?m stride n (set ys)) ?bs)"
    then have k: "k < length bs" by simp
    then have "in_rows ?m stride n (set ys) k < length bs" using Cons.prems m by (intro in_rows_bound) auto
    then show "permuted (in_rows ?m stride n (set ys)) ?bs ! k = permuted (in_rows ?m stride n (set (y # ys))) bs ! k"
      using k in_rows_step[of y "set ys" n stride ?m k] Cons.prems(1) n(2) m by simp
  qed simp
  moreover have "take (y * stride) bs @ permuted ?m ?row @ drop (y * stride + n) bs = ?bs"
    using n(2) y m by (rule put_row)
  ultimately show ?case using y rest row by (simp add: length_slice)
qed

text \<open>The vertical flip.\<close>

definition row_flip :: "nat \<Rightarrow> nat \<Rightarrow> nat \<Rightarrow> nat \<Rightarrow> nat" where
  "row_flip height stride n k =
     (if k mod stride < n \<and> k div stride < height then (height - 1 - k div stride) * stride + k mod stride else k)"

lemma row_flip_parts:
  assumes "n \<le> stride" "k mod stride < n" "k div stride < height"
  shows "row_flip height stride n k div stride = height - 1 - k div stride" "row_flip height stride n k mod stride = k mod stride"
  using assms row_index(1,2)[OF assms(1,2)] by (simp_all add: row_flip_def)

lemma flip_mirrors:
  assumes n: "n \<le> stride" and fits: "\<And>y. y < height \<Longrightarrow> y * stride + n \<le> len"
  shows "mirrors (row_flip height stride n) len"
proof (unfold mirrors_def, intro allI impI conjI)
  fix k assume k: "k < len"
  let ?m = "row_flip height stride n"
  show "?m k < len"
  proof (cases "k mod stride < n \<and> k div stride < height")
    case True
    then have "(height - 1 - k div stride) * stride + n \<le> len" by (intro fits) simp
    then show ?thesis using True by (simp add: row_flip_def)
  next
    case False
    then show ?thesis using k by (auto simp: row_flip_def)
  qed
  show "?m (?m k) = k"
  proof (cases "k mod stride < n \<and> k div stride < height")
    case True
    note p = row_flip_parts[OF n conjunct1[OF True] conjunct2[OF True]]
    have "?m (?m k) = (height - 1 - (height - 1 - k div stride)) * stride + k mod stride"
      unfolding row_flip_def[of height stride n "?m k"] p using True by simp
    then show ?thesis using True by simp
  next
    case False
    then have "?m k = k" by (auto simp: row_flip_def)
    then show ?thesis by simp
  qed
qed

lemma flip_swaps:
  assumes n: "n \<le> stride" and fits: "\<And>y. y < height \<Longrightarrow> y * stride + n \<le> length bs"
  shows "swaps (concat (map (\<lambda>y. map (\<lambda>x. (y * stride + x, (height - y - 1) * stride + x)) [0..<n]) [0..<height div 2])) bs
     = Inr (permuted (row_flip height stride n) bs)"
proof -
  let ?m = "row_flip height stride n"
  let ?is = "map (\<lambda>(y, x). y * stride + x) (List.product [0..<height div 2] [0..<n])"
  have "map (\<lambda>i. (i, ?m i)) ?is
      = map (\<lambda>(y, x). (y * stride + x, (height - y - 1) * stride + x)) (List.product [0..<height div 2] [0..<n])"
    using row_index(1,2)[OF n] by (auto simp: row_flip_def)
  also have "\<dots> = concat (map (\<lambda>y. map (\<lambda>x. (y * stride + x, (height - y - 1) * stride + x)) [0..<n]) [0..<height div 2])"
    by (simp add: product_concat_map map_concat comp_def)
  finally have pairs: "concat (map (\<lambda>y. map (\<lambda>x. (y * stride + x, (height - y - 1) * stride + x)) [0..<n]) [0..<height div 2])
      = map (\<lambda>i. (i, ?m i)) ?is" by simp
  have mem: "i \<in> set ?is \<longleftrightarrow> i mod stride < n \<and> i div stride < height div 2" for i
  proof
    assume "i \<in> set ?is"
    then obtain y x where "i = y * stride + x" "y < height div 2" "x < n" by auto
    then show "i mod stride < n \<and> i div stride < height div 2" using row_index(1,2)[OF n] by simp
  next
    assume "i mod stride < n \<and> i div stride < height div 2"
    then show "i \<in> set ?is" by (auto intro!: image_eqI[of _ _ "(i div stride, i mod stride)"])
  qed
  show ?thesis unfolding pairs
  proof (rule swaps_mirror)
    show "mirrors ?m (length bs)" using assms by (rule flip_mirrors)
    have "inj_on (\<lambda>(y, x). y * stride + x) (set (List.product [0..<height div 2] [0..<n]))"
      by (rule inj_on_inverseI[of _ "\<lambda>k. (k div stride, k mod stride)"]) (use row_index(1,2)[OF n] in auto)
    then show "distinct ?is" by (simp add: distinct_map distinct_product)
    show "set ?is \<subseteq> {..<length bs}"
    proof
      fix i assume "i \<in> set ?is"
      then have i: "i mod stride < n" "i div stride < height" using mem by auto
      have "i = i div stride * stride + i mod stride" by simp
      then have "i < length bs" using i(1) fits[OF i(2)] by linarith
      then show "i \<in> {..<length bs}" by simp
    qed
    show "\<forall>i \<in> set ?is. ?m i \<in> set ?is \<longrightarrow> ?m i = i"
    proof (intro ballI impI)
      fix i assume i: "i \<in> set ?is" "?m i \<in> set ?is"
      then have "i mod stride < n" "i div stride < height div 2" "?m i div stride < height div 2" using mem by auto
      moreover from this have "?m i div stride = height - 1 - i div stride" by (intro row_flip_parts[OF n]) simp_all
      ultimately show "?m i = i" by linarith
    qed
    fix k assume "k < length bs"
    show "k \<in> set ?is \<or> ?m k \<in> set ?is \<or> ?m k = k"
    proof (cases "k mod stride < n \<and> k div stride < height")
      case True
      note p = row_flip_parts[OF n conjunct1[OF True] conjunct2[OF True]]
      consider "k div stride < height div 2" | "height - 1 - k div stride < height div 2" | "height - 1 - k div stride = k div stride"
        using True by linarith
      then show ?thesis
      proof cases
        case 3
        then show ?thesis using True by (simp add: row_flip_def)
      qed (use True p mem in auto)
    next
      case False
      then show ?thesis by (auto simp: row_flip_def)
    qed
  qed
qed

definition buffer_fits :: "nat \<Rightarrow> nat \<Rightarrow> nat \<Rightarrow> bytes \<Rightarrow> bool" where
  "buffer_fits n stride height bs \<longleftrightarrow> n \<le> stride \<and> (height = 0 \<or> (height - 1) * stride + n \<le> length bs)"

lemma buffer_rows:
  assumes "buffer_fits n stride height bs" "y < height"
  shows "y * stride + n \<le> length bs"
proof -
  have "y \<le> height - 1" using assms(2) by simp
  then have "y * stride \<le> (height - 1) * stride" by (rule mult_right_mono) simp
  moreover have "(height - 1) * stride + n \<le> length bs" using assms by (auto simp: buffer_fits_def)
  ultimately show ?thesis by linarith
qed

lemma flips_permutes:
  assumes fits: "buffer_fits (row_bytes_of rgba width) stride height bs" and w: "rgba \<or> even width"
  shows "flips bs width height stride rgba horizontal vertical
     = Inr (permuted (if vertical then row_flip height stride (row_bytes_of rgba width) else id)
         (permuted (in_rows (row_mirror rgba horizontal width) stride (row_bytes_of rgba width) {..<height}) bs))"
proof -
  let ?n = "row_bytes_of rgba width"
  have n: "?n \<le> stride" using fits by (simp add: buffer_fits_def)
  note rows = buffer_rows[OF fits]
  have "flip_rows rgba horizontal width stride ?n [0..<height] bs
      = Inr (permuted (in_rows (row_mirror rgba horizontal width) stride ?n {..<height}) bs)"
    using flip_rows_permutes[OF w refl n, of "[0..<height]" bs horizontal] rows by (simp add: lessThan_atLeast0)
  moreover have "permuted id xs = xs" for xs :: bytes by (simp add: permuted_def map_nth)
  moreover have "swaps (concat (map (\<lambda>y. map (\<lambda>x. (y * stride + x, (height - y - 1) * stride + x)) [0..<?n]) [0..<height div 2]))
      (permuted f bs) = Inr (permuted (row_flip height stride ?n) (permuted f bs))" for f
    by (rule flip_swaps[OF n]) (simp add: rows)
  ultimately show ?thesis unfolding flips_def row_bytes_of_def[symmetric] Let_def by simp
qed

section \<open>The picture\<close>

text \<open>
  The bytes a pixel is read from: four of its own, or its luma sample and the chroma its pair shares.
\<close>

definition pixel_columns :: "bool \<Rightarrow> nat \<Rightarrow> nat list" where
  "pixel_columns rgba x =
     (if rgba then [4 * x, 4 * x + 1, 4 * x + 2, 4 * x + 3] else [2 * x, 4 * (x div 2) + 1, 4 * (x div 2) + 3])"

definition picture_of :: "nat \<Rightarrow> nat \<Rightarrow> (nat \<Rightarrow> nat \<Rightarrow> 'p) \<Rightarrow> 'p list list" where
  "picture_of width height px = map (\<lambda>y. map (\<lambda>x. px x y) [0..<width]) [0..<height]"

definition output_picture :: "bool \<Rightarrow> nat \<Rightarrow> nat \<Rightarrow> nat \<Rightarrow> bytes \<Rightarrow> u8 list list list" where
  "output_picture rgba width height stride bs =
     picture_of width height (\<lambda>x y. map (\<lambda>c. bs ! (y * stride + c)) (pixel_columns rgba x))"

lemma picture_of_cong:
  "(\<And>x y. x < width \<Longrightarrow> y < height \<Longrightarrow> f x y = g x y) \<Longrightarrow> picture_of width height f = picture_of width height g"
  by (simp add: picture_of_def)

lemma rev_range: "rev (map f [0..<n]) = map (\<lambda>k. f (n - 1 - k)) [0..<n]"
  by (rule nth_equalityI) (simp_all add: rev_nth)

lemma rev_rows: "rev (picture_of width height px) = picture_of width height (\<lambda>x y. px x (height - 1 - y))"
  by (simp add: picture_of_def rev_range)

lemma rev_columns: "map rev (picture_of width height px) = picture_of width height (\<lambda>x y. px (width - 1 - x) y)"
  by (simp add: picture_of_def rev_range)

lemma pixel_columns_bound:
  assumes "x < width" "rgba \<or> even width" "c \<in> set (pixel_columns rgba x)"
  shows "c < row_bytes_of rgba width"
proof (cases rgba)
  case True
  then show ?thesis using assms by (auto simp: pixel_columns_def row_bytes_of_def)
next
  case False
  then obtain n where "width = 2 * n" using assms(2) by auto
  moreover from this have "x div 2 < n" using assms(1) by auto
  ultimately show ?thesis using assms False by (auto simp: pixel_columns_def row_bytes_of_def)
qed

lemma mirrored_columns:
  assumes "x < width" "rgba \<or> even width"
  shows "map (row_mirror rgba True width) (pixel_columns rgba x) = pixel_columns rgba (width - 1 - x)"
proof (cases rgba)
  case True
  have b: "block_mirror width (4 * x + r) = 4 * (width - 1 - x) + r" if "r < 4" for r
    using that by (simp add: block_mirror_def)
  show ?thesis using True b[of 0] b[of 1] b[of 2] b[of 3] by (simp add: row_mirror_def pixel_columns_def)
next
  case False
  then obtain n where n: "width = 2 * n" using assms(2) by auto
  obtain q r where x: "x = 2 * q + r" "r < 2" by (metis mult_div_mod_eq mod_less_divisor zero_less_numeral)
  have q: "q < n" using n x assms(1) by simp
  have y: "yuyv_mirror n (4 * q + c) = 4 * (n - 1 - q) + (if c = 0 then 2 else if c = 2 then 0 else c)" if "c < 4" for c
  proof -
    have "block_mirror n (4 * q + c) = 4 * (n - 1 - q) + c" using that by (simp add: block_mirror_def)
    then show ?thesis unfolding yuyv_mirror_def using luma_mirror_split[OF that] by simp
  qed
  have cols: "pixel_columns False x = [4 * q + 2 * r, 4 * q + 1, 4 * q + 3]" using x by (simp add: pixel_columns_def)
  have "width - 1 - x = 2 * (n - 1 - q) + (1 - r)" "(width - 1 - x) div 2 = n - 1 - q" using n x q by auto
  then have "pixel_columns False (width - 1 - x) = [4 * (n - 1 - q) + 2 * (1 - r), 4 * (n - 1 - q) + 1, 4 * (n - 1 - q) + 3]"
    by (simp add: pixel_columns_def)
  moreover have "yuyv_mirror n (4 * q + 2 * r) = 4 * (n - 1 - q) + 2 * (1 - r)"
    using y[of "2 * r"] x(2) by (cases "r = 0") auto
  ultimately show ?thesis using False n cols y[of 1] y[of 3] by (simp add: row_mirror_def)
qed

lemma flips_picture:
  assumes fits: "buffer_fits (row_bytes_of rgba width) stride height bs" and w: "rgba \<or> even width"
  shows "\<exists>bs'. flips bs width height stride rgba horizontal vertical = Inr bs' \<and> length bs' = length bs
    \<and> output_picture rgba width height stride bs'
        = (if vertical then rev else id) (map (if horizontal then rev else id) (output_picture rgba width height stride bs))
    \<and> (\<forall>k < length bs. row_bytes_of rgba width \<le> k mod stride \<or> height \<le> k div stride \<longrightarrow> bs' ! k = bs ! k)"
proof -
  let ?n = "row_bytes_of rgba width"
  let ?h = "in_rows (row_mirror rgba horizontal width) stride ?n {..<height}"
  let ?v = "if vertical then row_flip height stride ?n else id"
  let ?bs = "permuted ?v (permuted ?h bs)"
  have n: "?n \<le> stride" using fits by (simp add: buffer_fits_def)
  note rows = buffer_rows[OF fits]
  have v_bound: "?v k < length bs" if "k < length bs" for k
    using flip_mirrors[OF n rows] that by (simp add: mirrors_def)
  have nth: "?bs ! k = bs ! ?h (?v k)" if "k < length bs" for k
    using that v_bound by simp
  have pixels: "output_picture rgba width height stride ?bs = picture_of width height
      (\<lambda>x y. map (\<lambda>c. bs ! ((if vertical then height - 1 - y else y) * stride + c))
         (pixel_columns rgba (if horizontal then width - 1 - x else x)))"
  proof (unfold output_picture_def, rule picture_of_cong)
    fix x y assume x: "x < width" and y: "y < height"
    let ?y = "if vertical then height - 1 - y else y"
    have at: "?bs ! (y * stride + c) = bs ! (?y * stride + row_mirror rgba horizontal width c)" if "c < ?n" for c
    proof -
      have v: "?v (y * stride + c) = ?y * stride + c" using row_index(1,2)[OF n that] y that by (simp add: row_flip_def)
      have h: "?h (?y * stride + c) = ?y * stride + row_mirror rgba horizontal width c"
        using row_index(1,2)[OF n that] that y by (auto simp: in_rows_def)
      have inside: "y * stride + c < length bs" using rows[OF y] that by linarith
      show ?thesis unfolding nth[OF inside] v h ..
    qed
    have "map (\<lambda>c. ?bs ! (y * stride + c)) (pixel_columns rgba x)
        = map (\<lambda>c. bs ! (?y * stride + c)) (map (row_mirror rgba horizontal width) (pixel_columns rgba x))"
      using at pixel_columns_bound[OF x w] by simp
    also have "map (row_mirror rgba horizontal width) (pixel_columns rgba x)
        = pixel_columns rgba (if horizontal then width - 1 - x else x)"
      using mirrored_columns[OF x w] by (cases horizontal) (simp_all add: row_mirror_def)
    finally show "map (\<lambda>c. ?bs ! (y * stride + c)) (pixel_columns rgba x)
        = map (\<lambda>c. bs ! (?y * stride + c)) (pixel_columns rgba (if horizontal then width - 1 - x else x))" .
  qed
  also have "\<dots> = (if vertical then rev else id) (map (if horizontal then rev else id) (output_picture rgba width height stride bs))"
    by (simp add: output_picture_def rev_rows rev_columns)
  finally have picture: "output_picture rgba width height stride ?bs = \<dots>" .
  have pad: "?bs ! k = bs ! k" if "k < length bs" "?n \<le> k mod stride \<or> height \<le> k div stride" for k
  proof -
    have "?v k = k" "?h k = k" using that(2) by (auto simp: row_flip_def in_rows_def)
    then show ?thesis using nth[OF that(1)] by simp
  qed
  show ?thesis using flips_permutes[OF fits w, of horizontal vertical] picture pad by auto
qed

text \<open>
  Mirroring and flipping an output buffer is what they say: the picture it shows, RGBA or packed
  YUYV with shared chroma, has its rows reversed pixel by pixel and its rows in reverse order, the
  padding between the rows is not touched, and no index leaves the buffer.
\<close>

theorem flips_reverse_picture:
  assumes fits: "buffer_fits (row_bytes_of rgba width) stride height bs" and w: "rgba \<or> even width"
  shows "\<exists>bs'. flips bs width height stride rgba horizontal vertical = Inr bs' \<and> length bs' = length bs
    \<and> output_picture rgba width height stride bs'
        = (if vertical then rev else id) (map (if horizontal then rev else id) (output_picture rgba width height stride bs))
    \<and> (\<forall>k < length bs. row_bytes_of rgba width \<le> k mod stride \<or> height \<le> k div stride \<longrightarrow> bs' ! k = bs ! k)"
  by (rule flips_picture[OF assms])

lemma flips_reverse_picture_witness:
  "\<exists>bs'. flips [1, 2, 3, 4, 5, 6, 7, 8, 9] 2 2 5 False True True = Inr bs' \<and> length bs' = 9
    \<and> output_picture False 2 2 5 bs' = rev (map rev (output_picture False 2 2 5 [1, 2, 3, 4, 5, 6, 7, 8, 9]))
    \<and> bs' ! 4 = 5"
proof -
  let ?bs = "[1, 2, 3, 4, 5, 6, 7, 8, 9] :: bytes"
  have "buffer_fits (row_bytes_of False 2) 5 2 ?bs" "False \<or> even (2::nat)"
    by (simp_all add: buffer_fits_def row_bytes_of_def)
  from flips_reverse_picture[OF this, of True True]
  obtain bs' where "flips ?bs 2 2 5 False True True = Inr bs'" "length bs' = length ?bs"
    "output_picture False 2 2 5 bs' = rev (map rev (output_picture False 2 2 5 ?bs))"
    and pad: "\<forall>k < length ?bs. row_bytes_of False 2 \<le> k mod 5 \<or> 2 \<le> k div 5 \<longrightarrow> bs' ! k = ?bs ! k" by auto
  moreover have "bs' ! 4 = 5" using pad[rule_format, of 4] by (simp add: row_bytes_of_def)
  ultimately show ?thesis by auto
qed

section \<open>Rotation\<close>

text \<open>The reference: a clockwise quarter turn.\<close>

definition quarter_turn :: "'p list list \<Rightarrow> 'p list list" where
  "quarter_turn rows = map rev (List.transpose rows)"

definition rgb_picture :: "nat \<Rightarrow> nat \<Rightarrow> nat \<Rightarrow> bytes \<Rightarrow> bytes list list" where
  "rgb_picture width height stride bs =
     picture_of width height (\<lambda>x y. slice (y * stride + x * 3) (y * stride + x * 3 + 3) bs)"

lemma quarter_turn_picture:
  assumes "height \<noteq> 0"
  shows "quarter_turn (picture_of width height px) = picture_of height width (\<lambda>x y. px y (height - 1 - x))"
proof -
  let ?rows = "picture_of width height px"
  have rows: "length ?rows = height" "\<And>i. i < height \<Longrightarrow> ?rows ! i = map (\<lambda>x. px x i) [0..<width]"
    by (simp_all add: picture_of_def)
  then have "?rows \<noteq> []" "\<And>i. i < length ?rows \<Longrightarrow> length (?rows ! i) = width" using assms by auto
  then have "List.transpose ?rows = map (\<lambda>i. map (\<lambda>j. ?rows ! j ! i) [0..<length ?rows]) [0..<width]"
    by (intro transpose_rectangle) auto
  also have "\<dots> = picture_of height width (\<lambda>x y. px y x)" using rows by (simp add: picture_of_def)
  finally show ?thesis by (simp add: quarter_turn_def rev_columns)
qed

lemma quarter_turns:
  assumes "width \<noteq> 0" "height \<noteq> 0" and pic: "pic = picture_of width height px"
  shows "(quarter_turn ^^ 0) pic = picture_of width height px"
    "(quarter_turn ^^ 1) pic = picture_of height width (\<lambda>x y. px y (height - 1 - x))"
    "(quarter_turn ^^ 2) pic = picture_of width height (\<lambda>x y. px (width - 1 - x) (height - 1 - y))"
    "(quarter_turn ^^ 3) pic = picture_of height width (\<lambda>x y. px (width - 1 - y) x)"
proof -
  show "(quarter_turn ^^ 0) pic = picture_of width height px" by (simp add: pic)
  show one: "(quarter_turn ^^ 1) pic = picture_of height width (\<lambda>x y. px y (height - 1 - x))"
    by (simp add: pic quarter_turn_picture assms(2))
  show two: "(quarter_turn ^^ 2) pic = picture_of width height (\<lambda>x y. px (width - 1 - x) (height - 1 - y))"
    using one by (simp add: numeral_2_eq_2 quarter_turn_picture assms(1))
  have "(quarter_turn ^^ 3) pic = quarter_turn ((quarter_turn ^^ 2) pic)" by (simp add: numeral_3_eq_3 numeral_2_eq_2)
  also have "\<dots> = picture_of height width (\<lambda>x y. px (width - 1 - y) (height - 1 - (height - 1 - x)))"
    unfolding two by (rule quarter_turn_picture[OF assms(2)])
  also have "\<dots> = picture_of height width (\<lambda>x y. px (width - 1 - y) x)"
    by (rule picture_of_cong) simp
  finally show "(quarter_turn ^^ 3) pic = picture_of height width (\<lambda>x y. px (width - 1 - y) x)" .
qed

text \<open>Copying pixels to disjoint places.\<close>

definition target_at :: "nat \<Rightarrow> nat \<Rightarrow> nat \<Rightarrow> nat \<Rightarrow> nat \<times> nat \<Rightarrow> nat" where
  "target_at width height angle out_stride p =
     (case rotate_target width height angle (fst p) (snd p) of Inr (dx, dy) \<Rightarrow> dy * out_stride + dx * 3 | Inl _ \<Rightarrow> 0)"

definition source_at :: "nat \<Rightarrow> nat \<times> nat \<Rightarrow> nat" where
  "source_at stride p = snd p * stride + fst p * 3"

definition right_angle :: "nat \<Rightarrow> bool" where
  "right_angle angle \<longleftrightarrow> angle = 0 \<or> angle = 90 \<or> angle = 180 \<or> angle = 270"

lemma rotate_target_right: "right_angle angle \<Longrightarrow> \<exists>dx dy. rotate_target width height angle x y = Inr (dx, dy)"
  by (auto simp: right_angle_def rotate_target_def)

lemma rotate_pixels_copies:
  fixes t s :: "nat \<times> nat \<Rightarrow> nat" and width height angle out_stride stride :: nat
  defines "t \<equiv> target_at width height angle out_stride" and "s \<equiv> source_at stride"
  assumes a: "right_angle angle"
  shows "distinct ps \<Longrightarrow> (\<And>p. p \<in> set ps \<Longrightarrow> s p + 3 \<le> length src \<and> t p + 3 \<le> length dst)
    \<Longrightarrow> (\<And>p q. p \<in> set ps \<Longrightarrow> q \<in> set ps \<Longrightarrow> p \<noteq> q \<Longrightarrow> t p + 3 \<le> t q \<or> t q + 3 \<le> t p)
    \<Longrightarrow> \<exists>d. rotate_pixels src width height stride out_stride angle ps dst = Inr d \<and> length d = length dst
         \<and> (\<forall>p \<in> set ps. slice (t p) (t p + 3) d = slice (s p) (s p + 3) src)
         \<and> (\<forall>k < length dst. (\<forall>p \<in> set ps. k < t p \<or> t p + 3 \<le> k) \<longrightarrow> d ! k = dst ! k)"
proof (induction ps arbitrary: dst)
  case Nil
  then show ?case by simp
next
  case (Cons p ps)
  obtain x y where p: "p = (x, y)" by fastforce
  obtain dx dy where target: "rotate_target width height angle x y = Inr (dx, dy)" using rotate_target_right[OF a] by blast
  have tp: "t p = dy * out_stride + dx * 3" and sp: "s p = y * stride + x * 3"
    by (simp_all add: t_def s_def target_at_def source_at_def p target)
  have bounds: "s p + 3 \<le> length src" "t p + 3 \<le> length dst" using Cons.prems(2) by auto
  let ?px = "slice (s p) (s p + 3) src"
  let ?dst = "take (t p) dst @ ?px @ drop (t p + 3) dst"
  have px: "length ?px = 3" using bounds by (simp add: length_slice)
  have len: "length ?dst = length dst" using bounds px by simp
  have put: "?dst ! k = (if t p \<le> k \<and> k < t p + 3 then ?px ! (k - t p) else dst ! k)" if "k < length dst" for k
    using nth_put[of "t p" ?px dst k] that bounds unfolding px by simp
  obtain d where d: "rotate_pixels src width height stride out_stride angle ps ?dst = Inr d" "length d = length dst"
    "\<forall>p \<in> set ps. slice (t p) (t p + 3) d = slice (s p) (s p + 3) src"
    "\<forall>k < length dst. (\<forall>p \<in> set ps. k < t p \<or> t p + 3 \<le> k) \<longrightarrow> d ! k = ?dst ! k"
    using Cons.IH[of ?dst] Cons.prems unfolding len by auto
  have apart: "\<forall>q \<in> set ps. t p + 3 \<le> t q \<or> t q + 3 \<le> t p" using Cons.prems(1,3) by (metis distinct.simps(2) list.set_intros)
  have here: "slice (t p) (t p + 3) d = ?px"
  proof (rule nth_equalityI)
    show "length (slice (t p) (t p + 3) d) = length ?px" using bounds px d(2) by (simp add: length_slice)
    fix k assume "k < length (slice (t p) (t p + 3) d)"
    then have k: "k < 3" using bounds d(2) by (simp add: length_slice)
    have "\<forall>q \<in> set ps. t p + k < t q \<or> t q + 3 \<le> t p + k" using apart k by auto
    then have "d ! (t p + k) = ?dst ! (t p + k)" using d(4) k bounds by auto
    then show "slice (t p) (t p + 3) d ! k = ?px ! k" using put[of "t p + k"] k bounds d(2) by (simp add: nth_slice)
  qed
  have "rotate_pixels src width height stride out_stride angle (p # ps) dst = Inr d"
    using bounds d(1) px by (simp add: p target tp[symmetric] sp[symmetric])
  moreover have "\<forall>k < length dst. (\<forall>q \<in> set (p # ps). k < t q \<or> t q + 3 \<le> k) \<longrightarrow> d ! k = dst ! k"
    using d(4) put by auto
  ultimately show ?case using d(2,3) here by auto
qed

text \<open>The place in the source that a place in the destination is filled from.\<close>

definition unturn :: "nat \<Rightarrow> nat \<Rightarrow> nat \<Rightarrow> nat \<Rightarrow> nat \<Rightarrow> nat \<times> nat" where
  "unturn width height angle dx dy =
     (if angle = 90 then (dy, height - 1 - dx) else if angle = 180 then (width - 1 - dx, height - 1 - dy)
      else if angle = 270 then (width - 1 - dy, dx) else (dx, dy))"

lemma target_range:
  assumes "right_angle angle" "x < width" "y < height" "turned_size width height angle = (ow, oh)"
  obtains dx dy where "rotate_target width height angle x y = Inr (dx, dy)" "dx < ow" "dy < oh"
    "unturn width height angle dx dy = (x, y)"
proof -
  consider "angle = 0" | "angle = 90" | "angle = 180" | "angle = 270" using assms(1) by (auto simp: right_angle_def)
  then show thesis
    by cases (use assms that in \<open>auto simp: rotate_target_def turned_size_def unturn_def\<close>)
qed

lemma unturn_range:
  assumes "right_angle angle" "dx < ow" "dy < oh" "turned_size width height angle = (ow, oh)"
  obtains x y where "unturn width height angle dx dy = (x, y)" "x < width" "y < height"
    "rotate_target width height angle x y = Inr (dx, dy)"
proof -
  consider "angle = 0" | "angle = 90" | "angle = 180" | "angle = 270" using assms(1) by (auto simp: right_angle_def)
  then show thesis
    by cases (use assms that in \<open>auto simp: rotate_target_def turned_size_def unturn_def\<close>)
qed

lemma grid_set: "set (grid width height) = {(x, y). x < width \<and> y < height}"
  by (auto simp: grid_def)

lemma grid_distinct: "distinct (grid width height)"
proof -
  have "grid width height = map prod.swap (List.product [0..<height] [0..<width])"
    by (simp add: grid_def product_concat_map map_concat comp_def)
  then show ?thesis by (simp add: distinct_map distinct_product)
qed

text \<open>Pixels of a buffer with rows no longer than its stride: where they are, and that they are apart.\<close>

lemma pixel_inside:
  fixes n stride height len x y :: nat
  assumes "n * 3 \<le> stride" "height \<le> len div stride" "x < n" "y < height"
  shows "y * stride + x * 3 + 3 \<le> len"
proof -
  have "x * 3 + 3 \<le> stride" using assms by linarith
  moreover have "(y + 1) * stride \<le> height * stride" using assms by (intro mult_right_mono) simp_all
  moreover have "height * stride \<le> len div stride * stride" using assms by (intro mult_right_mono) simp_all
  moreover have "len div stride * stride \<le> len" by simp
  moreover have "(y + 1) * stride = y * stride + stride" by simp
  ultimately show ?thesis by linarith
qed

lemma pixels_apart:
  fixes n stride x x' y y' :: nat
  assumes "n * 3 \<le> stride" "x < n" "x' < n" "(x, y) \<noteq> (x', y')"
  shows "y * stride + x * 3 + 3 \<le> y' * stride + x' * 3 \<or> y' * stride + x' * 3 + 3 \<le> y * stride + x * (3::nat)"
proof -
  have row: "b * stride + u * 3 + 3 \<le> b' * stride + u' * 3" if "b < b'" "u < n" for b b' u u'
  proof -
    have "u * 3 + 3 \<le> stride" using that assms(1) by linarith
    moreover have "(b + 1) * stride \<le> b' * stride" using that by (intro mult_right_mono) simp_all
    moreover have "(b + 1) * stride = b * stride + stride" by simp
    ultimately show ?thesis by linarith
  qed
  show ?thesis
  proof (cases "y = y'")
    case True
    then show ?thesis using assms(4) by auto
  next
    case False
    then show ?thesis using row[of y y' x x'] row[of y' y x' x] assms(2,3) by linarith
  qed
qed

definition rgb_buffers :: "nat \<Rightarrow> nat \<Rightarrow> nat \<Rightarrow> bytes \<Rightarrow> nat \<Rightarrow> bytes \<Rightarrow> nat \<Rightarrow> bool" where
  "rgb_buffers width height angle source stride destination out_stride \<longleftrightarrow>
     width \<noteq> 0 \<and> height \<noteq> 0 \<and> width * 3 \<le> stride \<and> fst (turned_size width height angle) * 3 \<le> out_stride
     \<and> height \<le> length source div stride \<and> snd (turned_size width height angle) \<le> length destination div out_stride"

lemma rotate_turns:
  assumes b: "rgb_buffers width height angle src stride dst out_stride" and a: "right_angle angle"
    and size: "turned_size width height angle = (ow, oh)"
  obtains d where "rotate_pic src width height stride dst out_stride angle = Inr d" "length d = length dst"
    "rgb_picture ow oh out_stride d = (quarter_turn ^^ (angle div 90)) (rgb_picture width height stride src)"
    "\<And>k. k < length dst \<Longrightarrow> ow * 3 \<le> k mod out_stride \<or> oh \<le> k div out_stride \<Longrightarrow> d ! k = dst ! k"
proof -
  let ?t = "target_at width height angle out_stride" and ?s = "source_at stride"
  have fits: "width \<noteq> 0" "height \<noteq> 0" "width * 3 \<le> stride" "ow * 3 \<le> out_stride" "height \<le> length src div stride"
    "oh \<le> length dst div out_stride" using b size by (simp_all add: rgb_buffers_def)
  have target: "?t (x, y) = dy * out_stride + dx * 3" if "rotate_target width height angle x y = Inr (dx, dy)" for x y dx dy
    using that by (simp add: target_at_def)
  have inside: "?s p + 3 \<le> length src \<and> ?t p + 3 \<le> length dst" if p: "p \<in> set (grid width height)" for p
  proof -
    obtain x y where xy: "p = (x, y)" "x < width" "y < height" using p by (auto simp: grid_set)
    obtain dx dy where d: "rotate_target width height angle x y = Inr (dx, dy)" "dx < ow" "dy < oh"
      using target_range[OF a xy(2,3) size] by blast
    show ?thesis
      using pixel_inside[OF fits(3,5) xy(2,3)] pixel_inside[OF fits(4,6) d(2,3)] by (simp add: source_at_def xy(1) target[OF d(1)])
  qed
  have apart: "?t p + 3 \<le> ?t q \<or> ?t q + 3 \<le> ?t p"
    if p: "p \<in> set (grid width height)" and q: "q \<in> set (grid width height)" and ne: "p \<noteq> q" for p q
  proof -
    obtain x y x' y' where xy: "p = (x, y)" "x < width" "y < height" "q = (x', y')" "x' < width" "y' < height"
      using p q by (auto simp: grid_set)
    obtain dx dy where d: "rotate_target width height angle x y = Inr (dx, dy)" "dx < ow" "unturn width height angle dx dy = (x, y)"
      using target_range[OF a xy(2,3) size] by blast
    obtain dx' dy' where d': "rotate_target width height angle x' y' = Inr (dx', dy')" "dx' < ow"
      "unturn width height angle dx' dy' = (x', y')" using target_range[OF a xy(5,6) size] by blast
    have "(dx, dy) \<noteq> (dx', dy')" using d(3) d'(3) ne xy by auto
    then show ?thesis using pixels_apart[OF fits(4) d(2) d'(2), of dy dy'] by (simp add: xy target[OF d(1)] target[OF d'(1)])
  qed
  obtain d where d: "rotate_pixels src width height stride out_stride angle (grid width height) dst = Inr d" "length d = length dst"
    "\<forall>p \<in> set (grid width height). slice (?t p) (?t p + 3) d = slice (?s p) (?s p + 3) src"
    "\<forall>k < length dst. (\<forall>p \<in> set (grid width height). k < ?t p \<or> ?t p + 3 \<le> k) \<longrightarrow> d ! k = dst ! k"
    using rotate_pixels_copies[OF a grid_distinct inside apart] by blast
  have run: "rotate_pic src width height stride dst out_stride angle = Inr d"
    using d(1) fits size by (auto simp: rotate_pic_def not_less)
  let ?px = "\<lambda>x y. slice (y * stride + x * 3) (y * stride + x * 3 + 3) src"
  have "rgb_picture ow oh out_stride d
      = picture_of ow oh (\<lambda>dx dy. ?px (fst (unturn width height angle dx dy)) (snd (unturn width height angle dx dy)))"
  proof (unfold rgb_picture_def, rule picture_of_cong)
    fix dx dy assume "dx < ow" "dy < oh"
    then obtain x y where xy: "unturn width height angle dx dy = (x, y)" "x < width" "y < height"
      "rotate_target width height angle x y = Inr (dx, dy)" by (rule unturn_range[OF a _ _ size])
    then show "slice (dy * out_stride + dx * 3) (dy * out_stride + dx * 3 + 3) d
        = ?px (fst (unturn width height angle dx dy)) (snd (unturn width height angle dx dy))"
      using d(3) target[OF xy(4)] by (force simp: grid_set source_at_def)
  qed
  also have "\<dots> = (quarter_turn ^^ (angle div 90)) (rgb_picture width height stride src)"
  proof -
    note turns = quarter_turns[OF fits(1,2) rgb_picture_def[of width height stride src]]
    consider "angle = 0" | "angle = 90" | "angle = 180" | "angle = 270" using a by (auto simp: right_angle_def)
    then show ?thesis
      by cases (use size turns in \<open>simp_all add: turned_size_def unturn_def\<close>)
  qed
  finally have pic: "rgb_picture ow oh out_stride d = (quarter_turn ^^ (angle div 90)) (rgb_picture width height stride src)" .
  have pad: "d ! k = dst ! k" if k: "k < length dst" "ow * 3 \<le> k mod out_stride \<or> oh \<le> k div out_stride" for k
  proof -
    have "k < ?t p \<or> ?t p + 3 \<le> k" if p: "p \<in> set (grid width height)" for p
    proof -
      obtain x y where xy: "p = (x, y)" "x < width" "y < height" using p by (auto simp: grid_set)
      obtain dx dy where t: "rotate_target width height angle x y = Inr (dx, dy)" "dx < ow" "dy < oh"
        using target_range[OF a xy(2,3) size] by blast
      show ?thesis
      proof (rule ccontr)
        assume "\<not> (k < ?t p \<or> ?t p + 3 \<le> k)"
        then have "dy * out_stride \<le> k \<and> k < dy * out_stride + ow * 3" using t by (simp add: xy target[OF t(1)])
        then show False using row_index(3)[OF fits(4), of dy k] k(2) t(3) by auto
      qed
    qed
    then show ?thesis using d(4) k(1) by blast
  qed
  show thesis using that[OF run d(2) pic pad] by blast
qed

lemma rotate_wrong_angle:
  assumes "rgb_buffers width height angle src stride dst out_stride" "\<not> right_angle angle"
  shows "rotate_pic src width height stride dst out_stride angle = Inl (Msg ''invalid rotation'')"
proof -
  obtain w h where wh: "width = Suc w" "height = Suc h"
    using assms(1) by (auto simp: rgb_buffers_def gr0_conv_Suc)
  then obtain ps where grid: "grid width height = (0, 0) # ps" by (simp add: grid_def upt_conv_Cons del: upt_Suc)
  have "rotate_target width height angle 0 0 = Inl (Msg ''invalid rotation'')"
    using assms(2) by (simp add: rotate_target_def right_angle_def)
  then have "rotate_pixels src width height stride out_stride angle (grid width height) dst = Inl (Msg ''invalid rotation'')"
    by (simp add: grid)
  then show ?thesis using assms(1) by (auto simp: rgb_buffers_def rotate_pic_def not_less split: prod.splits)
qed

text \<open>
  C27. Rotating a buffer by a right angle makes the picture that repeated quarter turns make, leaves the
  padding of the destination alone, and never indexes outside a buffer; it fails exactly when the buffers
  cannot hold the pictures or the angle is none of the four.
\<close>

theorem rotate_is_quarter_turns:
  "case rotate_pic src width height stride dst out_stride angle of
     Inr d \<Rightarrow> right_angle angle \<and> rgb_buffers width height angle src stride dst out_stride \<and> length d = length dst
       \<and> (let (ow, oh) = turned_size width height angle
          in rgb_picture ow oh out_stride d = (quarter_turn ^^ (angle div 90)) (rgb_picture width height stride src)
             \<and> (\<forall>k < length dst. ow * 3 \<le> k mod out_stride \<or> oh \<le> k div out_stride \<longrightarrow> d ! k = dst ! k))
   | Inl e \<Rightarrow> (\<not> rgb_buffers width height angle src stride dst out_stride \<and> e = Msg ''invalid RGB buffer'')
       \<or> (rgb_buffers width height angle src stride dst out_stride \<and> \<not> right_angle angle \<and> e = Msg ''invalid rotation'')"
proof (cases "rgb_buffers width height angle src stride dst out_stride")
  case False
  then have "rotate_pic src width height stride dst out_stride angle = Inl (Msg ''invalid RGB buffer'')"
    by (auto simp: rgb_buffers_def rotate_pic_def not_less split: prod.splits)
  then show ?thesis using False by simp
next
  case b: True
  obtain ow oh where size: "turned_size width height angle = (ow, oh)" by fastforce
  show ?thesis
  proof (cases "right_angle angle")
    case True
    from rotate_turns[OF b True size] obtain d where "rotate_pic src width height stride dst out_stride angle = Inr d"
      "length d = length dst"
      "rgb_picture ow oh out_stride d = (quarter_turn ^^ (angle div 90)) (rgb_picture width height stride src)"
      "\<And>k. k < length dst \<Longrightarrow> ow * 3 \<le> k mod out_stride \<or> oh \<le> k div out_stride \<Longrightarrow> d ! k = dst ! k" by blast
    then show ?thesis using b True by (simp add: size)
  next
    case False
    then show ?thesis using rotate_wrong_angle[OF b False] b by simp
  qed
qed

lemma rotate_is_quarter_turns_witness:
  "\<exists>d. rotate_pic [1, 2, 3, 4, 5, 6] 2 1 6 [0, 0, 0, 9, 0, 0, 0, 9] 4 90 = Inr d
     \<and> rgb_picture 1 2 4 d = quarter_turn (rgb_picture 2 1 6 [1, 2, 3, 4, 5, 6]) \<and> d ! 3 = 9"
proof -
  let ?d = "[1, 2, 3, 9, 4, 5, 6, 9] :: bytes"
  have run: "rotate_pic [1, 2, 3, 4, 5, 6] 2 1 6 [0, 0, 0, 9, 0, 0, 0, 9] 4 90 = Inr ?d" by code_simp
  have "rgb_picture 1 2 4 ?d = (quarter_turn ^^ 1) (rgb_picture 2 1 6 [1, 2, 3, 4, 5, 6])"
    using rotate_is_quarter_turns[of 2 1 90 "[1, 2, 3, 4, 5, 6]" 6 "[0, 0, 0, 9, 0, 0, 0, 9]" 4]
    by (simp add: run turned_size_def del: One_nat_def)
  then show ?thesis using run by simp
qed

lemma fit_largest_inside_witness:
  "fit 1080 1920 1920 1080 = Inr \<lparr>r_x = 656, r_y = 0, r_width = 606, r_height = 1080\<rparr>
   \<and> largest_fit 1080 1920 1920 1080 \<lparr>r_x = 656, r_y = 0, r_width = 606, r_height = 1080\<rparr>"
proof -
  have run: "fit 1080 1920 1920 1080 = Inr \<lparr>r_x = 656, r_y = 0, r_width = 606, r_height = 1080\<rparr>"
    by (simp add: fit_def even_part_def)
  then show ?thesis using fit_largest_inside[of 1080 1920 1920 1080] by simp
qed

end
