(* ===== verification/Identity_Store.thy ===== *)
theory Identity_Store
  imports Settings Secure
begin

text \<open>
  \<open>identity.rs\<close> and \<open>identity/store.rs\<close>: the stored signing key of this PC, on Unix. Loading,
  creating and replacing the key are written as programs whose stages are the system calls the code
  makes, on a directory of named inodes that any number of processes share; a process that crashes makes
  no further step. Key generation and parsing (\<open>ring\<close>) and SHA-256 are parameters. A symbolic
  link is an inode that is not a regular file.
\<close>

section \<open>The identity\<close>

record stored_identity =
  id_der :: bytes
  id_public :: bytes
  id_client :: bytes

record keys =
  k_pkcs8 :: "bytes \<Rightarrow> bytes option"
  k_sha256 :: "bytes \<Rightarrow> bytes"

definition from_der :: "keys \<Rightarrow> bytes \<Rightarrow> stored_identity option" where
  "from_der K der =
     (case k_pkcs8 K der of
        None \<Rightarrow> None
      | Some public \<Rightarrow> Some \<lparr>id_der = der, id_public = public, id_client = client_id_of (k_sha256 K) public\<rparr>)"

definition identity_from_hex :: "keys \<Rightarrow> ustr \<Rightarrow> stored_identity option" where
  "identity_from_hex K value = (case decode_hex value of None \<Rightarrow> None | Some bs \<Rightarrow> from_der K bs)"

definition identity_to_hex :: "stored_identity \<Rightarrow> ustr" where
  "identity_to_hex i = hex (id_der i)"

section \<open>The directory\<close>

record node =
  nd_regular :: bool
  nd_owner :: nat
  nd_mode :: nat
  nd_data :: bytes

record folder =
  fd_entries :: "ustr \<Rightarrow> nat option"
  fd_nodes :: "nat \<Rightarrow> node"
  fd_next :: nat
  fd_owner :: nat
  fd_mode :: nat

datatype io = Works | Fails error | Partly nat

definition failed_with :: "io_kind \<Rightarrow> error \<Rightarrow> bool" where
  "failed_with which e \<longleftrightarrow> (case e of Io k _ \<Rightarrow> k = which | _ \<Rightarrow> False)"

text \<open>System calls: a refused one changes nothing.\<close>

definition open_file :: "ustr \<Rightarrow> io \<Rightarrow> folder \<Rightarrow> error + nat" where
  "open_file name io fd =
     (case io of
        Fails e \<Rightarrow> Inl e
      | _ \<Rightarrow> (case fd_entries fd name of
                None \<Rightarrow> Inl (Io NotFound ''No such file or directory'')
              | Some i \<Rightarrow> Inr i))"

definition created :: "nat \<Rightarrow> ustr \<Rightarrow> folder \<Rightarrow> folder" where
  "created uid name fd = fd\<lparr>fd_entries := (fd_entries fd)(name \<mapsto> fd_next fd),
     fd_nodes := (fd_nodes fd)(fd_next fd := \<lparr>nd_regular = True, nd_owner = uid, nd_mode = 384, nd_data = []\<rparr>),
     fd_next := fd_next fd + 1\<rparr>"

definition create_new :: "nat \<Rightarrow> ustr \<Rightarrow> io \<Rightarrow> folder \<Rightarrow> error + folder" where
  "create_new uid name io fd =
     (case io of
        Fails e \<Rightarrow> Inl e
      | _ \<Rightarrow> (case fd_entries fd name of
                Some _ \<Rightarrow> Inl (Io AlreadyExists ''File exists'')
              | None \<Rightarrow> Inr (created uid name fd)))"

definition rename_file :: "ustr \<Rightarrow> ustr \<Rightarrow> io \<Rightarrow> folder \<Rightarrow> error + folder" where
  "rename_file src dst io fd =
     (case io of
        Fails e \<Rightarrow> Inl e
      | _ \<Rightarrow> (case fd_entries fd src of
                None \<Rightarrow> Inl (Io NotFound ''No such file or directory'')
              | Some i \<Rightarrow> Inr (fd\<lparr>fd_entries := (fd_entries fd)(dst \<mapsto> i, src := None)\<rparr>)))"

definition hard_link :: "ustr \<Rightarrow> ustr \<Rightarrow> io \<Rightarrow> folder \<Rightarrow> error + folder" where
  "hard_link src dst io fd =
     (case io of
        Fails e \<Rightarrow> Inl e
      | _ \<Rightarrow> (case (fd_entries fd src, fd_entries fd dst) of
                (None, _) \<Rightarrow> Inl (Io NotFound ''No such file or directory'')
              | (Some _, Some _) \<Rightarrow> Inl (Io AlreadyExists ''File exists'')
              | (Some i, None) \<Rightarrow> Inr (fd\<lparr>fd_entries := (fd_entries fd)(dst \<mapsto> i)\<rparr>)))"

definition remove_file :: "ustr \<Rightarrow> io \<Rightarrow> folder \<Rightarrow> folder" where
  "remove_file name io fd = (case io of Fails e \<Rightarrow> fd | _ \<Rightarrow> fd\<lparr>fd_entries := (fd_entries fd)(name := None)\<rparr>)"

definition write_node :: "nat \<Rightarrow> bytes \<Rightarrow> folder \<Rightarrow> folder" where
  "write_node i data fd = fd\<lparr>fd_nodes := (fd_nodes fd)(i := (fd_nodes fd i)\<lparr>nd_data := data\<rparr>)\<rparr>"

section \<open>Names\<close>

definition identity_name :: ustr where "identity_name = lit ''Mobile Webcam.identity''"

definition temp_name :: "stored_identity \<Rightarrow> ustr" where
  "temp_name k = lit ''.pc-identity-'' @ hex (id_client k) @ lit ''.tmp''"

definition quarantine_name :: "nat \<Rightarrow> nat \<Rightarrow> ustr" where
  "quarantine_name since_epoch attempt =
     identity_name @ lit ''.corrupt-'' @ show_dec since_epoch
       @ (if attempt = 0 then [] else lit ''-'' @ show_dec attempt)"

section \<open>Reading\<close>

definition MAX_STORED_BYTES :: nat where "MAX_STORED_BYTES = 4096"

text \<open>\<open>read_at\<close> once the file is open.\<close>

definition read_node :: "keys \<Rightarrow> nat \<Rightarrow> node \<Rightarrow> error + stored_identity" where
  "read_node K uid nd =
     (if \<not> nd_regular nd \<or> length (nd_data nd) > MAX_STORED_BYTES
      then Inl (Msg ''invalid PC identity file type or size'')
      else if nd_owner nd \<noteq> uid \<or> group_or_other (nd_mode nd)
      then Inl (Msg ''PC identity must be owned by this user and accessible only to this user'')
      else (case from_utf8 (take (MAX_STORED_BYTES + 1) (nd_data nd)) of
              None \<Rightarrow> Inl (Io InvalidData ''stream did not contain valid UTF-8'')
            | Some stored \<Rightarrow>
                if str_len stored > MAX_STORED_BYTES then Inl (Msg ''PC identity exceeds its storage limit'')
                else (case identity_from_hex K stored of
                        None \<Rightarrow> Inl (Msg ''PC identity is corrupt; explicit recovery required (file preserved)'')
                      | Some i \<Rightarrow> Inr i)))"

section \<open>The stages of a process\<close>

text \<open>
  \<open>OpenKey\<close> and \<open>ReadKey\<close> are \<open>read_at\<close>; they carry the generated key when they follow a link
  that found another key published.
\<close>

datatype stage =
    CheckStored
  | Reserve nat
  | MoveAside ustr
  | Unreserve ustr error
  | OpenKey "stored_identity option"
  | ReadKey "stored_identity option" nat
  | CreateDir
  | CheckDir
  | CreateTemp stored_identity
  | WriteTemp stored_identity nat
  | SyncTemp stored_identity
  | LinkTemp stored_identity
  | SyncDir stored_identity
  | Cleanup stored_identity "error + stored_identity"
  | Finished "error + stored_identity"

record plan =
  pl_der :: bytes
  pl_since :: nat

definition leave :: "stored_identity option \<Rightarrow> error + stored_identity \<Rightarrow> stage" where
  "leave again r = (case again of None \<Rightarrow> Finished r | Some k \<Rightarrow> Cleanup k r)"

definition after_io :: "io \<Rightarrow> (error \<Rightarrow> stage) \<Rightarrow> stage \<Rightarrow> stage" where
  "after_io io f s = (case io of Fails e \<Rightarrow> f e | _ \<Rightarrow> s)"

text \<open>\<open>replace_at\<close> up to its call of \<open>load_at\<close>.\<close>

fun replace_step :: "nat \<Rightarrow> plan \<Rightarrow> io \<Rightarrow> folder \<Rightarrow> stage \<Rightarrow> folder \<times> stage" where
  "replace_step uid P io fd CheckStored =
     (fd, case open_file identity_name io fd of
            Inl _ \<Rightarrow> Finished (Inl (Msg ''there is no stored PC key to move aside''))
          | Inr _ \<Rightarrow> Reserve 0)"
| "replace_step uid P io fd (Reserve attempt) =
     (if attempt \<ge> 1000
      then (fd, Finished (Inl (Msg ''too many quarantined copies of the stored PC key; move them away first'')))
      else let candidate = quarantine_name (pl_since P) attempt
           in case create_new uid candidate io fd of
                Inr fd' \<Rightarrow> (fd', MoveAside candidate)
              | Inl e \<Rightarrow> (fd, if failed_with AlreadyExists e then Reserve (attempt + 1) else Finished (Inl e)))"
| "replace_step uid P io fd (MoveAside quarantine) =
     (case rename_file identity_name quarantine io fd of
        Inr fd' \<Rightarrow> (fd', OpenKey None)
      | Inl e \<Rightarrow> (fd, Unreserve quarantine e))"
| "replace_step uid P io fd (Unreserve quarantine e) = (remove_file quarantine io fd, Finished (Inl e))"
| "replace_step uid P io fd s = (fd, s)"

text \<open>\<open>load_at\<close>\<close>

fun load_step :: "keys \<Rightarrow> nat \<Rightarrow> plan \<Rightarrow> io \<Rightarrow> folder \<Rightarrow> stage \<Rightarrow> folder \<times> stage" where
  "load_step K uid P io fd (OpenKey again) =
     (fd, case open_file identity_name io fd of
            Inr i \<Rightarrow> ReadKey again i
          | Inl e \<Rightarrow>
              if failed_with NotFound e
              then (case again of
                      None \<Rightarrow> CreateDir
                    | Some k \<Rightarrow> Cleanup k (Inl (Msg ''PC identity changed during creation; reconnect explicitly'')))
              else leave again (Inl e))"
| "load_step K uid P io fd (ReadKey again i) =
     (fd, after_io io (\<lambda>e. leave again (Inl e)) (leave again (read_node K uid (fd_nodes fd i))))"
| "load_step K uid P io fd CreateDir = (fd, after_io io (\<lambda>e. Finished (Inl e)) CheckDir)"
| "load_step K uid P io fd CheckDir =
     (fd, after_io io (\<lambda>e. Finished (Inl e))
       (if fd_owner fd \<noteq> uid \<or> odd (fd_mode fd div 2) \<or> odd (fd_mode fd div 16)
        then Finished (Inl (Msg ''PC identity directory is not protected from other users' writes''))
        else (case from_der K (pl_der P) of
                None \<Rightarrow> Finished (Inl (Panic ''a freshly generated key parses''))
              | Some k \<Rightarrow> CreateTemp k)))"
| "load_step K uid P io fd (CreateTemp k) =
     (case create_new uid (temp_name k) io fd of
        Inr fd' \<Rightarrow> (fd', WriteTemp k (fd_next fd))
      | Inl e \<Rightarrow> (fd, Finished (Inl e)))"
| "load_step K uid P io fd (WriteTemp k i) =
     (case io of
        Works \<Rightarrow> (write_node i (as_bytes (identity_to_hex k)) fd, SyncTemp k)
      | Partly n \<Rightarrow> (write_node i (take n (as_bytes (identity_to_hex k))) fd, WriteTemp k i)
      | Fails e \<Rightarrow> (fd, Cleanup k (Inl e)))"
| "load_step K uid P io fd (SyncTemp k) = (fd, after_io io (\<lambda>e. Cleanup k (Inl e)) (LinkTemp k))"
| "load_step K uid P io fd (LinkTemp k) =
     (case hard_link (temp_name k) identity_name io fd of
        Inr fd' \<Rightarrow> (fd', SyncDir k)
      | Inl e \<Rightarrow> (fd, if failed_with AlreadyExists e then OpenKey (Some k) else Cleanup k (Inl e)))"
| "load_step K uid P io fd (SyncDir k) = (fd, after_io io (\<lambda>e. Cleanup k (Inl e)) (Cleanup k (Inr k)))"
| "load_step K uid P io fd (Cleanup k r) = (remove_file (temp_name k) io fd, Finished r)"
| "load_step K uid P io fd s = (fd, s)"

definition store_step :: "keys \<Rightarrow> nat \<Rightarrow> plan \<Rightarrow> io \<Rightarrow> folder \<Rightarrow> stage \<Rightarrow> folder \<times> stage" where
  "store_step K uid P io fd s =
     (case s of
        CheckStored \<Rightarrow> replace_step uid P io fd s
      | Reserve _ \<Rightarrow> replace_step uid P io fd s
      | MoveAside _ \<Rightarrow> replace_step uid P io fd s
      | Unreserve _ _ \<Rightarrow> replace_step uid P io fd s
      | _ \<Rightarrow> load_step K uid P io fd s)"

section \<open>Processes that share the directory\<close>

record system =
  sy_folder :: folder
  sy_stage :: "nat \<Rightarrow> stage"

definition system_step :: "keys \<Rightarrow> nat \<Rightarrow> (nat \<Rightarrow> plan) \<Rightarrow> nat \<Rightarrow> io \<Rightarrow> system \<Rightarrow> system" where
  "system_step K uid plans p io S =
     (let (fd, s) = store_step K uid (plans p) io (sy_folder S) (sy_stage S p)
      in \<lparr>sy_folder = fd, sy_stage = (sy_stage S)(p := s)\<rparr>)"

inductive reaches :: "keys \<Rightarrow> nat \<Rightarrow> (nat \<Rightarrow> plan) \<Rightarrow> system \<Rightarrow> system \<Rightarrow> bool"
  for K uid plans S where
  start: "reaches K uid plans S S"
| turn: "reaches K uid plans S T \<Longrightarrow> reaches K uid plans S (system_step K uid plans p io T)"

definition load_or_create :: stage where "load_or_create = OpenKey None"

definition replace_stored :: stage where "replace_stored = CheckStored"

text \<open>Any processes on a directory whose entries are inodes in use.\<close>

definition launched :: "system \<Rightarrow> bool" where
  "launched S \<longleftrightarrow> (\<forall>name i. fd_entries (sy_folder S) name = Some i \<longrightarrow> i < fd_next (sy_folder S))
     \<and> (\<forall>p. sy_stage S p = load_or_create \<or> sy_stage S p = replace_stored)"

end
