(* ===== verification/Identity_Props.thy ===== *)
theory Identity_Props
  imports Identity_Store
begin

text \<open>
  What concurrent processes can and cannot do to the stored key: no published key is lost or changed,
  first launches agree on one key, and an unusable key is left alone.
\<close>

section \<open>Names\<close>

lemma names_apart [simp]:
  "temp_name k \<noteq> identity_name" "identity_name \<noteq> temp_name k"
  "temp_name k \<noteq> quarantine_name s n" "quarantine_name s n \<noteq> temp_name k"
  "quarantine_name s n \<noteq> identity_name" "identity_name \<noteq> quarantine_name s n"
  by (simp_all add: temp_name_def identity_name_def quarantine_name_def lit_def)

section \<open>What a step does\<close>

text \<open>The name a process has created and will remove or replace: its temporary file or its quarantine.\<close>

fun owns :: "stage \<Rightarrow> ustr option" where
  "owns (MoveAside q) = Some q"
| "owns (Unreserve q e) = Some q"
| "owns (OpenKey again) = map_option temp_name again"
| "owns (ReadKey again i) = map_option temp_name again"
| "owns (WriteTemp k i) = Some (temp_name k)"
| "owns (SyncTemp k) = Some (temp_name k)"
| "owns (LinkTemp k) = Some (temp_name k)"
| "owns (SyncDir k) = Some (temp_name k)"
| "owns (Cleanup k r) = Some (temp_name k)"
| "owns s = None"

fun makes_name :: "stage \<Rightarrow> bool" where
  "makes_name (WriteTemp k i) = True"
| "makes_name (MoveAside q) = True"
| "makes_name s = False"

text \<open>
  The effects a step of any process can have on the directory.
\<close>

inductive dir_effect :: "nat \<Rightarrow> folder \<Rightarrow> stage \<Rightarrow> folder \<Rightarrow> stage \<Rightarrow> bool" for uid where
  looks: "owns s' = owns s \<or> owns s' = None \<Longrightarrow> \<not> makes_name s' \<Longrightarrow> dir_effect uid fd s fd s'"
| makes_temp: "fd_entries fd (temp_name k) = None
    \<Longrightarrow> dir_effect uid fd (CreateTemp k) (created uid (temp_name k) fd) (WriteTemp k (fd_next fd))"
| reserves: "q = quarantine_name since n \<Longrightarrow> fd_entries fd q = None
    \<Longrightarrow> dir_effect uid fd (Reserve n) (created uid q fd) (MoveAside q)"
| writes: "s' = WriteTemp k i \<or> s' = SyncTemp k \<and> data = as_bytes (identity_to_hex k)
    \<Longrightarrow> dir_effect uid fd (WriteTemp k i) (write_node i data fd) s'"
| links: "fd_entries fd (temp_name k) = Some i \<Longrightarrow> fd_entries fd identity_name = None
    \<Longrightarrow> dir_effect uid fd (LinkTemp k) (fd\<lparr>fd_entries := (fd_entries fd)(identity_name \<mapsto> i)\<rparr>) (SyncDir k)"
| moves: "fd_entries fd identity_name = Some i
    \<Longrightarrow> dir_effect uid fd (MoveAside q) (fd\<lparr>fd_entries := (fd_entries fd)(q \<mapsto> i, identity_name := None)\<rparr>) (OpenKey None)"
| removes: "owns s = Some name \<Longrightarrow> s = Cleanup k r \<or> s = Unreserve name e
    \<Longrightarrow> dir_effect uid fd s (fd\<lparr>fd_entries := (fd_entries fd)(name := None)\<rparr>) (Finished r)"

lemma leave_parts [simp]: "owns (leave again r) = map_option temp_name again" "\<not> makes_name (leave again r)"
  by (simp_all add: leave_def split: option.splits)

lemma store_step_effect:
  assumes "store_step K uid P io fd s = (fd', s')"
  shows "dir_effect uid fd s fd' s'"
proof (cases s)
  case CheckStored
  then show ?thesis using assms by (auto simp: store_step_def intro!: dir_effect.looks split: sum.splits)
next
  case (Reserve n)
  then show ?thesis using assms
    by (auto simp: store_step_def create_new_def Let_def
        intro: dir_effect.looks dir_effect.reserves[OF refl] split: if_splits io.splits option.splits)
next
  case (MoveAside q)
  then show ?thesis using assms
    by (auto simp: store_step_def rename_file_def intro: dir_effect.looks dir_effect.moves split: io.splits option.splits)
next
  case (Unreserve q e)
  then show ?thesis using assms
    by (auto simp: store_step_def remove_file_def intro: dir_effect.looks dir_effect.removes split: io.splits)
next
  case (OpenKey again)
  then show ?thesis using assms
    by (auto simp: store_step_def intro!: dir_effect.looks split: sum.splits option.splits if_splits)
next
  case (ReadKey again i)
  then show ?thesis using assms
    by (auto simp: store_step_def after_io_def intro!: dir_effect.looks split: io.splits)
next
  case (CreateTemp k)
  then show ?thesis using assms
    by (auto simp: store_step_def create_new_def intro: dir_effect.looks dir_effect.makes_temp split: io.splits option.splits)
next
  case (WriteTemp k i)
  then show ?thesis using assms
    by (auto simp: store_step_def intro: dir_effect.looks dir_effect.writes split: io.splits)
next
  case (LinkTemp k)
  then show ?thesis using assms
    by (auto simp: store_step_def hard_link_def intro: dir_effect.looks dir_effect.links split: io.splits option.splits if_splits)
next
  case (Cleanup k r)
  then show ?thesis using assms
    by (auto simp: store_step_def remove_file_def intro: dir_effect.looks dir_effect.removes split: io.splits)
next
  case CreateDir
  then show ?thesis using assms by (auto simp: store_step_def after_io_def intro!: dir_effect.looks split: io.splits)
next
  case CheckDir
  then show ?thesis using assms
    by (auto simp: store_step_def after_io_def intro!: dir_effect.looks split: io.splits option.splits if_splits)
next
  case (SyncTemp k)
  then show ?thesis using assms by (auto simp: store_step_def after_io_def intro!: dir_effect.looks split: io.splits)
next
  case (SyncDir k)
  then show ?thesis using assms by (auto simp: store_step_def after_io_def intro!: dir_effect.looks split: io.splits)
next
  case (Finished r)
  then show ?thesis using assms by (auto simp: store_step_def intro!: dir_effect.looks)
qed

section \<open>The invariant\<close>

lemma created_simps [simp]:
  "fd_entries (created uid name fd) = (fd_entries fd)(name \<mapsto> fd_next fd)"
  "fd_next (created uid name fd) = fd_next fd + 1"
  "i \<noteq> fd_next fd \<Longrightarrow> fd_nodes (created uid name fd) i = fd_nodes fd i"
  by (simp_all add: created_def)

lemma write_node_simps [simp]:
  "fd_entries (write_node i data fd) = fd_entries fd" "fd_next (write_node i data fd) = fd_next fd"
  "j \<noteq> i \<Longrightarrow> fd_nodes (write_node i data fd) j = fd_nodes fd j"
  by (simp_all add: write_node_def)

text \<open>
  Entries are inodes in use, a name is owned by one process at a time and never the key's own, and only
  the temporary name leads to an inode that is still written.
\<close>

definition in_use :: "folder \<Rightarrow> bool" where
  "in_use fd \<longleftrightarrow> (\<forall>name i. fd_entries fd name = Some i \<longrightarrow> i < fd_next fd)"

definition owned_once :: "folder \<Rightarrow> (nat \<Rightarrow> stage) \<Rightarrow> bool" where
  "owned_once fd st \<longleftrightarrow>
     (\<forall>p name. owns (st p) = Some name \<longrightarrow> fd_entries fd name \<noteq> None \<and> name \<noteq> identity_name)
     \<and> (\<forall>p q name. owns (st p) = Some name \<longrightarrow> owns (st q) = Some name \<longrightarrow> p = q)"

definition written_alone :: "folder \<Rightarrow> (nat \<Rightarrow> stage) \<Rightarrow> bool" where
  "written_alone fd st \<longleftrightarrow>
     (\<forall>p k i. st p = WriteTemp k i \<longrightarrow> i < fd_next fd \<and> fd_entries fd (temp_name k) = Some i
        \<and> (\<forall>name. fd_entries fd name = Some i \<longrightarrow> name = temp_name k))"

lemma in_use_effect: "in_use fd \<Longrightarrow> dir_effect uid fd s fd' s' \<Longrightarrow> in_use fd'"
  by (erule dir_effect.cases) (auto simp: in_use_def split: if_splits dest: less_SucI)

lemma owned_once_effect:
  assumes inv: "owned_once fd st" and e: "dir_effect uid fd (st p) fd' s'"
  shows "owned_once fd' (st(p := s'))"
proof -
  have present: "fd_entries fd name \<noteq> None \<and> name \<noteq> identity_name" if "owns (st q) = Some name" for q name
    using inv that by (auto simp: owned_once_def)
  have once: "q = r" if "owns (st q) = Some name" "owns (st r) = Some name" for q r name
    using inv that by (auto simp: owned_once_def)
  have new: "owns s' = owns (st p) \<or> owns s' = None \<or> (\<exists>name. owns s' = Some name \<and> fd_entries fd name = None \<and> name \<noteq> identity_name)"
    using e by cases auto
  have entry: "fd_entries fd' name \<noteq> None" if q: "owns ((st(p := s')) q) = Some name" for q name
    using e
  proof cases
    case looks
    then show ?thesis using q present[of q name] present[of p name] by (auto split: if_splits)
  next
    case (removes own k r err)
    then have "q \<noteq> p" using q by auto
    then have "owns (st q) = Some name" using q by simp
    moreover from this have "name \<noteq> own" using once[of q name p] removes \<open>q \<noteq> p\<close> by auto
    ultimately show ?thesis using present[of q name] removes by auto
  next
    case (moves i own)
    then have "q \<noteq> p" using q by auto
    then show ?thesis using q present[of q name] moves by auto
  qed (use q present[of q name] present[of p name] in \<open>auto split: if_splits\<close>)
  show ?thesis unfolding owned_once_def
  proof (intro conjI allI impI)
    fix q name assume q: "owns ((st(p := s')) q) = Some name"
    show "fd_entries fd' name \<noteq> None" by (rule entry[OF q])
    show "name \<noteq> identity_name" using q new present[of q name] present[of p name] by (auto split: if_splits)
  next
    fix q r name assume "owns ((st(p := s')) q) = Some name" "owns ((st(p := s')) r) = Some name"
    then show "q = r"
      using new once[of q name r] once[of p name r] once[of q name p] present[of q name] present[of r name]
      by (auto split: if_splits)
  qed
qed

lemma written_alone_effect:
  assumes inv: "written_alone fd st" "in_use fd" "owned_once fd st" and e: "dir_effect uid fd (st p) fd' s'"
  shows "written_alone fd' (st(p := s'))"
proof -
  have old: "i < fd_next fd \<and> fd_entries fd (temp_name k) = Some i \<and> (\<forall>name. fd_entries fd name = Some i \<longrightarrow> name = temp_name k)"
    if "st q = WriteTemp k i" for q k i using inv(1) that by (auto simp: written_alone_def)
  have once: "q = r" if "owns (st q) = Some name" "owns (st r) = Some name" for q r name
    using inv(3) that by (auto simp: owned_once_def)
  show ?thesis unfolding written_alone_def
  proof (intro allI impI)
    fix q k i assume q: "(st(p := s')) q = WriteTemp k i"
    let ?P = "i < fd_next fd' \<and> fd_entries fd' (temp_name k) = Some i \<and> (\<forall>name. fd_entries fd' name = Some i \<longrightarrow> name = temp_name k)"
    show ?P
    proof (cases "q = p")
      case True
      then have s': "s' = WriteTemp k i" using q by simp
      show ?thesis using e
      proof cases
        case (makes_temp k')
        then show ?thesis using s' inv(2) by (auto simp: in_use_def split: if_splits)
      next
        case (writes k' i' data)
        then show ?thesis using s' old[of p k i] by auto
      qed (use s' in auto)
    next
      case False
      then have st: "st q = WriteTemp k i" using q by simp
      note o = old[OF st]
      show ?thesis using e
      proof cases
        case (removes own k' r err)
        have "own \<noteq> temp_name k" using once[of q own p] st removes False by auto
        then show ?thesis using o removes by auto
      next
        case (moves j own)
        have "own \<noteq> temp_name k" using once[of q own p] st moves False by auto
        moreover have "j \<noteq> i" using o moves by auto
        ultimately show ?thesis using o moves by auto
      next
        case (links k' j)
        have "temp_name k' \<noteq> temp_name k" using once[of q "temp_name k" p] st links False by auto
        then have "j \<noteq> i" using o links by auto
        then show ?thesis using o links by auto
      qed (use o in auto)
    qed
  qed
qed

section \<open>No stored key is lost\<close>

definition quarantined :: "ustr \<Rightarrow> bool" where
  "quarantined name \<longleftrightarrow> (\<exists>s n. name = quarantine_name s n)"

definition moves_aside :: "(nat \<Rightarrow> stage) \<Rightarrow> bool" where
  "moves_aside st \<longleftrightarrow> (\<forall>p q. st p = MoveAside q \<longrightarrow> quarantined q)"

lemma moves_aside_effect: "moves_aside st \<Longrightarrow> dir_effect uid fd (st p) fd' s' \<Longrightarrow> moves_aside (st(p := s'))"
  by (erule dir_effect.cases) (auto simp: moves_aside_def quarantined_def)

definition store_inv :: "folder \<Rightarrow> (nat \<Rightarrow> stage) \<Rightarrow> bool" where
  "store_inv fd st \<longleftrightarrow> in_use fd \<and> owned_once fd st \<and> written_alone fd st \<and> moves_aside st"

lemma store_inv_effect: "store_inv fd st \<Longrightarrow> dir_effect uid fd (st p) fd' s' \<Longrightarrow> store_inv fd' (st(p := s'))"
  using in_use_effect[of fd uid "st p" fd' s'] owned_once_effect[of fd st uid p fd' s'] written_alone_effect[of fd st uid p fd' s']
    moves_aside_effect[of st uid fd p fd' s'] unfolding store_inv_def by blast

text \<open>An inode with what it holds, under the key's name or a quarantine name that nobody will touch.\<close>

definition kept :: "folder \<Rightarrow> (nat \<Rightarrow> stage) \<Rightarrow> nat \<Rightarrow> node \<Rightarrow> bool" where
  "kept fd st i nd \<longleftrightarrow> fd_nodes fd i = nd \<and>
     (\<exists>name. (name = identity_name \<or> quarantined name) \<and> fd_entries fd name = Some i
        \<and> (\<forall>p. owns (st p) \<noteq> Some name))"

lemma kept_effect:
  assumes inv: "store_inv fd st" and k: "kept fd st i nd" and e: "dir_effect uid fd (st p) fd' s'"
  shows "kept fd' (st(p := s')) i nd"
proof -
  obtain name where name: "name = identity_name \<or> quarantined name" "fd_entries fd name = Some i" "\<And>p. owns (st p) \<noteq> Some name"
    and nd: "fd_nodes fd i = nd" using k by (auto simp: kept_def)
  have apart: "name \<noteq> temp_name k" "temp_name k \<noteq> name" for k using name(1) by (auto simp: quarantined_def)
  have i: "i < fd_next fd" using inv name(2) by (auto simp: store_inv_def in_use_def)
  have once: "q = r" if "owns (st q) = Some n" "owns (st r) = Some n" for q r n
    using inv that by (auto simp: store_inv_def owned_once_def)
  have still: "kept fd' (st(p := s')) i nd"
    if "fd_entries fd' name = Some i" "fd_nodes fd' i = nd" "owns s' \<noteq> Some name"
    using that name by (auto simp: kept_def)
  show ?thesis using e
  proof cases
    case looks
    then show ?thesis using still name nd by auto
  next
    case (makes_temp k)
    then show ?thesis using still name nd i apart by auto
  next
    case (reserves q since n)
    then have "q \<noteq> name" using name(2) by auto
    then show ?thesis using reserves still name nd i by auto
  next
    case (writes k j data)
    have "fd_entries fd name = Some j \<Longrightarrow> name = temp_name k"
      using inv writes by (auto simp: store_inv_def written_alone_def)
    then have "j \<noteq> i" using name(1,2) by (auto simp: quarantined_def)
    then show ?thesis using still writes name nd apart by auto
  next
    case (links k j)
    then have "name \<noteq> identity_name" using name(2) by auto
    then show ?thesis using links still name nd apart by auto
  next
    case (removes own k r err)
    then have "own \<noteq> name" using name(3)[of p] by auto
    then show ?thesis using removes still name nd by auto
  next
    case (moves j q)
    show ?thesis
    proof (cases "name = identity_name")
      case True
      have "quarantined q" using inv moves by (auto simp: store_inv_def moves_aside_def)
      moreover have "fd_entries fd' q = Some i" using moves True name(2) \<open>quarantined q\<close> by (auto simp: quarantined_def)
      moreover have "owns ((st(p := s')) r) \<noteq> Some q" for r using once[of p q r] moves by auto
      moreover have "fd_nodes fd' i = nd" using moves nd by simp
      ultimately show ?thesis unfolding kept_def by blast
    next
      case False
      moreover have "q \<noteq> name" using name(3)[of p] moves by auto
      ultimately show ?thesis using still moves name nd by auto
    qed
  qed
qed

lemma system_step_parts:
  assumes "T = system_step K uid plans p io S"
  obtains fd' s' where "dir_effect uid (sy_folder S) (sy_stage S p) fd' s'" "sy_folder T = fd'" "sy_stage T = (sy_stage S)(p := s')"
    "store_step K uid (plans p) io (sy_folder S) (sy_stage S p) = (fd', s')"
proof -
  obtain fd' s' where step: "store_step K uid (plans p) io (sy_folder S) (sy_stage S p) = (fd', s')" by fastforce
  then show thesis using that[OF store_step_effect[OF step] _ _ step] assms by (simp add: system_step_def)
qed

lemma launched_inv: "launched S \<Longrightarrow> store_inv (sy_folder S) (sy_stage S)"
proof -
  assume l: "launched S"
  have "owns (sy_stage S p) = None \<and> \<not> makes_name (sy_stage S p)" for p
  proof -
    have "sy_stage S p = load_or_create \<or> sy_stage S p = replace_stored" using l by (simp add: launched_def)
    then show ?thesis by (auto simp: load_or_create_def replace_stored_def)
  qed
  then show ?thesis using l
    by (auto simp: store_inv_def launched_def in_use_def owned_once_def written_alone_def moves_aside_def)
      (metis makes_name.simps(1,2))+
qed

lemma reaches_inv: "reaches K uid plans S T \<Longrightarrow> store_inv (sy_folder S) (sy_stage S) \<Longrightarrow> store_inv (sy_folder T) (sy_stage T)"
proof (induction rule: reaches.induct)
  case (turn T p io)
  obtain fd' s' where e: "dir_effect uid (sy_folder T) (sy_stage T p) fd' s'"
    and T: "sy_folder (system_step K uid plans p io T) = fd'" "sy_stage (system_step K uid plans p io T) = (sy_stage T)(p := s')"
    by (rule system_step_parts[OF refl])
  from store_inv_effect[OF turn.IH[OF turn.prems] e] show ?case unfolding T .
qed

lemma reaches_kept:
  "reaches K uid plans S T \<Longrightarrow> store_inv (sy_folder S) (sy_stage S) \<Longrightarrow> kept (sy_folder S) (sy_stage S) i nd
     \<Longrightarrow> kept (sy_folder T) (sy_stage T) i nd"
proof (induction rule: reaches.induct)
  case (turn T p io)
  obtain fd' s' where e: "dir_effect uid (sy_folder T) (sy_stage T p) fd' s'"
    and T: "sy_folder (system_step K uid plans p io T) = fd'" "sy_stage (system_step K uid plans p io T) = (sy_stage T)(p := s')"
    by (rule system_step_parts[OF refl])
  from kept_effect[OF reaches_inv[OF turn.hyps turn.prems(1)] turn.IH[OF turn.prems] e] show ?case unfolding T .
qed

text \<open>
  C28. Whatever loading and replacing processes run at the same time, crash or meet failing system calls,
  a key file that was ever published is never deleted, overwritten or written to: its inode stays,
  byte for byte, under the key's name or under a quarantine name.
\<close>

theorem stored_key_never_lost:
  assumes "launched S" "reaches K uid plans S T" "fd_entries (sy_folder T) identity_name = Some i" "reaches K uid plans T U"
  shows "fd_nodes (sy_folder U) i = fd_nodes (sy_folder T) i
    \<and> (\<exists>name. (name = identity_name \<or> (\<exists>since n. name = quarantine_name since n)) \<and> fd_entries (sy_folder U) name = Some i)"
proof -
  have inv: "store_inv (sy_folder T) (sy_stage T)" by (rule reaches_inv[OF assms(2) launched_inv[OF assms(1)]])
  then have "owns (sy_stage T p) \<noteq> Some identity_name" for p by (auto simp: store_inv_def owned_once_def)
  then have "kept (sy_folder T) (sy_stage T) i (fd_nodes (sy_folder T) i)" using assms(3) by (auto simp: kept_def)
  from reaches_kept[OF assms(4) inv this] show ?thesis by (auto simp: kept_def quarantined_def)
qed

section \<open>First launches\<close>

text \<open>The stored form is read back.\<close>

lemma identity_hex: "identity_from_hex K (identity_to_hex k) = from_der K (id_der k)"
proof -
  have h: "is_hex (hex bs) (length bs)" for bs by (rule is_hex_hex)
  have "decode_hex (hex bs) = Some bs" for bs
    using h[of bs] hex_pairs_hex[of bs] trim_hex[OF h]
    by (simp add: decode_hex_def is_hex_def hex_utf8)
  then show ?thesis by (simp add: identity_from_hex_def identity_to_hex_def)
qed

definition whole :: "keys \<Rightarrow> nat \<Rightarrow> stored_identity \<Rightarrow> node \<Rightarrow> bool" where
  "whole K uid k nd \<longleftrightarrow> nd_regular nd \<and> nd_owner nd = uid \<and> nd_mode nd = 384 \<and> nd_data nd = as_bytes (identity_to_hex k)"

definition made :: "keys \<Rightarrow> stored_identity \<Rightarrow> bool" where
  "made K k \<longleftrightarrow> from_der K (id_der k) = Some k \<and> length (id_der k) \<le> 2048"

lemma read_whole:
  assumes "whole K uid k nd" "made K k"
  shows "read_node K uid nd = Inr k"
proof -
  have len: "str_len (identity_to_hex k) \<le> 4096" using assms(2)
    by (simp add: identity_to_hex_def str_len_def hex_utf8 made_def)
  have "is_scalar c" if "c \<in> set (identity_to_hex k)" for c
    using hex_hexdigits[of c "id_der k"] that
    by (auto simp: identity_to_hex_def is_ascii_hexdigit_def is_scalar_def)
  then have "from_utf8 (as_bytes (identity_to_hex k)) = Some (identity_to_hex k)"
    by (intro from_utf8_as_bytes) blast
  then show ?thesis using assms len
    by (simp add: read_node_def whole_def MAX_STORED_BYTES_def group_or_other_def identity_hex made_def)
qed

fun key_of :: "stage \<Rightarrow> stored_identity option" where
  "key_of (CreateTemp k) = Some k"
| "key_of (WriteTemp k i) = Some k"
| "key_of (SyncTemp k) = Some k"
| "key_of (LinkTemp k) = Some k"
| "key_of (SyncDir k) = Some k"
| "key_of s = None"

fun stage_outcome :: "stage \<Rightarrow> stored_identity option" where
  "stage_outcome (SyncDir k) = Some k"
| "stage_outcome (Cleanup k r) = (case r of Inr x \<Rightarrow> Some x | Inl _ \<Rightarrow> None)"
| "stage_outcome (Finished r) = (case r of Inr x \<Rightarrow> Some x | Inl _ \<Rightarrow> None)"
| "stage_outcome s = None"

fun replacing :: "stage \<Rightarrow> bool" where
  "replacing CheckStored = True"
| "replacing (Reserve n) = True"
| "replacing (MoveAside q) = True"
| "replacing (Unreserve q e) = True"
| "replacing s = False"

text \<open>What is known of one process while all of them load.\<close>

definition stage_ok :: "keys \<Rightarrow> nat \<Rightarrow> folder \<Rightarrow> stage \<Rightarrow> bool" where
  "stage_ok K uid fd s \<longleftrightarrow> \<not> replacing s
     \<and> (\<forall>k. key_of s = Some k \<longrightarrow> made K k)
     \<and> (\<forall>k i. s = WriteTemp k i \<longrightarrow> nd_regular (fd_nodes fd i) \<and> nd_owner (fd_nodes fd i) = uid \<and> nd_mode (fd_nodes fd i) = 384)
     \<and> (\<forall>k. s = SyncTemp k \<or> s = LinkTemp k \<longrightarrow> (\<exists>i. fd_entries fd (temp_name k) = Some i \<and> whole K uid k (fd_nodes fd i)))
     \<and> (\<forall>again i. s = ReadKey again i \<longrightarrow> fd_entries fd identity_name = Some i)
     \<and> (\<forall>x. stage_outcome s = Some x \<longrightarrow> (\<exists>i. fd_entries fd identity_name = Some i \<and> read_node K uid (fd_nodes fd i) = Inr x))"

definition loading_inv :: "keys \<Rightarrow> nat \<Rightarrow> folder \<Rightarrow> (nat \<Rightarrow> stage) \<Rightarrow> bool" where
  "loading_inv K uid fd st \<longleftrightarrow> store_inv fd st \<and> (\<forall>p. stage_ok K uid fd (st p))"

text \<open>A published key is there to stay.\<close>

lemma published_stays:
  assumes "store_inv fd st" "\<not> replacing (st p)" "dir_effect uid fd (st p) fd' s'" "fd_entries fd identity_name = Some i"
  shows "fd_entries fd' identity_name = Some i" "fd_nodes fd' i = fd_nodes fd i"
proof -
  have i: "i < fd_next fd" using assms(1,4) by (auto simp: store_inv_def in_use_def)
  have alone: "j \<noteq> i" if "st p = WriteTemp k j" for k j
  proof -
    have "fd_entries fd identity_name = Some j \<longrightarrow> identity_name = temp_name k"
      using assms(1) that by (auto simp: store_inv_def written_alone_def)
    then show ?thesis using assms(4) by auto
  qed
  show "fd_entries fd' identity_name = Some i" "fd_nodes fd' i = fd_nodes fd i"
    using assms(3) by (cases; use assms(2,4) i alone in \<open>auto simp: quarantine_name_def\<close>)+
qed

lemma stage_ok_other:
  assumes inv: "store_inv fd st" and p: "\<not> replacing (st p)" and e: "dir_effect uid' fd (st p) fd' s'"
    and q: "q \<noteq> p" "stage_ok K uid fd (st q)"
  shows "stage_ok K uid fd' (st q)"
proof -
  note stays = published_stays[OF inv p e]
  have old: "\<not> replacing (st q)" "\<And>k. key_of (st q) = Some k \<Longrightarrow> made K k"
    "\<And>k i. st q = WriteTemp k i \<Longrightarrow> nd_regular (fd_nodes fd i) \<and> nd_owner (fd_nodes fd i) = uid \<and> nd_mode (fd_nodes fd i) = 384"
    "\<And>k. st q = SyncTemp k \<or> st q = LinkTemp k \<Longrightarrow> \<exists>i. fd_entries fd (temp_name k) = Some i \<and> whole K uid k (fd_nodes fd i)"
    "\<And>again i. st q = ReadKey again i \<Longrightarrow> fd_entries fd identity_name = Some i"
    "\<And>x. stage_outcome (st q) = Some x \<Longrightarrow> \<exists>i. fd_entries fd identity_name = Some i \<and> read_node K uid (fd_nodes fd i) = Inr x"
    using q(2) unfolding stage_ok_def by blast+
  have used: "i < fd_next fd" if "fd_entries fd name = Some i" for name i
    using inv that by (auto simp: store_inv_def in_use_def)
  have once: "q' = r" if "owns (st q') = Some n" "owns (st r) = Some n" for q' r n
    using inv that by (auto simp: store_inv_def owned_once_def)
  have alone: "i < fd_next fd" "fd_entries fd (temp_name k) = Some i" "fd_entries fd name = Some i \<Longrightarrow> name = temp_name k"
    if "st r = WriteTemp k i" for r k i name
    using inv that by (auto simp: store_inv_def written_alone_def)
  have meta: "nd_regular (fd_nodes fd' i) = nd_regular (fd_nodes fd i) \<and> nd_owner (fd_nodes fd' i) = nd_owner (fd_nodes fd i)
      \<and> nd_mode (fd_nodes fd' i) = nd_mode (fd_nodes fd i)" if "i < fd_next fd" for i
    using e by cases (use that in \<open>auto simp: write_node_def\<close>)
  have temp: "fd_entries fd' (temp_name k) = Some i \<and> fd_nodes fd' i = fd_nodes fd i"
    if own: "owns (st q) = Some (temp_name k)" and t: "fd_entries fd (temp_name k) = Some i" for k i
    using e
  proof cases
    case (writes k' j data)
    have "temp_name k' \<noteq> temp_name k" using once[of p _ q] own writes q(1) by auto
    then have "j \<noteq> i" using alone(3)[of p k' j "temp_name k"] writes t by auto
    then show ?thesis using writes t by simp
  next
    case (removes own' k' r err)
    have "own' \<noteq> temp_name k" using once[of p _ q] own removes q(1) by auto
    then show ?thesis using removes t by simp
  qed (use t p used[OF t] in auto)
  show ?thesis unfolding stage_ok_def
  proof (intro conjI allI impI)
    show "\<not> replacing (st q)" by (rule old(1))
    show "made K k" if "key_of (st q) = Some k" for k using old(2) that .
    show "nd_regular (fd_nodes fd' i)" "nd_owner (fd_nodes fd' i) = uid" "nd_mode (fd_nodes fd' i) = 384" if "st q = WriteTemp k i" for k i
      using old(3)[OF that] meta[OF alone(1)[OF that]] by simp_all
    show "\<exists>i. fd_entries fd' (temp_name k) = Some i \<and> whole K uid k (fd_nodes fd' i)" if "st q = SyncTemp k \<or> st q = LinkTemp k" for k
      using old(4)[OF that] temp[of k] that by auto
    show "fd_entries fd' identity_name = Some i" if "st q = ReadKey again i" for again i
      using stays(1) old(5)[OF that] by blast
    show "\<exists>i. fd_entries fd' identity_name = Some i \<and> read_node K uid (fd_nodes fd' i) = Inr x" if "stage_outcome (st q) = Some x" for x
      using stays old(6)[OF that] by metis
  qed
qed

lemma made_generated: "from_der K der = Some k \<Longrightarrow> length der \<le> 2048 \<Longrightarrow> made K k"
  by (auto simp: made_def from_der_def split: option.splits)

lemma stage_ok_leave: "stage_ok K uid fd (leave again (Inl e))"
  by (cases again) (auto simp: stage_ok_def leave_def)

lemma stage_ok_simps [simp]:
  "stage_ok K uid fd (OpenKey again)" "stage_ok K uid fd CreateDir" "stage_ok K uid fd CheckDir"
  "stage_ok K uid fd (Finished (Inl e))" "stage_ok K uid fd (Cleanup k (Inl e))"
  "stage_ok K uid fd (CreateTemp k) = made K k"
  by (auto simp: stage_ok_def)

lemma stage_ok_step:
  assumes inv: "store_inv fd st" and ok: "stage_ok K uid fd (st p)" and der: "length (pl_der P) \<le> 2048"
    and step: "store_step K uid P io fd (st p) = (fd', s')"
  shows "stage_ok K uid fd' s'"
proof (cases "st p")
  case (OpenKey again)
  then show ?thesis using step
    by (auto simp: store_step_def open_file_def stage_ok_leave split: io.splits option.splits if_splits)
      (auto simp: stage_ok_def)
next
  case (ReadKey again i)
  then have i: "fd_entries fd identity_name = Some i" using ok by (simp add: stage_ok_def)
  have "stage_ok K uid fd (leave again (read_node K uid (fd_nodes fd i)))"
  proof (cases "read_node K uid (fd_nodes fd i)")
    case (Inr x)
    then show ?thesis using i by (cases again) (auto simp: leave_def stage_ok_def)
  qed (simp add: stage_ok_leave)
  then show ?thesis using step ReadKey by (auto simp: store_step_def after_io_def stage_ok_leave split: io.splits)
next
  case CreateDir
  then show ?thesis using step by (auto simp: store_step_def after_io_def split: io.splits)
next
  case CheckDir
  then show ?thesis using step made_generated[OF _ der]
    by (auto simp: store_step_def after_io_def split: io.splits option.splits if_splits)
next
  case (CreateTemp k)
  then show ?thesis using step ok
    by (auto simp: store_step_def create_new_def stage_ok_def created_def split: io.splits option.splits)
next
  case (WriteTemp k i)
  have alone: "fd_entries fd (temp_name k) = Some i"
    using inv WriteTemp by (auto simp: store_inv_def written_alone_def)
  have meta: "made K k" "nd_regular (fd_nodes fd i)" "nd_owner (fd_nodes fd i) = uid" "nd_mode (fd_nodes fd i) = 384"
    using ok by (simp_all add: stage_ok_def WriteTemp)
  have step': "load_step K uid P io fd (WriteTemp k i) = (fd', s')" using step by (simp add: store_step_def WriteTemp)
  show ?thesis
  proof (cases io)
    case Works
    then have "fd' = write_node i (as_bytes (identity_to_hex k)) fd" "s' = SyncTemp k" using step' by simp_all
    then show ?thesis using alone meta by (simp add: stage_ok_def write_node_def whole_def)
  next
    case (Fails e)
    then show ?thesis using step' by auto
  next
    case (Partly n)
    then have "fd' = write_node i (take n (as_bytes (identity_to_hex k))) fd" "s' = WriteTemp k i" using step' by simp_all
    then show ?thesis using meta by (simp add: stage_ok_def write_node_def)
  qed
next
  case (SyncTemp k)
  then show ?thesis using step ok by (auto simp: store_step_def after_io_def stage_ok_def split: io.splits)
next
  case (LinkTemp k)
  then obtain i where i: "fd_entries fd (temp_name k) = Some i" "whole K uid k (fd_nodes fd i)" "made K k"
    using ok by (auto simp: stage_ok_def)
  then show ?thesis using step LinkTemp read_whole[OF i(2,3)]
    by (auto simp: store_step_def hard_link_def stage_ok_def split: io.splits option.splits if_splits)
next
  case (SyncDir k)
  then show ?thesis using step ok by (auto simp: store_step_def after_io_def stage_ok_def split: io.splits)
next
  case (Cleanup k r)
  then have ok': "\<And>x. r = Inr x \<Longrightarrow> \<exists>i. fd_entries fd identity_name = Some i \<and> read_node K uid (fd_nodes fd i) = Inr x"
    using ok by (auto simp: stage_ok_def split: sum.splits)
  have "fd_entries fd' identity_name = fd_entries fd identity_name" "fd_nodes fd' = fd_nodes fd" "s' = Finished r"
    using step Cleanup by (auto simp: store_step_def remove_file_def split: io.splits)
  then show ?thesis using ok' by (cases r) (auto simp: stage_ok_def)
next
  case (Finished r)
  then show ?thesis using step ok by (auto simp: store_step_def)
qed (use ok in \<open>simp_all add: stage_ok_def\<close>)

lemma loading_step:
  assumes "loading_inv K uid (sy_folder S) (sy_stage S)" "\<And>p. length (pl_der (plans p)) \<le> 2048"
  shows "loading_inv K uid (sy_folder (system_step K uid plans p io S)) (sy_stage (system_step K uid plans p io S))"
    "fd_entries (sy_folder S) identity_name = Some i \<Longrightarrow>
       fd_entries (sy_folder (system_step K uid plans p io S)) identity_name = Some i
       \<and> fd_nodes (sy_folder (system_step K uid plans p io S)) i = fd_nodes (sy_folder S) i"
proof -
  let ?fd = "sy_folder S" and ?st = "sy_stage S"
  obtain fd' s' where e: "dir_effect uid ?fd (?st p) fd' s'"
    and T: "sy_folder (system_step K uid plans p io S) = fd'" "sy_stage (system_step K uid plans p io S) = ?st(p := s')"
    and step: "store_step K uid (plans p) io ?fd (?st p) = (fd', s')" by (rule system_step_parts[OF refl])
  have inv: "store_inv ?fd ?st" and ok: "\<And>q. stage_ok K uid ?fd (?st q)" using assms(1) by (auto simp: loading_inv_def)
  have p: "\<not> replacing (?st p)" using ok[of p] by (simp add: stage_ok_def)
  have "stage_ok K uid fd' ((?st(p := s')) q)" for q
    using stage_ok_step[OF inv ok assms(2) step] stage_ok_other[OF inv p e _ ok, of q] by (cases "q = p") auto
  then show "loading_inv K uid (sy_folder (system_step K uid plans p io S)) (sy_stage (system_step K uid plans p io S))"
    unfolding T loading_inv_def using store_inv_effect[OF inv e] by blast
  show "fd_entries ?fd identity_name = Some i \<Longrightarrow>
       fd_entries (sy_folder (system_step K uid plans p io S)) identity_name = Some i
       \<and> fd_nodes (sy_folder (system_step K uid plans p io S)) i = fd_nodes ?fd i"
    unfolding T using published_stays[OF inv p e] by blast
qed

lemma loading_reaches:
  assumes "\<And>p. length (pl_der (plans p)) \<le> 2048"
  shows "reaches K uid plans S T \<Longrightarrow> loading_inv K uid (sy_folder S) (sy_stage S) \<Longrightarrow>
    loading_inv K uid (sy_folder T) (sy_stage T)
    \<and> (fd_entries (sy_folder S) identity_name = Some i \<longrightarrow>
         fd_entries (sy_folder T) identity_name = Some i \<and> fd_nodes (sy_folder T) i = fd_nodes (sy_folder S) i)"
proof (induction rule: reaches.induct)
  case start
  then show ?case by simp
next
  case (turn T p io)
  note step = loading_step[OF conjunct1[OF turn.IH[OF turn.prems]] assms, where p = p and io = io]
  show ?case using step(1) step(2)[of i] turn.IH[OF turn.prems] by auto
qed

lemma loading_launched:
  assumes "launched S" "\<And>p. sy_stage S p = load_or_create"
  shows "loading_inv K uid (sy_folder S) (sy_stage S)"
  using launched_inv[OF assms(1)] assms(2) by (simp add: loading_inv_def load_or_create_def)

text \<open>
  C29. Concurrent first launches agree: any two processes that load or create the key and succeed hold
  the same key, and it is the one stored under the key's name.
\<close>

theorem launches_agree:
  assumes "launched S" "\<And>p. sy_stage S p = load_or_create" "\<And>p. length (pl_der (plans p)) \<le> 2048"
    and "reaches K uid plans S T" "sy_stage T p = Finished (Inr x)" "sy_stage T q = Finished (Inr y)"
  shows "x = y \<and> (\<exists>i. fd_entries (sy_folder T) identity_name = Some i \<and> read_node K uid (fd_nodes (sy_folder T) i) = Inr x)"
proof -
  have ok: "stage_ok K uid (sy_folder T) (sy_stage T r)" for r
    using loading_reaches[OF assms(3,4) loading_launched[OF assms(1,2)]] by (simp add: loading_inv_def)
  show ?thesis using ok[of p] ok[of q] assms(5,6) by (auto simp: stage_ok_def)
qed

text \<open>
  An unusable stored key fails closed: while processes load, the file stays as it is, none of them
  succeeds, and none replaces it.
\<close>

theorem unusable_key_fails_closed:
  assumes "launched S" "\<And>p. sy_stage S p = load_or_create" "\<And>p. length (pl_der (plans p)) \<le> 2048"
    and "fd_entries (sy_folder S) identity_name = Some i" "read_node K uid (fd_nodes (sy_folder S) i) = Inl e"
    and "reaches K uid plans S T"
  shows "fd_entries (sy_folder T) identity_name = Some i \<and> fd_nodes (sy_folder T) i = fd_nodes (sy_folder S) i
    \<and> sy_stage T p \<noteq> Finished (Inr x)"
proof -
  note r = loading_reaches[OF assms(3,6) loading_launched[OF assms(1,2)], of i]
  have ok: "stage_ok K uid (sy_folder T) (sy_stage T p)" using r by (simp add: loading_inv_def)
  show ?thesis using r ok assms(4,5) by (auto simp: stage_ok_def)
qed

section \<open>Sample runs\<close>

definition sample_keys :: keys where
  "sample_keys = \<lparr>k_pkcs8 = (\<lambda>der. if der = [] then None else Some (4 # der)), k_sha256 = rev\<rparr>"

definition sample_plan :: plan where
  "sample_plan = \<lparr>pl_der = [48, 129, 135], pl_since = 1700000000\<rparr>"

definition sample_system :: "ustr option \<Rightarrow> (nat \<Rightarrow> stage) \<Rightarrow> system" where
  "sample_system stored st = \<lparr>sy_folder =
     \<lparr>fd_entries = (case stored of None \<Rightarrow> Map.empty | Some _ \<Rightarrow> [identity_name \<mapsto> 0]),
      fd_nodes = (\<lambda>_. \<lparr>nd_regular = True, nd_owner = 1000, nd_mode = 384,
         nd_data = (case stored of None \<Rightarrow> [] | Some text \<Rightarrow> as_bytes text)\<rparr>),
      fd_next = 1, fd_owner = 1000, fd_mode = 448\<rparr>, sy_stage = st\<rparr>"

definition run_turns :: "nat list \<Rightarrow> system \<Rightarrow> system" where
  "run_turns ps S = fold (\<lambda>p. system_step sample_keys 1000 (\<lambda>_. sample_plan) p Works) ps S"

lemma run_turns_reaches: "reaches sample_keys 1000 (\<lambda>_. sample_plan) S (run_turns ps S)"
proof (induction ps rule: rev_induct)
  case Nil
  show ?case by (simp add: run_turns_def reaches.start)
next
  case (snoc p ps)
  then show ?case by (simp add: run_turns_def reaches.turn)
qed

lemma sample_launched:
  assumes "\<And>p. st p = load_or_create \<or> st p = replace_stored"
  shows "launched (sample_system stored st)"
  using assms by (auto simp: launched_def sample_system_def split: option.splits if_splits)

definition sample_key :: stored_identity where
  "sample_key = \<lparr>id_der = [48, 129, 135], id_public = [4, 48, 129, 135], id_client = [135, 129, 48, 4]\<rparr>"

lemma sample_generated: "from_der sample_keys (pl_der sample_plan) = Some sample_key"
  by (simp add: from_der_def sample_keys_def sample_plan_def sample_key_def client_id_of_def CLIENT_ID_BYTES_def)

lemmas sample_turn = run_turns_def system_step_def sample_system_def load_or_create_def replace_stored_def
  store_step_def open_file_def after_io_def failed_with_def create_new_def created_def hard_link_def
  rename_file_def remove_file_def write_node_def leave_def sample_generated Let_def

definition corrupt_node :: node where
  "corrupt_node = \<lparr>nd_regular = True, nd_owner = 1000, nd_mode = 384, nd_data = as_bytes (lit ''zz'')\<rparr>"

lemma corrupt_read:
  "read_node sample_keys 1000 corrupt_node
     = Inl (Msg ''PC identity is corrupt; explicit recovery required (file preserved)'')"
proof -
  have "from_utf8 (as_bytes (lit ''zz'')) = Some (lit ''zz'')"
    by (rule from_utf8_as_bytes) (simp add: chr_def is_scalar_def)
  moreover have zz: "lit ''zz'' = [122, 122]" by (simp add: chr_def)
  then have utf8: "utf8 (lit ''zz'') = [122, 122]" by (simp add: utf8_def utf8_char_def)
  moreover have "trim (lit ''zz'') = lit ''zz''" unfolding zz by (rule trim_trimmed) (simp add: trimmed_def is_whitespace_def)
  then have "identity_from_hex sample_keys (lit ''zz'') = None"
    using utf8 by (simp add: identity_from_hex_def decode_hex_def is_ascii_hexdigit_def)
  moreover have "str_len (lit ''zz'') = 2" by (simp only: str_len_def utf8) simp
  ultimately show ?thesis by (simp add: read_node_def corrupt_node_def MAX_STORED_BYTES_def group_or_other_def)
qed

lemma launches_agree_witness:
  "\<exists>T. reaches sample_keys 1000 (\<lambda>_. sample_plan) (sample_system None (\<lambda>_. load_or_create)) T
     \<and> sy_stage T 0 = Finished (Inr sample_key)
     \<and> (\<exists>i. fd_entries (sy_folder T) identity_name = Some i
          \<and> read_node sample_keys 1000 (fd_nodes (sy_folder T) i) = Inr sample_key)"
proof -
  let ?S = "sample_system None (\<lambda>_. load_or_create)" and ?plans = "\<lambda>_::nat. sample_plan"
  let ?T = "run_turns [0, 0, 0, 0, 0, 0, 0, 0, 0] ?S"
  have "sy_stage ?T 0 = Finished (Inr sample_key)" by (simp add: sample_turn)
  moreover have "launched ?S" by (rule sample_launched) simp
  moreover have "sy_stage ?S p = load_or_create" "length (pl_der (?plans p)) \<le> 2048" for p
    by (simp_all add: sample_system_def sample_plan_def)
  ultimately show ?thesis
    using launches_agree[of ?S ?plans sample_keys 1000 ?T 0 sample_key 0 sample_key] run_turns_reaches by blast
qed

lemma stored_key_never_lost_witness:
  "\<exists>U name. reaches sample_keys 1000 (\<lambda>_. sample_plan)
       (sample_system (Some (lit ''zz'')) ((\<lambda>_. load_or_create)(0 := replace_stored))) U
     \<and> fd_entries (sy_folder U) identity_name = None \<and> fd_entries (sy_folder U) name = Some 0
     \<and> nd_data (fd_nodes (sy_folder U) 0) = as_bytes (lit ''zz'')"
proof -
  let ?S = "sample_system (Some (lit ''zz'')) ((\<lambda>_. load_or_create)(0 := replace_stored))"
  let ?U = "run_turns [0, 0, 0] ?S"
  have moved: "fd_entries (sy_folder ?U) identity_name = None" by (simp add: sample_turn)
  have S: "fd_entries (sy_folder ?S) identity_name = Some 0" "nd_data (fd_nodes (sy_folder ?S) 0) = as_bytes (lit ''zz'')"
    by (simp_all add: sample_system_def)
  have "launched ?S" by (rule sample_launched) simp
  from stored_key_never_lost[OF this reaches.start S(1) run_turns_reaches, of "[0, 0, 0]"]
  show ?thesis using moved S(2) run_turns_reaches[of ?S "[0, 0, 0]"] by metis
qed

lemma unusable_key_fails_closed_witness:
  "\<exists>T. reaches sample_keys 1000 (\<lambda>_. sample_plan) (sample_system (Some (lit ''zz'')) (\<lambda>_. load_or_create)) T
     \<and> sy_stage T 0 = Finished (Inl (Msg ''PC identity is corrupt; explicit recovery required (file preserved)''))
     \<and> fd_entries (sy_folder T) identity_name = Some 0 \<and> sy_stage T 0 \<noteq> Finished (Inr sample_key)"
proof -
  let ?S = "sample_system (Some (lit ''zz'')) (\<lambda>_. load_or_create)" and ?plans = "\<lambda>_::nat. sample_plan"
  let ?T = "run_turns [0, 0] ?S"
  let ?e = "Msg ''PC identity is corrupt; explicit recovery required (file preserved)''"
  have node: "fd_nodes (sy_folder ?S) i = corrupt_node" for i by (simp add: sample_system_def corrupt_node_def)
  have bad: "read_node sample_keys 1000 (fd_nodes (sy_folder ?S) 0) = Inl ?e" unfolding node by (rule corrupt_read)
  have fin: "sy_stage ?T 0 = Finished (Inl ?e)"
    using corrupt_read by (simp add: sample_turn corrupt_node_def)
  have "launched ?S" by (rule sample_launched) simp
  moreover have "sy_stage ?S p = load_or_create" "length (pl_der (?plans p)) \<le> 2048" for p
    by (simp_all add: sample_system_def sample_plan_def)
  moreover have "fd_entries (sy_folder ?S) identity_name = Some 0" by (simp add: sample_system_def)
  ultimately have "fd_entries (sy_folder ?T) identity_name = Some 0 \<and> fd_nodes (sy_folder ?T) 0 = fd_nodes (sy_folder ?S) 0
      \<and> sy_stage ?T 0 \<noteq> Finished (Inr sample_key)"
    using bad run_turns_reaches by (intro unusable_key_fails_closed)
  then show ?thesis using fin run_turns_reaches by blast
qed

end
