(* ===== verification/Cli.thy ===== *)
theory Cli
  imports Video_Stream
begin

text \<open>
  The entry points without a window: the command line (\<open>cli.rs\<close>), the headless session
  (\<open>headless.rs\<close>: its event loop, its one mode change and its exit code), the USB probe
  (\<open>usb_probe.rs\<close>: the PING/PONG exchanges, the seams, the report) and the marks of \<open>ttff.rs\<close>.
  Error messages keep the text they quote, not its formatting; printing is not modelled.
\<close>

section \<open>Options\<close>

record headless_options =
  ho_transport :: "ustr option"
  ho_host :: "ustr option"
  ho_seconds :: "nat option"
  ho_quality :: "(nat \<times> nat \<times> nat) option"

text \<open>Milliseconds.\<close>

record probe_options =
  po_frames :: nat
  po_budget :: nat
  po_rate :: nat

definition headless_default :: headless_options where
  "headless_default = \<lparr>ho_transport = None, ho_host = None, ho_seconds = None, ho_quality = None\<rparr>"

definition probe_default :: probe_options where
  "probe_default = \<lparr>po_frames = 1000, po_budget = 2000, po_rate = 32\<rparr>"

datatype cli_command =
    Gui
  | WorkerCommand nat
  | ReplaceIdentity bool
  | Headless headless_options
  | UsbProbe probe_options
  | UsbDump nat
  | UsbFrames nat
  | Help

datatype cli_error =
    WorkerPid ustr
  | NeedsSeconds ustr ustr
  | ForceAlone
  | UnexpectedArgument ustr
  | UnknownOption ustr
  | TransportMode ustr
  | HostEmpty
  | NotPositive ustr ustr
  | NeedsValue ustr
  | UnexpectedAfter ustr ustr
  | QualityForm ustr
  | QualityNumber ustr ustr
  | QualityZero ustr

section \<open>Parsing\<close>

definition quality_part :: "string \<Rightarrow> ustr \<Rightarrow> cli_error + nat" where
  "quality_part what text = (case parse_u16 text of None \<Rightarrow> Inl (QualityNumber (lit what) text) | Some n \<Rightarrow> Inr n)"

definition parse_quality :: "ustr \<Rightarrow> cli_error + nat \<times> nat \<times> nat" where
  "parse_quality value =
     (case split_once (chr CHR ''@'') value of
        None \<Rightarrow> Inl (QualityForm value)
      | Some (dims, fps) \<Rightarrow>
          (case split_once (chr CHR ''x'') dims of
             None \<Rightarrow> Inl (QualityForm value)
           | Some (width, height) \<Rightarrow>
               try_r (quality_part ''width'' width) (\<lambda>w.
               try_r (quality_part ''height'' height) (\<lambda>h.
               try_r (quality_part ''fps'' fps) (\<lambda>f.
                 if w = 0 \<or> h = 0 \<or> f = 0 then Inl (QualityZero value) else Inr (w, h, f))))))"

fun headless_args :: "ustr list \<Rightarrow> headless_options \<Rightarrow> cli_error + cli_command" where
  "headless_args [] opts = Inr (Headless opts)"
| "headless_args [flag] opts = Inl (NeedsValue flag)"
| "headless_args (flag # v # rest) opts =
     (if flag = lit ''--transport''
      then if v = lit ''usb'' \<or> v = lit ''lan'' then headless_args rest (opts\<lparr>ho_transport := Some v\<rparr>)
           else Inl (TransportMode v)
      else if flag = lit ''--host'' \<and> v \<noteq> [] then headless_args rest (opts\<lparr>ho_host := Some v\<rparr>)
      else if flag = lit ''--quality''
      then try_r (parse_quality v) (\<lambda>q. headless_args rest (opts\<lparr>ho_quality := Some q\<rparr>))
      else if flag = lit ''--host'' then Inl HostEmpty
      else if flag = lit ''--seconds''
      then (case parse_u64 v of
              Some n \<Rightarrow> if n > 0 then headless_args rest (opts\<lparr>ho_seconds := Some n\<rparr>) else Inl (NotPositive flag v)
            | None \<Rightarrow> Inl (NotPositive flag v))
      else Inl (UnexpectedAfter (lit ''--headless'') flag))"

definition positive :: "ustr \<Rightarrow> ustr \<Rightarrow> nat option \<Rightarrow> cli_error + nat" where
  "positive flag v parsed =
     (case parsed of Some n \<Rightarrow> if n > 0 then Inr n else Inl (NotPositive flag v) | None \<Rightarrow> Inl (NotPositive flag v))"

fun probe_args :: "ustr list \<Rightarrow> probe_options \<Rightarrow> cli_error + cli_command" where
  "probe_args [] opts = Inr (UsbProbe opts)"
| "probe_args [flag] opts = Inl (NeedsValue flag)"
| "probe_args (flag # v # rest) opts =
     (if flag = lit ''--frames''
      then try_r (positive flag v (parse_u64 v)) (\<lambda>n. probe_args rest (opts\<lparr>po_frames := n\<rparr>))
      else if flag = lit ''--rate''
      then try_r (positive flag v (parse_u32 v)) (\<lambda>n. probe_args rest (opts\<lparr>po_rate := n\<rparr>))
      else if flag = lit ''--budget-ms''
      then try_r (positive flag v (parse_u64 v)) (\<lambda>n. probe_args rest (opts\<lparr>po_budget := n\<rparr>))
      else Inl (UnexpectedAfter (lit ''--usb-probe'') flag))"

definition seconds_arg :: "ustr \<Rightarrow> ustr \<Rightarrow> (nat \<Rightarrow> cli_command) \<Rightarrow> cli_error + cli_command" where
  "seconds_arg flag v c = (case parse_u64 v of Some n \<Rightarrow> Inr (c n) | None \<Rightarrow> Inl (NeedsSeconds flag v))"

definition cli_parse :: "ustr list \<Rightarrow> cli_error + cli_command" where
  "cli_parse words =
     (case words of
        [] \<Rightarrow> Inr Gui
      | w # rest \<Rightarrow>
          if words = [lit ''--help''] \<or> words = [lit ''-h''] then Inr Help
          else if w = lit ''--worker'' \<and> length rest = 1
          then (case parse_u32 (hd rest) of Some n \<Rightarrow> Inr (WorkerCommand n) | None \<Rightarrow> Inl (WorkerPid (hd rest)))
          else if w = lit ''--headless'' then headless_args rest headless_default
          else if w = lit ''--usb-probe'' then probe_args rest probe_default
          else if w = lit ''--usb-frames'' \<and> length rest = 1 then seconds_arg w (hd rest) UsbFrames
          else if w = lit ''--usb-dump'' \<and> length rest = 1 then seconds_arg w (hd rest) UsbDump
          else if words = [lit ''--replace-identity''] then Inr (ReplaceIdentity False)
          else if words = [lit ''--replace-identity'', lit ''--force''] then Inr (ReplaceIdentity True)
          else if words = [lit ''--force''] then Inl ForceAlone
          else if w = lit ''--replace-identity'' \<and> length rest = 1 then Inl (UnexpectedArgument (hd rest))
          else if rest = [] \<and> starts_with [chr CHR ''-''] w then Inl (UnknownOption w)
          else Inl (UnexpectedArgument w))"

section \<open>The headless session\<close>

definition merge :: "settings \<Rightarrow> headless_options \<Rightarrow> settings" where
  "merge s opts =
     (let s1 = (case ho_transport opts of None \<Rightarrow> s | Some t \<Rightarrow> s\<lparr>transport := t\<rparr>)
      in case ho_host opts of None \<Rightarrow> s1 | Some h \<Rightarrow> s1\<lparr>lan_host := h\<rparr>)"

fun is_stats :: "host_event \<Rightarrow> bool" where
  "is_stats (Stats _ _ _ _ _ _ _) = True"
| "is_stats _ = False"

definition streamed :: "host_event list \<Rightarrow> bool" where
  "streamed events = list_ex is_stats events"

record headless_state =
  hs_streamed :: bool
  hs_requested :: bool
  hs_applied :: "(u16 \<times> u16 \<times> u16) option"
  hs_refused :: "string option"

definition headless_start :: headless_state where
  "headless_start = \<lparr>hs_streamed = False, hs_requested = False, hs_applied = None, hs_refused = None\<rparr>"

definition wished :: "headless_options \<Rightarrow> (u16 \<times> u16 \<times> u16) option" where
  "wished opts = map_option (\<lambda>(w, h, f). (of_nat w, of_nat h, of_nat f)) (ho_quality opts)"

text \<open>One event: the stream exists with the first statistics, and only then the mode is asked for, once.\<close>

definition headless_event :: "headless_options \<Rightarrow> headless_state \<Rightarrow> host_event \<Rightarrow> headless_state \<times> command list" where
  "headless_event opts s ev =
     (let (s1, out) =
        (if is_stats ev
         then case wished opts of
                Some (w, h, f) \<Rightarrow>
                  if \<not> hs_requested s
                  then (s\<lparr>hs_streamed := True, hs_requested := True\<rparr>, [PrepareQualityCmd w h f])
                  else (s\<lparr>hs_streamed := True\<rparr>, [])
              | None \<Rightarrow> (s\<lparr>hs_streamed := True\<rparr>, [])
         else (s, []))
      in (case ev of
            QualityApplied w h f \<Rightarrow> s1\<lparr>hs_applied := Some (w, h, f)\<rparr>
          | QualityFailed reason _ \<Rightarrow> s1\<lparr>hs_refused := Some reason\<rparr>
          | ErrorEv reason \<Rightarrow> s1\<lparr>hs_refused := Some reason\<rparr>
          | _ \<Rightarrow> s1, out))"

text \<open>
  What the loop meets: whether the deadline has passed when it looks, and what its blocking read then
  returns. Without \<open>--seconds\<close> there is no deadline. \<open>None\<close>: the loop is still reading.
\<close>

datatype reading = EndOfOutput | ReadFails | BlankLine | EventLine host_event | UnreadableLine

fun headless_loop :: "headless_options \<Rightarrow> headless_state \<Rightarrow> (bool \<times> reading) list
    \<Rightarrow> (headless_state \<times> command list) option" where
  "headless_loop opts s [] = None"
| "headless_loop opts s ((expired, r) # rs) =
     (if ho_seconds opts \<noteq> None \<and> expired then Some (s, [Stop])
      else case r of
             EndOfOutput \<Rightarrow> Some (s, [])
           | ReadFails \<Rightarrow> Some (s, [])
           | BlankLine \<Rightarrow> headless_loop opts s rs
           | UnreadableLine \<Rightarrow> headless_loop opts s rs
           | EventLine ev \<Rightarrow>
               (let (s', out) = headless_event opts s ev
                in if ev = StoppedEv then Some (s', out)
                   else map_option (\<lambda>(t, out'). (t, out @ out')) (headless_loop opts s' rs)))"

definition headless_exit :: "headless_options \<Rightarrow> headless_state \<Rightarrow> nat" where
  "headless_exit opts s =
     (if \<not> hs_streamed s then 1
      else case wished opts of
             None \<Rightarrow> 0
           | Some mode \<Rightarrow> (case hs_applied s of Some m \<Rightarrow> if m = mode then 0 else 1 | None \<Rightarrow> 1))"

section \<open>The USB probe\<close>

datatype verdict = Echoed | SequenceMismatch | PayloadMismatch | NoReply

record report =
  rp_sent :: nat
  rp_echoed :: nat
  rp_sequence :: nat
  rp_payload :: nat
  rp_timed_out :: nat
  rp_skipped :: nat
  rp_rechallenged :: bool
  rp_rtts :: "nat list"

definition report_default :: report where
  "report_default = \<lparr>rp_sent = 0, rp_echoed = 0, rp_sequence = 0, rp_payload = 0, rp_timed_out = 0,
     rp_skipped = 0, rp_rechallenged = False, rp_rtts = []\<rparr>"

definition pass :: "report \<Rightarrow> nat \<Rightarrow> bool" where
  "pass r expected \<longleftrightarrow> rp_echoed r = expected \<and> rp_sequence r = 0 \<and> rp_payload r = 0 \<and> rp_timed_out r = 0"

definition rtt_percentiles :: "report \<Rightarrow> (nat \<times> nat \<times> nat \<times> nat \<times> nat) option" where
  "rtt_percentiles r =
     (if rp_rtts r = [] then None
      else let asc = sort (rp_rtts r); at_percent = (\<lambda>p. asc ! ((length asc - 1) * p div 100))
           in Some (asc ! 0, sum_list asc div length asc, at_percent 50, at_percent 95, asc ! (length asc - 1)))"

definition probe_challenge :: "u32 \<Rightarrow> bytes" where
  "probe_challenge n = to_le 4 n @ to_le 4 (not n)"

definition classify :: "u32 \<Rightarrow> bytes \<Rightarrow> frame option \<Rightarrow> verdict" where
  "classify sent_sequence sent_challenge reply =
     (case reply of
        None \<Rightarrow> NoReply
      | Some f \<Rightarrow>
          if kind (fr_header f) \<noteq> PONG \<or> sequence (fr_header f) \<noteq> sent_sequence then SequenceMismatch
          else if fr_payload f \<noteq> sent_challenge then PayloadMismatch
          else Echoed)"

definition pace_delay :: "nat \<Rightarrow> nat \<Rightarrow> nat" where
  "pace_delay elapsed period = period - elapsed"

text \<open>
  The wait for a reply: what every poll returned before the budget ran out (the end of the list).
  The result: a reply if there was one, the frames skipped, whether a fresh challenge ended the wait.
\<close>

fun await_reply :: "(error + frame option) list \<Rightarrow> error + frame option \<times> nat \<times> bool" where
  "await_reply [] = Inr (None, 0, False)"
| "await_reply (p # ps) =
     (case p of
        Inl e \<Rightarrow> Inl e
      | Inr None \<Rightarrow> await_reply ps
      | Inr (Some f) \<Rightarrow>
          if kind (fr_header f) = CLIENT_CHALLENGE then Inr (None, 0, True)
          else if kind (fr_header f) \<noteq> PONG
          then try_r (await_reply ps) (\<lambda>(reply, skipped, again). Inr (reply, skipped + 1, again))
          else Inr (Some f, 0, False))"

record exchange_in =
  ex_send :: "error + unit"
  ex_polls :: "(error + frame option) list"
  ex_rtt :: nat

definition count_verdict :: "verdict \<Rightarrow> nat \<Rightarrow> report \<Rightarrow> report" where
  "count_verdict v rtt r =
     (case v of
        Echoed \<Rightarrow> r\<lparr>rp_echoed := rp_echoed r + 1, rp_rtts := rp_rtts r @ [rtt]\<rparr>
      | SequenceMismatch \<Rightarrow> r\<lparr>rp_sequence := rp_sequence r + 1\<rparr>
      | PayloadMismatch \<Rightarrow> r\<lparr>rp_payload := rp_payload r + 1\<rparr>
      | NoReply \<Rightarrow> r\<lparr>rp_timed_out := rp_timed_out r + 1\<rparr>)"

definition ping :: "u32 \<Rightarrow> error + frame" where
  "ping n = try_r (frame_new PING n (probe_challenge n)) (\<lambda>f. Inr (f\<lparr>fr_header := (fr_header f)\<lparr>pts_us := ucast n\<rparr>\<rparr>))"

text \<open>\<open>run\<close>: the exchanges from number \<open>index\<close>, as many as are left.\<close>

fun probe_run :: "nat \<Rightarrow> nat \<Rightarrow> (nat \<Rightarrow> exchange_in) \<Rightarrow> report \<Rightarrow> error + report" where
  "probe_run index 0 xs r = Inr r"
| "probe_run index (Suc left) xs r =
     (let n = of_nat index + 1
      in try_r (ping n) (\<lambda>_.
         try_r (ex_send (xs index)) (\<lambda>_.
         try_r (await_reply (ex_polls (xs index))) (\<lambda>(reply, skipped, again).
           let r1 = r\<lparr>rp_sent := rp_sent r + 1, rp_skipped := rp_skipped r + skipped, rp_rechallenged := again\<rparr>
           in if again then Inr (r1\<lparr>rp_sent := rp_sent r1 - 1\<rparr>)
              else probe_run (index + 1) left xs
                     (count_verdict (classify n (probe_challenge n) reply) (ex_rtt (xs index)) r1)))))"

definition add_part :: "report \<Rightarrow> report \<Rightarrow> report" where
  "add_part r part = r\<lparr>rp_sent := rp_sent r + rp_sent part, rp_echoed := rp_echoed r + rp_echoed part,
     rp_sequence := rp_sequence r + rp_sequence part, rp_payload := rp_payload r + rp_payload part,
     rp_timed_out := rp_timed_out r + rp_timed_out part, rp_skipped := rp_skipped r + rp_skipped part,
     rp_rtts := rp_rtts r @ rp_rtts part\<rparr>"

text \<open>
  The loop of \<open>end_to_end\<close> after the first authorization; \<open>part\<close> and \<open>authorize\<close> give the
  exchanges and the authorization of every round. The second result counts the rounds.
\<close>

function probe_rounds :: "(nat \<Rightarrow> nat \<Rightarrow> exchange_in) \<Rightarrow> (nat \<Rightarrow> error + unit) \<Rightarrow> nat \<Rightarrow> nat \<Rightarrow> report
    \<Rightarrow> error + report \<times> nat" where
  "probe_rounds part authorize seams remaining r =
     try_r (probe_run 0 remaining (part seams) report_default) (\<lambda>p.
       let r1 = add_part r p; remaining1 = remaining - rp_echoed p
       in if remaining1 = 0 \<or> \<not> rp_rechallenged p then Inr (r1\<lparr>rp_rechallenged := rp_rechallenged p\<rparr>, seams + 1)
          else if seams + 1 > 8 then Inr (r1\<lparr>rp_rechallenged := True\<rparr>, seams + 1)
          else try_r (authorize (seams + 1)) (\<lambda>_. probe_rounds part authorize (seams + 1) remaining1 r1))"
  by pat_completeness auto
termination
  by (relation "measure (\<lambda>(_, _, seams, _, _). 9 - seams)") auto

declare probe_rounds.simps [simp del]

section \<open>Time to the first frame\<close>

definition ttff_token :: "ustr \<Rightarrow> ustr" where
  "ttff_token phase =
     (let token = take 32 (filter (\<lambda>c. is_ascii_digit c \<or> (65 \<le> c \<and> c \<le> 90) \<or> (97 \<le> c \<and> c \<le> 122) \<or> c = 95) phase)
      in if token = [] then lit ''unknown'' else token)"

definition ttff_line :: "ustr \<Rightarrow> nat \<Rightarrow> nat option \<Rightarrow> ustr \<Rightarrow> ustr" where
  "ttff_line phase since_process since_connect mode =
     lit ''ttff phase='' @ ttff_token phase @ lit '' since_process_ms='' @ show_dec since_process
       @ (case since_connect of None \<Rightarrow> [] | Some ms \<Rightarrow> lit '' since_connect_ms='' @ show_dec ms)
       @ lit '' transport='' @ (if mode = lit ''usb'' \<or> mode = lit ''lan'' then mode else lit ''unknown'')"

definition ttff_first_frame :: "bool \<Rightarrow> nat \<Rightarrow> nat \<Rightarrow> nat option \<Rightarrow> ustr \<Rightarrow> ustr option \<times> bool" where
  "ttff_first_frame logged submitted since_process since_connect mode =
     (if logged \<or> submitted = 0 then (None, logged)
      else (Some (ttff_line (lit ''host_first_submitted'') since_process since_connect mode), True))"

end
