(* ===== verification/Cli_Props.thy ===== *)
theory Cli_Props
  imports Cli
begin

text \<open>
  What the command line accepts, what the exit code of a headless run says, and what a passed USB probe
  certifies.
\<close>

section \<open>The command line\<close>

fun quality_typed :: "nat \<times> nat \<times> nat \<Rightarrow> bool" where
  "quality_typed (w, h, f) \<longleftrightarrow> 0 < w \<and> w < 2 ^ 16 \<and> 0 < h \<and> h < 2 ^ 16 \<and> 0 < f \<and> f < 2 ^ 16"

definition headless_typed :: "headless_options \<Rightarrow> bool" where
  "headless_typed opts \<longleftrightarrow> ho_transport opts \<in> {None, Some (lit ''usb''), Some (lit ''lan'')} \<and> ho_host opts \<noteq> Some []
     \<and> (case ho_seconds opts of None \<Rightarrow> True | Some n \<Rightarrow> 0 < n \<and> n < 2 ^ 64)
     \<and> (case ho_quality opts of None \<Rightarrow> True | Some q \<Rightarrow> quality_typed q)"

definition probe_typed :: "probe_options \<Rightarrow> bool" where
  "probe_typed opts \<longleftrightarrow> 0 < po_frames opts \<and> po_frames opts < 2 ^ 64 \<and> 0 < po_budget opts \<and> po_budget opts < 2 ^ 64
     \<and> 0 < po_rate opts \<and> po_rate opts < 2 ^ 32"

fun command_typed :: "cli_command \<Rightarrow> bool" where
  "command_typed (WorkerCommand p) \<longleftrightarrow> p < 2 ^ 32"
| "command_typed (Headless opts) \<longleftrightarrow> headless_typed opts"
| "command_typed (UsbProbe opts) \<longleftrightarrow> probe_typed opts"
| "command_typed (UsbDump n) \<longleftrightarrow> n < 2 ^ 64"
| "command_typed (UsbFrames n) \<longleftrightarrow> n < 2 ^ 64"
| "command_typed _ \<longleftrightarrow> True"

lemma quality_part_bound: "quality_part what text = Inr n \<Longrightarrow> n < 65536"
  by (auto simp: quality_part_def dest: parse_uint_bound split: option.splits)

lemma parse_quality_typed: "parse_quality value = Inr q \<Longrightarrow> quality_typed q"
  by (auto simp: parse_quality_def try_r_Inr_iff dest: quality_part_bound split: option.splits prod.splits if_splits)

lemma headless_args_typed:
  "headless_typed opts \<Longrightarrow> headless_args args opts = Inr c \<Longrightarrow> \<exists>opts'. c = Headless opts' \<and> headless_typed opts'"
proof (induction args opts rule: headless_args.induct)
  case (3 flag v rest opts)
  consider "flag = lit ''--transport''" | "flag = lit ''--host''" | "flag = lit ''--quality''" | "flag = lit ''--seconds''"
    using "3.prems"(2) by (auto split: if_splits)
  then show ?case
  proof cases
    case 1
    then have "v = lit ''usb'' \<or> v = lit ''lan''" "headless_args rest (opts\<lparr>ho_transport := Some v\<rparr>) = Inr c"
      using "3.prems"(2) by (auto split: if_splits)
    moreover from this have "headless_typed (opts\<lparr>ho_transport := Some v\<rparr>)" using "3.prems"(1) by (auto simp: headless_typed_def)
    ultimately show ?thesis using "3.IH"(1) 1 by blast
  next
    case 2
    then have v: "v \<noteq> []" "headless_args rest (opts\<lparr>ho_host := Some v\<rparr>) = Inr c"
      using "3.prems"(2) by (auto split: if_splits)
    moreover from this have "headless_typed (opts\<lparr>ho_host := Some v\<rparr>)" using "3.prems"(1) by (auto simp: headless_typed_def)
    ultimately show ?thesis using "3.IH"(2) 2 by auto
  next
    case 3
    then obtain q where q: "parse_quality v = Inr q" "headless_args rest (opts\<lparr>ho_quality := Some q\<rparr>) = Inr c"
      using "3.prems"(2) by (auto simp: try_r_Inr_iff)
    moreover from this have "headless_typed (opts\<lparr>ho_quality := Some q\<rparr>)"
      using "3.prems"(1) parse_quality_typed by (auto simp: headless_typed_def)
    ultimately show ?thesis using "3.IH"(3) 3 by auto
  next
    case 4
    then obtain n where n: "parse_u64 v = Some n" "0 < n" "headless_args rest (opts\<lparr>ho_seconds := Some n\<rparr>) = Inr c"
      using "3.prems"(2) by (auto split: option.splits if_splits)
    moreover from this have "headless_typed (opts\<lparr>ho_seconds := Some n\<rparr>)"
      using "3.prems"(1) parse_uint_bound[OF n(1)] by (auto simp: headless_typed_def)
    ultimately show ?thesis using "3.IH"(4) 4 by auto
  qed
qed auto

lemma positive_bound: "positive flag v (parse_uint 10 bound v) = Inr n \<Longrightarrow> 0 < n \<and> n < bound"
  by (auto simp: positive_def dest: parse_uint_bound split: option.splits if_splits)

lemma probe_args_typed:
  "probe_typed opts \<Longrightarrow> probe_args args opts = Inr c \<Longrightarrow> \<exists>opts'. c = UsbProbe opts' \<and> probe_typed opts'"
proof (induction args opts rule: probe_args.induct)
  case (3 flag v rest opts)
  consider "flag = lit ''--frames''" | "flag = lit ''--rate''" | "flag = lit ''--budget-ms''"
    using "3.prems"(2) by (auto split: if_splits)
  then show ?case
  proof cases
    case 1
    then obtain n where n: "positive flag v (parse_u64 v) = Inr n" "probe_args rest (opts\<lparr>po_frames := n\<rparr>) = Inr c"
      using "3.prems"(2) by (auto simp: try_r_Inr_iff)
    moreover from this have "probe_typed (opts\<lparr>po_frames := n\<rparr>)" using "3.prems"(1) positive_bound[OF n(1)] by (simp add: probe_typed_def)
    ultimately show ?thesis using "3.IH"(1) 1 by blast
  next
    case 2
    then obtain n where n: "positive flag v (parse_u32 v) = Inr n" "probe_args rest (opts\<lparr>po_rate := n\<rparr>) = Inr c"
      using "3.prems"(2) by (auto simp: try_r_Inr_iff)
    moreover from this have "probe_typed (opts\<lparr>po_rate := n\<rparr>)" using "3.prems"(1) positive_bound[OF n(1)] by (simp add: probe_typed_def)
    ultimately show ?thesis using "3.IH"(2) 2 by auto
  next
    case 3
    then obtain n where n: "positive flag v (parse_u64 v) = Inr n" "probe_args rest (opts\<lparr>po_budget := n\<rparr>) = Inr c"
      using "3.prems"(2) by (auto simp: try_r_Inr_iff)
    moreover from this have "probe_typed (opts\<lparr>po_budget := n\<rparr>)" using "3.prems"(1) positive_bound[OF n(1)] by (simp add: probe_typed_def)
    ultimately show ?thesis using "3.IH"(3) 3 by auto
  qed
qed auto

definition replace_words :: "bool \<Rightarrow> ustr list" where
  "replace_words force = lit ''--replace-identity'' # (if force then [lit ''--force''] else [])"

lemma seconds_arg_typed: "seconds_arg flag v c = Inr d \<Longrightarrow> \<exists>n < 2 ^ 64. d = c n"
  using parse_uint_bound by (fastforce simp: seconds_arg_def split: option.splits)

lemma headless_args_command: "headless_args args headless_default = Inr c \<Longrightarrow> \<exists>opts. c = Headless opts \<and> headless_typed opts"
proof -
  have "headless_typed headless_default" by (simp add: headless_typed_def headless_default_def)
  then show "headless_args args headless_default = Inr c \<Longrightarrow> ?thesis" by (rule headless_args_typed)
qed

lemma probe_args_command: "probe_args args probe_default = Inr c \<Longrightarrow> \<exists>opts. c = UsbProbe opts \<and> probe_typed opts"
proof -
  have "probe_typed probe_default" by (simp add: probe_typed_def probe_default_def)
  then show "probe_args args probe_default = Inr c \<Longrightarrow> ?thesis" by (rule probe_args_typed)
qed

text \<open>One branch of a chain of guards at a time.\<close>

lemma if_eqE:
  assumes "(if P then a else b) = x"
  obtains "P" "a = x" | "b = x"
  using assms by (cases P) auto

lemma number_eqE:
  assumes "(case parsed of None \<Rightarrow> Inl e | Some n \<Rightarrow> Inr (f n)) = Inr c"
  obtains n where "parsed = Some n" "c = f n"
  using assms by (cases parsed) auto

lemma Inr_eqE: "Inr x = Inr y \<Longrightarrow> (y = x \<Longrightarrow> R) \<Longrightarrow> R"
  by simp

lemma Inl_neqE: "Inl x = Inr y \<Longrightarrow> R"
  by simp

lemma cli_parse_commands:
  assumes "cli_parse words = Inr c" "words \<noteq> []"
  shows "c = Help \<or> (\<exists>n < 2 ^ 32. c = WorkerCommand n) \<or> (\<exists>opts. c = Headless opts \<and> headless_typed opts)
    \<or> (\<exists>opts. c = UsbProbe opts \<and> probe_typed opts) \<or> (\<exists>n < 2 ^ 64. c = UsbFrames n) \<or> (\<exists>n < 2 ^ 64. c = UsbDump n)
    \<or> (\<exists>force. c = ReplaceIdentity force \<and> words = replace_words force)"
proof -
  obtain w rest where words: "words = w # rest" using assms(2) by (cases words) auto
  consider (usage) "c = Help" | (worker) n where "parse_u32 (hd rest) = Some n" "c = WorkerCommand n"
    | (headless) "headless_args rest headless_default = Inr c" | (probe) "probe_args rest probe_default = Inr c"
    | (frames) "seconds_arg w (hd rest) UsbFrames = Inr c" | (dump) "seconds_arg w (hd rest) UsbDump = Inr c"
    | (replace) "c = ReplaceIdentity False" "words = [lit ''--replace-identity'']"
    | (force) "c = ReplaceIdentity True" "words = [lit ''--replace-identity'', lit ''--force'']"
    using assms(1) unfolding cli_parse_def words list.case
    by (elim if_eqE number_eqE Inr_eqE Inl_neqE) (iprover intro: usage worker headless probe frames dump replace force)+
  then show ?thesis
  proof cases
    case worker
    then show ?thesis using parse_uint_bound[OF worker(1)] by simp
  next
    case headless
    then show ?thesis using headless_args_command by blast
  next
    case probe
    then show ?thesis using probe_args_command by blast
  next
    case frames
    then show ?thesis using seconds_arg_typed by blast
  next
    case dump
    then show ?thesis using seconds_arg_typed by blast
  next
    case replace
    then show ?thesis by (auto simp: replace_words_def)
  next
    case force
    then show ?thesis by (auto simp: replace_words_def)
  qed simp
qed

lemma replace_words_parse: "cli_parse (replace_words force) = Inr (ReplaceIdentity force)"
  by (cases force) (simp_all add: replace_words_def cli_parse_def)

text \<open>
  C30. Every command line is an error or a well-typed command: numbers positive where the code relies on
  it and inside their machine type, a transport only \<open>usb\<close> or \<open>lan\<close>, no empty address; the window opens
  only without any argument, and the stored key is replaced exactly for the two forms that say so.
\<close>

theorem command_line_typed:
  "(case cli_parse words of Inl _ \<Rightarrow> True | Inr c \<Rightarrow> command_typed c)
   \<and> (cli_parse words = Inr Gui \<longleftrightarrow> words = [])
   \<and> (cli_parse words = Inr (ReplaceIdentity force) \<longleftrightarrow> words = replace_words force)"
proof (cases "words = []")
  case True
  then show ?thesis by (simp add: cli_parse_def replace_words_def)
next
  case False
  note cmd = cli_parse_commands[OF _ False]
  have "case cli_parse words of Inl _ \<Rightarrow> True | Inr c \<Rightarrow> command_typed c"
    using cmd by (fastforce split: sum.split)
  moreover have "cli_parse words \<noteq> Inr Gui" using cmd by blast
  moreover have "cli_parse words = Inr (ReplaceIdentity force) \<longleftrightarrow> words = replace_words force"
    using cmd[of "ReplaceIdentity force"] replace_words_parse[of force] by auto
  ultimately show ?thesis using False by simp
qed

section \<open>The headless session\<close>

text \<open>The events of a run: what was read before the deadline, the end of the output or \<open>stopped\<close>.\<close>

fun run_events :: "headless_options \<Rightarrow> (bool \<times> reading) list \<Rightarrow> host_event list" where
  "run_events opts [] = []"
| "run_events opts ((expired, r) # rs) =
     (if ho_seconds opts \<noteq> None \<and> expired then []
      else case r of
             EventLine ev \<Rightarrow> ev # (if ev = StoppedEv then [] else run_events opts rs)
           | BlankLine \<Rightarrow> run_events opts rs
           | UnreadableLine \<Rightarrow> run_events opts rs
           | _ \<Rightarrow> [])"

fun applied_mode :: "host_event \<Rightarrow> (u16 \<times> u16 \<times> u16) option" where
  "applied_mode (QualityApplied w h f) = Some (w, h, f)"
| "applied_mode _ = None"

fun last_applied :: "host_event list \<Rightarrow> (u16 \<times> u16 \<times> u16) option" where
  "last_applied [] = None"
| "last_applied (ev # evs) = (case last_applied evs of None \<Rightarrow> applied_mode ev | Some m \<Rightarrow> Some m)"

fun asks_quality :: "command \<Rightarrow> bool" where
  "asks_quality (PrepareQualityCmd _ _ _) = True"
| "asks_quality _ = False"

definition request_for :: "headless_options \<Rightarrow> command list" where
  "request_for opts = (case wished opts of None \<Rightarrow> [] | Some (w, h, f) \<Rightarrow> [PrepareQualityCmd w h f])"

lemma headless_event_effect:
  assumes "headless_event opts s ev = (t, out)"
  shows "hs_streamed t = (hs_streamed s \<or> is_stats ev)"
    "hs_applied t = (case applied_mode ev of None \<Rightarrow> hs_applied s | Some m \<Rightarrow> Some m)"
    "hs_requested t = (hs_requested s \<or> is_stats ev \<and> wished opts \<noteq> None)"
    "filter asks_quality out = (if is_stats ev \<and> \<not> hs_requested s then request_for opts else [])"
  using assms
  by (cases ev; auto simp: headless_event_def request_for_def Let_def split: option.splits if_splits)+

lemma headless_loop_effect:
  "headless_loop opts s rs = Some (t, out) \<Longrightarrow>
     hs_streamed t = (hs_streamed s \<or> streamed (run_events opts rs))
     \<and> hs_applied t = (case last_applied (run_events opts rs) of None \<Rightarrow> hs_applied s | Some m \<Rightarrow> Some m)
     \<and> filter asks_quality out = (if streamed (run_events opts rs) \<and> \<not> hs_requested s then request_for opts else [])"
proof (induction opts s rs arbitrary: t out rule: headless_loop.induct)
  case (1 opts s)
  then show ?case by simp
next
  case (2 opts s expired r rs)
  show ?case
  proof (cases "ho_seconds opts \<noteq> None \<and> expired")
    case True
    then show ?thesis using "2.prems" by (auto simp: streamed_def)
  next
    case False
    show ?thesis
    proof (cases r)
      case (EventLine ev)
      obtain s' o1 where ev: "headless_event opts s ev = (s', o1)" by fastforce
      note eff = headless_event_effect[OF ev]
      show ?thesis
      proof (cases "ev = StoppedEv")
        case True
        then have "t = s'" "out = o1" using "2.prems" False EventLine ev by auto
        then show ?thesis using eff True False EventLine by (simp add: streamed_def)
      next
        case running: False
        obtain o2 where rest: "headless_loop opts s' rs = Some (t, o2)" "out = o1 @ o2"
          using "2.prems" False EventLine ev running by auto
        have ih: "hs_streamed t = (hs_streamed s' \<or> streamed (run_events opts rs))
            \<and> hs_applied t = (case last_applied (run_events opts rs) of None \<Rightarrow> hs_applied s' | Some m \<Rightarrow> Some m)
            \<and> filter asks_quality o2 = (if streamed (run_events opts rs) \<and> \<not> hs_requested s' then request_for opts else [])"
          using "2.IH"(2)[OF False EventLine ev[symmetric] refl running rest(1)] .
        have evs: "run_events opts ((expired, r) # rs) = ev # run_events opts rs" using False EventLine running by auto
        have none: "wished opts = None \<Longrightarrow> request_for opts = []" by (simp add: request_for_def)
        have "hs_streamed t = (hs_streamed s \<or> streamed (ev # run_events opts rs))"
          using ih eff(1) by (auto simp: streamed_def)
        moreover have "hs_applied t = (case last_applied (ev # run_events opts rs) of None \<Rightarrow> hs_applied s | Some m \<Rightarrow> Some m)"
          using ih eff(2) by (simp split: option.splits)
        moreover have "filter asks_quality out = (if streamed (ev # run_events opts rs) \<and> \<not> hs_requested s then request_for opts else [])"
        proof (cases "wished opts = None")
          case True
          then show ?thesis using ih eff(4) none rest(2) by simp
        next
          case False
          then show ?thesis using ih eff(3,4) rest(2) by (cases "is_stats ev") (simp_all add: streamed_def)
        qed
        ultimately show ?thesis unfolding evs by blast
      qed
    next
      case BlankLine
      then show ?thesis using "2.IH"(1)[OF False BlankLine, of t out] "2.prems" False by auto
    next
      case UnreadableLine
      then show ?thesis using "2.IH"(3)[OF False UnreadableLine, of t out] "2.prems" False by auto
    qed (use "2.prems" False in \<open>auto simp: streamed_def\<close>)
  qed
qed

text \<open>
  C31. The exit code of a headless run tells what happened: 0 exactly when statistics arrived and, if a
  mode was asked for, the last mode the phone confirmed is that mode; and the mode is asked for once,
  and only if the stream exists.
\<close>

theorem headless_exit_tells:
  assumes "headless_loop opts headless_start rs = Some (t, out)"
  shows "(headless_exit opts t = 0 \<longleftrightarrow> streamed (run_events opts rs)
           \<and> (wished opts = None \<or> last_applied (run_events opts rs) = wished opts))
    \<and> headless_exit opts t \<in> {0, 1}
    \<and> filter asks_quality out = (if streamed (run_events opts rs) then request_for opts else [])"
  using headless_loop_effect[OF assms]
  by (auto simp: headless_exit_def headless_start_def split: option.splits)

lemma headless_exit_tells_witness:
  "\<exists>t out. headless_loop (headless_default\<lparr>ho_quality := Some (1280, 720, 60)\<rparr>) headless_start
       [(False, EventLine WaitingEv), (False, EventLine (Stats 1 1 True 1280 720 30 ''h264'')),
        (False, EventLine (QualityApplied 1280 720 60)), (False, EndOfOutput)] = Some (t, out)
     \<and> headless_exit (headless_default\<lparr>ho_quality := Some (1280, 720, 60)\<rparr>) t = 0
     \<and> filter asks_quality out = [PrepareQualityCmd 1280 720 60]"
proof -
  let ?o = "headless_default\<lparr>ho_quality := Some (1280, 720, 60)\<rparr>"
  let ?rs = "[(False, EventLine WaitingEv), (False, EventLine (Stats 1 1 True 1280 720 30 ''h264'')),
        (False, EventLine (QualityApplied 1280 720 60)), (False, EndOfOutput)]"
  have w: "wished ?o = Some (1280, 720, 60)" by (simp add: wished_def)
  obtain t out where run: "headless_loop ?o headless_start ?rs = Some (t, out)"
    by (simp add: headless_event_def wished_def headless_start_def)
  have evs: "streamed (run_events ?o ?rs)" "last_applied (run_events ?o ?rs) = Some (1280, 720, 60)"
    by (simp_all add: streamed_def)
  show ?thesis using headless_exit_tells[OF run] run evs w by (auto simp: request_for_def)
qed

section \<open>The probe\<close>

text \<open>Exchange \<open>i\<close> got its own challenge back, under its own sequence number.\<close>

definition answered :: "(nat \<Rightarrow> exchange_in) \<Rightarrow> nat \<Rightarrow> bool" where
  "answered xs i \<longleftrightarrow> (\<exists>f skipped. await_reply (ex_polls (xs i)) = Inr (Some f, skipped, False)
     \<and> kind (fr_header f) = PONG \<and> sequence (fr_header f) = of_nat i + 1
     \<and> fr_payload f = probe_challenge (of_nat i + 1))"

definition faults :: "report \<Rightarrow> nat" where
  "faults r = rp_sequence r + rp_payload r + rp_timed_out r"

definition balanced :: "report \<Rightarrow> bool" where
  "balanced r \<longleftrightarrow> rp_sent r = rp_echoed r + faults r \<and> length (rp_rtts r) = rp_echoed r"

lemma classify_echoed:
  "classify n c reply = Echoed \<longleftrightarrow>
     (\<exists>f. reply = Some f \<and> kind (fr_header f) = PONG \<and> sequence (fr_header f) = n \<and> fr_payload f = c)"
  by (auto simp: classify_def split: option.splits)

lemma count_verdict_effect:
  "rp_echoed (count_verdict v rtt r) = rp_echoed r + (if v = Echoed then 1 else 0)"
  "faults (count_verdict v rtt r) = faults r + (if v = Echoed then 0 else 1)"
  "rp_sent (count_verdict v rtt r) = rp_sent r"
  "length (rp_rtts (count_verdict v rtt r)) = length (rp_rtts r) + (if v = Echoed then 1 else 0)"
  by (cases v; simp add: count_verdict_def faults_def)+

lemma probe_run_counts:
  "probe_run index left xs r = Inr p \<Longrightarrow> balanced r \<Longrightarrow>
     balanced p \<and> faults r \<le> faults p
     \<and> (\<exists>n \<le> left. rp_echoed p = rp_echoed r + n
          \<and> (faults p = faults r \<longrightarrow> (\<forall>i. index \<le> i \<and> i < index + n \<longrightarrow> answered xs i)))"
proof (induction left arbitrary: index r)
  case 0
  then show ?case by auto
next
  case (Suc left)
  let ?n = "of_nat index + 1 :: u32"
  obtain reply skipped again where await: "await_reply (ex_polls (xs index)) = Inr (reply, skipped, again)"
    using Suc.prems(1) by (auto simp: try_r_Inr_iff Let_def)
  let ?r1 = "r\<lparr>rp_sent := rp_sent r + 1, rp_skipped := rp_skipped r + skipped, rp_rechallenged := again\<rparr>"
  have result: "(if again then Inr (?r1\<lparr>rp_sent := rp_sent ?r1 - 1\<rparr>)
      else probe_run (index + 1) left xs (count_verdict (classify ?n (probe_challenge ?n) reply) (ex_rtt (xs index)) ?r1)) = Inr p"
    using Suc.prems(1) await by (auto simp: try_r_Inr_iff Let_def)
  show ?case
  proof (cases again)
    case True
    then have p: "p = ?r1\<lparr>rp_sent := rp_sent ?r1 - 1\<rparr>" using result by simp
    have "balanced p" "faults p = faults r" "rp_echoed p = rp_echoed r" unfolding p using Suc.prems(2)
      by (simp_all add: balanced_def faults_def)
    then show ?thesis by auto
  next
    case False
    let ?v = "classify ?n (probe_challenge ?n) reply"
    let ?r2 = "count_verdict ?v (ex_rtt (xs index)) ?r1"
    have same: "faults ?r1 = faults r" "rp_echoed ?r1 = rp_echoed r" "rp_rtts ?r1 = rp_rtts r" by (simp_all add: faults_def)
    have "balanced ?r2" using Suc.prems(2) same by (simp add: balanced_def count_verdict_effect)
    moreover have run: "probe_run (index + 1) left xs ?r2 = Inr p" using result False by simp
    ultimately obtain n where ih: "balanced p" "faults ?r2 \<le> faults p" "n \<le> left" "rp_echoed p = rp_echoed ?r2 + n"
      "faults p = faults ?r2 \<longrightarrow> (\<forall>i. index + 1 \<le> i \<and> i < index + 1 + n \<longrightarrow> answered xs i)"
      using Suc.IH by blast
    show ?thesis
    proof (cases "?v = Echoed")
      case True
      have here: "answered xs index" using True await False by (auto simp: classify_echoed answered_def)
      have "rp_echoed p = rp_echoed r + (n + 1)" "faults ?r2 = faults r"
        using ih(4) True same by (simp_all add: count_verdict_effect)
      moreover have "answered xs i" if "faults p = faults r" "index \<le> i" "i < index + (n + 1)" for i
        using ih(5) that here \<open>faults ?r2 = faults r\<close> by (cases "i = index") auto
      ultimately show ?thesis using ih(1-3) by (intro conjI exI[of _ "n + 1"]) auto
    next
      case miss: False
      then have f: "faults ?r2 = faults r + 1" "rp_echoed ?r2 = rp_echoed r" using same by (simp_all add: count_verdict_effect)
      then show ?thesis using ih(1-4) by (intro conjI exI[of _ n]) auto
    qed
  qed
qed

lemma add_part_sums:
  "rp_echoed (add_part r p) = rp_echoed r + rp_echoed p" "faults (add_part r p) = faults r + faults p"
  "balanced r \<Longrightarrow> balanced p \<Longrightarrow> balanced (add_part r p)"
  by (simp_all add: add_part_def faults_def balanced_def)

lemma flag_rechallenged [simp]:
  "rp_echoed (r\<lparr>rp_rechallenged := b\<rparr>) = rp_echoed r" "faults (r\<lparr>rp_rechallenged := b\<rparr>) = faults r"
  "balanced (r\<lparr>rp_rechallenged := b\<rparr>) = balanced r"
  by (simp_all add: faults_def balanced_def)

lemma probe_rounds_counts:
  "probe_rounds part authorize seams remaining r = Inr (r', rounds) \<Longrightarrow> seams \<le> 8 \<Longrightarrow> balanced r \<Longrightarrow>
     seams < rounds \<and> rounds \<le> 9 \<and> balanced r' \<and> faults r \<le> faults r'
     \<and> (\<exists>counts. length counts = rounds - seams \<and> rp_echoed r' = rp_echoed r + sum_list counts \<and> sum_list counts \<le> remaining
          \<and> (faults r' = faults r \<longrightarrow> (\<forall>k < length counts. \<forall>i < counts ! k. answered (part (seams + k)) i)))"
proof (induction part authorize seams remaining r rule: probe_rounds.induct)
  case (1 part authorize seams remaining r)
  have bal: "balanced report_default" "rp_echoed report_default = 0" "faults report_default = 0"
    by (simp_all add: balanced_def faults_def report_default_def)
  obtain p where p: "probe_run 0 remaining (part seams) report_default = Inr p"
    using "1.prems"(1) by (auto simp: probe_rounds.simps[of part authorize seams remaining r] try_r_Inr_iff)
  obtain n where n: "balanced p" "n \<le> remaining" "rp_echoed p = n"
    "faults p = 0 \<longrightarrow> (\<forall>i < n. answered (part seams) i)"
    using probe_run_counts[OF p bal(1)] bal(2,3) by auto
  let ?r1 = "add_part r p"
  have r1: "balanced ?r1" "rp_echoed ?r1 = rp_echoed r + n" "faults ?r1 = faults r + faults p"
    using n "1.prems"(3) by (simp_all add: add_part_sums)
  have unfold: "(if remaining - n = 0 \<or> \<not> rp_rechallenged p then Inr (?r1\<lparr>rp_rechallenged := rp_rechallenged p\<rparr>, seams + 1)
      else if seams + 1 > 8 then Inr (?r1\<lparr>rp_rechallenged := True\<rparr>, seams + 1)
      else try_r (authorize (seams + 1)) (\<lambda>_. probe_rounds part authorize (seams + 1) (remaining - n) ?r1)) = Inr (r', rounds)"
    using "1.prems"(1) unfolding probe_rounds.simps[of part authorize seams remaining r] p try_r_simps Let_def n(3) .
  show ?case
  proof (cases "remaining - n = 0 \<or> \<not> rp_rechallenged p \<or> seams + 1 > 8")
    case True
    then obtain b where r': "r' = ?r1\<lparr>rp_rechallenged := b\<rparr>" "rounds = seams + 1" using unfold by (auto split: if_splits)
    show ?thesis using r1 n "1.prems"(2) unfolding r'
      by (intro conjI exI[of _ "[n]"]) auto
  next
    case False
    then have rest: "probe_rounds part authorize (seams + 1) (remaining - n) ?r1 = Inr (r', rounds)" "authorize (seams + 1) = Inr ()"
      using unfold by (auto simp: try_r_Inr_iff)
    have "seams + 1 < rounds \<and> rounds \<le> 9 \<and> balanced r' \<and> faults ?r1 \<le> faults r'
        \<and> (\<exists>counts. length counts = rounds - (seams + 1) \<and> rp_echoed r' = rp_echoed ?r1 + sum_list counts \<and> sum_list counts \<le> remaining - n
          \<and> (faults r' = faults ?r1 \<longrightarrow> (\<forall>k < length counts. \<forall>i < counts ! k. answered (part (seams + 1 + k)) i)))"
    proof (rule "1.IH"[where x = p and xa = ?r1 and xb = "remaining - n"])
      show "remaining - n = remaining - rp_echoed p" using n(3) by simp
    qed (use False rest(1) r1(1) in auto)
    then obtain counts where ih: "seams + 1 < rounds" "rounds \<le> 9" "balanced r'" "faults ?r1 \<le> faults r'"
      "length counts = rounds - (seams + 1)" "rp_echoed r' = rp_echoed ?r1 + sum_list counts" "sum_list counts \<le> remaining - n"
      "faults r' = faults ?r1 \<longrightarrow> (\<forall>k < length counts. \<forall>i < counts ! k. answered (part (seams + 1 + k)) i)" by blast
    have all: "answered (part (seams + k)) i" if "faults r' = faults r" "k < length (n # counts)" "i < (n # counts) ! k" for k i
    proof (cases k)
      case 0
      then show ?thesis using n(4) that ih(4) r1(3) by simp
    next
      case (Suc j)
      then show ?thesis using ih(8) that ih(4) r1(3) by simp
    qed
    show ?thesis using ih n r1 all by (intro conjI exI[of _ "n # counts"]) auto
  qed
qed

text \<open>
  C32. A probe that runs counts every exchange once, re-authorizes at most eight times, and passes only if
  every one of the requested round trips brought back its own sequence number and its own challenge.
\<close>

theorem probe_pass_certifies:
  assumes "probe_rounds part authorize 0 frames report_default = Inr (r, rounds)"
  shows "rounds \<le> 9 \<and> rp_sent r = rp_echoed r + rp_sequence r + rp_payload r + rp_timed_out r
    \<and> length (rp_rtts r) = rp_echoed r \<and> rp_echoed r \<le> frames
    \<and> (pass r frames \<longrightarrow> (\<exists>counts. length counts = rounds \<and> sum_list counts = frames
          \<and> (\<forall>k < rounds. \<forall>i < counts ! k. answered (part k) i)))"
proof -
  have bal: "balanced report_default" "rp_echoed report_default = 0" "faults report_default = 0"
    by (simp_all add: balanced_def faults_def report_default_def)
  obtain counts where c: "rounds \<le> 9" "balanced r" "length counts = rounds" "rp_echoed r = sum_list counts" "sum_list counts \<le> frames"
    "faults r = 0 \<longrightarrow> (\<forall>k < length counts. \<forall>i < counts ! k. answered (part k) i)"
    using probe_rounds_counts[OF assms _ bal(1)] bal(2,3) by auto
  have "faults r = 0" "sum_list counts = frames" if "pass r frames" using that c(4) by (simp_all add: pass_def faults_def)
  then show ?thesis using c by (auto simp: balanced_def faults_def)
qed

definition sample_pong :: frame where
  "sample_pong = \<lparr>fr_header = \<lparr>kind = PONG, flags = 0, sequence = 1, payload_len = 8, pts_us = 1\<rparr>,
     fr_payload = probe_challenge 1\<rparr>"

definition sample_exchange :: exchange_in where
  "sample_exchange = \<lparr>ex_send = Inr (), ex_polls = [Inr None, Inr (Some sample_pong)], ex_rtt = 700\<rparr>"

text \<open>A ping can always be framed.\<close>

lemma ping_framed: "\<exists>f. ping n = Inr f"
proof -
  have len: "length (probe_challenge n) = 8" by (simp add: probe_challenge_def)
  have "validate_payload_size \<lparr>kind = PING, flags = 0, sequence = n, payload_len = 8, pts_us = 0\<rparr> = Inr ()"
    by (simp add: validate_payload_size_def Let_def)
  then show ?thesis by (simp add: ping_def frame_new_def header_encode_def len MAX_PAYLOAD_def)
qed

lemma probe_pass_certifies_witness:
  "\<exists>r. probe_rounds (\<lambda>_ _. sample_exchange) (\<lambda>_. Inr ()) 0 1 report_default = Inr (r, 1) \<and> pass r 1
     \<and> answered (\<lambda>_. sample_exchange) 0"
proof -
  let ?r = "report_default\<lparr>rp_sent := 1, rp_echoed := 1, rp_rtts := [700]\<rparr>"
  have run: "probe_rounds (\<lambda>_ _. sample_exchange) (\<lambda>_. Inr ()) 0 1 report_default = Inr (?r, 1)"
  proof -
    obtain f where ping: "ping 1 = Inr f" using ping_framed by blast
    have reply: "await_reply (ex_polls sample_exchange) = Inr (Some sample_pong, 0, False)"
      by (simp add: sample_exchange_def sample_pong_def)
    have "classify 1 (probe_challenge 1) (Some sample_pong) = Echoed"
      by (simp add: classify_def sample_pong_def)
    then have "probe_run 0 1 (\<lambda>_. sample_exchange) report_default = Inr ?r"
      using ping reply by (simp add: Let_def sample_exchange_def count_verdict_def report_default_def)
    then show ?thesis by (simp add: probe_rounds.simps add_part_def report_default_def)
  qed
  have pass: "pass ?r 1" by (simp add: pass_def report_default_def)
  obtain counts where "length counts = 1" "sum_list counts = 1" "\<forall>k < 1. \<forall>i < counts ! k. answered (\<lambda>_. sample_exchange) i"
    using probe_pass_certifies[OF run] pass by auto
  then have "answered (\<lambda>_. sample_exchange) 0" by (cases counts) auto
  then show ?thesis using run pass by blast
qed

text \<open>The percentiles are measured values in order, around the average.\<close>

lemma sum_list_between:
  fixes xs :: "nat list"
  assumes "\<And>x. x \<in> set xs \<Longrightarrow> a \<le> x \<and> x \<le> b"
  shows "length xs * a \<le> sum_list xs \<and> sum_list xs \<le> length xs * b"
  using assms by (induction xs) (auto simp: add_mono)

lemma rtt_percentiles_ordered:
  assumes "rtt_percentiles r = Some (mn, avg, p50, p95, mx)"
  shows "mn \<le> p50 \<and> p50 \<le> p95 \<and> p95 \<le> mx \<and> mn \<le> avg \<and> avg \<le> mx \<and> {mn, p50, p95, mx} \<subseteq> set (rp_rtts r)"
proof -
  let ?xs = "sort (rp_rtts r)" and ?n = "length (rp_rtts r)"
  have n: "0 < ?n" and parts: "mn = ?xs ! 0" "p50 = ?xs ! ((?n - 1) * 50 div 100)" "p95 = ?xs ! ((?n - 1) * 95 div 100)"
    "mx = ?xs ! (?n - 1)" "avg = sum_list ?xs div ?n"
    using assms by (auto simp: rtt_percentiles_def Let_def split: if_splits)
  have mono: "?xs ! i \<le> ?xs ! j" if "i \<le> j" "j < ?n" for i j
    using sorted_nth_mono[of ?xs i j] that by simp
  have idx: "k * 50 div 100 \<le> k * 95 div 100" "k * 95 div 100 \<le> (k::nat)" for k
  proof -
    show "k * 50 div 100 \<le> k * 95 div 100" by (rule div_le_mono) simp
    have "k * 95 div 100 \<le> k * 100 div 100" by (rule div_le_mono) simp
    then show "k * 95 div 100 \<le> k" by simp
  qed
  have below: "(?n - 1) * 95 div 100 < ?n" using idx(2)[of "?n - 1"] n by linarith
  have between: "mn \<le> x \<and> x \<le> mx" if x: "x \<in> set ?xs" for x
  proof -
    obtain i where i: "i < ?n" "x = ?xs ! i" using x[unfolded in_set_conv_nth] by auto
    have "?xs ! 0 \<le> ?xs ! i" "?xs ! i \<le> ?xs ! (?n - 1)" using i(1) by (intro mono; simp)+
    then show ?thesis unfolding parts(1,4) i(2) by (rule conjI)
  qed
  have "mn \<le> avg" "avg \<le> mx"
    using sum_list_between[of ?xs mn mx, OF between] n div_le_mono[of "?n * mn" "sum_list ?xs" ?n] div_le_mono[of "sum_list ?xs" "?n * mx" ?n]
    by (simp_all add: parts(5))
  moreover have "mn \<le> p50" "p50 \<le> p95" "p95 \<le> mx" unfolding parts
    using idx[of "?n - 1"] below n by (auto intro!: mono)
  moreover have "?xs ! i \<in> set (rp_rtts r)" if "i < ?n" for i using that by (metis length_sort nth_mem set_sort)
  then have "{mn, p50, p95, mx} \<subseteq> set (rp_rtts r)" unfolding parts
    using idx(1)[of "?n - 1"] below n by auto
  ultimately show ?thesis by blast
qed

text \<open>What follows \<open>phase=\<close> is one bounded word.\<close>

lemma ttff_token_word: "ttff_token phase \<noteq> [] \<and> length (ttff_token phase) \<le> 32 \<and> (\<forall>c \<in> set (ttff_token phase). \<not> is_whitespace c)"
  by (auto simp: ttff_token_def Let_def is_whitespace_def is_ascii_digit_def chr_def dest!: in_set_takeD)

end
