(* ===== verification/Pixels.thy ===== *)
theory Pixels
  imports Picture
begin

text \<open>
  The conversion of a decoded frame to the camera's format: the checked view of an FFmpeg frame and
  the scaler key of \<open>video/ffmpeg.rs\<close>, and the cached scalers and frames and \<open>convert\<close> of
  \<open>video/pixels.rs\<close>. FFmpeg itself (the descriptor inventory, the contexts, the frames it allocates and
  the pixels a scaler writes) is the parameter \<open>ffmpeg\<close> of every operation. An error ends the session and
  drops the struct, so that an operation gives the struct or the error.
\<close>

section \<open>Frames\<close>

datatype pixel = RGBA | YUYV422 | RGB24 | OtherPixel int

text \<open>The buffer behind a plane: its address and its bytes.\<close>

record av_buffer =
  ab_data :: nat
  ab_bytes :: bytes

record av_frame =
  av_format :: pixel
  av_width :: nat
  av_height :: nat
  av_linesize :: int
  av_data :: nat
  av_buffer :: "av_buffer option"

definition av_stride :: "av_frame \<Rightarrow> error + nat" where
  "av_stride f = (if av_linesize f \<le> 0 then Inl (Msg ''invalid FFmpeg RGB/output stride'') else Inr (nat (av_linesize f)))"

text \<open>The range of the buffer that \<open>from_raw_parts\<close> is given: its offset and its length.\<close>

definition av_plane :: "av_frame \<Rightarrow> error + nat \<times> nat" where
  "av_plane f =
     try_r (av_stride f) (\<lambda>stride.
       let size = stride * av_height f
       in if 2 ^ 64 \<le> size then Inl (Msg ''FFmpeg plane overflow'')
          else case av_buffer f of
                 None \<Rightarrow> Inl (Msg ''FFmpeg output plane unavailable'')
               | Some buffer \<Rightarrow>
                   if av_data f = 0 then Inl (Msg ''FFmpeg output plane unavailable'')
                   else if av_data f < ab_data buffer then Inl (Msg ''FFmpeg plane precedes buffer'')
                   else let offset = av_data f - ab_data buffer
                        in if 2 ^ 64 \<le> offset + size \<or> length (ab_bytes buffer) < offset + size
                           then Inl (Msg ''FFmpeg plane exceeds buffer'')
                           else Inr (offset, size))"

definition buffer_bytes :: "av_frame \<Rightarrow> bytes" where
  "buffer_bytes f = (case av_buffer f of None \<Rightarrow> [] | Some buffer \<Rightarrow> ab_bytes buffer)"

definition with_bytes :: "bytes \<Rightarrow> av_frame \<Rightarrow> av_frame" where
  "with_bytes bs f = f\<lparr>av_buffer := map_option (\<lambda>buffer. buffer\<lparr>ab_bytes := bs\<rparr>) (av_buffer f)\<rparr>"

definition frame_bytes :: "av_frame \<Rightarrow> error + bytes" where
  "frame_bytes f = try_r (av_plane f) (\<lambda>(offset, size). Inr (slice offset (offset + size) (buffer_bytes f)))"

text \<open>What a caller of \<open>data_mut\<close> leaves in the plane, the rest of the buffer as it was.\<close>

definition write_frame :: "bytes \<Rightarrow> av_frame \<Rightarrow> error + av_frame" where
  "write_frame bs f =
     try_r (av_plane f) (\<lambda>(offset, size).
     try_r (put_at offset bs (buffer_bytes f)) (\<lambda>all. Inr (with_bytes all f)))"

section \<open>Scalers\<close>

record scaler =
  sc_source :: pixel
  sc_width :: nat
  sc_height :: nat
  sc_format :: pixel
  sc_out_width :: nat
  sc_out_height :: nat

record ffmpeg =
  ff_formats :: "pixel list"
  ff_context :: "scaler \<Rightarrow> bool"
  ff_frame :: "pixel \<Rightarrow> nat \<Rightarrow> nat \<Rightarrow> error + av_frame"
  ff_scale :: "scaler \<Rightarrow> av_frame \<Rightarrow> av_frame \<Rightarrow> int \<times> bytes"

definition scaler_key :: "av_frame \<Rightarrow> pixel \<Rightarrow> nat \<Rightarrow> nat \<Rightarrow> scaler" where
  "scaler_key source format width height =
     \<lparr>sc_source = av_format source, sc_width = av_width source, sc_height = av_height source,
      sc_format = format, sc_out_width = width, sc_out_height = height\<rparr>"

definition scaler_matches :: "scaler \<Rightarrow> av_frame \<Rightarrow> pixel \<Rightarrow> nat \<Rightarrow> nat \<Rightarrow> bool" where
  "scaler_matches s source format width height \<longleftrightarrow> s = scaler_key source format width height"

fun resolve_format :: "pixel \<Rightarrow> pixel list \<Rightarrow> error + pixel" where
  "resolve_format format [] = Inl (Msg ''invalid decoded pixel format'')"
| "resolve_format format (d # ds) = (if d = format then Inr d else resolve_format format ds)"

definition scaler_new :: "ffmpeg \<Rightarrow> av_frame \<Rightarrow> pixel \<Rightarrow> nat \<Rightarrow> nat \<Rightarrow> error + scaler" where
  "scaler_new ff source format width height =
     try_r (resolve_format (av_format source) (ff_formats ff)) (\<lambda>_.
       let s = scaler_key source format width height
       in if ff_context ff s then Inr s else Inl (Msg ''FFmpeg scaling context unavailable''))"

definition scaler_run :: "ffmpeg \<Rightarrow> scaler \<Rightarrow> av_frame \<Rightarrow> av_frame \<Rightarrow> error + av_frame" where
  "scaler_run ff s source destination =
     (if av_width source \<noteq> sc_width s \<or> av_height source \<noteq> sc_height s \<or> av_format source \<noteq> sc_source s
         \<or> av_format destination \<noteq> sc_format s \<or> av_width destination \<noteq> sc_out_width s
         \<or> av_height destination \<noteq> sc_out_height s
      then Inl (Msg ''FFmpeg scaler dimensions changed'')
      else let (rows, bs) = ff_scale ff s source destination
           in if rows \<noteq> int (sc_out_height s) then Inl (Msg ''pixel conversion produced a wrong number of rows'')
              else Inr (with_bytes bs destination))"

section \<open>The cache\<close>

record pixels =
  px_direct :: "scaler option"
  px_to_rgb :: "scaler option"
  px_fitted :: "scaler option"
  px_converted :: "av_frame option"
  px_rgb :: "av_frame option"
  px_rotated :: "av_frame option"
  px_fit_frame :: "av_frame option"
  px_bytes :: bytes

definition pixels_new :: pixels where
  "pixels_new = \<lparr>px_direct = None, px_to_rgb = None, px_fitted = None, px_converted = None, px_rgb = None,
     px_rotated = None, px_fit_frame = None, px_bytes = []\<rparr>"

definition scaler_slot :: "ffmpeg \<Rightarrow> scaler option \<Rightarrow> av_frame \<Rightarrow> pixel \<Rightarrow> nat \<Rightarrow> nat \<Rightarrow> error + scaler" where
  "scaler_slot ff slot source format width height =
     (case slot of
        Some s \<Rightarrow> if scaler_matches s source format width height then Inr s
                   else scaler_new ff source format width height
      | None \<Rightarrow> scaler_new ff source format width height)"

definition frame_slot :: "ffmpeg \<Rightarrow> av_frame option \<Rightarrow> pixel \<Rightarrow> nat \<Rightarrow> nat \<Rightarrow> error + av_frame" where
  "frame_slot ff slot format width height =
     (case slot of
        Some f \<Rightarrow> if av_format f \<noteq> format \<or> av_width f \<noteq> width \<or> av_height f \<noteq> height
                   then ff_frame ff format width height else Inr f
      | None \<Rightarrow> ff_frame ff format width height)"

section \<open>Conversion\<close>

definition resized :: "nat \<Rightarrow> bytes \<Rightarrow> bytes" where
  "resized n bs = take n bs @ replicate (n - length bs) 0"

definition output_format :: "bool \<Rightarrow> pixel" where
  "output_format rgba = (if rgba then RGBA else YUYV422)"

definition bytes_per_pixel :: "bool \<Rightarrow> nat" where
  "bytes_per_pixel rgba = (if rgba then 4 else 2)"

text \<open>Rows \<open>ys\<close> of a frame, \<open>n\<close> bytes each, put where \<open>pos\<close> says.\<close>

fun copy_rows :: "av_frame \<Rightarrow> nat \<Rightarrow> (nat \<Rightarrow> nat) \<Rightarrow> nat list \<Rightarrow> bytes \<Rightarrow> error + bytes" where
  "copy_rows f n pos [] bs = Inr bs"
| "copy_rows f n pos (y # ys) bs =
     try_r (frame_bytes f) (\<lambda>plane.
     try_r (av_stride f) (\<lambda>stride.
     try_r (get_at (y * stride) n plane) (\<lambda>row.
     try_r (put_at (pos y) row bs) (copy_rows f n pos ys))))"

fun set_bytes :: "u8 \<Rightarrow> nat list \<Rightarrow> bytes \<Rightarrow> error + bytes" where
  "set_bytes v [] bs = Inr bs"
| "set_bytes v (i # ks) bs = (if i < length bs then set_bytes v ks (bs[i := v]) else index_panic)"

definition fill_black :: "bool \<Rightarrow> nat \<Rightarrow> nat \<Rightarrow> nat \<Rightarrow> bytes \<Rightarrow> error + bytes" where
  "fill_black rgba width height stride bs =
     (if rgba then Inr (map (\<lambda>k. if k mod 4 = 3 then 255 else 0) [0..<length bs])
      else set_bytes 16 (concat (map (\<lambda>y. map (\<lambda>x. y * stride + 2 * x) [0..<width]) [0..<height]))
             (replicate (length bs) 128))"

definition convert_upright ::
  "ffmpeg \<Rightarrow> bool \<Rightarrow> av_frame \<Rightarrow> nat \<Rightarrow> nat \<Rightarrow> nat \<Rightarrow> pixels \<Rightarrow> error + pixels" where
  "convert_upright ff rgba source width height stride p =
     (let format = output_format rgba
      in try_r (scaler_slot ff (px_direct p) source format width height) (\<lambda>direct.
         try_r (frame_slot ff (px_converted p) format width height) (\<lambda>frame.
         try_r (scaler_run ff direct source frame) (\<lambda>converted.
         try_r (copy_rows converted (width * bytes_per_pixel rgba) (\<lambda>y. y * stride) [0..<height] (px_bytes p)) (\<lambda>bs.
           Inr (p\<lparr>px_direct := Some direct, px_converted := Some converted, px_bytes := bs\<rparr>))))))"

definition convert_turned ::
  "ffmpeg \<Rightarrow> bool \<Rightarrow> av_frame \<Rightarrow> nat \<Rightarrow> nat \<Rightarrow> nat \<Rightarrow> nat \<Rightarrow> pixels \<Rightarrow> error + pixels" where
  "convert_turned ff rgba source width height stride angle p =
     try_r (scaler_slot ff (px_to_rgb p) source RGB24 width height) (\<lambda>to_rgb.
     try_r (frame_slot ff (px_rgb p) RGB24 width height) (\<lambda>frame.
     try_r (scaler_run ff to_rgb source frame) (\<lambda>rgb.
       let (w, h) = turned_size width height angle
       in try_r (frame_slot ff (px_rotated p) RGB24 w h) (\<lambda>blank.
          try_r (av_stride blank) (\<lambda>out_stride.
          try_r (frame_bytes rgb) (\<lambda>src.
          try_r (av_stride rgb) (\<lambda>in_stride.
          try_r (frame_bytes blank) (\<lambda>dst.
          try_r (rotate_pic src width height in_stride dst out_stride angle) (\<lambda>turned.
          try_r (write_frame turned blank) (\<lambda>rotated.
          try_r (fit w h width height) (\<lambda>rect.
          try_r (scaler_slot ff (px_fitted p) rotated (output_format rgba) (r_width rect) (r_height rect)) (\<lambda>fitter.
          try_r (frame_slot ff (px_fit_frame p) (output_format rgba) (r_width rect) (r_height rect)) (\<lambda>empty.
          try_r (scaler_run ff fitter rotated empty) (\<lambda>fitted.
          try_r (fill_black rgba width height stride (px_bytes p)) (\<lambda>black.
          try_r (copy_rows fitted (r_width rect * bytes_per_pixel rgba)
                   (\<lambda>y. (y + r_y rect) * stride + r_x rect * bytes_per_pixel rgba) [0..<r_height rect] black) (\<lambda>bs.
            Inr (p\<lparr>px_to_rgb := Some to_rgb, px_rgb := Some rgb, px_rotated := Some rotated, px_fitted := Some fitter,
                   px_fit_frame := Some fitted, px_bytes := bs\<rparr>)))))))))))))))))"

definition convert ::
  "ffmpeg \<Rightarrow> bool \<Rightarrow> av_frame \<Rightarrow> config \<Rightarrow> nat \<Rightarrow> nat \<Rightarrow> transform \<Rightarrow> pixels \<Rightarrow> error + pixels" where
  "convert ff rgba source c stride capacity t p =
     (let width = unat (cf_width c); height = unat (cf_height c); p1 = p\<lparr>px_bytes := resized capacity (px_bytes p)\<rparr>
      in try_r (if tr_rotation t = 0 then convert_upright ff rgba source width height stride p1
                else convert_turned ff rgba source width height stride (tr_rotation t) p1) (\<lambda>p2.
         try_r (flips (px_bytes p2) width height stride rgba (tr_mirror t) (tr_vertical t \<noteq> rgba)) (\<lambda>bs.
           Inr (p2\<lparr>px_bytes := bs\<rparr>))))"

end
