(* ===== verification/Pixels_Props.thy ===== *)
theory Pixels_Props
  imports Pixels Picture_Props
begin

text \<open>
  The view of a frame never leaves its buffer, a scaler is never run on frames of other dimensions than
  its own whatever the cache holds, and what \<open>convert\<close> leaves in the output buffer is the scaled picture,
  upright or turned and boxed in black, mirrored and flipped as the settings say.
\<close>

section \<open>Frames\<close>

fun format_bytes :: "pixel \<Rightarrow> nat" where
  "format_bytes RGBA = 4"
| "format_bytes YUYV422 = 2"
| "format_bytes RGB24 = 3"
| "format_bytes (OtherPixel n) = 0"

lemma output_format_bytes [simp]: "format_bytes (output_format rgba) = bytes_per_pixel rgba"
  by (simp add: output_format_def bytes_per_pixel_def)

lemma row_bytes_bpp: "row_bytes_of rgba width = width * bytes_per_pixel rgba"
  by (simp add: row_bytes_of_def bytes_per_pixel_def)

text \<open>A frame whose plane is inside its buffer and whose rows hold its pixels.\<close>

definition sound_frame :: "av_frame \<Rightarrow> bool" where
  "sound_frame f \<longleftrightarrow> \<not> isl (av_plane f) \<and> av_width f * format_bytes (av_format f) \<le> nat (av_linesize f)"

abbreviation pitch :: "av_frame \<Rightarrow> nat" where
  "pitch f \<equiv> nat (av_linesize f)"

lemma plane_inside:
  assumes "av_plane f = Inr (offset, n)"
  shows "0 < av_linesize f \<and> n = pitch f * av_height f \<and> n < 2 ^ 64
    \<and> (\<exists>buffer. av_buffer f = Some buffer \<and> ab_data buffer \<le> av_data f \<and> offset = av_data f - ab_data buffer
          \<and> offset + n \<le> length (ab_bytes buffer))"
  using assms by (auto simp: av_plane_def av_stride_def Let_def try_r_Inr_iff split: if_splits option.splits)

definition plane_of :: "av_frame \<Rightarrow> bytes" where
  "plane_of f = (case frame_bytes f of Inl e \<Rightarrow> [] | Inr bs \<Rightarrow> bs)"

lemma sound_frameD:
  assumes "sound_frame f"
  obtains offset where "av_plane f = Inr (offset, pitch f * av_height f)" "av_stride f = Inr (pitch f)"
    "offset + pitch f * av_height f \<le> length (buffer_bytes f)" "av_buffer f \<noteq> None"
    "frame_bytes f = Inr (plane_of f)" "length (plane_of f) = pitch f * av_height f"
    "plane_of f = slice offset (offset + pitch f * av_height f) (buffer_bytes f)"
    "av_width f * format_bytes (av_format f) \<le> pitch f"
proof -
  obtain offset n where p: "av_plane f = Inr (offset, n)"
    using assms by (cases "av_plane f") (auto simp: sound_frame_def)
  note i = plane_inside[OF p]
  have n: "n = pitch f * av_height f" using i by blast
  have l: "offset + n \<le> length (buffer_bytes f)" using i by (auto simp: buffer_bytes_def)
  have b: "frame_bytes f = Inr (slice offset (offset + n) (buffer_bytes f))" by (simp add: frame_bytes_def p)
  show thesis
    by (rule that[of offset])
      (use p n l b i assms in \<open>auto simp: plane_of_def length_slice av_stride_def sound_frame_def\<close>)
qed

lemma with_bytes_same [simp]:
  "av_format (with_bytes bs f) = av_format f" "av_width (with_bytes bs f) = av_width f"
  "av_height (with_bytes bs f) = av_height f" "av_linesize (with_bytes bs f) = av_linesize f"
  "av_data (with_bytes bs f) = av_data f" "av_stride (with_bytes bs f) = av_stride f"
  by (simp_all add: with_bytes_def av_stride_def)

lemma with_bytes_plane:
  assumes "length bs = length (buffer_bytes f)"
  shows "av_plane (with_bytes bs f) = av_plane f"
proof (cases "av_buffer f")
  case None
  then show ?thesis by (simp add: av_plane_def with_bytes_def av_stride_def Let_def)
next
  case (Some buffer)
  then show ?thesis using assms by (simp add: av_plane_def with_bytes_def buffer_bytes_def av_stride_def Let_def)
qed

lemma with_bytes_sound: "length bs = length (buffer_bytes f) \<Longrightarrow> sound_frame f \<Longrightarrow> sound_frame (with_bytes bs f)"
  by (simp add: sound_frame_def with_bytes_plane)

lemma write_frame_sound:
  assumes f: "sound_frame f" and n: "length bs = pitch f * av_height f"
  obtains f' where "write_frame bs f = Inr f'" "sound_frame f'" "plane_of f' = bs" "av_format f' = av_format f"
    "av_width f' = av_width f" "av_height f' = av_height f" "pitch f' = pitch f"
proof -
  obtain offset where o: "av_plane f = Inr (offset, length bs)" "offset + length bs \<le> length (buffer_bytes f)"
    "av_buffer f \<noteq> None" using sound_frameD[OF f] n by metis
  let ?all = "take offset (buffer_bytes f) @ bs @ drop (offset + length bs) (buffer_bytes f)"
  have len: "length ?all = length (buffer_bytes f)" using o(2) by simp
  have run: "write_frame bs f = Inr (with_bytes ?all f)" using o by (simp add: write_frame_def)
  have "buffer_bytes (with_bytes ?all f) = ?all" using o(3) by (auto simp: buffer_bytes_def with_bytes_def)
  then have "plane_of (with_bytes ?all f) = bs"
    using o(1,2) with_bytes_plane[OF len] by (simp add: plane_of_def frame_bytes_def slice_def)
  then show thesis using that[OF run with_bytes_sound[OF len f]] by simp
qed


section \<open>The library\<close>

text \<open>
  What the code relies on: a frame FFmpeg allocated has the format and the size asked for and a plane
  that holds its rows, and a scaler writes inside the buffer of its destination.
\<close>

definition ffmpeg_ok :: "ffmpeg \<Rightarrow> bool" where
  "ffmpeg_ok ff \<longleftrightarrow>
     (\<forall>format w h f. ff_frame ff format w h = Inr f
        \<longrightarrow> av_format f = format \<and> av_width f = w \<and> av_height f = h \<and> sound_frame f)
     \<and> (\<forall>s a b. length (snd (ff_scale ff s a b)) = length (buffer_bytes b))"

definition conversion_failure :: "ffmpeg \<Rightarrow> error \<Rightarrow> bool" where
  "conversion_failure ff e \<longleftrightarrow>
     e \<in> {Msg ''invalid decoded pixel format'', Msg ''FFmpeg scaling context unavailable'',
          Msg ''pixel conversion produced a wrong number of rows'', Msg ''invalid rotation'',
          Msg ''rotated image is too narrow''}
     \<or> (\<exists>format w h. ff_frame ff format w h = Inl e)"

lemma resolve_format_error: "resolve_format format ds = Inl e \<Longrightarrow> e = Msg ''invalid decoded pixel format''"
  by (induction ds) (auto split: if_splits)

lemma scaler_slot_cases:
  "case scaler_slot ff slot source format w h of
     Inl e \<Rightarrow> conversion_failure ff e
   | Inr s \<Rightarrow> s = scaler_key source format w h"
  by (auto simp: scaler_slot_def scaler_matches_def scaler_new_def Let_def conversion_failure_def try_r_def
      dest: resolve_format_error split: option.splits sum.splits)

lemma frame_slot_cases:
  assumes "ffmpeg_ok ff" "pred_option sound_frame slot"
  shows "case frame_slot ff slot format w h of
     Inl e \<Rightarrow> conversion_failure ff e
   | Inr f \<Rightarrow> sound_frame f \<and> av_format f = format \<and> av_width f = w \<and> av_height f = h"
  using assms
  by (auto simp: frame_slot_def ffmpeg_ok_def conversion_failure_def split: option.splits sum.splits)

text \<open>
  A frame that holds what FFmpeg wrote when the scaler for exactly this source, format and size was run
  on this source, into a frame of that format and size.
\<close>

definition scaled_from :: "ffmpeg \<Rightarrow> av_frame \<Rightarrow> pixel \<Rightarrow> nat \<Rightarrow> nat \<Rightarrow> av_frame \<Rightarrow> bool" where
  "scaled_from ff source format w h d \<longleftrightarrow>
     (\<exists>target bs. sound_frame target \<and> av_format target = format \<and> av_width target = w \<and> av_height target = h
        \<and> ff_scale ff (scaler_key source format w h) source target = (int h, bs) \<and> d = with_bytes bs target)"

lemma scaler_run_cases:
  assumes "ffmpeg_ok ff" "sound_frame d"
  shows "case scaler_run ff (scaler_key source (av_format d) (av_width d) (av_height d)) source d of
     Inl e \<Rightarrow> conversion_failure ff e
   | Inr d' \<Rightarrow> sound_frame d' \<and> av_format d' = av_format d \<and> av_width d' = av_width d \<and> av_height d' = av_height d
       \<and> scaled_from ff source (av_format d) (av_width d) (av_height d) d'"
proof -
  let ?r = "ff_scale ff (scaler_key source (av_format d) (av_width d) (av_height d)) source d"
  have "sound_frame (with_bytes (snd ?r) d)" using assms by (intro with_bytes_sound) (simp_all add: ffmpeg_ok_def)
  moreover have "scaled_from ff source (av_format d) (av_width d) (av_height d) (with_bytes (snd ?r) d)"
    if "fst ?r = int (av_height d)"
    unfolding scaled_from_def using assms(2) that
    by (intro exI[of _ d] exI[of _ "snd ?r"]) (simp add: prod_eq_iff)
  ultimately show ?thesis
    by (auto simp: scaler_run_def scaler_key_def conversion_failure_def split: prod.splits)
qed

text \<open>The three steps that make every intermediate frame.\<close>

lemma scaled_into:
  assumes ok: "ffmpeg_ok ff" "pred_option sound_frame slot"
    and r: "r = try_r (scaler_slot ff sc source format w h) (\<lambda>s.
           try_r (frame_slot ff slot format w h) (\<lambda>f. try_r (scaler_run ff s source f) (\<lambda>d. g s d)))"
  obtains (fails) e where "r = Inl e" "conversion_failure ff e"
    | (scaled) s d where "r = g s d" "sound_frame d" "av_format d = format" "av_width d = w" "av_height d = h"
        "scaled_from ff source format w h d"
proof (cases "scaler_slot ff sc source format w h")
  case (Inl e)
  then show ?thesis using scaler_slot_cases[of ff source format w h sc] r fails by simp
next
  case s: (Inr s)
  note key = scaler_slot_cases[of ff source format w h sc, unfolded s, simplified]
  show ?thesis
  proof (cases "frame_slot ff slot format w h")
    case (Inl e)
    then show ?thesis using s frame_slot_cases[OF ok, of format w h] r fails by simp
  next
    case f: (Inr f)
    have sound: "sound_frame f" "av_format f = format" "av_width f = w" "av_height f = h"
      using frame_slot_cases[OF ok, of format w h] by (simp_all add: f)
    note run = scaler_run_cases[OF ok(1) sound(1), of source, unfolded sound(2-4)]
    show ?thesis
    proof (cases "scaler_run ff s source f")
      case (Inl e)
      then show ?thesis using run r s f key fails by simp
    next
      case (Inr d)
      then show ?thesis using run r s f key scaled[of s d] by simp
    qed
  qed
qed

section \<open>Copying rows\<close>

text \<open>What a buffer shows where \<open>g\<close> says nothing is what it showed before.\<close>

definition overlay :: "(nat \<Rightarrow> u8 option) \<Rightarrow> bytes \<Rightarrow> bytes" where
  "overlay g bs = map (\<lambda>k. case g k of None \<Rightarrow> bs ! k | Some v \<Rightarrow> v) [0..<length bs]"

lemma overlay_simps [simp]:
  "length (overlay g bs) = length bs"
  "k < length bs \<Longrightarrow> overlay g bs ! k = (case g k of None \<Rightarrow> bs ! k | Some v \<Rightarrow> v)"
  "overlay (\<lambda>k. None) bs = bs"
  by (simp_all add: overlay_def map_nth split: option.split)

text \<open>Rows \<open>ys\<close> of a plane with the given pitch, shown \<open>a\<close> rows down and \<open>b\<close> bytes to the right.\<close>

definition rows_at :: "bytes \<Rightarrow> nat \<Rightarrow> nat \<Rightarrow> nat \<Rightarrow> nat \<Rightarrow> nat \<Rightarrow> nat set \<Rightarrow> nat \<Rightarrow> u8 option" where
  "rows_at plane line n stride a b ys k =
     (if b \<le> k mod stride \<and> k mod stride < b + n \<and> a \<le> k div stride \<and> k div stride - a \<in> ys
      then Some (plane ! ((k div stride - a) * line + (k mod stride - b))) else None)"

lemma rows_at_insert:
  "overlay (rows_at plane line n stride a b ys) (overlay (rows_at plane line n stride a b {y}) bs)
     = overlay (rows_at plane line n stride a b (insert y ys)) bs"
  by (rule nth_equalityI) (auto simp: rows_at_def)

lemma column_index:
  fixes n stride :: nat
  assumes "b + n \<le> stride"
  shows "y * stride + b \<le> k \<and> k < y * stride + b + n \<longleftrightarrow> b \<le> k mod stride \<and> k mod stride < b + n \<and> k div stride = y"
proof -
  have "k mod stride < b + n \<and> k div stride = y \<longleftrightarrow> y * stride \<le> k \<and> k < y * stride + (b + n)"
    using row_index(3)[OF assms] by blast
  moreover have "k div stride = y \<Longrightarrow> k = y * stride + k mod stride" by (metis div_mult_mod_eq)
  ultimately show ?thesis by linarith
qed

lemma put_row_at:
  assumes "b + n \<le> stride" "(y + a) * stride + b + n \<le> length bs" "y * line + n \<le> length plane"
  shows "put_at ((y + a) * stride + b) (slice (y * line) (y * line + n) plane) bs
     = Inr (overlay (rows_at plane line n stride a b {y}) bs)" (is "_ = Inr ?r")
proof -
  let ?row = "slice (y * line) (y * line + n) plane" and ?i = "(y + a) * stride + b"
  have len: "length ?row = n" using assms(3) by (simp add: length_slice)
  have "take ?i bs @ ?row @ drop (?i + length ?row) bs = ?r"
  proof (rule nth_equalityI)
    show "length (take ?i bs @ ?row @ drop (?i + length ?row) bs) = length ?r" using assms(2) len by simp
    fix k assume "k < length (take ?i bs @ ?row @ drop (?i + length ?row) bs)"
    then have k: "k < length bs" using assms(2) len by simp
    have l: "(take ?i bs @ ?row @ drop (?i + length ?row) bs) ! k
        = (if ?i \<le> k \<and> k < ?i + n then ?row ! (k - ?i) else bs ! k)"
      using nth_put[of ?i ?row bs k] assms(2) k unfolding len by simp
    note at = column_index[OF assms(1), of "y + a" k]
    show "(take ?i bs @ ?row @ drop (?i + length ?row) bs) ! k = ?r ! k"
    proof (cases "?i \<le> k \<and> k < ?i + n")
      case True
      then have d: "b \<le> k mod stride" "k mod stride < b + n" "k div stride = y + a" using at by blast+
      have "k - ?i = k mod stride - b" using d(3) by (metis diff_diff_left minus_div_mult_eq_mod)
      then show ?thesis using l True d k assms(3) by (simp add: rows_at_def nth_slice)
    next
      case False
      then have "\<not> (b \<le> k mod stride \<and> k mod stride < b + n \<and> k div stride = y + a)" using at by blast
      then have "rows_at plane line n stride a b {y} k = None" by (auto simp: rows_at_def)
      then show ?thesis using l False k by simp
    qed
  qed
  then show ?thesis using assms(2) len by (simp add: put_at_def)
qed

lemma copy_rows_overlay:
  assumes f: "sound_frame f" "n \<le> pitch f" and b: "b + n \<le> stride"
  shows "\<forall>y \<in> set ys. y < av_height f \<and> (y + a) * stride + b + n \<le> length bs \<Longrightarrow>
    copy_rows f n (\<lambda>y. (y + a) * stride + b) ys bs
     = Inr (overlay (rows_at (plane_of f) (pitch f) n stride a b (set ys)) bs)"
proof (induction ys arbitrary: bs)
  case Nil
  show ?case by (simp add: rows_at_def)
next
  case (Cons y ys)
  have y: "y < av_height f" "(y + a) * stride + b + n \<le> length bs" using Cons.prems by simp_all
  have plane: "frame_bytes f = Inr (plane_of f)" "av_stride f = Inr (pitch f)"
    "length (plane_of f) = pitch f * av_height f" using sound_frameD[OF f(1)] by blast+
  have "(y + 1) * pitch f \<le> av_height f * pitch f" using y by (intro mult_right_mono) simp_all
  then have inside: "y * pitch f + n \<le> length (plane_of f)" using f(2) plane(3) by (simp add: mult.commute)
  let ?bs = "overlay (rows_at (plane_of f) (pitch f) n stride a b {y}) bs"
  have "copy_rows f n (\<lambda>y. (y + a) * stride + b) (y # ys) bs = copy_rows f n (\<lambda>y. (y + a) * stride + b) ys ?bs"
    using put_row_at[OF b y(2) inside] by (simp add: plane(1,2) inside)
  also have "\<dots> = Inr (overlay (rows_at (plane_of f) (pitch f) n stride a b (set ys)) ?bs)"
    using Cons.IH[of ?bs] Cons.prems by simp
  finally show ?case by (simp add: rows_at_insert)
qed


section \<open>The black picture\<close>

lemma set_bytes_overlay:
  "\<forall>i \<in> set ks. i < length bs \<Longrightarrow> set_bytes v ks bs = Inr (overlay (\<lambda>k. if k \<in> set ks then Some v else None) bs)"
proof (induction ks arbitrary: bs)
  case Nil
  show ?case by simp
next
  case (Cons i ks)
  let ?g = "\<lambda>ks k. if k \<in> set ks then Some v else None"
  have "set_bytes v (i # ks) bs = Inr (overlay (?g ks) (bs[i := v]))" using Cons by simp
  also have "overlay (?g ks) (bs[i := v]) = overlay (?g (i # ks)) bs"
    by (rule nth_equalityI) (simp_all add: nth_list_update)
  finally show ?case .
qed

definition black_pixel :: "bool \<Rightarrow> bytes" where
  "black_pixel rgba = (if rgba then [0, 0, 0, 255] else [16, 128, 128])"

definition pixel_at :: "bool \<Rightarrow> nat \<Rightarrow> bytes \<Rightarrow> nat \<Rightarrow> nat \<Rightarrow> bytes" where
  "pixel_at rgba stride bs x y = map (\<lambda>c. bs ! (y * stride + c)) (pixel_columns rgba x)"

lemma output_picture_pixels: "output_picture rgba width height stride bs = picture_of width height (pixel_at rgba stride bs)"
  unfolding output_picture_def pixel_at_def[abs_def] ..

lemma row_below: "y < height \<Longrightarrow> c < stride \<Longrightarrow> stride * height \<le> n \<Longrightarrow> y * stride + c < (n :: nat)"
proof -
  assume a: "y < height" "c < stride" "stride * height \<le> n"
  then have "(y + 1) * stride \<le> height * stride" by (intro mult_right_mono) simp_all
  then show ?thesis using a by (simp add: mult.commute)
qed

lemma fill_black_shows:
  assumes w: "even width" and s: "row_bytes_of rgba width \<le> stride" "rgba \<longrightarrow> 4 dvd stride"
    and l: "stride * height \<le> length bs"
  obtains bs' where "fill_black rgba width height stride bs = Inr bs'" "length bs' = length bs"
    "\<And>x y. x < width \<Longrightarrow> y < height \<Longrightarrow> pixel_at rgba stride bs' x y = black_pixel rgba"
proof (cases rgba)
  case True
  let ?bs = "map (\<lambda>k. if k mod 4 = 3 then 255 else 0) [0..<length bs] :: bytes"
  have "pixel_at rgba stride ?bs x y = black_pixel rgba" if x: "x < width" and y: "y < height" for x y
  proof -
    obtain q where q: "stride = 4 * q" using s(2) True by (auto elim: dvdE)
    have "?bs ! (y * stride + (4 * x + r)) = (if r = 3 then 255 else 0)" if r: "r < 4" for r
    proof -
      have "4 * x + r < stride" using x r s(1) True by (simp add: row_bytes_of_def)
      then have "y * stride + (4 * x + r) < length bs" using row_below[OF y _ l] by blast
      then have "?bs ! (y * stride + (4 * x + r)) = (if (y * stride + (4 * x + r)) mod 4 = 3 then 255 else 0)" by simp
      moreover have "y * stride + (4 * x + r) = 4 * (y * q + x) + r" by (simp add: q algebra_simps)
      moreover have "(4 * (y * q + x) + r) mod 4 = r" using r by (simp only: mod_mult_self4 mod_less)
      ultimately show ?thesis by (simp only:)
    qed
    from this[of 0] this[of 1] this[of 2] this[of 3] show ?thesis
      by (simp add: pixel_at_def pixel_columns_def black_pixel_def True add.assoc)
  qed
  then show thesis using that[of ?bs] True by (simp add: fill_black_def)
next
  case False
  let ?ks = "concat (map (\<lambda>y. map (\<lambda>x. y * stride + 2 * x) [0..<width]) [0..<height])"
  let ?bs = "overlay (\<lambda>k. if k \<in> set ?ks then Some 16 else None) (replicate (length bs) 128)"
  have n: "2 * width \<le> stride" using s(1) False by (simp add: row_bytes_of_def)
  have inside: "y * stride + c < length bs" if "y < height" "c < 2 * width" for y c
    using row_below[OF that(1) _ l, of c] that(2) n by simp
  have "set_bytes 16 ?ks (replicate (length bs) 128) = Inr ?bs"
    by (rule set_bytes_overlay) (auto intro!: inside)
  then have run: "fill_black rgba width height stride bs = Inr ?bs" using False by (simp add: fill_black_def)
  have luma: "y * stride + c \<in> set ?ks \<longleftrightarrow> even c" if y: "y < height" and c: "c < 2 * width" for y c
  proof
    assume "y * stride + c \<in> set ?ks"
    then obtain y' x where e: "y * stride + c = y' * stride + 2 * x" "x < width" by auto
    have "(y * stride + c) mod stride = c" "(y' * stride + 2 * x) mod stride = 2 * x"
      using row_index(2)[OF n] c e(2) by simp_all
    then show "even c" using e(1) by simp
  next
    assume "even c"
    then obtain b where "c = 2 * b" "b < width" using c by (auto elim: evenE)
    then show "y * stride + c \<in> set ?ks" using y by (auto intro!: bexI[of _ y] image_eqI[of _ _ b])
  qed
  have "pixel_at rgba stride ?bs x y = black_pixel rgba" if x: "x < width" and y: "y < height" for x y
  proof -
    have c: "?bs ! (y * stride + c) = (if even c then 16 else 128)" if "c \<in> set (pixel_columns False x)" for c
    proof -
      have "c < 2 * width" using pixel_columns_bound[OF x _ that] w by (simp add: row_bytes_of_def)
      then show ?thesis using luma[OF y] inside[OF y] by (simp del: set_concat)
    qed
    show ?thesis using c[of "2 * x"] c[of "4 * (x div 2) + 1"] c[of "4 * (x div 2) + 3"]
      by (simp add: pixel_at_def pixel_columns_def black_pixel_def False del: set_concat)
  qed
  then show thesis using that[OF run] by simp
qed

section \<open>The boxed picture\<close>

definition boxed :: "nat \<Rightarrow> nat \<Rightarrow> rect \<Rightarrow> 'p \<Rightarrow> 'p list list \<Rightarrow> 'p list list" where
  "boxed width height r black pic = picture_of width height (\<lambda>x y.
     if r_x r \<le> x \<and> x < r_x r + r_width r \<and> r_y r \<le> y \<and> y < r_y r + r_height r
     then pic ! (y - r_y r) ! (x - r_x r) else black)"

lemma columns_shift:
  assumes "rgba \<or> even a" "a \<le> x"
  shows "pixel_columns rgba x = map (\<lambda>c. c + a * bytes_per_pixel rgba) (pixel_columns rgba (x - a))"
proof (cases rgba)
  case True
  then show ?thesis using assms(2) by (auto simp: pixel_columns_def bytes_per_pixel_def)
next
  case False
  then obtain q where "a = 2 * q" using assms(1) by auto
  moreover obtain d where "x = a + d" using assms(2) by (metis le_iff_add)
  ultimately show ?thesis using False by (simp add: pixel_columns_def bytes_per_pixel_def)
qed

lemma columns_in_rect:
  assumes "rgba \<or> even a \<and> even w" "c \<in> set (pixel_columns rgba x)"
  shows "a * bytes_per_pixel rgba \<le> c \<and> c < a * bytes_per_pixel rgba + w * bytes_per_pixel rgba \<longleftrightarrow> a \<le> x \<and> x < a + w"
proof (cases rgba)
  case True
  then show ?thesis using assms(2) by (auto simp: pixel_columns_def bytes_per_pixel_def)
next
  case False
  then obtain q r where "a = 2 * q" "w = 2 * r" using assms(1) by (auto elim!: evenE)
  moreover obtain d e where "x = 2 * d + e" "e < 2" by (metis mult_div_mod_eq mod_less_divisor zero_less_numeral)
  ultimately show ?thesis using False assms(2) by (auto simp: pixel_columns_def bytes_per_pixel_def) presburger+
qed

lemma boxed_shows:
  assumes w: "even width" and s: "row_bytes_of rgba width \<le> stride" "stride * height \<le> length bs"
    and r: "rgba \<or> even (r_x r) \<and> even (r_width r)" "r_x r + r_width r \<le> width" "r_y r + r_height r \<le> height"
    and black: "\<And>x y. x < width \<Longrightarrow> y < height \<Longrightarrow> pixel_at rgba stride bs x y = black"
  shows "output_picture rgba width height stride
      (overlay (rows_at plane line (r_width r * bytes_per_pixel rgba) stride (r_y r) (r_x r * bytes_per_pixel rgba)
          {0..<r_height r}) bs)
    = boxed width height r black (output_picture rgba (r_width r) (r_height r) line plane)"
    (is "output_picture _ _ _ _ (overlay ?g bs) = _")
proof (unfold output_picture_pixels boxed_def, rule picture_of_cong)
  fix x y assume x: "x < width" and y: "y < height"
  let ?b = "bytes_per_pixel rgba"
  have in_row: "c < stride" "y * stride + c < length bs" if "c \<in> set (pixel_columns rgba x)" for c
    using pixel_columns_bound[OF x _ that] w s(1) row_below[OF y _ s(2), of c] by simp_all
  have g: "?g (y * stride + c) = (if r_x r \<le> x \<and> x < r_x r + r_width r \<and> r_y r \<le> y \<and> y < r_y r + r_height r
      then Some (plane ! ((y - r_y r) * line + (c - r_x r * ?b))) else None)" if c: "c \<in> set (pixel_columns rgba x)" for c
  proof -
    have "(y * stride + c) div stride = y" "(y * stride + c) mod stride = c" using in_row(1)[OF c] by simp_all
    then show ?thesis using columns_in_rect[OF r(1) c] by (auto simp: rows_at_def)
  qed
  show "pixel_at rgba stride (overlay ?g bs) x y
      = (if r_x r \<le> x \<and> x < r_x r + r_width r \<and> r_y r \<le> y \<and> y < r_y r + r_height r
         then picture_of (r_width r) (r_height r) (pixel_at rgba line plane) ! (y - r_y r) ! (x - r_x r) else black)"
  proof (cases "r_x r \<le> x \<and> x < r_x r + r_width r \<and> r_y r \<le> y \<and> y < r_y r + r_height r")
    case True
    then have "pixel_at rgba stride (overlay ?g bs) x y
        = map (\<lambda>c. plane ! ((y - r_y r) * line + (c - r_x r * ?b))) (pixel_columns rgba x)"
      using g in_row by (simp add: pixel_at_def)
    also have "\<dots> = pixel_at rgba line plane (x - r_x r) (y - r_y r)"
      using r(1) True by (subst columns_shift[of rgba "r_x r" x]) (auto simp: pixel_at_def)
    finally show ?thesis using True by (simp add: picture_of_def less_diff_conv2 add.commute)
  next
    case False
    then have "pixel_at rgba stride (overlay ?g bs) x y = pixel_at rgba stride bs x y"
      using g in_row by (auto simp: pixel_at_def)
    then show ?thesis unfolding if_not_P[OF False] using black[OF x y] by simp
  qed
qed

section \<open>What the conversion shows\<close>

definition frame_picture :: "bool \<Rightarrow> av_frame \<Rightarrow> u8 list list list" where
  "frame_picture rgba f = output_picture rgba (av_width f) (av_height f) (pitch f) (plane_of f)"

definition rgb_frame_picture :: "av_frame \<Rightarrow> bytes list list" where
  "rgb_frame_picture f = rgb_picture (av_width f) (av_height f) (pitch f) (plane_of f)"

definition pixels_sound :: "pixels \<Rightarrow> bool" where
  "pixels_sound p \<longleftrightarrow> pred_option sound_frame (px_converted p) \<and> pred_option sound_frame (px_rgb p)
     \<and> pred_option sound_frame (px_rotated p) \<and> pred_option sound_frame (px_fit_frame p)"

text \<open>The picture before it is mirrored and flipped.\<close>

definition upright_shows ::
  "ffmpeg \<Rightarrow> bool \<Rightarrow> av_frame \<Rightarrow> nat \<Rightarrow> nat \<Rightarrow> pixels \<Rightarrow> u8 list list list \<Rightarrow> bool" where
  "upright_shows ff rgba source width height p pic \<longleftrightarrow> (\<exists>f. px_converted p = Some f
     \<and> scaled_from ff source (output_format rgba) width height f
     \<and> av_format f = output_format rgba
     \<and> av_width f = width \<and> av_height f = height \<and> pic = frame_picture rgba f)"

definition turned_shows ::
  "ffmpeg \<Rightarrow> bool \<Rightarrow> av_frame \<Rightarrow> nat \<Rightarrow> nat \<Rightarrow> nat \<Rightarrow> pixels \<Rightarrow> u8 list list list \<Rightarrow> bool" where
  "turned_shows ff rgba source width height angle p pic \<longleftrightarrow> right_angle angle
     \<and> (\<exists>rgb rotated fitted r. px_rgb p = Some rgb \<and> px_rotated p = Some rotated \<and> px_fit_frame p = Some fitted
          \<and> scaled_from ff source RGB24 width height rgb
          \<and> av_format rgb = RGB24 \<and> av_width rgb = width \<and> av_height rgb = height
          \<and> av_format rotated = RGB24 \<and> (av_width rotated, av_height rotated) = turned_size width height angle
          \<and> rgb_frame_picture rotated = (quarter_turn ^^ (angle div 90)) (rgb_frame_picture rgb)
          \<and> fit (av_width rotated) (av_height rotated) width height = Inr r
          \<and> scaled_from ff rotated (output_format rgba) (r_width r) (r_height r) fitted
          \<and> av_format fitted = output_format rgba \<and> av_width fitted = r_width r \<and> av_height fitted = r_height r
          \<and> pic = boxed width height r (black_pixel rgba) (frame_picture rgba fitted))"

text \<open>An output buffer of the camera's layout.\<close>

definition layout_ok :: "bool \<Rightarrow> nat \<Rightarrow> nat \<Rightarrow> nat \<Rightarrow> nat \<Rightarrow> bool" where
  "layout_ok rgba width height stride capacity \<longleftrightarrow> width \<noteq> 0 \<and> height \<noteq> 0 \<and> even width
     \<and> row_bytes_of rgba width \<le> stride \<and> (rgba \<longrightarrow> 4 dvd stride) \<and> stride * height \<le> capacity"

lemma layout_rows:
  assumes "layout_ok rgba width height stride (length bs)"
  shows "y < height \<Longrightarrow> b + n \<le> row_bytes_of rgba width \<Longrightarrow> y * stride + b + n \<le> length bs"
    and "buffer_fits (row_bytes_of rgba width) stride height bs"
proof -
  have row: "y * stride + c \<le> length bs" if "y < height" "c \<le> row_bytes_of rgba width" for y c
  proof -
    have "(y + 1) * stride \<le> height * stride" using that by (intro mult_right_mono) simp_all
    then show ?thesis using assms that by (simp add: layout_ok_def mult.commute)
  qed
  show "y < height \<Longrightarrow> b + n \<le> row_bytes_of rgba width \<Longrightarrow> y * stride + b + n \<le> length bs"
    using row[of y "b + n"] by simp
  show "buffer_fits (row_bytes_of rgba width) stride height bs"
    using assms row[of "height - 1" "row_bytes_of rgba width"] by (auto simp: buffer_fits_def layout_ok_def)
qed

lemma convert_upright_shows:
  assumes ff: "ffmpeg_ok ff" and p: "pixels_sound p" and l: "layout_ok rgba width height stride (length (px_bytes p))"
  shows "case convert_upright ff rgba source width height stride p of
     Inl e \<Rightarrow> conversion_failure ff e
   | Inr q \<Rightarrow> pixels_sound q \<and> length (px_bytes q) = length (px_bytes p)
       \<and> (\<exists>pic. upright_shows ff rgba source width height q pic \<and> output_picture rgba width height stride (px_bytes q) = pic)"
proof -
  have slot: "pred_option sound_frame (px_converted p)" using p by (simp add: pixels_sound_def)
  have l2: "even width" "row_bytes_of rgba width \<le> stride" "stride * height \<le> length (px_bytes p)"
    using l by (simp_all add: layout_ok_def)
  have copied: "\<exists>bs. copy_rows d (width * bytes_per_pixel rgba) (\<lambda>y. y * stride) [0..<height] (px_bytes p) = Inr bs
      \<and> length bs = length (px_bytes p) \<and> output_picture rgba width height stride bs = frame_picture rgba d"
    if d: "sound_frame d" "av_format d = output_format rgba" "av_width d = width" "av_height d = height" for d
  proof -
    let ?n = "width * bytes_per_pixel rgba"
    let ?bs = "overlay (rows_at (plane_of d) (pitch d) ?n stride 0 0 {0..<height}) (px_bytes p)"
    have n: "?n \<le> pitch d" using sound_frameD[OF d(1)] d(2,3) by (metis output_format_bytes)
    have "copy_rows d ?n (\<lambda>y. (y + 0) * stride + 0) [0..<height] (px_bytes p) = Inr ?bs"
      using copy_rows_overlay[OF d(1) n, of 0 stride "[0..<height]" 0 "px_bytes p"] l2(2) d(4)
        layout_rows(1)[OF l, of _ 0 ?n] by (simp add: row_bytes_bpp)
    moreover have "output_picture rgba width height stride ?bs = frame_picture rgba d"
    proof (unfold output_picture_pixels frame_picture_def d(3,4), rule picture_of_cong)
      fix x y assume x: "x < width" and y: "y < height"
      have "?bs ! (y * stride + c) = plane_of d ! (y * pitch d + c)" if c: "c \<in> set (pixel_columns rgba x)" for c
      proof -
        have c: "c < row_bytes_of rgba width" using pixel_columns_bound[OF x _ c] l2(1) by simp
        then have "c < stride" "c < ?n" using l2(2) by (simp_all add: row_bytes_bpp)
        moreover have "y * stride + c < length (px_bytes p)" using row_below[OF y \<open>c < stride\<close> l2(3)] .
        ultimately show ?thesis using y by (simp add: rows_at_def)
      qed
      then show "pixel_at rgba stride ?bs x y = pixel_at rgba (pitch d) (plane_of d) x y"
        by (simp add: pixel_at_def)
    qed
    ultimately show ?thesis by simp
  qed
  let ?r = "convert_upright ff rgba source width height stride p"
  have eq: "?r = try_r (scaler_slot ff (px_direct p) source (output_format rgba) width height) (\<lambda>direct.
      try_r (frame_slot ff (px_converted p) (output_format rgba) width height) (\<lambda>frame.
      try_r (scaler_run ff direct source frame) (\<lambda>converted.
        try_r (copy_rows converted (width * bytes_per_pixel rgba) (\<lambda>y. y * stride) [0..<height] (px_bytes p)) (\<lambda>bs.
           Inr (p\<lparr>px_direct := Some direct, px_converted := Some converted, px_bytes := bs\<rparr>)))))"
    by (simp add: convert_upright_def Let_def)
  show ?thesis
  proof (cases rule: scaled_into[OF ff slot eq, case_names fails scaled])
    case (fails e)
    then show ?thesis by simp
  next
    case (scaled s d)
    from copied[OF scaled(2-5)] show ?thesis using scaled p by (auto simp: pixels_sound_def upright_shows_def)
  qed
qed


lemma sound_rgb_buffers:
  assumes rgb: "sound_frame rgb" "av_format rgb = RGB24" "av_width rgb = width" "av_height rgb = height"
    and blank: "sound_frame blank" "av_format blank = RGB24" "av_width blank = ow" "av_height blank = oh"
    and size: "turned_size width height angle = (ow, oh)" and nz: "width \<noteq> 0" "height \<noteq> 0"
  shows "rgb_buffers width height angle (plane_of rgb) (pitch rgb) (plane_of blank) (pitch blank)"
proof -
  have "height \<le> length (plane_of f) div pitch f \<and> width * 3 \<le> pitch f"
    if f: "sound_frame f" "av_format f = RGB24" "av_width f = width" "av_height f = height" "width \<noteq> 0" for f width height
  proof -
    have "width * 3 \<le> pitch f" "length (plane_of f) = pitch f * height"
      using sound_frameD[OF f(1)] f(2-4) format_bytes.simps(3) by metis+
    then show ?thesis using f(5) by auto
  qed
  from this[OF rgb] this[OF blank] show ?thesis using size nz by (auto simp: rgb_buffers_def turned_size_def split: if_splits)
qed

lemma fit_cases:
  assumes "width \<noteq> 0" "height \<noteq> 0" "even ow" "ow \<noteq> 0" "oh \<noteq> 0"
  shows "case fit width height ow oh of
     Inl e \<Rightarrow> e = Msg ''rotated image is too narrow''
   | Inr r \<Rightarrow> even (r_x r) \<and> even (r_width r) \<and> r_x r + r_width r \<le> ow \<and> r_y r + r_height r \<le> oh"
proof -
  have "2 \<le> ow" using assms(3,4) by (cases "ow = 1") auto
  then have "fit_valid width height ow oh" using assms by (simp add: fit_valid_def)
  then show ?thesis using fit_result[of width height ow oh] by (auto simp: centred_def split: sum.splits)
qed

lemma fitted_shows:
  assumes f: "sound_frame f" "av_format f = output_format rgba" "av_width f = r_width r" "av_height f = r_height r"
    and l: "layout_ok rgba width height stride (length bs)"
    and r: "even (r_x r)" "even (r_width r)" "r_x r + r_width r \<le> width" "r_y r + r_height r \<le> height"
  obtains black bs' where "fill_black rgba width height stride bs = Inr black" "length bs' = length bs"
    "copy_rows f (r_width r * bytes_per_pixel rgba) (\<lambda>y. (y + r_y r) * stride + r_x r * bytes_per_pixel rgba)
       [0..<r_height r] black = Inr bs'"
    "output_picture rgba width height stride bs' = boxed width height r (black_pixel rgba) (frame_picture rgba f)"
proof -
  let ?n = "r_width r * bytes_per_pixel rgba" and ?b = "r_x r * bytes_per_pixel rgba"
  have l2: "even width" "row_bytes_of rgba width \<le> stride" "rgba \<longrightarrow> 4 dvd stride" "stride * height \<le> length bs"
    using l by (simp_all add: layout_ok_def)
  obtain black where black: "fill_black rgba width height stride bs = Inr black" "length black = length bs"
    "\<And>x y. x < width \<Longrightarrow> y < height \<Longrightarrow> pixel_at rgba stride black x y = black_pixel rgba"
    using fill_black_shows[OF l2] by blast
  let ?bs = "overlay (rows_at (plane_of f) (pitch f) ?n stride (r_y r) ?b {0..<r_height r}) black"
  have n: "?n \<le> pitch f" using sound_frameD[OF f(1)] f(2,3) by (metis output_format_bytes)
  have "(r_x r + r_width r) * bytes_per_pixel rgba \<le> width * bytes_per_pixel rgba"
    using r(3) by (intro mult_right_mono) simp_all
  then have row: "?b + ?n \<le> row_bytes_of rgba width" by (simp add: row_bytes_bpp add_mult_distrib)
  have l': "layout_ok rgba width height stride (length black)" using l black(2) by (simp add: layout_ok_def)
  have "copy_rows f ?n (\<lambda>y. (y + r_y r) * stride + ?b) [0..<r_height r] black = Inr ?bs"
    using copy_rows_overlay[OF f(1) n, of ?b stride "[0..<r_height r]" "r_y r" black] row l2(2) f(4) r(4)
      layout_rows(1)[OF l' _ row] by simp
  moreover have "output_picture rgba width height stride ?bs
      = boxed width height r (black_pixel rgba) (frame_picture rgba f)"
    using boxed_shows[OF l2(1,2) _ _ r(3,4) black(3)] l2(4) black(2) r(1,2) by (simp add: frame_picture_def f(3,4))
  ultimately show thesis using that[OF black(1), of ?bs] black(2) by simp
qed


lemma turned_frame:
  assumes rgb: "sound_frame rgb" "av_format rgb = RGB24" "av_width rgb = width" "av_height rgb = height"
    and blank: "sound_frame blank" "av_format blank = RGB24" "av_width blank = ow" "av_height blank = oh"
    and size: "turned_size width height angle = (ow, oh)" and nz: "width \<noteq> 0" "height \<noteq> 0" and angle: "right_angle angle"
  obtains d rotated where "rotate_pic (plane_of rgb) width height (pitch rgb) (plane_of blank) (pitch blank) angle = Inr d"
    "write_frame d blank = Inr rotated" "sound_frame rotated" "av_width rotated = ow" "av_height rotated = oh"
    "av_format rotated = RGB24" "rgb_frame_picture rotated = (quarter_turn ^^ (angle div 90)) (rgb_frame_picture rgb)"
proof -
  note bufs = sound_rgb_buffers[OF rgb blank size nz]
  obtain d where d: "rotate_pic (plane_of rgb) width height (pitch rgb) (plane_of blank) (pitch blank) angle = Inr d"
    "length d = length (plane_of blank)"
    "rgb_picture ow oh (pitch blank) d = (quarter_turn ^^ (angle div 90)) (rgb_picture width height (pitch rgb) (plane_of rgb))"
    using rotate_turns[OF bufs angle size] by blast
  have "length (plane_of blank) = pitch blank * av_height blank" using sound_frameD[OF blank(1)] by metis
  with d(2) have "length d = pitch blank * av_height blank" by simp
  then obtain rotated where r: "write_frame d blank = Inr rotated" "sound_frame rotated" "plane_of rotated = d"
    "av_width rotated = ow" "av_height rotated = oh" "pitch rotated = pitch blank" "av_format rotated = RGB24"
    using write_frame_sound[OF blank(1), of d] blank(2-4) by metis
  have "rgb_frame_picture rotated = (quarter_turn ^^ (angle div 90)) (rgb_frame_picture rgb)"
    using d(3) by (simp add: rgb_frame_picture_def r rgb(3,4))
  then show thesis using that[OF d(1) r(1,2,4,5,7)] by simp
qed

lemma convert_turned_shows:
  assumes ff: "ffmpeg_ok ff" and p: "pixels_sound p" and l: "layout_ok rgba width height stride (length (px_bytes p))"
  shows "case convert_turned ff rgba source width height stride angle p of
     Inl e \<Rightarrow> conversion_failure ff e
   | Inr q \<Rightarrow> pixels_sound q \<and> length (px_bytes q) = length (px_bytes p)
       \<and> (\<exists>pic. turned_shows ff rgba source width height angle q pic \<and> output_picture rgba width height stride (px_bytes q) = pic)"
    (is "case ?r of Inl e \<Rightarrow> _ | Inr q \<Rightarrow> ?good q")
proof -
  have slots: "pred_option sound_frame (px_rgb p)" "pred_option sound_frame (px_rotated p)"
    "pred_option sound_frame (px_fit_frame p)" using p by (simp_all add: pixels_sound_def)
  have nz: "width \<noteq> 0" "height \<noteq> 0" "even width" using l by (simp_all add: layout_ok_def)
  obtain ow oh where size: "turned_size width height angle = (ow, oh)" by fastforce
  show ?thesis
  proof (cases rule: scaled_into[OF ff slots(1) convert_turned_def[of ff rgba source width height stride angle p], case_names fails scaled])
    case (fails e)
    then show ?thesis by simp
  next
    case (scaled to_rgb rgb)
    show ?thesis
    proof (cases "frame_slot ff (px_rotated p) RGB24 ow oh")
      case (Inl e)
      then show ?thesis using scaled(1) size frame_slot_cases[OF ff slots(2), of RGB24 ow oh] by simp
    next
      case blank: (Inr blank)
      have b: "sound_frame blank" "av_format blank = RGB24" "av_width blank = ow" "av_height blank = oh"
        using frame_slot_cases[OF ff slots(2), of RGB24 ow oh] by (simp_all add: blank)
      have views: "av_stride rgb = Inr (pitch rgb)" "frame_bytes rgb = Inr (plane_of rgb)"
        "av_stride blank = Inr (pitch blank)" "frame_bytes blank = Inr (plane_of blank)"
        using sound_frameD[OF scaled(2)] sound_frameD[OF b(1)] by metis+
      note bufs = sound_rgb_buffers[OF scaled(2-5) b size nz(1,2)]
      show ?thesis
      proof (cases "right_angle angle")
        case False
        then show ?thesis
          using scaled(1) rotate_wrong_angle[OF bufs False] by (simp add: size blank views conversion_failure_def)
      next
        case angle: True
        obtain d rotated where d: "rotate_pic (plane_of rgb) width height (pitch rgb) (plane_of blank) (pitch blank) angle = Inr d"
          and rotated: "write_frame d blank = Inr rotated" "sound_frame rotated" "av_width rotated = ow" "av_height rotated = oh"
            "av_format rotated = RGB24" "rgb_frame_picture rotated = (quarter_turn ^^ (angle div 90)) (rgb_frame_picture rgb)"
          by (rule turned_frame[OF scaled(2-5) b size nz(1,2) angle])
        have onz: "ow \<noteq> 0" "oh \<noteq> 0" using size nz by (auto simp: turned_size_def split: if_splits)
        note fits = fit_cases[OF onz nz(3,1,2)]
        show ?thesis
        proof (cases "fit ow oh width height")
          case (Inl e)
          then show ?thesis
            using scaled(1) fits by (simp add: size blank views d rotated(1) conversion_failure_def)
        next
          case rect: (Inr r)
          note r = fits[unfolded rect sum.case]
          have eq: "?r = try_r (scaler_slot ff (px_fitted p) rotated (output_format rgba) (r_width r) (r_height r)) (\<lambda>fitter.
            try_r (frame_slot ff (px_fit_frame p) (output_format rgba) (r_width r) (r_height r)) (\<lambda>empty.
            try_r (scaler_run ff fitter rotated empty) (\<lambda>fitted.
            try_r (fill_black rgba width height stride (px_bytes p)) (\<lambda>black.
            try_r (copy_rows fitted (r_width r * bytes_per_pixel rgba)
                     (\<lambda>y. (y + r_y r) * stride + r_x r * bytes_per_pixel rgba) [0..<r_height r] black) (\<lambda>bs.
              Inr (p\<lparr>px_to_rgb := Some to_rgb, px_rgb := Some rgb, px_rotated := Some rotated, px_fitted := Some fitter,
                     px_fit_frame := Some fitted, px_bytes := bs\<rparr>))))))"
            using scaled(1) by (simp add: size blank views d rotated(1) rect)
          show ?thesis
          proof (cases rule: scaled_into[OF ff slots(3) eq, case_names fails fitted])
            case (fails e)
            then show ?thesis by simp
          next
            case (fitted fitter f)
            obtain black bs where bs: "fill_black rgba width height stride (px_bytes p) = Inr black"
              "length bs = length (px_bytes p)"
              "copy_rows f (r_width r * bytes_per_pixel rgba) (\<lambda>y. (y + r_y r) * stride + r_x r * bytes_per_pixel rgba)
                 [0..<r_height r] black = Inr bs"
              "output_picture rgba width height stride bs = boxed width height r (black_pixel rgba) (frame_picture rgba f)"
              using fitted_shows[OF fitted(2-5) l] r by blast
            have "turned_shows ff rgba source width height angle
                (p\<lparr>px_to_rgb := Some to_rgb, px_rgb := Some rgb, px_rotated := Some rotated, px_fitted := Some fitter,
                   px_fit_frame := Some f, px_bytes := bs\<rparr>) (output_picture rgba width height stride bs)"
              using angle scaled rotated rect fitted bs(4) size by (simp add: turned_shows_def)
            then show ?thesis using fitted bs p scaled(2) rotated(2) by (simp add: pixels_sound_def)
          qed
        qed
      qed
    qed
  qed
qed


lemma length_resized [simp]: "length (resized n bs) = n"
  by (simp add: resized_def)

section \<open>Properties\<close>

lemma conversion_shows:
  assumes "ffmpeg_ok ff" "pixels_sound p"
    and "layout_ok rgba (unat (cf_width c)) (unat (cf_height c)) stride capacity"
  shows "case convert ff rgba source c stride capacity t p of
     Inl e \<Rightarrow> conversion_failure ff e
   | Inr q \<Rightarrow> pixels_sound q \<and> length (px_bytes q) = capacity
       \<and> (\<exists>pic. (if tr_rotation t = 0 then upright_shows ff rgba source (unat (cf_width c)) (unat (cf_height c)) q pic
               else turned_shows ff rgba source (unat (cf_width c)) (unat (cf_height c)) (tr_rotation t) q pic)
            \<and> output_picture rgba (unat (cf_width c)) (unat (cf_height c)) stride (px_bytes q)
              = (if tr_vertical t \<noteq> rgba then rev else id) (map (if tr_mirror t then rev else id) pic))"
proof -
  let ?w = "unat (cf_width c)" and ?h = "unat (cf_height c)" and ?p = "p\<lparr>px_bytes := resized capacity (px_bytes p)\<rparr>"
  let ?shows = "\<lambda>q pic. if tr_rotation t = 0 then upright_shows ff rgba source ?w ?h q pic
    else turned_shows ff rgba source ?w ?h (tr_rotation t) q pic"
  let ?part = "if tr_rotation t = 0 then convert_upright ff rgba source ?w ?h stride ?p
                else convert_turned ff rgba source ?w ?h stride (tr_rotation t) ?p"
  have p: "pixels_sound ?p" using assms(2) by (simp add: pixels_sound_def)
  have l: "layout_ok rgba ?w ?h stride (length (px_bytes ?p))" using assms(3) by simp
  show ?thesis
  proof (cases ?part)
    case (Inl e)
    then have "conversion_failure ff e"
      using convert_upright_shows[OF assms(1) p l, where source = source] convert_turned_shows[OF assms(1) p l, where source = source and angle = "tr_rotation t"]
      by (simp split: if_splits)
    then show ?thesis using Inl by (simp add: convert_def Let_def)
  next
    case (Inr q)
    then have q: "pixels_sound q" "length (px_bytes q) = capacity"
      "?shows q (output_picture rgba ?w ?h stride (px_bytes q))"
      using convert_upright_shows[OF assms(1) p l, where source = source] convert_turned_shows[OF assms(1) p l, where source = source and angle = "tr_rotation t"]
      by (auto split: if_splits)
    have fits: "buffer_fits (row_bytes_of rgba ?w) stride ?h (px_bytes q)" "rgba \<or> even ?w"
      using layout_rows(2)[of rgba ?w ?h stride "px_bytes q"] assms(3) q(2) by (simp_all add: layout_ok_def)
    obtain bs where bs: "flips (px_bytes q) ?w ?h stride rgba (tr_mirror t) (tr_vertical t \<noteq> rgba) = Inr bs"
      "length bs = length (px_bytes q)"
      "output_picture rgba ?w ?h stride bs = (if tr_vertical t \<noteq> rgba then rev else id)
         (map (if tr_mirror t then rev else id) (output_picture rgba ?w ?h stride (px_bytes q)))"
      using flips_picture[OF fits, of "tr_mirror t" "tr_vertical t \<noteq> rgba"] by blast
    have "convert ff rgba source c stride capacity t p = Inr (q\<lparr>px_bytes := bs\<rparr>)"
      using Inr bs(1) by (simp add: convert_def Let_def)
    moreover have "?shows (q\<lparr>px_bytes := bs\<rparr>) pic = ?shows q pic" for pic
      by (simp add: upright_shows_def turned_shows_def)
    ultimately show ?thesis using q bs(2,3) by (auto simp: pixels_sound_def)
  qed
qed

text \<open>
  C33. Converting a frame never leaves a buffer and shows the picture: with a camera layout that holds the
  rows, whatever the caches hold from earlier frames, the conversion fails only because FFmpeg failed, the
  angle is not a right one or the turned picture is too narrow (never by a panic, and never because a
  cached scaler was run on frames of another size); otherwise the output has the camera's size and shows
  what FFmpeg made of this very frame with the scaler for it: the frame scaled to the camera's size or,
  turned, that scaled picture turned by the angle, what FFmpeg made of the turned picture for its
  rectangle, boxed in black; mirrored and flipped as the settings say.
\<close>

theorem conversion_shows_picture:
  assumes "ffmpeg_ok ff" "pixels_sound p"
    and "layout_ok rgba (unat (cf_width c)) (unat (cf_height c)) stride capacity"
  shows "case convert ff rgba source c stride capacity t p of
     Inl e \<Rightarrow> conversion_failure ff e
   | Inr q \<Rightarrow> pixels_sound q \<and> length (px_bytes q) = capacity
       \<and> (\<exists>pic. (if tr_rotation t = 0 then upright_shows ff rgba source (unat (cf_width c)) (unat (cf_height c)) q pic
               else turned_shows ff rgba source (unat (cf_width c)) (unat (cf_height c)) (tr_rotation t) q pic)
            \<and> output_picture rgba (unat (cf_width c)) (unat (cf_height c)) stride (px_bytes q)
              = (if tr_vertical t \<noteq> rgba then rev else id) (map (if tr_mirror t then rev else id) pic))"
  by (rule conversion_shows[OF assms])

definition sample_frame :: "pixel \<Rightarrow> nat \<Rightarrow> nat \<Rightarrow> av_frame" where
  "sample_frame format w h = \<lparr>av_format = format, av_width = w, av_height = h, av_linesize = int (4 * w), av_data = 64,
     av_buffer = Some \<lparr>ab_data = 64, ab_bytes = replicate (4 * w * h) 7\<rparr>\<rparr>"

definition sample_ffmpeg :: ffmpeg where
  "sample_ffmpeg = \<lparr>ff_formats = [RGBA, YUYV422, RGB24, OtherPixel 0], ff_context = (\<lambda>s. True),
     ff_frame = (\<lambda>format w h. if 0 < w \<and> w * h \<le> 1024 then Inr (sample_frame format w h) else Inl (Msg ''Cannot allocate memory'')),
     ff_scale = (\<lambda>s a b. (int (sc_out_height s), map (\<lambda>x. x + 9) (buffer_bytes b)))\<rparr>"


lemma sample_ffmpeg_ok: "ffmpeg_ok sample_ffmpeg"
proof -
  have "sound_frame (sample_frame format w h)" if "0 < w" "w * h \<le> 1024" for format w h
  proof -
    have "4 * (w * h) \<le> 4096" using that(2) by linarith
    then have "4 * (w * h) < 2 ^ 64" by (rule le_less_trans) simp
    moreover have "w * format_bytes format \<le> 4 * w" by (cases format) simp_all
    ultimately show ?thesis using that(1)
      by (simp add: sound_frame_def sample_frame_def av_plane_def av_stride_def nat_mult_distrib Let_def mult.assoc buffer_bytes_def)
  qed
  then show ?thesis
    by (auto simp: ffmpeg_ok_def sample_ffmpeg_def sample_frame_def buffer_bytes_def split: if_splits)
qed

lemma conversion_shows_picture_witness:
  "case convert sample_ffmpeg False (sample_frame (OtherPixel 0) 2 2) \<lparr>cf_width = 2, cf_height = 2, cf_fps = 30\<rparr> 4 8
     \<lparr>tr_rotation = 90, tr_mirror = True, tr_vertical = False\<rparr> pixels_new of
     Inl e \<Rightarrow> False
   | Inr q \<Rightarrow> length (px_bytes q) = 8
       \<and> (\<exists>pic. turned_shows sample_ffmpeg False (sample_frame (OtherPixel 0) 2 2) 2 2 90 q pic \<and> output_picture False 2 2 4 (px_bytes q) = map rev pic)"
    (is "case ?r of Inl e \<Rightarrow> False | Inr q \<Rightarrow> ?good q")
proof -
  have "\<not> isl ?r"
    by (simp add: convert_def convert_turned_def scaler_slot_def scaler_new_def frame_slot_def scaler_run_def scaler_key_def
        pixels_new_def sample_ffmpeg_def sample_frame_def turned_size_def av_stride_def frame_bytes_def av_plane_def
        buffer_bytes_def with_bytes_def write_frame_def rotate_pic_def grid_def rotate_target_def fit_def even_part_def
        fill_black_def flips_def mirror_row_def mirror_yuyv_row_def swap_at_def get_at_def put_at_def slice_def resized_def
        output_format_def bytes_per_pixel_def Let_def upt_rec)
  moreover have "pixels_sound pixels_new" by (simp add: pixels_sound_def pixels_new_def)
  moreover have "layout_ok False (unat (2 :: u32)) (unat (2 :: u32)) 4 8" by (simp add: layout_ok_def row_bytes_of_def)
  ultimately show ?thesis
    using conversion_shows_picture[OF sample_ffmpeg_ok, where p = pixels_new and rgba = False
        and c = "\<lparr>cf_width = 2, cf_height = 2, cf_fps = 30\<rparr>" and stride = 4 and capacity = 8
        and source = "sample_frame (OtherPixel 0) 2 2"
        and t = "\<lparr>tr_rotation = 90, tr_mirror = True, tr_vertical = False\<rparr>"]
    by (auto split: sum.splits)
qed

end
