(* ===== verification/Camera.thy ===== *)
theory Camera
  imports Picture Transport
begin

unbundle bit_operations_syntax

text \<open>
  The virtual camera on Linux, \<open>output/linux.rs\<close>: opening a V4L2 output device with mapped buffers,
  handing over frames, and closing it. The kernel is a parameter: what every \<open>ioctl\<close> gave, attempt after
  attempt, and the memory every mapping shows; the constants of its header are part of it. A call gives the
  actions it took on the shared memory and the queue, and its result, or none while the kernel keeps
  interrupting it.
\<close>

section \<open>Calls\<close>

datatype v4l2_action =
    Mapped nat nat | Unmapped nat | Wrote nat nat | Dequeued nat | Queued nat nat "nat \<times> nat" | StreamOn | StreamOff bool

type_synonym 'a dev = "v4l2_action list \<times> (error + 'a) option"

definition dev_lift :: "error + 'a \<Rightarrow> 'a dev" where
  "dev_lift r = ([], Some r)"

definition dev_do :: "v4l2_action \<Rightarrow> unit dev" where
  "dev_do act = ([act], Some (Inr ()))"

definition then_dev :: "'a dev \<Rightarrow> ('a \<Rightarrow> 'b dev) \<Rightarrow> 'b dev" where
  "then_dev m f =
     (case m of
        (acts, Some (Inr x)) \<Rightarrow> (case f x of (acts2, r) \<Rightarrow> (acts @ acts2, r))
      | (acts, Some (Inl e)) \<Rightarrow> (acts, Some (Inl e))
      | (acts, None) \<Rightarrow> (acts, None))"

text \<open>The retry loop: an interrupted attempt is repeated.\<close>

fun ioctl :: "(error + 'a) list \<Rightarrow> 'a dev" where
  "ioctl [] = ([], None)"
| "ioctl (r # rs) =
     (case r of
        Inr v \<Rightarrow> dev_lift (Inr v)
      | Inl e \<Rightarrow> if interrupted e then ioctl rs else dev_lift (Inl e))"

definition would_block :: "error \<Rightarrow> bool" where
  "would_block e = (case e of Io k _ \<Rightarrow> k = WouldBlock | _ \<Rightarrow> False)"

section \<open>Opening\<close>

record v4l2_pix =
  vp_width :: u32
  vp_height :: u32
  vp_format :: u32
  vp_bytesperline :: u32
  vp_sizeimage :: u32

record v4l2 =
  k_cap_device :: u32
  k_cap_output :: u32
  k_cap_streaming :: u32
  k_yuyv :: u32
  k_open :: "error + unit"
  k_caps :: "(error + u32 \<times> u32) list"
  k_format :: "(error + v4l2_pix) list"
  k_parm :: "(error + unit) list"
  k_request :: "(error + u32) list"
  k_query :: "nat \<Rightarrow> (error + u32) list"
  k_map :: "nat \<Rightarrow> (nat \<Rightarrow> u8) option"
  k_prime :: "nat \<Rightarrow> (error + unit) list"
  k_stream :: "(error + unit) list"
  k_stop :: "(error + unit) list"

record camera =
  cam_stride :: nat
  cam_size :: nat
  cam_buffers :: "bytes list"

text \<open>An early return drops the buffers mapped so far.\<close>

definition dropping :: "nat \<Rightarrow> 'a dev \<Rightarrow> 'a dev" where
  "dropping n m =
     (case m of
        (acts, Some (Inl e)) \<Rightarrow> (acts @ map Unmapped [0..<n], Some (Inl e))
      | (acts, r) \<Rightarrow> (acts, r))"

fun map_buffers :: "v4l2 \<Rightarrow> nat \<Rightarrow> nat list \<Rightarrow> bytes list \<Rightarrow> bytes list dev" where
  "map_buffers k n [] bufs = dev_lift (Inr bufs)"
| "map_buffers k n (i # rest) bufs =
     then_dev (dropping (length bufs)
       (then_dev (ioctl (k_query k i)) (\<lambda>len.
          if unat len < n then dev_lift (Inl (Msg ''V4L2 buffer is smaller than one frame''))
          else case k_map k i of
                 None \<Rightarrow> dev_lift (Inl (Msg ''V4L2 output buffer mapping failed''))
               | Some mem \<Rightarrow> then_dev (dev_do (Mapped i (unat len))) (\<lambda>_. dev_lift (Inr (map mem [0..<unat len]))))))
       (\<lambda>mem. map_buffers k n rest (bufs @ [mem]))"

text \<open>
  An unchecked copy of bytes to the start of a mapping. The action records its length: whether it is
  inside the mapping is what a trace is judged by.
\<close>

definition write_mapping :: "nat \<Rightarrow> bytes \<Rightarrow> bytes list \<Rightarrow> bytes list dev" where
  "write_mapping i bs bufs =
     then_dev (dev_do (Wrote i (length bs))) (\<lambda>_. dev_lift (Inr (bufs[i := bs @ drop (length bs) (bufs ! i)])))"

fun prime_buffers :: "v4l2 \<Rightarrow> nat \<Rightarrow> nat list \<Rightarrow> bytes list \<Rightarrow> bytes list dev" where
  "prime_buffers k n [] bufs = dev_lift (Inr bufs)"
| "prime_buffers k n (i # rest) bufs =
     (if length bufs \<le> i then dev_lift (Inl (Msg ''V4L2 reported a buffer index it did not map''))
      else then_dev (write_mapping i (replicate n 128) bufs) (\<lambda>bufs'.
           then_dev (ioctl (k_prime k i)) (\<lambda>_.
           then_dev (dev_do (Queued i (unat (of_nat n :: u32)) (0, 0))) (\<lambda>_.
             prime_buffers k n rest bufs'))))"

definition camera_layout :: "v4l2_pix \<Rightarrow> u32 \<Rightarrow> u32 \<Rightarrow> nat \<times> nat" where
  "camera_layout pix width height =
     (let stride = max (unat (vp_bytesperline pix)) (unat width * 2)
      in (stride, max (unat (vp_sizeimage pix)) (stride * unat height)))"

definition start_stream :: "v4l2 \<Rightarrow> nat \<Rightarrow> nat \<Rightarrow> u32 \<Rightarrow> camera dev" where
  "start_stream k stride n count =
     then_dev (map_buffers k n [0..<unat count] []) (\<lambda>bufs.
       dropping (length bufs)
         (then_dev (prime_buffers k n [0..<unat count] bufs) (\<lambda>primed.
          then_dev (ioctl (k_stream k)) (\<lambda>_.
          then_dev (dev_do StreamOn) (\<lambda>_.
            dev_lift (Inr \<lparr>cam_stride = stride, cam_size = n, cam_buffers = primed\<rparr>))))))"

definition camera_open :: "v4l2 \<Rightarrow> u32 \<Rightarrow> u32 \<Rightarrow> camera dev" where
  "camera_open k width height =
     then_dev (dev_lift (k_open k)) (\<lambda>_.
     then_dev (ioctl (k_caps k)) (\<lambda>(capabilities, device).
       let caps = (if capabilities AND k_cap_device k \<noteq> 0 then device else capabilities)
       in if caps AND k_cap_output k = 0 \<or> caps AND k_cap_streaming k = 0
          then dev_lift (Inl (Msg ''camera does not support V4L2 mmap output streaming''))
          else then_dev (ioctl (k_format k)) (\<lambda>pix.
            if vp_width pix \<noteq> width \<or> vp_height pix \<noteq> height \<or> vp_format pix \<noteq> k_yuyv k
            then dev_lift (Inl (Msg ''V4L2 rejected YUYV dimensions''))
            else let (stride, n) = camera_layout pix width height
                 in if n > 256 * 1024 * 1024
                    then dev_lift (Inl (Msg ''V4L2 output allocation exceeds limit''))
                    else then_dev (ioctl (k_parm k)) (\<lambda>_.
                         then_dev (ioctl (k_request k)) (\<lambda>count.
                           if count < 1 then dev_lift (Inl (Msg ''V4L2 refused output buffers''))
                           else start_stream k stride n count)))))"

section \<open>Frames\<close>

text \<open>What the kernel answers to one frame, and the microseconds since the device was opened.\<close>

record submit_io =
  sb_dequeue :: "(error + u32) list"
  sb_elapsed :: nat
  sb_queue :: "(error + unit) list"

definition camera_submit :: "submit_io \<Rightarrow> bytes \<Rightarrow> camera \<Rightarrow> camera dev" where
  "camera_submit io bs cam =
     (if length bs > cam_size cam then dev_lift (Inl (Msg ''frame is larger than the V4L2 output buffer''))
      else case ioctl (sb_dequeue io) of
             (acts, None) \<Rightarrow> (acts, None)
           | (acts, Some (Inl e)) \<Rightarrow> (acts, Some (if would_block e then Inr cam else Inl e))
           | (acts, Some (Inr index)) \<Rightarrow>
               let i = unat index
               in then_dev (dev_do (Dequeued i)) (\<lambda>_.
                    if length (cam_buffers cam) \<le> i
                    then dev_lift (Inl (Msg ''V4L2 returned an unknown output buffer index''))
                    else then_dev (write_mapping i bs (cam_buffers cam)) (\<lambda>bufs.
                         then_dev (ioctl (sb_queue io)) (\<lambda>_.
                         then_dev (dev_do (Queued i (unat (of_nat (length bs) :: u32))
                             (sb_elapsed io div 1000000, sb_elapsed io mod 1000000))) (\<lambda>_.
                           dev_lift (Inr (cam\<lparr>cam_buffers := bufs\<rparr>)))))))"

text \<open>
  Dropping the camera: the kernel is asked to stop the stream, its answer is ignored (the action keeps
  whether it agreed), and the buffers are unmapped.
\<close>

definition camera_drop :: "v4l2 \<Rightarrow> camera \<Rightarrow> unit dev" where
  "camera_drop k cam =
     (case ioctl (k_stop k) of
        (acts, None) \<Rightarrow> (acts, None)
      | (acts, Some answer) \<Rightarrow>
          then_dev (acts @ [StreamOff (\<not> isl answer)], Some (Inr ())) (\<lambda>_.
            (map Unmapped [0..<length (cam_buffers cam)], Some (Inr ()))))"

text \<open>A camera's use: frames until one fails, then the drop.\<close>

fun camera_frames :: "(submit_io \<times> bytes) list \<Rightarrow> camera \<Rightarrow> camera dev" where
  "camera_frames [] cam = dev_lift (Inr cam)"
| "camera_frames ((io, bs) # rest) cam = then_dev (camera_submit io bs cam) (camera_frames rest)"

definition camera_use :: "v4l2 \<Rightarrow> u32 \<Rightarrow> u32 \<Rightarrow> (submit_io \<times> bytes) list \<Rightarrow> camera dev" where
  "camera_use k width height frames =
     then_dev (camera_open k width height) (\<lambda>cam.
       case camera_frames frames cam of
         (acts, None) \<Rightarrow> (acts, None)
       | (acts, Some r) \<Rightarrow>
           (case camera_drop k cam of
              (drops, None) \<Rightarrow> (acts @ drops, None)
            | (drops, Some _) \<Rightarrow> (acts @ drops, Some r)))"

end
