(* ===== verification/Camera_Props.thy ===== *)
theory Camera_Props
  imports Camera Pixels_Props
begin

text \<open>
  The unchecked memory accesses of the camera are checked: a write is inside a mapping that the kernel does
  not own, a buffer is queued only with what was just written to it, and every mapping is dropped. A call
  is judged by its trace with a weakest-precondition rule per operation.
\<close>

section \<open>Legal traces\<close>

record dev_view =
  dv_maps :: "nat \<Rightarrow> nat option"
  dv_written :: "nat \<Rightarrow> nat option"
  dv_queued :: "nat set"
  dv_on :: bool
  dv_refused :: bool

definition no_device :: dev_view where
  "no_device = \<lparr>dv_maps = Map.empty, dv_written = Map.empty, dv_queued = {}, dv_on = False, dv_refused = False\<rparr>"

text \<open>
  The length of every mapping, what was written to a buffer since it was last the kernel's, the buffers
  the kernel owns, whether the stream is on, and whether the kernel refused to stop it. A buffer may be
  unmapped once the stream is off or the stop was asked for and refused.
\<close>

fun legal_step :: "v4l2_action \<Rightarrow> dev_view \<Rightarrow> dev_view option" where
  "legal_step (Mapped i n) v =
     (if dv_maps v i = None then Some (v\<lparr>dv_maps := (dv_maps v)(i \<mapsto> n)\<rparr>) else None)"
| "legal_step (Unmapped i) v =
     (if dv_maps v i \<noteq> None \<and> (dv_on v \<longrightarrow> dv_refused v) then Some (v\<lparr>dv_maps := (dv_maps v)(i := None)\<rparr>) else None)"
| "legal_step (Wrote i n) v =
     (case dv_maps v i of
        None \<Rightarrow> None
      | Some m \<Rightarrow> if n \<le> m \<and> i \<notin> dv_queued v then Some (v\<lparr>dv_written := (dv_written v)(i \<mapsto> n)\<rparr>) else None)"
| "legal_step (Dequeued i) v =
     (if dv_on v then Some (v\<lparr>dv_queued := dv_queued v - {i}, dv_written := (dv_written v)(i := None)\<rparr>) else None)"
| "legal_step (Queued i n stamp) v =
     (if dv_maps v i \<noteq> None \<and> dv_written v i = Some n \<and> 0 < n \<and> i \<notin> dv_queued v
      then Some (v\<lparr>dv_queued := insert i (dv_queued v)\<rparr>) else None)"
| "legal_step StreamOn v =
     (if \<not> dv_on v \<and> dom (dv_maps v) \<subseteq> dv_queued v then Some (v\<lparr>dv_on := True\<rparr>) else None)"
| "legal_step (StreamOff stopped) v =
     (if stopped then Some (v\<lparr>dv_on := False, dv_queued := {}\<rparr>) else Some (v\<lparr>dv_refused := True\<rparr>))"

fun legal_run :: "v4l2_action list \<Rightarrow> dev_view \<Rightarrow> dev_view option" where
  "legal_run [] v = Some v"
| "legal_run (a # as) v = (case legal_step a v of None \<Rightarrow> None | Some v' \<Rightarrow> legal_run as v')"

lemma legal_run_append:
  "legal_run (as @ bs) v = (case legal_run as v of None \<Rightarrow> None | Some v' \<Rightarrow> legal_run bs v')"
  by (induction as v rule: legal_run.induct) (auto split: option.splits)

text \<open>A call from a view: its trace is legal, and its result and the view after it are as said.\<close>

definition dev_ok :: "dev_view \<Rightarrow> 'a dev \<Rightarrow> ('a \<Rightarrow> dev_view \<Rightarrow> bool) \<Rightarrow> (error \<Rightarrow> dev_view \<Rightarrow> bool) \<Rightarrow> bool" where
  "dev_ok v m Q E \<longleftrightarrow>
     (case legal_run (fst m) v of
        None \<Rightarrow> False
      | Some v' \<Rightarrow> (case snd m of
                     None \<Rightarrow> True
                   | Some (Inl e) \<Rightarrow> E e v'
                   | Some (Inr x) \<Rightarrow> Q x v'))"

lemma dev_ok_then:
  assumes "dev_ok v m (\<lambda>x v'. dev_ok v' (f x) Q E) E"
  shows "dev_ok v (then_dev m f) Q E"
proof (cases m)
  case (Pair acts r)
  then obtain v' where run: "legal_run acts v = Some v'" using assms by (auto simp: dev_ok_def split: option.splits)
  consider "r = None" | e where "r = Some (Inl e)" | x where "r = Some (Inr x)" by (metis option.exhaust sum.exhaust)
  then show ?thesis
    by cases (use assms Pair run in \<open>auto simp: dev_ok_def then_dev_def legal_run_append split: prod.splits option.splits\<close>)
qed

lemma dev_ok_lift [simp]: "dev_ok v (dev_lift r) Q E \<longleftrightarrow> (case r of Inl e \<Rightarrow> E e v | Inr x \<Rightarrow> Q x v)"
  by (auto simp: dev_ok_def dev_lift_def split: sum.splits)

lemma dev_ok_do: "legal_step act v = Some v' \<Longrightarrow> Q () v' \<Longrightarrow> dev_ok v (dev_do act) Q E"
  by (simp add: dev_ok_def dev_do_def)

lemma dev_ok_ioctl: "(\<And>x. Q x v) \<Longrightarrow> (\<And>e. E e v) \<Longrightarrow> dev_ok v (ioctl rs) Q E"
  by (induction rs rule: ioctl.induct) (auto simp: dev_ok_def dev_lift_def split: sum.splits)

lemma dev_ok_mono: "dev_ok v m Q E \<Longrightarrow> (\<And>x v. Q x v \<Longrightarrow> Q' x v) \<Longrightarrow> (\<And>e v. E e v \<Longrightarrow> E' e v) \<Longrightarrow> dev_ok v m Q' E'"
  by (auto simp: dev_ok_def split: option.splits sum.splits)

section \<open>Mappings\<close>

definition shows_maps :: "bytes list \<Rightarrow> dev_view \<Rightarrow> bool" where
  "shows_maps bufs v \<longleftrightarrow> dv_maps v = (\<lambda>i. if i < length bufs then Some (length (bufs ! i)) else None)"

definition released :: "dev_view \<Rightarrow> bool" where
  "released v \<longleftrightarrow> dv_maps v = Map.empty \<and> \<not> dv_on v"

lemma unmap_all:
  "dv_on v \<longrightarrow> dv_refused v \<Longrightarrow> \<forall>i < n. dv_maps v i \<noteq> None \<Longrightarrow>
     legal_run (map Unmapped [0..<n]) v = Some (v\<lparr>dv_maps := (\<lambda>i. if i < n then None else dv_maps v i)\<rparr>)"
proof (induction n)
  case 0
  then show ?case by simp
next
  case (Suc n)
  have "(\<lambda>i. if i < n then None else dv_maps v i)(n := None) = (\<lambda>i. if i < Suc n then None else dv_maps v i)"
    by (auto simp: fun_eq_iff)
  then show ?case using Suc by (simp add: legal_run_append)
qed

lemma unmap_shown: "shows_maps bufs v \<Longrightarrow> \<not> dv_on v \<Longrightarrow> n = length bufs \<Longrightarrow>
  \<exists>v'. legal_run (map Unmapped [0..<n]) v = Some v' \<and> released v'"
  by (auto simp: unmap_all shows_maps_def released_def fun_eq_iff)

lemma dev_ok_dropping:
  assumes "dev_ok v m Q (\<lambda>e v'. shows_maps bufs v' \<and> \<not> dv_on v')" "n = length bufs"
  shows "dev_ok v (dropping n m) Q (\<lambda>e v'. released v')"
proof (cases m)
  case (Pair acts r)
  then obtain v' where run: "legal_run acts v = Some v'" using assms by (auto simp: dev_ok_def split: option.splits)
  consider "r = None" | e where "r = Some (Inl e)" | x where "r = Some (Inr x)" by (metis option.exhaust sum.exhaust)
  then show ?thesis
  proof cases
    case 2
    then have "shows_maps bufs v'" "\<not> dv_on v'" using assms(1) Pair run by (simp_all add: dev_ok_def)
    from unmap_shown[OF this assms(2)] show ?thesis using 2 Pair run by (auto simp: dev_ok_def dropping_def legal_run_append)
  qed (use assms Pair run in \<open>auto simp: dev_ok_def dropping_def\<close>)
qed

definition frame_sized :: "nat \<Rightarrow> bytes list \<Rightarrow> bool" where
  "frame_sized n bufs \<longleftrightarrow> list_all (\<lambda>b. n \<le> length b) bufs"

lemma map_buffers_ok:
  assumes "shows_maps bufs v" "\<not> dv_on v" "dv_queued v = {}" "frame_sized n bufs"
  shows "rest = [length bufs..<c] \<Longrightarrow> dev_ok v (map_buffers k n rest bufs)
     (\<lambda>bufs' v'. shows_maps bufs' v' \<and> \<not> dv_on v' \<and> dv_queued v' = {} \<and> frame_sized n bufs' \<and> (length bufs \<le> c \<longrightarrow> length bufs' = c))
     (\<lambda>e v'. released v')"
  using assms
proof (induction rest arbitrary: bufs v)
  case Nil
  have "[length bufs..<c] = []" using Nil.prems(1) by (rule sym)
  then have "length bufs \<le> c \<Longrightarrow> length bufs = c" by auto
  then show ?case using Nil by simp
next
  case (Cons i rest)
  have "length bufs < c" using Cons.prems(1) by (cases "length bufs < c") simp_all
  then have i: "i = length bufs" "i < c" "rest = [Suc (length bufs)..<c]"
    using Cons.prems(1) by (simp_all add: upt_conv_Cons)
  show ?case
    unfolding map_buffers.simps
  proof (intro dev_ok_then dev_ok_dropping[where bufs = bufs, OF _ refl] dev_ok_ioctl, goal_cases)
    case (1 len)
    show ?case
    proof (cases "unat len < n \<or> k_map k i = None")
      case True
      then show ?thesis using Cons.prems by auto
    next
      case False
      then obtain mem where mem: "k_map k i = Some mem" "n \<le> unat len" by auto
      let ?buf = "map mem [0..<unat len]" and ?v = "v\<lparr>dv_maps := (dv_maps v)(i \<mapsto> unat len)\<rparr>"
      have "shows_maps (bufs @ [?buf]) ?v" "legal_step (Mapped i (unat len)) v = Some ?v"
        using Cons.prems(2) i(1) by (auto simp: shows_maps_def fun_eq_iff nth_append)
      moreover have "frame_sized n (bufs @ [?buf])" using Cons.prems(5) mem(2) by (simp add: frame_sized_def)
      moreover note Cons.IH[of "bufs @ [?buf]" ?v]
      ultimately show ?thesis using mem Cons.prems i
        by (auto intro!: dev_ok_then dev_ok_do elim!: dev_ok_mono)
    qed
  next
    case (2 e)
    then show ?case using Cons.prems by simp
  qed
qed


section \<open>Writing and queueing\<close>

abbreviation overwritten :: "nat \<Rightarrow> bytes \<Rightarrow> bytes list \<Rightarrow> bytes list" where
  "overwritten i bs bufs \<equiv> bufs[i := bs @ drop (length bs) (bufs ! i)]"

lemma shows_maps_overwritten:
  "length bs \<le> length (bufs ! i) \<Longrightarrow> shows_maps (overwritten i bs bufs) v \<longleftrightarrow> shows_maps bufs v"
proof -
  assume "length bs \<le> length (bufs ! i)"
  then have eq: "length (overwritten i bs bufs ! k) = length (bufs ! k)" for k
    by (cases "i < length bufs") (auto simp: nth_list_update list_update_beyond not_less)
  show ?thesis by (simp only: shows_maps_def length_list_update eq)
qed

lemma frame_sized_overwritten:
  "length bs \<le> length (bufs ! i) \<Longrightarrow> frame_sized n bufs \<Longrightarrow> frame_sized n (overwritten i bs bufs)"
  by (cases "i < length bufs") (auto simp: frame_sized_def list_all_length nth_list_update)

lemma frame_sized_nth: "frame_sized n bufs \<Longrightarrow> i < length bufs \<Longrightarrow> n \<le> length (bufs ! i)"
  by (simp add: frame_sized_def list_all_length)

lemma write_mapping_ok:
  assumes "shows_maps bufs v" "i < length bufs" "length bs \<le> length (bufs ! i)" "i \<notin> dv_queued v"
    and "Q (overwritten i bs bufs) (v\<lparr>dv_written := (dv_written v)(i \<mapsto> length bs)\<rparr>)"
  shows "dev_ok v (write_mapping i bs bufs) Q E"
  unfolding write_mapping_def
  by (rule dev_ok_then, rule dev_ok_do[where v' = "v\<lparr>dv_written := (dv_written v)(i \<mapsto> length bs)\<rparr>"])
    (use assms in \<open>simp_all add: shows_maps_def\<close>)

text \<open>What was just written is queued.\<close>

definition queueing :: "nat \<Rightarrow> nat \<Rightarrow> dev_view \<Rightarrow> dev_view" where
  "queueing i n v = v\<lparr>dv_written := (dv_written v)(i \<mapsto> n), dv_queued := insert i (dv_queued v)\<rparr>"

lemma queueing_simps [simp]:
  "dv_on (queueing i n v) = dv_on v" "dv_queued (queueing i n v) = insert i (dv_queued v)"
  "shows_maps bufs (queueing i n v) = shows_maps bufs v"
  by (simp_all add: queueing_def shows_maps_def)

lemma write_and_queue_ok:
  assumes "shows_maps bufs v" "i < length bufs" "length bs \<le> length (bufs ! i)" "i \<notin> dv_queued v" "bs \<noteq> []"
    and "length bs < 2 ^ 32"
    and fails: "\<And>e v'. shows_maps bufs v' \<Longrightarrow> dv_on v' = dv_on v \<Longrightarrow> E e v'"
    and runs: "dev_ok (queueing i (length bs) v) (f (overwritten i bs bufs)) Q E"
  shows "dev_ok v (then_dev (write_mapping i bs bufs) (\<lambda>bufs'. then_dev (ioctl rs) (\<lambda>_.
      then_dev (dev_do (Queued i (unat (of_nat (length bs) :: u32)) stamp)) (\<lambda>_. f bufs')))) Q E"
proof (rule dev_ok_then, rule write_mapping_ok[OF assms(1-4)], rule dev_ok_then, rule dev_ok_ioctl)
  let ?v = "v\<lparr>dv_written := (dv_written v)(i \<mapsto> length bs)\<rparr>"
  have "unat (of_nat (length bs) :: u32) = length bs" using assms(6) by (simp add: unat_of_nat)
  moreover have "legal_step (Queued i (length bs) stamp) ?v = Some (queueing i (length bs) v)"
    using assms(1,2,4,5) by (simp add: shows_maps_def queueing_def)
  ultimately show "dev_ok ?v (then_dev (dev_do (Queued i (unat (of_nat (length bs) :: u32)) stamp)) (\<lambda>_. f (overwritten i bs bufs))) Q E"
    using runs by (intro dev_ok_then dev_ok_do) simp_all
  show "E e ?v" for e using fails[of ?v] assms(1) by (simp add: shows_maps_def)
qed

definition frame_limit :: nat where
  "frame_limit = 256 * 1024 * 1024"

lemma prime_buffers_ok:
  assumes n: "0 < n" "n \<le> frame_limit"
    and v: "shows_maps bufs v" "\<not> dv_on v" "dv_queued v = {..<j}" "frame_sized n bufs" "j \<le> length bufs"
  shows "rest = [j..<length bufs] \<Longrightarrow> dev_ok v (prime_buffers k n rest bufs)
     (\<lambda>bufs' v'. shows_maps bufs v' \<and> shows_maps bufs' v' \<and> \<not> dv_on v' \<and> dv_queued v' = {..<length bufs'} \<and> frame_sized n bufs')
     (\<lambda>e v'. shows_maps bufs v' \<and> \<not> dv_on v')"
  using v
proof (induction rest arbitrary: bufs v j)
  case Nil
  have "[j..<length bufs] = []" using Nil.prems(1) by (rule sym)
  then have "j = length bufs" using Nil.prems(6) by auto
  then show ?case using Nil by simp
next
  case (Cons i rest)
  have "j < length bufs" by (rule ccontr) (use Cons.prems(1) in simp)
  then have i: "i = j" "i < length bufs" "rest = [Suc i..<length bufs]" using Cons.prems(1) by (simp_all add: upt_conv_Cons)
  have fits: "n \<le> length (bufs ! i)" using frame_sized_nth[OF Cons.prems(5) i(2)] .
  let ?bufs = "overwritten i (replicate n 128) bufs" and ?v = "queueing i n v"
  have "dev_ok ?v (prime_buffers k n rest ?bufs)
      (\<lambda>bufs' v'. shows_maps ?bufs v' \<and> shows_maps bufs' v' \<and> \<not> dv_on v' \<and> dv_queued v' = {..<length bufs'} \<and> frame_sized n bufs')
      (\<lambda>e v'. shows_maps ?bufs v' \<and> \<not> dv_on v')"
    by (rule Cons.IH[where j = "Suc i"])
      (use Cons.prems i fits shows_maps_overwritten[of "replicate n 128" bufs i]
          frame_sized_overwritten[of "replicate n 128" bufs i n] in \<open>auto simp: lessThan_Suc\<close>)
  then have "dev_ok ?v (prime_buffers k n rest ?bufs)
      (\<lambda>bufs' v'. shows_maps bufs v' \<and> shows_maps bufs' v' \<and> \<not> dv_on v' \<and> dv_queued v' = {..<length bufs'} \<and> frame_sized n bufs')
      (\<lambda>e v'. shows_maps bufs v' \<and> \<not> dv_on v')"
    using shows_maps_overwritten[of "replicate n 128" bufs i] fits by (auto elim: dev_ok_mono)
  moreover have "n < 2 ^ 32" "replicate n 128 \<noteq> ([] :: bytes)" using n by (simp_all add: frame_limit_def)
  ultimately show ?case
    using write_and_queue_ok[of bufs v i "replicate n 128"
        "\<lambda>e v'. shows_maps bufs v' \<and> \<not> dv_on v'" "prime_buffers k n rest"] Cons.prems(2-) i(1,2) fits by simp
qed


section \<open>A camera's life\<close>

definition cam_ok :: "camera \<Rightarrow> dev_view \<Rightarrow> bool" where
  "cam_ok cam v \<longleftrightarrow> shows_maps (cam_buffers cam) v \<and> dv_on v \<and> cam_size cam \<le> frame_limit
     \<and> frame_sized (cam_size cam) (cam_buffers cam)"

definition camera_sized :: "u32 \<Rightarrow> u32 \<Rightarrow> camera \<Rightarrow> bool" where
  "camera_sized width height cam \<longleftrightarrow> unat width * 2 \<le> cam_stride cam \<and> cam_stride cam * unat height \<le> cam_size cam"

lemma start_stream_ok:
  assumes n: "0 < n" "n \<le> frame_limit"
  shows "dev_ok no_device (start_stream k stride n count)
     (\<lambda>cam v. cam_ok cam v \<and> cam_stride cam = stride \<and> cam_size cam = n) (\<lambda>e v. released v)"
proof -
  have none: "shows_maps [] no_device" "\<not> dv_on no_device" "dv_queued no_device = {}" "frame_sized n []"
    by (simp_all add: shows_maps_def no_device_def frame_sized_def)
  show ?thesis
    unfolding start_stream_def
  proof (rule dev_ok_then, rule dev_ok_mono[OF map_buffers_ok[OF none, of _ "unat count"]], goal_cases)
    case (2 bufs v)
    then have v: "shows_maps bufs v" "\<not> dv_on v" "dv_queued v = {..<0}" "frame_sized n bufs" "length bufs = unat count" by simp_all
    show ?case
    proof (rule dev_ok_dropping[where bufs = bufs, OF _ refl], rule dev_ok_then,
        rule dev_ok_mono[OF prime_buffers_ok[OF n v(1-4), of "[0..<unat count]" k]], goal_cases)
      case (3 primed w)
      let ?w = "w\<lparr>dv_on := True\<rparr>"
      from 3 have w: "shows_maps bufs w" "shows_maps primed w" "\<not> dv_on w" "dv_queued w = {..<length primed}"
        "frame_sized n primed" by blast+
      have "dom (dv_maps w) = {..<length primed}"
        unfolding w(2)[unfolded shows_maps_def] by (auto simp: dom_def)
      then have "dom (dv_maps w) \<subseteq> dv_queued w" using w(4) by blast
      then have "legal_step StreamOn w = Some ?w" using w(3) by simp
      moreover have "cam_ok \<lparr>cam_stride = stride, cam_size = n, cam_buffers = primed\<rparr> ?w"
        using w(2,5) n(2) by (simp add: cam_ok_def shows_maps_def)
      ultimately have on: "dev_ok w (then_dev (dev_do StreamOn)
          (\<lambda>_. dev_lift (Inr \<lparr>cam_stride = stride, cam_size = n, cam_buffers = primed\<rparr>)))
          (\<lambda>cam v. cam_ok cam v \<and> cam_stride cam = stride \<and> cam_size cam = n) (\<lambda>e v. shows_maps bufs v \<and> \<not> dv_on v)"
        by (intro dev_ok_then dev_ok_do) simp_all
      show ?case by (rule dev_ok_then, rule dev_ok_ioctl, rule on) (use w(1,3) in simp)
    next
      case 4
      then show ?case by simp
    qed (use v in simp_all)
  qed simp_all
qed


lemma start_stream_sized:
  assumes "width \<noteq> 0" "height \<noteq> 0" and l: "camera_layout pix width height = (stride, n)" "n \<le> 256 * 1024 * 1024"
  shows "dev_ok no_device (start_stream k stride n count)
     (\<lambda>cam v. cam_ok cam v \<and> camera_sized width height cam) (\<lambda>e v. released v)"
proof -
  have size: "unat width * 2 \<le> stride" "stride * unat height \<le> n"
    using l(1) by (auto simp: camera_layout_def Let_def)
  have "0 < unat width" "0 < unat height" using assms by (simp_all add: unat_gt_0)
  then have "0 < stride" using size(1) by linarith
  then have "0 < stride * unat height" using \<open>0 < unat height\<close> by simp
  then have "0 < n" using size(2) by linarith
  then show ?thesis
    using start_stream_ok[of n k stride count] l(2) size by (auto simp: frame_limit_def camera_sized_def elim: dev_ok_mono)
qed

lemma camera_open_ok:
  assumes "width \<noteq> 0" "height \<noteq> 0"
  shows "dev_ok no_device (camera_open k width height) (\<lambda>cam v. cam_ok cam v \<and> camera_sized width height cam) (\<lambda>e v. released v)"
proof -
  have "released no_device" by (simp add: released_def no_device_def)
  then show ?thesis
    unfolding camera_open_def Let_def
    using assms by (auto intro!: dev_ok_then dev_ok_ioctl start_stream_sized split: sum.splits prod.splits)
qed

lemma ioctl_quiet: "fst (ioctl rs) = []"
  by (induction rs rule: ioctl.induct) (auto simp: dev_lift_def split: sum.splits)

lemma ioctl_cases:
  obtains "ioctl rs = ([], None)" | e where "ioctl rs = ([], Some (Inl e))" | x where "ioctl rs = ([], Some (Inr x))"
  using ioctl_quiet[of rs] by (metis option.exhaust prod.collapse sum.exhaust)

text \<open>The buffers after a frame: as they were, or one of them overwritten.\<close>

lemma camera_submit_ok:
  assumes cam: "cam_ok cam v" and bs: "bs \<noteq> []" "length bs \<le> cam_size cam"
    and Q: "Q cam v" "\<And>i w. i < length (cam_buffers cam) \<Longrightarrow> cam_ok (cam\<lparr>cam_buffers := overwritten i bs (cam_buffers cam)\<rparr>) w
        \<Longrightarrow> Q (cam\<lparr>cam_buffers := overwritten i bs (cam_buffers cam)\<rparr>) w"
    and E: "\<And>e w. shows_maps (cam_buffers cam) w \<Longrightarrow> E e w"
  shows "dev_ok v (camera_submit io bs cam) Q E"
proof -
  let ?bufs = "cam_buffers cam"
  have v: "shows_maps ?bufs v" "dv_on v" "cam_size cam \<le> frame_limit" "frame_sized (cam_size cam) ?bufs"
    using cam by (simp_all add: cam_ok_def)
  show ?thesis
  proof (cases rule: ioctl_cases[of "sb_dequeue io"])
    case 1
    then show ?thesis using bs(2) by (simp add: camera_submit_def dev_ok_def)
  next
    case (2 e)
    then show ?thesis using bs(2) Q(1) E v(1) by (simp add: camera_submit_def dev_ok_def)
  next
    case (3 index)
    let ?i = "unat index" and ?w = "v\<lparr>dv_queued := dv_queued v - {unat index}, dv_written := (dv_written v)(unat index := None)\<rparr>"
    have w: "shows_maps ?bufs ?w" "legal_step (Dequeued ?i) v = Some ?w" using v(1,2) by (simp_all add: shows_maps_def)
    let ?rest = "if length ?bufs \<le> ?i then dev_lift (Inl (Msg ''V4L2 returned an unknown output buffer index''))
        else then_dev (write_mapping ?i bs ?bufs) (\<lambda>bufs. then_dev (ioctl (sb_queue io)) (\<lambda>_.
             then_dev (dev_do (Queued ?i (unat (of_nat (length bs) :: u32))
                 (sb_elapsed io div 1000000, sb_elapsed io mod 1000000))) (\<lambda>_.
               dev_lift (Inr (cam\<lparr>cam_buffers := bufs\<rparr>)))))"
    have rest: "dev_ok ?w ?rest Q E"
    proof (cases "length ?bufs \<le> ?i")
      case True
      then show ?thesis using E w(1) by simp
    next
      case False
      then have i: "?i < length ?bufs" by simp
      have fits: "length bs \<le> length (?bufs ! ?i)" using frame_sized_nth[OF v(4) i] bs(2) by linarith
      have "cam_ok (cam\<lparr>cam_buffers := overwritten ?i bs ?bufs\<rparr>) (queueing ?i (length bs) ?w)"
        using v w(1) shows_maps_overwritten[OF fits] frame_sized_overwritten[OF fits v(4)] by (simp add: cam_ok_def)
      then have "Q (cam\<lparr>cam_buffers := overwritten ?i bs ?bufs\<rparr>) (queueing ?i (length bs) ?w)" by (rule Q(2)[OF i])
      moreover have "length bs < 2 ^ 32" using bs(2) v(3) by (simp add: frame_limit_def)
      ultimately show ?thesis
        using write_and_queue_ok[OF w(1) i fits _ bs(1), of E "\<lambda>bufs. dev_lift (Inr (cam\<lparr>cam_buffers := bufs\<rparr>))" Q] E False
        by simp
    qed
    have "dev_ok v (then_dev (dev_do (Dequeued ?i)) (\<lambda>_. ?rest)) Q E"
      by (rule dev_ok_then, rule dev_ok_do[OF w(2)], rule rest)
    then show ?thesis using 3 bs(2) by (simp add: camera_submit_def Let_def)
  qed
qed


lemma camera_frames_ok:
  assumes "cam_ok cam v" "\<forall>(io, bs) \<in> set frames. bs \<noteq> []"
  shows "dev_ok v (camera_frames frames cam)
     (\<lambda>cam' w. shows_maps (cam_buffers cam) w \<and> cam_ok cam' w \<and> cam_stride cam' = cam_stride cam \<and> cam_size cam' = cam_size cam)
     (\<lambda>e w. shows_maps (cam_buffers cam) w)"
  using assms
proof (induction frames arbitrary: cam v)
  case Nil
  then show ?case by (simp add: cam_ok_def)
next
  case (Cons f frames)
  obtain io bs where f: "f = (io, bs)" by fastforce
  have bs: "bs \<noteq> []" and rest: "\<forall>(io, bs) \<in> set frames. bs \<noteq> []" using Cons.prems(2) f by auto
  let ?Q = "\<lambda>cam' w. shows_maps (cam_buffers cam) w \<and> cam_ok cam' w
    \<and> cam_stride cam' = cam_stride cam \<and> cam_size cam' = cam_size cam"
  let ?E = "\<lambda>e w. shows_maps (cam_buffers cam) w"
  have first: "dev_ok v (camera_submit io bs cam) (\<lambda>cam' w. dev_ok w (camera_frames frames cam') ?Q ?E) ?E"
  proof (cases "length bs \<le> cam_size cam")
    case True
    show ?thesis
    proof (rule camera_submit_ok[OF Cons.prems(1) bs True])
      show "dev_ok v (camera_frames frames cam) ?Q ?E" using Cons.IH[OF Cons.prems(1) rest] .
    next
      fix i w assume i: "i < length (cam_buffers cam)"
        and c: "cam_ok (cam\<lparr>cam_buffers := overwritten i bs (cam_buffers cam)\<rparr>) w"
      have "length bs \<le> length (cam_buffers cam ! i)"
        using Cons.prems(1) frame_sized_nth[OF _ i] True by (force simp: cam_ok_def)
      then show "dev_ok w (camera_frames frames (cam\<lparr>cam_buffers := overwritten i bs (cam_buffers cam)\<rparr>)) ?Q ?E"
        using Cons.IH[OF c rest] shows_maps_overwritten[of bs "cam_buffers cam" i] by simp
    qed
  next
    case False
    then show ?thesis using Cons.prems(1) by (simp add: camera_submit_def cam_ok_def)
  qed
  show ?case unfolding f camera_frames.simps by (rule dev_ok_then, rule first)
qed

text \<open>Nothing is mapped, and the stream is off unless the kernel's last word was that it will not stop it.\<close>

definition closed_with :: "v4l2 \<Rightarrow> dev_view \<Rightarrow> bool" where
  "closed_with k v \<longleftrightarrow> dv_maps v = Map.empty \<and> (dv_on v \<longrightarrow> (\<exists>e. snd (ioctl (k_stop k)) = Some (Inl e)))"

lemma released_closed: "released v \<Longrightarrow> closed_with k v"
  by (simp add: released_def closed_with_def)

lemma camera_drop_closes:
  assumes "shows_maps (cam_buffers cam) v"
  shows "dev_ok v (camera_drop k cam) (\<lambda>_. closed_with k) (\<lambda>e v. False)"
proof (cases rule: ioctl_cases[of "k_stop k"])
  case 1
  then show ?thesis by (simp add: camera_drop_def dev_ok_def)
next
  case (2 e)
  have "legal_run (map Unmapped [0..<length (cam_buffers cam)]) (v\<lparr>dv_refused := True\<rparr>)
      = Some (v\<lparr>dv_refused := True, dv_maps := Map.empty\<rparr>)"
    using unmap_all[of "v\<lparr>dv_refused := True\<rparr>" "length (cam_buffers cam)"] assms
    by (simp add: shows_maps_def fun_eq_iff cong: if_cong)
  then show ?thesis using 2 by (simp add: camera_drop_def dev_ok_def then_dev_def closed_with_def)
next
  case (3 u)
  have "legal_run (map Unmapped [0..<length (cam_buffers cam)]) (v\<lparr>dv_on := False, dv_queued := {}\<rparr>)
      = Some (v\<lparr>dv_on := False, dv_queued := {}, dv_maps := Map.empty\<rparr>)"
    using unmap_all[of "v\<lparr>dv_on := False, dv_queued := {}\<rparr>" "length (cam_buffers cam)"] assms
    by (simp add: shows_maps_def fun_eq_iff cong: if_cong)
  then show ?thesis using 3 by (simp add: camera_drop_def dev_ok_def then_dev_def closed_with_def)
qed

section \<open>Properties\<close>

text \<open>
  C34. The camera's unchecked memory accesses are safe: however the kernel answers, every write of a
  camera's life is inside a mapping that exists and whose buffer the kernel does not own at that moment; a
  buffer is queued only with exactly the bytes written to it since it was taken back, never empty, and all
  of them are queued before the stream starts; and when the camera has failed to open, has failed on a frame
  or has been dropped, nothing is mapped and the stream is off, unless the kernel itself refused to stop
  it when the camera was dropped.
\<close>

theorem camera_memory_safe:
  assumes "width \<noteq> 0" "height \<noteq> 0" "\<forall>(io, bs) \<in> set frames. bs \<noteq> []"
  shows "\<exists>v. legal_run (fst (camera_use k width height frames)) no_device = Some v
    \<and> (snd (camera_use k width height frames) \<noteq> None \<longrightarrow> dv_maps v = Map.empty
         \<and> (dv_on v \<longrightarrow> (\<exists>e. snd (ioctl (k_stop k)) = Some (Inl e))))"
proof -
  let ?used = "\<lambda>cam. case camera_frames frames cam of (acts, None) \<Rightarrow> (acts, None)
    | (acts, Some r) \<Rightarrow> (case camera_drop k cam of (drops, None) \<Rightarrow> (acts @ drops, None) | (drops, Some _) \<Rightarrow> (acts @ drops, Some r))"
  have "dev_ok v (?used cam) (\<lambda>cam. closed_with k) (\<lambda>e. closed_with k)" if "cam_ok cam v" for cam v
  proof -
    note frames = camera_frames_ok[OF that assms(3)]
    obtain acts r where run: "camera_frames frames cam = (acts, r)" by fastforce
    consider "r = None" | x where "r = Some x" by (cases r) auto
    then show ?thesis
    proof cases
      case 1
      then show ?thesis using frames run by (auto simp: dev_ok_def split: option.splits)
    next
      case (2 x)
      then obtain w where "legal_run acts v = Some w" "shows_maps (cam_buffers cam) w"
        using frames run by (auto simp: dev_ok_def split: option.splits sum.splits)
      then show ?thesis using 2 run camera_drop_closes[of cam w k]
        by (auto simp: dev_ok_def legal_run_append split: sum.splits option.splits prod.splits)
    qed
  qed
  then have "dev_ok no_device (camera_use k width height frames) (\<lambda>cam. closed_with k) (\<lambda>e. closed_with k)"
    unfolding camera_use_def by (intro dev_ok_then dev_ok_mono[OF camera_open_ok[OF assms(1,2)]]) (auto simp: released_closed)
  then show ?thesis by (auto simp: dev_ok_def closed_with_def split: option.splits sum.splits)
qed

definition sample_v4l2 :: v4l2 where
  "sample_v4l2 = \<lparr>k_cap_device = 4, k_cap_output = 2, k_cap_streaming = 1, k_yuyv = 7, k_open = Inr (),
     k_caps = [Inl (Io Interrupted ''Interrupted system call''), Inr (7, 3)],
     k_format = [Inr \<lparr>vp_width = 2, vp_height = 2, vp_format = 7, vp_bytesperline = 4, vp_sizeimage = 8\<rparr>],
     k_parm = [Inr ()], k_request = [Inr 2], k_query = (\<lambda>i. [Inr 16]), k_map = (\<lambda>i. Some (\<lambda>_. 0)),
     k_prime = (\<lambda>i. [Inr ()]), k_stream = [Inr ()],
     k_stop = [Inr ()]\<rparr>"

definition sample_submit :: submit_io where
  "sample_submit = \<lparr>sb_dequeue = [Inr 1], sb_elapsed = 1500000, sb_queue = [Inr ()]\<rparr>"

lemmas camera_run_simps = camera_use_def camera_open_def start_stream_def camera_layout_def write_mapping_def then_dev_def
  dev_lift_def dev_do_def dropping_def camera_submit_def camera_drop_def sample_v4l2_def sample_submit_def interrupted_def

lemma sample_camera_use:
  "fst (camera_use sample_v4l2 2 2 [(sample_submit, [1, 2, 3, 4, 5, 6, 7, 8])])
     = [Mapped 0 16, Mapped 1 16, Wrote 0 8, Queued 0 8 (0, 0), Wrote 1 8, Queued 1 8 (0, 0), StreamOn,
        Dequeued 1, Wrote 1 8, Queued 1 8 (1, 500000), StreamOff True, Unmapped 0, Unmapped 1]"
  "snd (camera_use sample_v4l2 2 2 [(sample_submit, [1, 2, 3, 4, 5, 6, 7, 8])]) \<noteq> None"
  by (simp_all add: camera_run_simps upt_rec)

lemma camera_memory_safe_witness:
  "\<exists>v. legal_run [Mapped 0 16, Mapped 1 16, Wrote 0 8, Queued 0 8 (0, 0), Wrote 1 8, Queued 1 8 (0, 0), StreamOn,
        Dequeued 1, Wrote 1 8, Queued 1 8 (1, 500000), StreamOff True, Unmapped 0, Unmapped 1] no_device = Some v
     \<and> dv_maps v = Map.empty \<and> \<not> dv_on v"
  using camera_memory_safe[of 2 2 "[(sample_submit, [1, 2, 3, 4, 5, 6, 7, 8])]" sample_v4l2]
  unfolding sample_camera_use(1) using sample_camera_use(2)
  by (auto simp: sample_v4l2_def dev_lift_def)

section \<open>From a decoded frame to the kernel\<close>

lemma dev_ok_result:
  assumes "dev_ok v m Q E" "m = (acts, Some (Inr x))"
  shows "\<exists>w. legal_run acts v = Some w \<and> Q x w"
  using assms by (auto simp: dev_ok_def split: option.splits)

lemma opened_camera:
  assumes "camera_open k width height = (acts, Some (Inr cam0))" "width \<noteq> 0" "height \<noteq> 0"
    and "camera_frames frames cam0 = (acts', Some (Inr cam))" "\<forall>(io, bs) \<in> set frames. bs \<noteq> []"
  shows "camera_sized width height cam \<and> frame_sized (cam_size cam) (cam_buffers cam) \<and> cam_size cam \<le> frame_limit"
proof -
  obtain v where v: "cam_ok cam0 v" "camera_sized width height cam0"
    using dev_ok_result[OF camera_open_ok[OF assms(2,3)] assms(1)] by blast
  from dev_ok_result[OF camera_frames_ok[OF v(1) assms(5)] assms(4)] v(2)
  show ?thesis by (auto simp: cam_ok_def camera_sized_def)
qed

lemma output_picture_prefix:
  assumes "even width" "row_bytes_of rgba width \<le> stride" "stride * height \<le> length bs"
  shows "output_picture rgba width height stride (bs @ rest) = output_picture rgba width height stride bs"
proof (unfold output_picture_pixels, rule picture_of_cong)
  fix x y assume x: "x < width" and y: "y < height"
  have "y * stride + c < length bs" if "c \<in> set (pixel_columns rgba x)" for c
    using row_below[OF y _ assms(3), of c] pixel_columns_bound[OF x _ that] assms(1,2) by simp
  then show "pixel_at rgba stride (bs @ rest) x y = pixel_at rgba stride bs x y"
    by (simp add: pixel_at_def nth_append)
qed

lemma camera_submit_cases:
  assumes "frame_sized (cam_size cam) (cam_buffers cam)" "length bs = cam_size cam" "cam_size cam \<le> frame_limit"
  shows "case camera_submit io bs cam of
     (acts, None) \<Rightarrow> True
   | (acts, Some (Inl e)) \<Rightarrow> e = Msg ''V4L2 returned an unknown output buffer index''
       \<or> Inl e \<in> set (sb_dequeue io) \<or> Inl e \<in> set (sb_queue io)
   | (acts, Some (Inr cam')) \<Rightarrow> (acts = [] \<and> cam' = cam)
       \<or> (\<exists>i stamp. i < length (cam_buffers cam)
            \<and> acts = [Dequeued i, Wrote i (cam_size cam), Queued i (cam_size cam) stamp]
            \<and> cam' = cam\<lparr>cam_buffers := (cam_buffers cam)[i := bs @ drop (cam_size cam) (cam_buffers cam ! i)]\<rparr>)"
proof -
  have from_kernel: "ioctl rs = ([], Some (Inl e)) \<Longrightarrow> Inl e \<in> set rs" for rs :: "(error + 'b) list" and e
    by (induction rs rule: ioctl.induct) (auto simp: dev_lift_def split: sum.splits if_splits)
  have n: "unat (of_nat (cam_size cam) :: u32) = cam_size cam" using assms(3) by (simp add: unat_of_nat frame_limit_def)
  show ?thesis
  proof (cases rule: ioctl_cases[of "sb_dequeue io"])
    case 1
    then show ?thesis using assms(2) by (simp add: camera_submit_def)
  next
    case (2 e)
    then show ?thesis using assms(2) from_kernel[OF 2] by (simp add: camera_submit_def)
  next
    case dequeued: (3 index)
    show ?thesis
    proof (cases rule: ioctl_cases[of "sb_queue io"])
      case 1
      then show ?thesis using assms(2) dequeued
        by (simp add: camera_submit_def Let_def then_dev_def dev_do_def dev_lift_def write_mapping_def)
    next
      case (2 e)
      then show ?thesis using assms(2) dequeued from_kernel[OF 2]
        by (simp add: camera_submit_def Let_def then_dev_def dev_do_def dev_lift_def write_mapping_def)
    next
      case (3 u)
      then show ?thesis using assms(2) dequeued n
        by (auto simp: camera_submit_def Let_def then_dev_def dev_do_def dev_lift_def write_mapping_def not_le)
    qed
  qed
qed

text \<open>
  C36. A decoded frame reaches the kernel as the picture it was converted to: for a configuration the phone
  sent and the worker accepted, with a camera opened for it and whatever frames it was given before, the
  conversion with the camera's own layout cannot leave its buffers; the bytes have the camera's size, so the
  camera never finds them too large; and either no buffer was free and nothing happened, or one buffer was
  taken back, overwritten by exactly these bytes and queued, and shows the converted picture. Only the
  kernel's own errors can end it.
\<close>

theorem frame_reaches_kernel:
  assumes "config_parse payload = Inr c" "even (unat (cf_width c))"
    and "camera_open k (cf_width c) (cf_height c) = (acts0, Some (Inr cam0))"
    and "camera_frames frames cam0 = (acts1, Some (Inr cam))" "\<forall>(io, bs) \<in> set frames. bs \<noteq> []"
    and "ffmpeg_ok ff" "pixels_sound p"
  shows "case convert ff False source c (cam_stride cam) (cam_size cam) t p of
     Inl e \<Rightarrow> conversion_failure ff e
   | Inr q \<Rightarrow> pixels_sound q
       \<and> (case camera_submit io (px_bytes q) cam of
            (acts, None) \<Rightarrow> True
          | (acts, Some (Inl e)) \<Rightarrow> e = Msg ''V4L2 returned an unknown output buffer index''
              \<or> Inl e \<in> set (sb_dequeue io) \<or> Inl e \<in> set (sb_queue io)
          | (acts, Some (Inr cam')) \<Rightarrow> (acts = [] \<and> cam' = cam)
              \<or> (\<exists>i stamp. acts = [Dequeued i, Wrote i (cam_size cam), Queued i (cam_size cam) stamp]
                   \<and> output_picture False (unat (cf_width c)) (unat (cf_height c)) (cam_stride cam) (cam_buffers cam' ! i)
                     = output_picture False (unat (cf_width c)) (unat (cf_height c)) (cam_stride cam) (px_bytes q)))"
proof -
  let ?w = "unat (cf_width c)" and ?h = "unat (cf_height c)"
  have nz: "cf_width c \<noteq> 0" "cf_height c \<noteq> 0"
    using assms(1) by (auto simp: config_parse_def Let_def split: if_splits)
  have cam: "camera_sized (cf_width c) (cf_height c) cam" "frame_sized (cam_size cam) (cam_buffers cam)"
    "cam_size cam \<le> frame_limit" using opened_camera[OF assms(3) nz assms(4,5)] by blast+
  have l: "layout_ok False ?w ?h (cam_stride cam) (cam_size cam)"
    using cam(1) assms(2) nz by (simp add: layout_ok_def camera_sized_def row_bytes_of_def unat_eq_zero)
  note conv = conversion_shows[OF assms(6,7) l, where source = source and t = t]
  show ?thesis
  proof (cases "convert ff False source c (cam_stride cam) (cam_size cam) t p")
    case (Inl e)
    then show ?thesis using conv by simp
  next
    case (Inr q)
    then have q: "pixels_sound q" "length (px_bytes q) = cam_size cam" using conv by simp_all
    have prefix: "output_picture False ?w ?h (cam_stride cam) (px_bytes q @ rest)
        = output_picture False ?w ?h (cam_stride cam) (px_bytes q)" for rest
      using output_picture_prefix[of ?w False "cam_stride cam" ?h "px_bytes q"] l q(2) by (simp add: layout_ok_def)
    show ?thesis
      using camera_submit_cases[OF cam(2) q(2) cam(3), of io] Inr q(1) prefix
      by (auto split: prod.splits option.splits sum.splits)
  qed
qed

definition sample_camera :: camera where
  "sample_camera = \<lparr>cam_stride = 4, cam_size = 8,
     cam_buffers = [replicate 8 128 @ [0, 0, 0, 0, 0, 0, 0, 0], replicate 8 128 @ [0, 0, 0, 0, 0, 0, 0, 0]]\<rparr>"

lemma frame_reaches_kernel_witness:
  "case convert sample_ffmpeg False (sample_frame (OtherPixel 0) 2 2) \<lparr>cf_width = 2, cf_height = 2, cf_fps = 30\<rparr> 4 8
     \<lparr>tr_rotation = 0, tr_mirror = False, tr_vertical = True\<rparr> pixels_new of
     Inl e \<Rightarrow> conversion_failure sample_ffmpeg e
   | Inr q \<Rightarrow> pixels_sound q
       \<and> (case camera_submit sample_submit (px_bytes q) sample_camera of
            (acts, None) \<Rightarrow> True
          | (acts, Some (Inl e)) \<Rightarrow> e = Msg ''V4L2 returned an unknown output buffer index''
              \<or> Inl e \<in> set (sb_dequeue sample_submit) \<or> Inl e \<in> set (sb_queue sample_submit)
          | (acts, Some (Inr cam')) \<Rightarrow> (acts = [] \<and> cam' = sample_camera)
              \<or> (\<exists>i stamp. acts = [Dequeued i, Wrote i 8, Queued i 8 stamp]
                   \<and> output_picture False 2 2 4 (cam_buffers cam' ! i) = output_picture False 2 2 4 (px_bytes q)))"
proof -
  let ?c = "\<lparr>cf_width = 2, cf_height = 2, cf_fps = 30\<rparr> :: config"
  have parsed: "config_parse [2, 0, 2, 0, 30, 0, 0, 0, 0, 0, 0, 0, 1, 1, 0, 0] = Inr ?c"
    by (simp add: config_parse_def Let_def slice_def of_le16_def)
  have opened: "camera_open sample_v4l2 (cf_width ?c) (cf_height ?c)
      = (fst (camera_open sample_v4l2 2 2), Some (Inr sample_camera))"
    by (simp add: camera_run_simps sample_camera_def upt_rec)
  have none: "camera_frames [] sample_camera = ([], Some (Inr sample_camera))" by (simp add: dev_lift_def)
  have fresh: "pixels_sound pixels_new" by (simp add: pixels_sound_def pixels_new_def)
  have evenw: "even (unat (cf_width ?c))" by simp
  have all: "\<forall>(io, bs) \<in> set ([] :: (submit_io \<times> bytes) list). bs \<noteq> []" by simp
  have sizes: "cam_stride sample_camera = 4" "cam_size sample_camera = 8" "unat (cf_width ?c) = 2" "unat (cf_height ?c) = 2"
    by (simp_all add: sample_camera_def)
  show ?thesis
    using frame_reaches_kernel[OF parsed evenw opened none all sample_ffmpeg_ok fresh, where io = sample_submit
      and source = "sample_frame (OtherPixel 0) 2 2" and t = "\<lparr>tr_rotation = 0, tr_mirror = False, tr_vertical = True\<rparr>"]
    unfolding sizes .
qed

end
