(* ===== verification/Quality_Form.thy ===== *)
theory Quality_Form
  imports Session
begin

text \<open>
  The settings the window edits, \<open>gui.rs\<close>: the resolution and frame-rate controls (\<open>quality_mode_controls\<close>),
  the other fields and \<open>Forget paired phone\<close> under Details, and when an edit is written to the settings
  file (\<open>save\<close>, the mark \<open>dirty\<close> at the end of a frame, the delayed save of \<open>logic\<close>, the save of \<open>drop\<close>). A frame
  gets at most one click, and a click that its widget does not offer is none; the other fields may be set
  to anything. Asking whether to forget the phone is part of that click. Times are milliseconds. What the
  widgets look like is not modelled.
\<close>

record form =
  fo_settings :: settings
  fo_store :: bool
  fo_dirty :: "nat option"
  fo_session :: session
  fo_draft :: "u16 \<times> u16 \<times> u16"
  fo_last_stats :: "(u64 \<times> u64) option"

definition form_new :: "bool \<Rightarrow> settings \<Rightarrow> form" where
  "form_new store cfg = \<lparr>fo_settings = cfg, fo_store = store, fo_dirty = None, fo_session = session_new,
     fo_draft = (quality_width cfg, quality_height cfg, quality_fps cfg), fo_last_stats = None\<rparr>"

datatype form_out = SaveForm settings | SessionOut effect

definition form_save :: "form \<Rightarrow> form \<times> form_out list" where
  "form_save f = (f\<lparr>fo_dirty := None\<rparr>, if fo_store f then [SaveForm (fo_settings f)] else [])"

datatype click =
    NoClick | PickSize "u16 \<times> u16" | PickFps u16 | ClickApply | ClickAuto | ForgetPhone | EditFields settings

section \<open>The quality controls\<close>

definition auto_warning :: ustr where
  "auto_warning = lit ''saved quality is not available on this phone/edition; using Auto''"

definition form_modes :: "form \<Rightarrow> mode list" where
  "form_modes f = (case cl_modes (se_quality (fo_session f)) of None \<Rightarrow> [] | Some ms \<Rightarrow> ms)"

definition replace_wish :: "wish \<Rightarrow> form \<Rightarrow> form \<times> form_out list" where
  "replace_wish w f = form_save (f\<lparr>fo_draft := wish_tuple w,
     fo_settings := (set_quality_wish (fo_settings f) w)\<lparr>quality_warning := Some auto_warning\<rparr>\<rparr>)"

definition migrate_part :: "form \<Rightarrow> form \<times> form_out list" where
  "migrate_part f =
     (let q = se_quality (fo_session f)
      in if migrated_to_auto q
         then replace_wish wish_default
                (f\<lparr>fo_session := (fo_session f)\<lparr>se_quality := q\<lparr>migrated_to_auto := False\<rparr>\<rparr>\<rparr>)
         else if client_ready q
         then (case coerce_wish_to_available (wish_from (fo_draft f)) (form_modes f) of
                 (coerced, migrated) \<Rightarrow> if migrated then replace_wish coerced f else (f, []))
         else (f, []))"

definition draft_size :: "u16 \<times> u16 \<times> u16 \<Rightarrow> u16 \<times> u16" where
  "draft_size d = (fst d, fst (snd d))"

definition draft_fps :: "u16 \<times> u16 \<times> u16 \<Rightarrow> u16" where
  "draft_fps d = snd (snd d)"

text \<open>The entries of the two lists, sorted and without duplicates.\<close>

definition form_sizes :: "form \<Rightarrow> (u16 \<times> u16) set" where
  "form_sizes f = set (map (\<lambda>m. (m_width m, m_height m)) (form_modes f))"

definition form_rates :: "form \<Rightarrow> u16 set" where
  "form_rates f = set (map m_fps (filter (\<lambda>m. fst (fo_draft f) = 0
     \<or> (m_width m, m_height m) = draft_size (fo_draft f)) (form_modes f)))"

definition pick_size :: "click \<Rightarrow> form \<Rightarrow> form" where
  "pick_size c f =
     (case c of
        PickSize (w, h) \<Rightarrow> if (w, h) = (0, 0) \<or> (w, h) \<in> form_sizes f then f\<lparr>fo_draft := (w, h, draft_fps (fo_draft f))\<rparr> else f
      | _ \<Rightarrow> f)"

definition reset_fps :: "u16 \<times> u16 \<Rightarrow> form \<Rightarrow> form" where
  "reset_fps old f =
     (if old \<noteq> draft_size (fo_draft f) \<and> form_modes f \<noteq> [] \<and> draft_fps (fo_draft f) \<noteq> 0
         \<and> draft_fps (fo_draft f) \<notin> form_rates f
      then f\<lparr>fo_draft := (fst (fo_draft f), fst (snd (fo_draft f)), 0)\<rparr> else f)"

definition pick_fps :: "click \<Rightarrow> form \<Rightarrow> form" where
  "pick_fps c f =
     (case c of
        PickFps r \<Rightarrow> if r = 0 \<or> r \<in> form_rates f
          then f\<lparr>fo_draft := (fst (fo_draft f), fst (snd (fo_draft f)), r)\<rparr> else f
      | _ \<Rightarrow> f)"

definition pick_part :: "bool \<Rightarrow> click \<Rightarrow> form \<Rightarrow> form" where
  "pick_part enabled c f =
     (if enabled then pick_fps c (reset_fps (draft_size (fo_draft f)) (pick_size c f)) else f)"

definition ask_quality :: "wish \<Rightarrow> nat \<Rightarrow> form \<Rightarrow> bool \<times> form \<times> form_out list" where
  "ask_quality w now f =
     (case session_prepare (w_width w) (w_height w) (w_fps w) now (fo_session f) of
        (ok, s, out) \<Rightarrow> (ok, f\<lparr>fo_session := s\<rparr>, map SessionOut out))"

definition keep_draft :: "bool \<Rightarrow> form \<Rightarrow> form" where
  "keep_draft live f =
     (let draft = wish_from (fo_draft f)
      in if \<not> live \<and> draft \<noteq> quality_wish (fo_settings f)
         then f\<lparr>fo_settings := set_quality_wish (fo_settings f) draft\<rparr> else f)"

text \<open>\<open>changed\<close>: there is something to apply.\<close>

definition draft_changed :: "form \<Rightarrow> bool" where
  "draft_changed f =
     (let q = se_quality (fo_session f); draft = wish_from (fo_draft f)
      in draft \<noteq> quality_wish (fo_settings f) \<or> cl_error q \<noteq> None
         \<or> (case client_resolve q draft of None \<Rightarrow> False | Some m \<Rightarrow> cl_applied q \<noteq> Some (mode_tuple m)))"

definition apply_part :: "bool \<Rightarrow> bool \<Rightarrow> bool \<Rightarrow> nat \<Rightarrow> click \<Rightarrow> form \<Rightarrow> form \<times> form_out list" where
  "apply_part live busy stopping now c f =
     (let q = se_quality (fo_session f); draft = wish_from (fo_draft f)
      in if live \<and> draft_changed f \<and> \<not> busy
            \<and> \<not> stopping \<and> client_ready q \<and> client_resolve q draft \<noteq> None \<and> c = ClickApply
         then (case ask_quality draft now f of
                 (ok, f', out) \<Rightarrow> (if ok then f'\<lparr>fo_settings := set_quality_wish (fo_settings f') draft\<rparr> else f', out))
         else (f, []))"

definition auto_part :: "bool \<Rightarrow> bool \<Rightarrow> bool \<Rightarrow> bool \<Rightarrow> nat \<Rightarrow> click \<Rightarrow> form \<Rightarrow> form \<times> form_out list" where
  "auto_part live busy stopping unresolved now c f =
     (let q = se_quality (fo_session f)
      in if ((client_ready q \<and> unresolved) \<or> quality_warning (fo_settings f) \<noteq> None)
            \<and> \<not> busy \<and> \<not> stopping \<and> (\<not> live \<or> client_ready q) \<and> c = ClickAuto
         then (case (if live then ask_quality wish_default now f else (True, f, [])) of
                 (ok, f', out) \<Rightarrow>
                   (if ok then f'\<lparr>fo_draft := (0, 0, 0), fo_settings := set_quality_wish (fo_settings f') wish_default\<rparr> else f', out))
         else (f, []))"

definition quality_controls :: "bool \<Rightarrow> nat \<Rightarrow> click \<Rightarrow> form \<Rightarrow> form \<times> form_out list" where
  "quality_controls live now c f =
     (let busy = cl_pending (se_quality (fo_session f)) \<noteq> None;
          stopping = se_state (fo_session f) = Stopping;
          (f1, out1) = migrate_part f;
          f2 = keep_draft live (pick_part (\<not> busy \<and> \<not> stopping) c f1);
          unresolved = client_resolve (se_quality (fo_session f2)) (wish_from (fo_draft f2)) = None;
          (f3, out3) = apply_part live busy stopping now c f2;
          (f4, out4) = auto_part live busy stopping unresolved now c f3
      in (f4, out1 @ out3 @ out4))"

section \<open>A frame, and the file\<close>

definition edit_fields :: "click \<Rightarrow> form \<Rightarrow> form" where
  "edit_fields c f =
     (case c of
        EditFields e \<Rightarrow> f\<lparr>fo_settings := (fo_settings f)\<lparr>transport := transport e, lan_host := lan_host e,
          lan_fingerprint := lan_fingerprint e, lan_key := lan_key e, output_path := output_path e,
          output_kind := output_kind e, decode := decode e, rotation := rotation e, mirror := mirror e,
          vertical_flip := vertical_flip e\<rparr>\<rparr>
      | _ \<Rightarrow> f)"

definition forget_part :: "click \<Rightarrow> form \<Rightarrow> form \<times> form_out list" where
  "forget_part c f =
     (if c = ForgetPhone \<and> transport (fo_settings f) = lit ''lan'' \<and> \<not> running (fo_session f)
         \<and> (lan_key (fo_settings f) \<noteq> [] \<or> lan_fingerprint (fo_settings f) \<noteq> [])
      then form_save (f\<lparr>fo_settings := (fo_settings f)\<lparr>lan_host := [], lan_fingerprint := [], lan_key := []\<rparr>\<rparr>)
      else (f, []))"

definition mark_dirty :: "settings \<Rightarrow> nat \<Rightarrow> form \<Rightarrow> form \<times> form_out list" where
  "mark_dirty before now f =
     (if before \<noteq> fo_settings f
      then (case session_transform (fo_settings f) (fo_session f) of
              (s, out) \<Rightarrow> (f\<lparr>fo_dirty := Some now, fo_session := s\<rparr>, map SessionOut out))
      else (f, []))"

text \<open>
  The controls are on the main screen while a session with known modes runs, and under Details otherwise;
  a closed Details section runs nothing.
\<close>

definition controls_shown :: "bool \<Rightarrow> form \<Rightarrow> bool" where
  "controls_shown details f \<longleftrightarrow> (running (fo_session f) \<and> form_modes f \<noteq> []) \<or> details"

definition ui_frame :: "bool \<Rightarrow> nat \<Rightarrow> click \<Rightarrow> form \<Rightarrow> form \<times> form_out list" where
  "ui_frame details now c f =
     (let (f1, out1) = (if controls_shown details f then quality_controls (running (fo_session f)) now c f else (f, []));
          f2 = edit_fields c f1;
          (f3, out3) = (if details then forget_part c f2 else (f2, []));
          (f4, out4) = mark_dirty (fo_settings f) now f3
      in (f4, out1 @ out3 @ out4))"

definition flush_part :: "nat \<Rightarrow> form \<Rightarrow> form \<times> form_out list" where
  "flush_part now f =
     (case fo_dirty f of
        None \<Rightarrow> (f, [])
      | Some d \<Rightarrow> if d + 300 \<le> now then form_save f else (f, []))"

text \<open>
  The session moved on; a session that ended puts the saved wish back into the draft and forgets its
  counters.
\<close>

definition session_turn :: "session \<Rightarrow> form \<Rightarrow> form" where
  "session_turn s f =
     (if running (fo_session f) \<and> \<not> running s
      then f\<lparr>fo_session := s, fo_draft := wish_tuple (quality_wish (fo_settings f)), fo_last_stats := None\<rparr>
      else f\<lparr>fo_session := s\<rparr>)"

text \<open>
  New counters of the session move the time of the last connection, in seconds; the clock is read to compare
  and again to store. The main button saves before it connects or stops.
\<close>

definition stats_snapshot :: "session \<Rightarrow> (u64 \<times> u64) option" where
  "stats_snapshot s =
     (case se_stats s of Some (Stats decoded submitted _ _ _ _ _) \<Rightarrow> Some (decoded, submitted) | _ \<Rightarrow> None)"

definition stamp_part :: "nat \<Rightarrow> nat \<Rightarrow> form \<Rightarrow> form \<times> form_out list" where
  "stamp_part compared stored f =
     (let snapshot = stats_snapshot (fo_session f)
      in if snapshot \<noteq> fo_last_stats f
         then let f1 = f\<lparr>fo_last_stats := snapshot\<rparr>
              in (case snapshot of
                    None \<Rightarrow> (f1, [])
                  | Some (decoded, _) \<Rightarrow>
                      if decoded > 0 \<and> se_state (fo_session f) = Streaming
                         \<and> last_connected (fo_settings f) \<noteq> compared div 60 * 60
                      then form_save (f1\<lparr>fo_settings := (fo_settings f)\<lparr>last_connected := stored\<rparr>\<rparr>)
                      else (f1, []))
         else (f, []))"

datatype form_op = UiFrame bool nat click | Flush nat | SessionTurn session | StatsSeen nat nat | PressMain

fun form_step :: "form \<Rightarrow> form_op \<Rightarrow> form \<times> form_out list" where
  "form_step f (UiFrame details now c) = ui_frame details now c f"
| "form_step f (Flush now) = flush_part now f"
| "form_step f (SessionTurn s) = (session_turn s f, [])"
| "form_step f (StatsSeen compared stored) = stamp_part compared stored f"
| "form_step f PressMain = form_save f"

definition window_close :: "form \<Rightarrow> form_out list" where
  "window_close f = (if fo_dirty f \<noteq> None then snd (form_save f) else [])"

end
