(* ===== verification/Quality_Form_Props.thy ===== *)
theory Quality_Form_Props
  imports Quality_Form Session_Props
begin

text \<open>
  What the window's quality controls can ask for, what they save, and that no edit is lost.
\<close>

section \<open>Drafts the phone can serve\<close>

definition in_lists :: "mode list \<Rightarrow> u16 \<times> u16 \<times> u16 \<Rightarrow> bool" where
  "in_lists ms d \<longleftrightarrow>
     (draft_size d = (0, 0) \<or> (\<exists>m \<in> set ms. (m_width m, m_height m) = draft_size d))
     \<and> (draft_fps d = 0 \<or> (\<exists>m \<in> set ms. (fst d = 0 \<or> (m_width m, m_height m) = draft_size d) \<and> m_fps m = draft_fps d))"

lemma resolvable_in_lists:
  assumes ms: "ms \<noteq> []" "list_all usable ms"
  shows "resolve (wish_from d) ms \<noteq> None \<longleftrightarrow> in_lists ms d"
proof -
  obtain w h r where d: "d = (w, h, r)" by (metis prod_cases3)
  have usable: "m_width m \<noteq> 0 \<and> m_height m \<noteq> 0 \<and> m_width m \<le> 3840 \<and> m_height m \<le> 2160 \<and> m_width m mod 2 = 0 \<and> m_fps m \<le> 60"
    if "m \<in> set ms" for m
    using ms(2) that by (auto simp: list_all_iff usable_def wish_valid_def wish_from_def mode_tuple_def)
  have all: "usable m" if "m \<in> set ms" for m using ms(2) that by (simp add: list_all_iff)
  have "resolve (wish_from d) ms \<noteq> None \<longleftrightarrow> wish_valid (wish_from d) \<and> (\<exists>m \<in> set ms. suits (wish_from d) m)"
    by (simp add: resolve_None_iff)
  also have "\<dots> \<longleftrightarrow> in_lists ms d"
  proof
    assume a: "wish_valid (wish_from d) \<and> (\<exists>m \<in> set ms. suits (wish_from d) m)"
    then show "in_lists ms d"
      by (auto simp: d in_lists_def draft_size_def draft_fps_def wish_from_def wish_valid_def suits_def)
  next
    assume a: "in_lists ms d"
    have size: "(w = 0 \<and> h = 0) \<or> (\<exists>m \<in> set ms. m_width m = w \<and> m_height m = h)"
      using a by (auto simp: d in_lists_def draft_size_def)
    obtain m where m: "m \<in> set ms" "w = 0 \<or> m_width m = w \<and> m_height m = h" "r = 0 \<or> m_fps m = r"
    proof (cases "r = 0")
      case True
      then show ?thesis using size ms(1) that by (metis list.set_sel(1))
    next
      case False
      then show ?thesis using a that by (auto simp: d in_lists_def draft_size_def draft_fps_def)
    qed
    have "w = 0 \<longleftrightarrow> h = 0" "w \<le> 3840" "h \<le> 2160" "w mod 2 = 0" "r \<le> 60" using size m usable by fastforce+
    then have "wish_valid (wish_from d)" by (simp add: d wish_from_def wish_valid_def)
    moreover have "suits (wish_from d) m" using m all by (auto simp: d suits_def wish_from_def)
    ultimately show "wish_valid (wish_from d) \<and> (\<exists>m \<in> set ms. suits (wish_from d) m)" using m(1) by blast
  qed
  finally show ?thesis .
qed

lemma pick_keeps_session [simp]:
  "fo_session (pick_part e c f) = fo_session f" "fo_settings (pick_part e c f) = fo_settings f"
  "fo_store (pick_part e c f) = fo_store f" "fo_dirty (pick_part e c f) = fo_dirty f"
  by (auto simp: pick_part_def pick_fps_def reset_fps_def pick_size_def split: click.splits)

lemma form_modes_cong: "fo_session f = fo_session g \<Longrightarrow> form_modes f = form_modes g"
  by (simp add: form_modes_def)








section \<open>One frame, part by part\<close>

lemma client_resolve_modes: "client_resolve (se_quality (fo_session f)) w = resolve w (form_modes f)"
  by (auto simp: client_resolve_def form_modes_def resolve_def split: option.splits)

lemma wish_from_tuple [simp]: "wish_from (wish_tuple w) = w" "wish_tuple (wish_from d) = d"
  by (simp_all add: wish_from_def wish_tuple_def split: prod.splits)

lemma set_quality_wish_simps [simp]:
  "quality_wish (set_quality_wish s w) = w" "quality_wish (s\<lparr>quality_warning := x\<rparr>) = quality_wish s"
  by (simp_all add: quality_wish_def set_quality_wish_def wish_from_def)

definition to_auto :: "form \<Rightarrow> form" where
  "to_auto f = f\<lparr>fo_draft := (0, 0, 0), fo_dirty := None,
     fo_settings := (set_quality_wish (fo_settings f) wish_default)\<lparr>quality_warning := Some auto_warning\<rparr>,
     fo_session := (fo_session f)\<lparr>se_quality := (se_quality (fo_session f))\<lparr>migrated_to_auto := False\<rparr>\<rparr>\<rparr>"

lemma to_auto_simps [simp]:
  "form_modes (to_auto f) = form_modes f" "fo_store (to_auto f) = fo_store f" "fo_dirty (to_auto f) = None"
  "fo_draft (to_auto f) = (0, 0, 0)" "quality_wish (fo_settings (to_auto f)) = wish_default"
  "session_inv (fo_session (to_auto f)) = session_inv (fo_session f)"
  "running (fo_session (to_auto f)) = running (fo_session f)"
  "client_ready (se_quality (fo_session (to_auto f))) = client_ready (se_quality (fo_session f))"
  "cl_pending (se_quality (fo_session (to_auto f))) = cl_pending (se_quality (fo_session f))"
  "se_pending (fo_session (to_auto f)) = se_pending (fo_session f)" "se_state (fo_session (to_auto f)) = se_state (fo_session f)"
  by (simp_all add: to_auto_def form_modes_def session_inv_def quality_ok_def client_inv_def running_def client_ready_def
      split: option.split)

lemma migrate_cases:
  obtains (kept) "migrate_part f = (f, [])" "\<not> migrated_to_auto (se_quality (fo_session f))"
      "client_ready (se_quality (fo_session f)) \<Longrightarrow> resolve (wish_from (fo_draft f)) (form_modes f) \<noteq> None"
    | (moved) "migrate_part f = (to_auto f, if fo_store f then [SaveForm (fo_settings (to_auto f))] else [])"
      "migrated_to_auto (se_quality (fo_session f))
        \<or> client_ready (se_quality (fo_session f)) \<and> resolve (wish_from (fo_draft f)) (form_modes f) = None"
proof (cases "migrated_to_auto (se_quality (fo_session f))
    \<or> client_ready (se_quality (fo_session f)) \<and> resolve (wish_from (fo_draft f)) (form_modes f) = None")
  case True
  have "(fo_session f)\<lparr>se_quality := (se_quality (fo_session f))\<lparr>migrated_to_auto := False\<rparr>\<rparr> = fo_session f"
    if "\<not> migrated_to_auto (se_quality (fo_session f))" using that by simp
  then have "migrate_part f = (to_auto f, if fo_store f then [SaveForm (fo_settings (to_auto f))] else [])"
    using True
    by (auto simp: migrate_part_def Let_def replace_wish_def form_save_def to_auto_def coerce_wish_to_available_def
        wish_tuple_def wish_default_def)
  then show ?thesis using moved True by blast
next
  case False
  then have "migrate_part f = (f, [])" by (auto simp: migrate_part_def Let_def coerce_wish_to_available_def)
  then show ?thesis by (rule kept) (use False in auto)
qed

text \<open>
  What the phone is sent: the command with exactly this mode is queued for the writer, which is woken, and
  the time for the answer runs.
\<close>

definition sends :: "nat \<Rightarrow> mode \<Rightarrow> session \<Rightarrow> form_out list \<Rightarrow> bool" where
  "sends now m s out \<longleftrightarrow>
     pe_quality (se_pending s) = Some (PrepareQualityCmd (m_width m) (m_height m) (m_fps m))
     \<and> se_quality_deadline s = Some (apply_expiry now) \<and> (SessionOut WakeWriter \<in> set out \<or> \<not> se_writer s)"

definition answered_request :: "nat \<Rightarrow> mode \<Rightarrow> session \<Rightarrow> session \<Rightarrow> form_out list \<Rightarrow> bool" where
  "answered_request now m s s' out \<longleftrightarrow>
     (cl_pending (se_quality s') = None \<and> pe_quality (se_pending s') = pe_quality (se_pending s))
     \<or> (cl_pending (se_quality s') = Some m \<and> sends now m s' out)"

lemma answered_request_client:
  "answered_request now m s s' out \<Longrightarrow> se_quality s'' = se_quality s' \<Longrightarrow> se_pending s'' = se_pending s'
     \<Longrightarrow> se_quality_deadline s'' = se_quality_deadline s' \<Longrightarrow> se_writer s'' = se_writer s' \<Longrightarrow> answered_request now m s s'' out"
  by (simp add: answered_request_def sends_def)

text \<open>Asking the session: it takes the request with a mode that resolves the wish, or nothing happens.\<close>

lemma ask_quality_cases:
  assumes "session_inv (fo_session f)" "ask_quality w now f = (ok, f', out)"
  shows "session_inv (fo_session f') \<and> form_modes f' = form_modes f \<and> fo_settings f' = fo_settings f \<and> fo_draft f' = fo_draft f
    \<and> fo_store f' = fo_store f \<and> fo_dirty f' = fo_dirty f \<and> (\<forall>o1 \<in> set out. \<exists>e. o1 = SessionOut e)
    \<and> running (fo_session f') = running (fo_session f)
    \<and> client_ready (se_quality (fo_session f')) = client_ready (se_quality (fo_session f))
    \<and> (if ok then (\<exists>m. resolve w (form_modes f) = Some m \<and> cl_pending (se_quality (fo_session f)) = None
                 \<and> answered_request now m (fo_session f) (fo_session f') out)
       else f' = f)"
proof -
  obtain s o1 where p: "session_prepare (w_width w) (w_height w) (w_fps w) now (fo_session f) = (ok, s, o1)"
    "f' = f\<lparr>fo_session := s\<rparr>" "out = map SessionOut o1"
    using assms(2) by (auto simp: ask_quality_def split: prod.splits)
  have w: "wish_from (w_width w, w_height w, w_fps w) = w" by (simp add: wish_from_def)
  have inv: "session_inv s" using prepare_inv[OF assms(1), of "w_width w" "w_height w" "w_fps w" now] p(1) by simp
  show ?thesis
  proof (cases ok)
    case False
    then have "s = fo_session f" using p(1) by (auto simp: session_prepare_def Let_def split: if_splits option.splits prod.splits)
    then show ?thesis using False p inv by (auto simp: form_modes_def)
  next
    case True
    then obtain m where m: "client_resolve (se_quality (fo_session f)) w = Some m" "cl_pending (se_quality (fo_session f)) = None"
      using p(1) w by (auto simp: session_prepare_def Let_def split: if_splits)
    obtain q o2 where b: "client_begin (se_quality (fo_session f)) w = (q, o2)" by fastforce
    have q: "se_quality s = q \<and> se_child s = se_child (fo_session f) \<and> se_auxiliary s = se_auxiliary (fo_session f)"
      using p(1) True b w by (auto simp: session_prepare_def queue_quality_def Let_def split: if_splits option.splits prod.splits)
    have sent: "answered_request now m (fo_session f) s out"
    proof (cases o2)
      case None
      then have "s = (fo_session f)\<lparr>se_quality := q\<rparr>" using p(1) True b w
        by (auto simp: session_prepare_def Let_def split: if_splits)
      moreover have "cl_pending q = None" using b None m by (auto simp: client_begin_def Let_def split: if_splits option.splits)
      ultimately show ?thesis by (simp add: answered_request_def)
    next
      case (Some n)
      then have n: "n = m" "cl_pending q = Some m" using b m by (auto simp: client_begin_def Let_def split: if_splits option.splits)
      have "(s, o1) = queue_quality m ((fo_session f)\<lparr>se_quality := q, se_quality_deadline := Some (apply_expiry now)\<rparr>)"
        using p(1) True b w Some n(1) by (auto simp: session_prepare_def Let_def simp del: queue_fields split: if_splits prod.splits)
      then show ?thesis using n(2) p(3) by (auto simp: answered_request_def sends_def wake_def split: if_splits)
    qed
    have "cl_modes q = cl_modes (se_quality (fo_session f)) \<and> cl_permission q = cl_permission (se_quality (fo_session f))
        \<and> cl_pending q \<in> {None, Some m}"
      using b m by (auto simp: client_begin_def Let_def split: if_splits option.splits)
    then show ?thesis
      using True p q inv m sent client_resolve_modes[of f w] by (auto simp: form_modes_def running_def client_ready_def)
  qed
qed


lemma form_idle:
  assumes "session_inv (fo_session f)" "\<not> running (fo_session f)"
  shows "form_modes f = [] \<and> \<not> client_ready (se_quality (fo_session f)) \<and> cl_pending (se_quality (fo_session f)) = None"
  using assms by (auto simp: session_inv_def quality_ok_def running_def form_modes_def client_ready_def)


lemma default_resolvable: "list_all usable ms \<Longrightarrow> ms \<noteq> [] \<Longrightarrow> resolve wish_default ms \<noteq> None"
  using resolvable_in_lists[of ms "(0, 0, 0)"]
  by (simp add: in_lists_def draft_size_def draft_fps_def wish_from_def wish_default_def)

lemma default_from [simp]: "wish_from (0, 0, 0) = wish_default" "wish_tuple wish_default = (0, 0, 0)"
  by (simp_all add: wish_from_def wish_default_def wish_tuple_def)

text \<open>What the controls do, in the order they do it.\<close>

definition quiet :: "form_out list \<Rightarrow> bool" where
  "quiet out \<longleftrightarrow> (\<forall>o1 \<in> set out. \<exists>e. o1 = SessionOut e)"

lemma keep_draft_simps [simp]:
  "fo_session (keep_draft l f) = fo_session f" "fo_store (keep_draft l f) = fo_store f" "fo_dirty (keep_draft l f) = fo_dirty f"
  "fo_draft (keep_draft l f) = fo_draft f" "form_modes (keep_draft l f) = form_modes f"
  "quality_wish (fo_settings (keep_draft l f)) = (if l then quality_wish (fo_settings f) else wish_from (fo_draft f))"
  by (auto simp: keep_draft_def Let_def form_modes_def)

text \<open>
  What a part of the controls may do to the form with the session it asks: nothing that matters, or its
  click sends the wish it saves.
\<close>

definition asks :: "nat \<Rightarrow> click \<Rightarrow> bool \<Rightarrow> form \<Rightarrow> form \<Rightarrow> form_out list \<Rightarrow> bool" where
  "asks now c live f f' out \<longleftrightarrow> session_inv (fo_session f') \<and> form_modes f' = form_modes f \<and> fo_store f' = fo_store f \<and> fo_dirty f' = fo_dirty f
     \<and> running (fo_session f') = running (fo_session f)
     \<and> client_ready (se_quality (fo_session f')) = client_ready (se_quality (fo_session f))
     \<and> (f' = f
        \<or> (c = ClickApply \<or> c = ClickAuto) \<and> (c = ClickApply \<longrightarrow> live) \<and> (c = ClickAuto \<longrightarrow> fo_draft f' = (0, 0, 0))
          \<and> (c = ClickApply \<longrightarrow> fo_draft f' = fo_draft f)
          \<and> (\<exists>s. fo_settings f' = set_quality_wish s (wish_from (fo_draft f')) \<and> s = fo_settings f)
          \<and> (if live then (\<exists>m. resolve (wish_from (fo_draft f')) (form_modes f) = Some m
                \<and> cl_pending (se_quality (fo_session f)) = None
                \<and> answered_request now m (fo_session f) (fo_session f') out)
             else fo_session f' = fo_session f))"

lemma apply_part_asks:
  assumes "session_inv (fo_session f)" "apply_part live busy stopping now c f = (f', out)"
  shows "asks now c live f f' out \<and> quiet out"
proof (cases "ask_quality (wish_from (fo_draft f)) now f")
  case (fields ok g out')
  note a = ask_quality_cases[OF assms(1) fields]
  show ?thesis
    using assms a fields
    by (auto simp: apply_part_def Let_def asks_def quiet_def form_modes_def split: if_splits)
qed

lemma form_parts_same:
  "form_modes (f\<lparr>fo_draft := d, fo_settings := t\<rparr>) = form_modes f" "form_modes (f\<lparr>fo_settings := t\<rparr>) = form_modes f"
  "form_modes (f\<lparr>fo_draft := d\<rparr>) = form_modes f"
  by (simp_all add: form_modes_def)

lemma auto_part_asks:
  assumes inv: "session_inv (fo_session f)" and run: "auto_part live busy stopping un now c f = (f', out)"
  shows "asks now c live f f' out \<and> quiet out"
proof (cases "((client_ready (se_quality (fo_session f)) \<and> un) \<or> quality_warning (fo_settings f) \<noteq> None)
    \<and> \<not> busy \<and> \<not> stopping \<and> (\<not> live \<or> client_ready (se_quality (fo_session f))) \<and> c = ClickAuto")
  case False
  then have "(f', out) = (f, [])" using run unfolding auto_part_def Let_def by (simp only: if_False)
  then show ?thesis using inv by (simp add: asks_def quiet_def)
next
  case True
  then have click: "c = ClickAuto" by blast
  obtain ok g o1 where a: "(if live then ask_quality wish_default now f else (True, f, [])) = (ok, g, o1)" by (metis prod_cases3)
  have f': "f' = (if ok then g\<lparr>fo_draft := (0, 0, 0), fo_settings := set_quality_wish (fo_settings g) wish_default\<rparr> else g)"
    "out = o1" using run True a unfolding auto_part_def Let_def by auto
  show ?thesis
  proof (cases live)
    case True
    then have q: "ask_quality wish_default now f = (ok, g, o1)" using a by simp
    note facts = ask_quality_cases[OF inv q]
    show ?thesis
    proof (cases ok)
      case ok: True
      then show ?thesis using facts True f' click
        by (simp add: asks_def quiet_def form_parts_same)
    next
      case False
      then show ?thesis using facts f' inv by (simp add: asks_def quiet_def)
    qed
  next
    case False
    then have "g = f" "ok" "o1 = []" using a by simp_all
    then show ?thesis using f' inv False click by (simp add: asks_def quiet_def form_parts_same)
  qed
qed

lemma migrate_inv:
  assumes "session_inv (fo_session f)" "migrate_part f = (f1, o1)"
  shows "session_inv (fo_session f1) \<and> form_modes f1 = form_modes f \<and> fo_store f1 = fo_store f
    \<and> running (fo_session f1) = running (fo_session f)
    \<and> client_ready (se_quality (fo_session f1)) = client_ready (se_quality (fo_session f))
    \<and> cl_pending (se_quality (fo_session f1)) = cl_pending (se_quality (fo_session f))"
  using assms by (cases rule: migrate_cases[of f]) auto

lemma controls_run:
  assumes inv: "session_inv (fo_session f)" and run: "quality_controls live now c f = (f', out)"
  obtains f1 o1 e f3 o3 o4 where "migrate_part f = (f1, o1)"
    "e \<longleftrightarrow> cl_pending (se_quality (fo_session f)) = None \<and> se_state (fo_session f) \<noteq> Stopping"
    "asks now c live (keep_draft live (pick_part e c f1)) f3 o3" "asks now c live f3 f' o4" "out = o1 @ o3 @ o4" "quiet (o3 @ o4)"
proof -
  let ?busy = "cl_pending (se_quality (fo_session f)) \<noteq> None" and ?stop = "se_state (fo_session f) = Stopping"
  obtain f1 o1 where m: "migrate_part f = (f1, o1)" by fastforce
  let ?f2 = "keep_draft live (pick_part (\<not> ?busy \<and> \<not> ?stop) c f1)"
  let ?un = "client_resolve (se_quality (fo_session ?f2)) (wish_from (fo_draft ?f2)) = None"
  obtain f3 o3 where a: "apply_part live ?busy ?stop now c ?f2 = (f3, o3)" by fastforce
  obtain f4 o4 where b: "auto_part live ?busy ?stop ?un now c f3 = (f4, o4)" by fastforce
  have res: "f' = f4" "out = o1 @ o3 @ o4" using run m a b by (auto simp: quality_controls_def Let_def)
  have "session_inv (fo_session ?f2)" using migrate_inv[OF inv m] by simp
  note a' = apply_part_asks[OF this a]
  then have "session_inv (fo_session f3)" by (simp add: asks_def)
  note b' = auto_part_asks[OF this b]
  show ?thesis
  proof (rule that[OF m])
    show "(\<not> ?busy \<and> \<not> ?stop) \<longleftrightarrow> cl_pending (se_quality (fo_session f)) = None \<and> se_state (fo_session f) \<noteq> Stopping" by simp
    show "asks now c live ?f2 f3 o3" using a' by blast
    show "asks now c live f3 f' o4" using b' res by blast
    show "out = o1 @ o3 @ o4" using res by simp
    show "quiet (o3 @ o4)" using a' b' by (auto simp: quiet_def)
  qed
qed

lemma pick_modes [simp]: "form_modes (pick_part e c f) = form_modes f"
  by (rule form_modes_cong) simp


lemma controls_keep:
  assumes inv: "session_inv (fo_session f)" and run: "quality_controls live now c f = (f', out)"
  shows "session_inv (fo_session f') \<and> form_modes f' = form_modes f \<and> fo_store f' = fo_store f
    \<and> running (fo_session f') = running (fo_session f)
    \<and> client_ready (se_quality (fo_session f')) = client_ready (se_quality (fo_session f))"
proof (cases rule: controls_run[OF inv run])
  case (1 f1 o1 e f3 o3 o4)
  then show ?thesis using migrate_inv[OF inv 1(1)] by (simp add: asks_def)
qed





section \<open>A whole frame\<close>

lemma frame_tail:
  assumes f2: "f2 = edit_fields c f1" and f3: "(if details then forget_part c f2 else (f2, [])) = (f3, o3)"
    and f4: "mark_dirty before now f3 = (f4, o4)"
  shows "fo_draft f4 = fo_draft f1 \<and> quality_wish (fo_settings f4) = quality_wish (fo_settings f1)
    \<and> fo_store f4 = fo_store f1 \<and> se_quality (fo_session f4) = se_quality (fo_session f1)
    \<and> pe_quality (se_pending (fo_session f4)) = pe_quality (se_pending (fo_session f1))
    \<and> se_quality_deadline (fo_session f4) = se_quality_deadline (fo_session f1)
    \<and> se_writer (fo_session f4) = se_writer (fo_session f1)
    \<and> (session_inv (fo_session f1) \<longrightarrow> session_inv (fo_session f4)) \<and> quiet o4"
proof -
  have a: "fo_session f3 = fo_session f1 \<and> fo_draft f3 = fo_draft f1 \<and> fo_store f3 = fo_store f1
      \<and> quality_wish (fo_settings f3) = quality_wish (fo_settings f1)"
    using f2 f3 by (auto simp: edit_fields_def forget_part_def form_save_def quality_wish_def split: if_splits click.splits)
  obtain s o5 where s: "session_transform (fo_settings f3) (fo_session f3) = (s, o5)" by fastforce
  have t: "se_quality s = se_quality (fo_session f3)
      \<and> pe_quality (se_pending s) = pe_quality (se_pending (fo_session f3))
      \<and> se_quality_deadline s = se_quality_deadline (fo_session f3) \<and> se_writer s = se_writer (fo_session f3)" using s by (auto simp: session_transform_def split: option.splits if_splits)
  have "session_inv (fo_session f3) \<longrightarrow> session_inv s" using transform_inv[of "fo_session f3" "fo_settings f3"] s by simp
  then show ?thesis using a t f4 s by (auto simp: mark_dirty_def quiet_def split: if_splits)
qed

lemma ui_frame_run:
  assumes inv: "session_inv (fo_session f)" and run: "ui_frame details now c f = (f', out)"
  obtains f1 o1 f3 o3 o4 where
    "(if controls_shown details f then quality_controls (running (fo_session f)) now c f else (f, [])) = (f1, o1)"
    "(if details then forget_part c (edit_fields c f1) else (edit_fields c f1, [])) = (f3, o3)"
    "mark_dirty (fo_settings f) now f3 = (f', o4)" "out = o1 @ o3 @ o4"
    "fo_draft f' = fo_draft f1" "quality_wish (fo_settings f') = quality_wish (fo_settings f1)"
    "fo_store f' = fo_store f" "se_quality (fo_session f') = se_quality (fo_session f1)"
    "session_inv (fo_session f1)" "session_inv (fo_session f')" "quiet o4"
    "pe_quality (se_pending (fo_session f')) = pe_quality (se_pending (fo_session f1))"
    "se_quality_deadline (fo_session f') = se_quality_deadline (fo_session f1)"
    "se_writer (fo_session f') = se_writer (fo_session f1)"
proof -
  obtain f1 o1 where a: "(if controls_shown details f then quality_controls (running (fo_session f)) now c f else (f, [])) = (f1, o1)"
    by fastforce
  obtain f3 o3 where b: "(if details then forget_part c (edit_fields c f1) else (edit_fields c f1, [])) = (f3, o3)" by fastforce
  obtain f4 o4 where d: "mark_dirty (fo_settings f) now f3 = (f4, o4)" by fastforce
  have res: "f' = f4" "out = o1 @ o3 @ o4" using run a b d by (simp_all add: ui_frame_def Let_def)
  have k: "session_inv (fo_session f1) \<and> fo_store f1 = fo_store f"
    using a inv controls_keep[OF inv] by (fastforce split: if_splits)
  have "fo_draft f' = fo_draft f1 \<and> quality_wish (fo_settings f') = quality_wish (fo_settings f1)
    \<and> fo_store f' = fo_store f1 \<and> se_quality (fo_session f') = se_quality (fo_session f1)
    \<and> pe_quality (se_pending (fo_session f')) = pe_quality (se_pending (fo_session f1))
    \<and> se_quality_deadline (fo_session f') = se_quality_deadline (fo_session f1)
    \<and> se_writer (fo_session f') = se_writer (fo_session f1)
    \<and> (session_inv (fo_session f1) \<longrightarrow> session_inv (fo_session f')) \<and> quiet o4"
    unfolding res(1) by (rule frame_tail[OF refl b d])
  moreover have "mark_dirty (fo_settings f) now f3 = (f', o4)" using d res(1) by simp
  ultimately show ?thesis using k res(2) by (intro that[OF a b]) blast+
qed


definition asked_by :: "nat \<Rightarrow> click \<Rightarrow> bool \<Rightarrow> form \<Rightarrow> form \<Rightarrow> form_out list \<Rightarrow> mode \<Rightarrow> bool" where
  "asked_by now c live f f' out m \<longleftrightarrow> (c = ClickApply \<or> c = ClickAuto) \<and> live
     \<and> quality_wish (fo_settings f') = wish_from (fo_draft f')
     \<and> resolve (wish_from (fo_draft f')) (form_modes f') = Some m \<and> sends now m (fo_session f') out"

lemma asks_request:
  assumes "asks now c live f f' out" "cl_pending (se_quality (fo_session f)) = None"
  shows "case cl_pending (se_quality (fo_session f')) of
      None \<Rightarrow> pe_quality (se_pending (fo_session f')) = pe_quality (se_pending (fo_session f))
    | Some m \<Rightarrow> asked_by now c live f f' out m"
  using assms unfolding asks_def asked_by_def answered_request_def by (auto split: if_splits option.splits)

lemma controls_request:
  assumes inv: "session_inv (fo_session f)" and run: "quality_controls live now c f = (f', out)"
    and none: "cl_pending (se_quality (fo_session f)) = None"
  shows "case cl_pending (se_quality (fo_session f')) of
      None \<Rightarrow> pe_quality (se_pending (fo_session f')) = pe_quality (se_pending (fo_session f))
    | Some m \<Rightarrow> asked_by now c live f f' out m"
proof (cases rule: controls_run[OF inv run])
  case (1 f1 o1 e f3 o3 o4)
  let ?k = "keep_draft live (pick_part e c f1)"
  have "se_pending (fo_session f1) = se_pending (fo_session f)"
    using 1(1) by (cases rule: migrate_cases[of f]) auto
  then have k: "cl_pending (se_quality (fo_session ?k)) = None"
    "pe_quality (se_pending (fo_session ?k)) = pe_quality (se_pending (fo_session f))"
    using migrate_inv[OF inv 1(1)] none by simp_all
  note first = asks_request[OF 1(3) k(1)]
  show ?thesis
  proof (cases "cl_pending (se_quality (fo_session f3))")
    case None
    then show ?thesis using first asks_request[OF 1(4) None] k(2) 1(5)
      by (auto simp: asked_by_def sends_def split: option.splits)
  next
    case (Some m)
    then have "f' = f3" using first 1(4) unfolding asks_def asked_by_def by auto
    then show ?thesis using first Some 1(5) by (auto simp: asked_by_def sends_def)
  qed
qed

text \<open>
  C39. A frame of the window asks the phone for a quality only by a click on Apply or Auto in a running
  session, and then for exactly the advertised mode that the saved wish resolves to: that wish is the one
  the draft shows, the command waiting for the worker carries the mode's size and rate, its writer is woken
  and the time for the answer runs. A frame without such a click leaves the waiting command as it was. (The
  session's own request for the saved wish, when a phone first advertises its modes, is not made by a frame.)
\<close>

lemma request_is_saved_wish:
  assumes "session_inv (fo_session f)" "ui_frame details now c f = (f', out)"
    and "cl_pending (se_quality (fo_session f)) = None"
  shows "case cl_pending (se_quality (fo_session f')) of
      None \<Rightarrow> pe_quality (se_pending (fo_session f')) = pe_quality (se_pending (fo_session f))
    | Some m \<Rightarrow> (c = ClickApply \<or> c = ClickAuto) \<and> running (fo_session f) \<and> m \<in> set (form_modes f)
        \<and> wish_from (fo_draft f') = quality_wish (fo_settings f')
        \<and> client_resolve (se_quality (fo_session f')) (quality_wish (fo_settings f')) = Some m
        \<and> suits (quality_wish (fo_settings f')) m
        \<and> pe_quality (se_pending (fo_session f')) = Some (PrepareQualityCmd (m_width m) (m_height m) (m_fps m))
        \<and> se_quality_deadline (fo_session f') = Some (apply_expiry now)
        \<and> (SessionOut WakeWriter \<in> set out \<or> \<not> se_writer (fo_session f'))"
proof (cases rule: ui_frame_run[OF assms(1,2)])
  case (1 f1 o1 f3 o3 o4)
  show ?thesis
  proof (cases "controls_shown details f")
    case False
    then show ?thesis using 1 assms(3) by simp
  next
    case True
    then have run: "quality_controls (running (fo_session f)) now c f = (f1, o1)" using 1(1) by simp
    note asked = controls_request[OF assms(1) run assms(3)]
    have modes: "form_modes f' = form_modes f1" "form_modes f1 = form_modes f"
      using 1(8) controls_keep[OF assms(1) run] by (auto simp: form_modes_def)
    show ?thesis
    proof (cases "cl_pending (se_quality (fo_session f1))")
      case None
      then show ?thesis using asked 1(8,12) by simp
    next
      case (Some m)
      then have a: "asked_by now c (running (fo_session f)) f f1 o1 m" using asked by simp
      then have r: "resolve (wish_from (fo_draft f1)) (form_modes f) = Some m" using modes by (simp add: asked_by_def)
      show ?thesis using a Some 1(4-6,8,12-14) modes resolve_Some[OF r] client_resolve_modes[of f']
        by (auto simp: asked_by_def sends_def)
    qed
  qed
qed

section \<open>Edits and the file\<close>

lemma pick_default:
  assumes "fo_draft f = (0, 0, 0)" "form_modes f = [] \<or> c = ClickApply \<or> c = ClickAuto"
  shows "fo_draft (pick_part e c f) = (0, 0, 0)"
  using assms
  by (auto simp: pick_part_def pick_fps_def reset_fps_def pick_size_def form_sizes_def form_rates_def draft_size_def draft_fps_def
      form_parts_same split: click.splits if_splits)

lemma asks_default:
  assumes "asks now c live f f' out" "quality_wish (fo_settings f) = wish_default"
    and "c = ClickApply \<or> c = ClickAuto \<Longrightarrow> fo_draft f = (0, 0, 0)"
  shows "quality_wish (fo_settings f') = wish_default
    \<and> (c = ClickApply \<or> c = ClickAuto \<longrightarrow> fo_draft f' = (0, 0, 0))"
  using assms unfolding asks_def by auto

lemma controls_saved:
  assumes inv: "session_inv (fo_session f)" and run: "quality_controls (running (fo_session f)) now c f = (f', out)"
  shows "(fo_dirty f' = fo_dirty f \<and> quiet out)
    \<or> (fo_dirty f' = None \<and> quality_wish (fo_settings f') = wish_default
       \<and> (\<exists>o2. out = (if fo_store f then [SaveForm (fo_settings (to_auto f))] else []) @ o2 \<and> quiet o2))"
proof (cases rule: controls_run[OF inv run])
  case (1 f1 o1 e f3 o3 o4)
  show ?thesis
  proof (cases rule: migrate_cases[of f])
    case kept
    then show ?thesis using 1 by (simp add: asks_def)
  next
    case moved
    then have f1: "f1 = to_auto f" "o1 = (if fo_store f then [SaveForm (fo_settings (to_auto f))] else [])" using 1(1) by simp_all
    let ?k = "keep_draft (running (fo_session f)) (pick_part e c f1)"
    have d: "fo_draft (pick_part e c f1) = (0, 0, 0)" if "\<not> running (fo_session f) \<or> c = ClickApply \<or> c = ClickAuto"
      using pick_default[of f1 c e] that form_idle[OF inv] f1 by auto
    then have "quality_wish (fo_settings ?k) = wish_default" using f1 by simp
    moreover have "fo_draft ?k = (0, 0, 0)" if "c = ClickApply \<or> c = ClickAuto" using d that by simp
    ultimately have "quality_wish (fo_settings f3) = wish_default \<and> (c = ClickApply \<or> c = ClickAuto \<longrightarrow> fo_draft f3 = (0, 0, 0))"
      using asks_default[OF 1(3)] by blast
    then have "quality_wish (fo_settings f') = wish_default" using asks_default[OF 1(4)] by blast
    moreover have "fo_dirty f' = None" using 1(3,4) f1 by (simp add: asks_def)
    ultimately show ?thesis using 1(5,6) f1 by auto
  qed
qed

text \<open>The settings last handed to the file.\<close>

fun last_saved :: "settings \<Rightarrow> form_out list \<Rightarrow> settings" where
  "last_saved s [] = s"
| "last_saved s (SaveForm t # out) = last_saved t out"
| "last_saved s (SessionOut e # out) = last_saved s out"

lemma last_saved_append [simp]: "last_saved s (a @ b) = last_saved (last_saved s a) b"
  by (induction s a rule: last_saved.induct) auto

lemma last_saved_quiet: "quiet a \<Longrightarrow> last_saved s a = s"
  by (induction s a rule: last_saved.induct) (auto simp: quiet_def)

fun form_run :: "form \<Rightarrow> form_op list \<Rightarrow> form \<times> form_out list" where
  "form_run f [] = (f, [])"
| "form_run f (a # ops) =
     (let (f1, o1) = form_step f a; (f2, o2) = form_run f1 ops in (f2, o1 @ o2))"

definition turns_ok :: "form_op list \<Rightarrow> bool" where
  "turns_ok ops \<longleftrightarrow> list_all (\<lambda>a. case a of SessionTurn s \<Rightarrow> session_inv s | _ \<Rightarrow> True) ops"

text \<open>A form without an unsaved edit shows what the file holds.\<close>

definition file_current :: "form \<Rightarrow> settings \<Rightarrow> bool" where
  "file_current f s \<longleftrightarrow> session_inv (fo_session f) \<and> fo_store f
     \<and> (fo_dirty f = None \<longrightarrow> settings_values s = settings_values (fo_settings f))"

lemma auto_values:
  "quality_wish s = wish_default \<Longrightarrow>
     settings_values ((set_quality_wish s wish_default)\<lparr>quality_warning := x\<rparr>) = settings_values s"
  by (simp add: settings_values_def set_quality_wish_def quality_wish_def wish_from_def wish_default_def)

lemma frame_current:
  assumes "file_current f s" "ui_frame details now c f = (f', out)"
  shows "file_current f' (last_saved s out)"
proof -
  have inv: "session_inv (fo_session f)" and store: "fo_store f" using assms(1) by (simp_all add: file_current_def)
  show ?thesis
  proof (cases rule: ui_frame_run[OF inv assms(2)])
    case (1 f1 o1 f3 o3 o4)
    show ?thesis
    proof (cases "fo_settings f = fo_settings f3")
      case False
      then have "fo_dirty f' \<noteq> None" using 1(3) by (auto simp: mark_dirty_def split: prod.splits)
      then show ?thesis using 1(7,10) store by (auto simp: file_current_def)
    next
      case True
      then have f': "f' = f3" using 1(3) by (simp add: mark_dirty_def)
      have e: "fo_dirty (edit_fields c f1) = fo_dirty f1" "fo_store (edit_fields c f1) = fo_store f1"
        by (auto simp: edit_fields_def split: click.splits)
      have "(o3 = [] \<and> fo_dirty f3 = fo_dirty f1) \<or> (o3 = (if fo_store f3 then [SaveForm (fo_settings f3)] else []) \<and> fo_dirty f3 = None)"
        using 1(2) e by (auto simp: forget_part_def form_save_def split: if_splits)
      then show ?thesis
      proof (elim disjE conjE)
        assume "o3 = (if fo_store f3 then [SaveForm (fo_settings f3)] else [])" "fo_dirty f3 = None"
        then show ?thesis using 1 store f' by (simp add: file_current_def last_saved_quiet)
      next
        assume o3: "o3 = []" "fo_dirty f3 = fo_dirty f1"
        then have out: "last_saved s out = last_saved s o1" using 1 by (simp add: last_saved_quiet)
        have "(fo_dirty f1 = fo_dirty f \<and> quiet o1)
          \<or> (fo_dirty f1 = None \<and> quality_wish (fo_settings f1) = wish_default
             \<and> (\<exists>o2. o1 = [SaveForm (fo_settings (to_auto f))] @ o2 \<and> quiet o2))"
          using controls_saved[OF inv] 1(1) store by (auto simp: quiet_def split: if_splits)
        then show ?thesis
        proof (elim disjE exE conjE)
          assume "fo_dirty f1 = fo_dirty f" "quiet o1"
          then show ?thesis using assms(1) 1 o3 out f' True by (simp add: file_current_def last_saved_quiet)
        next
          fix o2
          assume a: "fo_dirty f1 = None" "quality_wish (fo_settings f1) = wish_default"
            "o1 = [SaveForm (fo_settings (to_auto f))] @ o2" "quiet o2"
          have w: "quality_wish (fo_settings f) = wish_default" using 1(6) a(2) f' True by simp
          have "last_saved s out = fo_settings (to_auto f)" using out a by (simp add: last_saved_quiet)
          then have "settings_values (last_saved s out) = settings_values (fo_settings f')"
            using auto_values[OF w] f' True by (simp add: to_auto_def)
          then show ?thesis using 1 store by (simp add: file_current_def)
        qed
      qed
    qed
  qed
qed

lemma step_current:
  assumes "file_current f s" "turns_ok [a]" "form_step f a = (f', out)"
  shows "file_current f' (last_saved s out)"
proof (cases a)
  case (UiFrame details now c)
  then show ?thesis using frame_current[OF assms(1)] assms(3) by simp
next
  case (SessionTurn t)
  then show ?thesis using assms by (auto simp: turns_ok_def file_current_def session_turn_def split: if_splits)
qed (use assms in \<open>auto simp: file_current_def flush_part_def stamp_part_def form_save_def Let_def
  split: option.splits if_splits prod.splits\<close>)

lemma run_current:
  "file_current f s \<Longrightarrow> turns_ok ops \<Longrightarrow> form_run f ops = (f', out) \<Longrightarrow> file_current f' (last_saved s out)"
proof (induction ops arbitrary: f s f' out)
  case (Cons a ops)
  obtain f1 o1 where a: "form_step f a = (f1, o1)" by fastforce
  obtain f2 o2 where b: "form_run f1 ops = (f2, o2)" by fastforce
  have "file_current f1 (last_saved s o1)" by (rule step_current[OF Cons.prems(1) _ a]) (use Cons.prems in \<open>simp add: turns_ok_def\<close>)
  from Cons.IH[OF this _ b] show ?case using Cons.prems a b by (auto simp: turns_ok_def)
qed simp

text \<open>
  C37. No edit is lost: a window that starts with the settings of the file, goes through any frames, delayed
  saves, new counters, presses of the main button and turns of the session, and closes, has last handed to
  the file the values its settings show; and whenever no edit is marked as unsaved this holds without
  closing.
\<close>

lemma edits_reach_file:
  assumes "turns_ok ops" "form_run (form_new True s) ops = (f, out)"
  shows "settings_values (last_saved s (out @ window_close f)) = settings_values (fo_settings f)
    \<and> (fo_dirty f = None \<longrightarrow> settings_values (last_saved s out) = settings_values (fo_settings f))"
proof -
  have "session_inv session_new"
    by (simp add: session_inv_def quality_ok_def process_ok_def session_new_def client_inv_def client_new_def)
  then have "file_current (form_new True s) s" by (simp add: file_current_def form_new_def)
  from run_current[OF this assms] show ?thesis by (auto simp: file_current_def window_close_def form_save_def)
qed

text \<open>
  The time of the last connection is rounded to a minute where it is compared and not where it is stored:
  unless it was stored on a full minute, every new counter stores it again and writes the file.
\<close>

lemma stamp_saves_again:
  assumes "stats_snapshot (fo_session f) = Some (d, n)" "fo_last_stats f \<noteq> Some (d, n)" "d > 0"
    "se_state (fo_session f) = Streaming" "fo_store f" "last_connected (fo_settings f) mod 60 \<noteq> 0"
  shows "snd (stamp_part t1 t2 f) = [SaveForm ((fo_settings f)\<lparr>last_connected := t2\<rparr>)]"
proof -
  have "last_connected (fo_settings f) \<noteq> t1 div 60 * 60" using assms(6) by auto
  then show ?thesis using assms by (simp add: stamp_part_def form_save_def)
qed

section \<open>Witnesses\<close>

definition hd_mode :: mode where
  "hd_mode = \<lparr>m_width = 1280, m_height = 720, m_fps = 30, m_bitrate = 4000000\<rparr>"

definition live_form :: "u16 \<times> u16 \<times> u16 \<Rightarrow> form" where
  "live_form d = (form_new True (settings_default \<lparr>b_linux = True, b_windows = False, b_video = True, b_pipewire = False\<rparr>))\<lparr>fo_draft := d,
     fo_session := session_new\<lparr>se_child := True, se_events := True, se_writer := True, se_state := Streaming,
       se_quality := (client_new wish_default)\<lparr>cl_modes := Some [hd_mode], cl_permission := Some PERMISSION_READY,
         initial_checked := True\<rparr>\<rparr>\<rparr>"

lemma live_form_ok:
  "session_inv (fo_session (live_form d))" "client_ready (se_quality (fo_session (live_form d)))"
  "controls_shown False (live_form d)" "cl_pending (se_quality (fo_session (live_form d))) = None"
  by (simp_all add: live_form_def session_inv_def quality_ok_def process_ok_def session_new_def form_new_def client_inv_def
      client_new_def client_ready_def controls_shown_def running_def form_modes_def hd_mode_def usable_def wish_valid_def
      wish_from_def mode_tuple_def)



definition apply_click :: form where
  "apply_click = fst (ui_frame False 5 ClickApply (live_form (1280, 720, 30)))"

lemma hd_resolves: "resolve \<lparr>w_width = 1280, w_height = 720, w_fps = 30\<rparr> [hd_mode] = Some hd_mode"
  by (simp add: resolve_def hd_mode_def wish_valid_def suits_def usable_def mode_tuple_def wish_from_def)

lemma apply_click_asks: "cl_pending (se_quality (fo_session apply_click)) = Some hd_mode"
  by (simp add: apply_click_def live_form_def ui_frame_def controls_shown_def running_def form_modes_def
      quality_controls_def migrate_part_def coerce_wish_to_available_def form_new_def session_new_def client_new_def client_ready_def
      wish_from_def hd_resolves pick_part_def pick_size_def reset_fps_def pick_fps_def keep_draft_def
      client_resolve_def apply_part_def draft_changed_def quality_wish_def set_quality_wish_def settings_default_def
      ask_quality_def session_prepare_def client_begin_def queue_quality_def
      auto_part_def edit_fields_def mark_dirty_def session_transform_def mode_tuple_def hd_mode_def[symmetric] split del: if_split)

lemma request_is_saved_wish_witness:
  "running (fo_session (live_form (1280, 720, 30)))
   \<and> client_resolve (se_quality (fo_session apply_click)) (quality_wish (fo_settings apply_click)) = Some hd_mode
   \<and> pe_quality (se_pending (fo_session apply_click)) = Some (PrepareQualityCmd 1280 720 30)"
proof -
  have frame: "ui_frame False 5 ClickApply (live_form (1280, 720, 30))
      = (apply_click, snd (ui_frame False 5 ClickApply (live_form (1280, 720, 30))))" by (simp add: apply_click_def)
  have "m_width hd_mode = 1280" "m_height hd_mode = 720" "m_fps hd_mode = 30" by (simp_all add: hd_mode_def)
  then show ?thesis using request_is_saved_wish[OF live_form_ok(1) frame live_form_ok(4)]
    by (simp only: apply_click_asks option.case)
qed

definition sample_ops :: "form_op list" where
  "sample_ops = [UiFrame True 5 (EditFields (settings_default \<lparr>b_linux = True, b_windows = True, b_video = True, b_pipewire = False\<rparr>)),
     Flush 100, SessionTurn (fo_session (live_form (0, 0, 0))), UiFrame False 200 (PickSize (1280, 720)), PressMain,
     StatsSeen 60 61]"

lemma edits_reach_file_witness:
  "settings_values (last_saved (fo_settings (live_form (0, 0, 0)))
       (snd (form_run (form_new True (fo_settings (live_form (0, 0, 0)))) sample_ops)
        @ window_close (fst (form_run (form_new True (fo_settings (live_form (0, 0, 0)))) sample_ops))))
   = settings_values (fo_settings (fst (form_run (form_new True (fo_settings (live_form (0, 0, 0)))) sample_ops)))"
  by (rule edits_reach_file[OF _ prod.collapse[symmetric], THEN conjunct1])
    (simp add: turns_ok_def sample_ops_def live_form_ok)

end
