(* ===== verification/Credentials.thy ===== *)
theory Credentials
  imports Usb
begin

text \<open>
  The privileged USB helper on Linux: the checks and the dropped credentials of \<open>platform.rs\<close>, and the
  program \<open>usb_main.rs\<close> around them. A process is its user and group ids, its supplementary groups and
  whether the kernel kills it with its parent; the system calls are their documented effect on it, with
  a record of what each of them met.
\<close>

section \<open>Processes\<close>

record process =
  pr_uids :: "nat \<times> nat \<times> nat"
  pr_gids :: "nat \<times> nat \<times> nat"
  pr_groups :: "nat list"
  pr_death_signal :: bool

definition effective :: "nat \<times> nat \<times> nat \<Rightarrow> nat" where
  "effective ids = fst (snd ids)"

definition euid :: "process \<Rightarrow> nat" where
  "euid p = effective (pr_uids p)"

text \<open>A process that holds root in one of its three user ids can become root again.\<close>

definition may_be_root :: "process \<Rightarrow> bool" where
  "may_be_root p \<longleftrightarrow> (case pr_uids p of (r, e, s) \<Rightarrow> r = 0 \<or> e = 0 \<or> s = 0)"

text \<open>Only the effective user root may set foreign ids; a change of the effective ids clears the death signal.\<close>

definition not_permitted :: error where
  "not_permitted = Io PermissionDenied ''Operation not permitted''"

definition set_groups :: "nat list \<Rightarrow> error + unit \<Rightarrow> process \<Rightarrow> (error + unit) \<times> process" where
  "set_groups gs met p =
     (case met of
        Inl e \<Rightarrow> (Inl e, p)
      | Inr _ \<Rightarrow> if euid p \<noteq> 0 then (Inl not_permitted, p) else (Inr (), p\<lparr>pr_groups := gs\<rparr>))"

definition set_gids :: "nat \<Rightarrow> error + unit \<Rightarrow> process \<Rightarrow> (error + unit) \<times> process" where
  "set_gids g met p =
     (case met of
        Inl e \<Rightarrow> (Inl e, p)
      | Inr _ \<Rightarrow>
          if euid p \<noteq> 0 then (Inl not_permitted, p)
          else (Inr (), p\<lparr>pr_gids := (g, g, g), pr_death_signal := (pr_death_signal p \<and> effective (pr_gids p) = g)\<rparr>))"

definition set_uids :: "nat \<Rightarrow> error + unit \<Rightarrow> process \<Rightarrow> (error + unit) \<times> process" where
  "set_uids u met p =
     (case met of
        Inl e \<Rightarrow> (Inl e, p)
      | Inr _ \<Rightarrow>
          if euid p \<noteq> 0 then (Inl not_permitted, p)
          else (Inr (), p\<lparr>pr_uids := (u, u, u), pr_death_signal := (pr_death_signal p \<and> euid p = u)\<rparr>))"

text \<open>A call that may fail, then the rest with the process it left.\<close>

definition then_p :: "(error + unit) \<times> process \<Rightarrow> (process \<Rightarrow> (error + 'a) \<times> process) \<Rightarrow> (error + 'a) \<times> process" where
  "then_p m f = (case m of (Inl e, p) \<Rightarrow> (Inl e, p) | (Inr _, p) \<Rightarrow> f p)"

section \<open>Binding to the parent\<close>

text \<open>The parent's process id where it is read, before and after the request for the signal.\<close>

record bind_io =
  bd_before :: int
  bd_request :: "error + unit"
  bd_after :: int

definition bind_parent :: "bind_io \<Rightarrow> nat \<Rightarrow> process \<Rightarrow> (error + unit) \<times> process" where
  "bind_parent io expected p =
     (if bd_before io \<le> 1 \<or> nat (bd_before io) \<noteq> expected then (Inl (Msg ''worker parent exited''), p)
      else case bd_request io of
             Inl e \<Rightarrow> (Inl e, p)
           | Inr _ \<Rightarrow>
               (if bd_after io \<noteq> bd_before io then Inl (Msg ''worker parent changed'') else Inr (),
                p\<lparr>pr_death_signal := True\<rparr>))"

text \<open>Two bindings, the owner of the parent's entry in \<open>/proc\<close> (user and group), and the three calls.\<close>

record drop_io =
  dr_first :: bind_io
  dr_owner :: "error + nat \<times> nat"
  dr_groups :: "error + unit"
  dr_gids :: "error + unit"
  dr_uids :: "error + unit"
  dr_second :: bind_io

definition become_owner :: "drop_io \<Rightarrow> nat \<Rightarrow> nat \<Rightarrow> process \<Rightarrow> (error + unit) \<times> process" where
  "become_owner io uid gid p =
     (if euid p = 0
      then then_p (set_groups [] (dr_groups io) p) (\<lambda>p1.
           then_p (set_gids gid (dr_gids io) p1) (\<lambda>p2. set_uids uid (dr_uids io) p2))
      else (Inr (), p))"

definition drop_to_parent :: "drop_io \<Rightarrow> nat \<Rightarrow> process \<Rightarrow> (error + unit) \<times> process" where
  "drop_to_parent io parent p =
     then_p (bind_parent (dr_first io) parent p) (\<lambda>p1.
       case dr_owner io of
         Inl e \<Rightarrow> (Inl e, p1)
       | Inr (uid, gid) \<Rightarrow>
           if uid = 0 then (Inl (Msg ''USB helper requires an unprivileged application parent''), p1)
           else then_p (become_owner io uid gid p1) (\<lambda>p2.
                  if euid p2 \<noteq> uid then (Inl (Msg ''USB helper credential mismatch''), p2)
                  else bind_parent (dr_second io) parent p2))"

section \<open>The helper program\<close>

text \<open>
  What the helper meets: the device list, the device read from the standard input, the binding, and the
  switch with its dropped credentials. The process given is the one that made the transfers, or that
  failed before them.
\<close>

record helper_io =
  hp_list :: "error + usb_device list"
  hp_input :: "error + device_id option"
  hp_bind :: bind_io
  hp_drop :: drop_io
  hp_switch :: switch_io

datatype helper_result = Listed "candidate list" | Switched "control_transfer list" "(error + unit) option"

definition switch_as :: "helper_io \<Rightarrow> device_id \<Rightarrow> nat option \<Rightarrow> process \<Rightarrow> helper_result \<times> process" where
  "switch_as io dev parent p =
     (case selected (io_devices (hp_switch io)) dev False of
        Inl e \<Rightarrow> (Switched [] (Some (Inl e)), p)
      | Inr _ \<Rightarrow>
          if accessory_id dev \<or> io_open (hp_switch io) \<noteq> Inr () \<or> parent = None
          then (case switch_selected (hp_switch io) dev parent of (out, r) \<Rightarrow> (Switched out r, p))
          else case drop_to_parent (hp_drop io) (the parent) p of
                 (dropped, p1) \<Rightarrow>
                   (case switch_selected ((hp_switch io)\<lparr>io_drop := dropped\<rparr>) dev parent of
                      (out, r) \<Rightarrow> (Switched out r, p1)))"

definition switch_request :: "helper_io \<Rightarrow> ustr list \<Rightarrow> error + device_id \<times> nat option" where
  "switch_request io args =
     try_r (hp_input io) (\<lambda>read. case read of None \<Rightarrow> Inl (Msg ''missing selected device'') | Some dev \<Rightarrow>
       if length args = 3 \<and> args ! 1 = lit ''--parent''
       then (case parse_u32 (args ! 2) of
               None \<Rightarrow> Inl (Msg ''invalid digit found in string'') | Some parent \<Rightarrow> Inr (dev, Some parent))
       else Inr (dev, None))"

definition run_switch :: "helper_io \<Rightarrow> device_id \<Rightarrow> nat option \<Rightarrow> process \<Rightarrow> (error + helper_result) \<times> process" where
  "run_switch io dev parent p =
     (if euid p = 0 \<and> parent = None
      then (Inl (Msg ''privileged USB switching requires an application parent''), p)
      else then_p (case parent of None \<Rightarrow> (Inr (), p) | Some pid \<Rightarrow> bind_parent (hp_bind io) pid p) (\<lambda>p1.
             case switch_as io dev parent p1 of (r, p2) \<Rightarrow> (Inr r, p2)))"

definition usb_main :: "helper_io \<Rightarrow> ustr list \<Rightarrow> process \<Rightarrow> (error + helper_result) \<times> process" where
  "usb_main io args p =
     (if args \<noteq> [] \<and> hd args = lit ''--list''
      then (try_r (usb_list (hp_list io)) (\<lambda>cs. Inr (Listed cs)), p)
      else if args \<noteq> [] \<and> hd args = lit ''--switch''
      then (case switch_request io args of
              Inl e \<Rightarrow> (Inl e, p)
            | Inr (dev, parent) \<Rightarrow> run_switch io dev parent p)
      else (Inl (Msg ''usage: mobile-webcam-usb --list | --switch (selected device JSON on stdin)''), p))"

end
