(* ===== verification/Credentials_Props.thy ===== *)
theory Credentials_Props
  imports Credentials Session_Setup
begin

text \<open>
  Who the USB helper is when it talks to a phone: never root.
\<close>

lemma then_p_Inr: "then_p m f = (Inr x, p') \<longleftrightarrow> (\<exists>p1. m = (Inr (), p1) \<and> f p1 = (Inr x, p'))"
  by (auto simp: then_p_def split: prod.splits sum.splits)

lemma bind_parent_Inr:
  "bind_parent io expected p = (Inr (), p') \<longleftrightarrow>
     bd_before io > 1 \<and> nat (bd_before io) = expected \<and> bd_request io = Inr () \<and> bd_after io = bd_before io
     \<and> p' = p\<lparr>pr_death_signal := True\<rparr>"
  by (auto simp: bind_parent_def split: sum.splits if_splits)

lemma euid_simps [simp]: "euid (p\<lparr>pr_death_signal := d\<rparr>) = euid p" "euid (p\<lparr>pr_groups := gs\<rparr>) = euid p"
  "euid (p\<lparr>pr_gids := g\<rparr>) = euid p" "euid (p\<lparr>pr_uids := (r, e, s)\<rparr>) = e"
  by (simp_all add: euid_def effective_def)

lemma become_owner_root:
  assumes "become_owner io uid gid p = (Inr (), p')" "euid p = 0"
  shows "pr_uids p' = (uid, uid, uid) \<and> pr_gids p' = (gid, gid, gid) \<and> pr_groups p' = []"
  using assms
  by (auto simp: become_owner_def then_p_Inr set_groups_def set_gids_def set_uids_def split: sum.splits if_splits)

text \<open>The drop succeeds only as the parent's owner, who is not root, and bound to that parent again.\<close>

definition owned_by :: "drop_io \<Rightarrow> nat \<Rightarrow> process \<Rightarrow> process \<Rightarrow> bool" where
  "owned_by io parent p p' \<longleftrightarrow>
     (\<exists>uid gid. dr_owner io = Inr (uid, gid) \<and> uid \<noteq> 0 \<and> euid p' = uid
        \<and> (if euid p = 0 then pr_uids p' = (uid, uid, uid) \<and> pr_gids p' = (gid, gid, gid) \<and> pr_groups p' = []
           else pr_uids p' = pr_uids p \<and> pr_gids p' = pr_gids p \<and> pr_groups p' = pr_groups p))
     \<and> pr_death_signal p' \<and> bd_after (dr_second io) = int parent \<and> parent > 1"

lemma drop_to_parent_Inr:
  assumes "drop_to_parent io parent p = (Inr (), p')"
  shows "owned_by io parent p p'"
proof -
  obtain p1 where p1': "bind_parent (dr_first io) parent p = (Inr (), p1)"
    and rest: "(case dr_owner io of
         Inl e \<Rightarrow> (Inl e, p1)
       | Inr (uid, gid) \<Rightarrow>
           if uid = 0 then (Inl (Msg ''USB helper requires an unprivileged application parent''), p1)
           else then_p (become_owner io uid gid p1) (\<lambda>p2.
                  if euid p2 \<noteq> uid then (Inl (Msg ''USB helper credential mismatch''), p2)
                  else bind_parent (dr_second io) parent p2)) = (Inr (), p')"
    using assms unfolding drop_to_parent_def then_p_Inr by blast
  obtain uid gid where o: "dr_owner io = Inr (uid, gid)" "uid \<noteq> 0"
    using rest by (cases "dr_owner io") (auto split: if_splits)
  then obtain p2 where p2: "become_owner io uid gid p1 = (Inr (), p2)"
    "(if euid p2 \<noteq> uid then (Inl (Msg ''USB helper credential mismatch''), p2)
      else bind_parent (dr_second io) parent p2) = (Inr (), p')"
    using rest by (auto simp: then_p_Inr)
  have "euid p2 = uid" "bind_parent (dr_second io) parent p2 = (Inr (), p')" using p2(2) by (simp_all split: if_splits)
  note a = p1' o p2(1) this
  have p1: "p1 = p\<lparr>pr_death_signal := True\<rparr>" using a(1) by (simp add: bind_parent_Inr)
  have p': "p' = p2\<lparr>pr_death_signal := True\<rparr>" "bd_after (dr_second io) = int parent" "parent > 1"
    using a(6) by (auto simp: bind_parent_Inr)
  show ?thesis
  proof (cases "euid p = 0")
    case True
    then have "euid p1 = 0" using p1 by simp
    from become_owner_root[OF a(4) this] show ?thesis using True a p' by (simp add: owned_by_def)
  next
    case False
    then have "p2 = p1" using a(4) p1 by (simp add: become_owner_def)
    then show ?thesis using False a p' p1 by (simp add: owned_by_def)
  qed
qed

lemma switch_selected_gate:
  assumes "switch_selected io dev parent = (out, r)" "out \<noteq> []"
  shows "\<not> accessory_id dev \<and> io_open io = Inr () \<and> (parent \<noteq> None \<longrightarrow> io_drop io = Inr ())"
  using assms by (auto simp: switch_selected_def try_r_Inr_iff split: sum.splits if_splits option.splits)

lemma switch_as_transfers:
  assumes "switch_as io dev parent p = (Switched out r, p')" "out \<noteq> []"
  shows "case parent of None \<Rightarrow> p' = p | Some pid \<Rightarrow> owned_by (hp_drop io) pid p p'"
proof (cases parent)
  case None
  then show ?thesis using assms by (auto simp: switch_as_def split: sum.splits prod.splits)
next
  case (Some pid)
  obtain d where d: "selected (io_devices (hp_switch io)) dev False = Inr d"
    using assms by (auto simp: switch_as_def split: sum.splits)
  show ?thesis
  proof (cases "accessory_id dev \<or> io_open (hp_switch io) \<noteq> Inr ()")
    case True
    then have "switch_selected (hp_switch io) dev parent = (out, r)"
      using assms(1) d by (auto simp: switch_as_def split: prod.splits)
    from switch_selected_gate[OF this assms(2)] True show ?thesis by blast
  next
    case False
    obtain dropped p1 where dp: "drop_to_parent (hp_drop io) pid p = (dropped, p1)" by fastforce
    then have run: "switch_selected ((hp_switch io)\<lparr>io_drop := dropped\<rparr>) dev parent = (out, r)" "p1 = p'"
      using assms(1) d False Some by (auto simp: switch_as_def split: prod.splits)
    from switch_selected_gate[OF run(1) assms(2)] have "dropped = Inr ()" using Some by simp
    then show ?thesis using drop_to_parent_Inr[of "hp_drop io" pid p p'] dp run(2) Some by simp
  qed
qed

lemma helper_owner:
  assumes "usb_main io args p = (Inr (Switched out r), p')" "out \<noteq> []"
  shows "euid p' \<noteq> 0
    \<and> (euid p = 0 \<longrightarrow> (\<exists>uid gid pid. dr_owner (hp_drop io) = Inr (uid, gid) \<and> pr_uids p' = (uid, uid, uid)
         \<and> pr_gids p' = (gid, gid, gid) \<and> pr_groups p' = [] \<and> \<not> may_be_root p'
         \<and> args = [lit ''--switch'', lit ''--parent'', args ! 2] \<and> parse_u32 (args ! 2) = Some pid
         \<and> bd_after (dr_second (hp_drop io)) = int pid \<and> pr_death_signal p'))"
proof -
  have sw: "args \<noteq> []" "hd args = lit ''--switch''"
    using assms(1) by (auto simp: usb_main_def try_r_Inr_iff simp del: lit_simps split: if_splits sum.splits)
  have ne: "lit ''--switch'' \<noteq> lit ''--list''" by simp
  obtain dev parent where req: "switch_request io args = Inr (dev, parent)"
    and go: "run_switch io dev parent p = (Inr (Switched out r), p')"
    using assms(1) sw ne by (auto simp: usb_main_def simp del: lit_simps split: sum.splits)
  have root: "\<not> (euid p = 0 \<and> parent = None)"
    using go by (cases "euid p = 0 \<and> parent = None") (simp_all add: run_switch_def)
  then have "then_p (case parent of None \<Rightarrow> (Inr (), p) | Some pid \<Rightarrow> bind_parent (hp_bind io) pid p)
      (\<lambda>p1. case switch_as io dev parent p1 of (r, p2) \<Rightarrow> (Inr r, p2)) = (Inr (Switched out r), p')"
    using go unfolding run_switch_def by (simp only: if_False)
  then obtain p1 where p1: "(case parent of None \<Rightarrow> (Inr (), p) | Some pid \<Rightarrow> bind_parent (hp_bind io) pid p) = (Inr (), p1)"
    "(case switch_as io dev parent p1 of (r, p2) \<Rightarrow> (Inr r, p2)) = (Inr (Switched out r) :: error + helper_result, p')"
    unfolding then_p_Inr by blast
  have p1': "switch_as io dev parent p1 = (Switched out r, p')" using p1(2) by (simp split: prod.splits)
  note t = switch_as_transfers[OF p1' assms(2)]
  show ?thesis
  proof (cases parent)
    case None
    then show ?thesis using t p1 root by simp
  next
    case (Some pid)
    have same: "p1 = p\<lparr>pr_death_signal := True\<rparr>" using p1(1) Some by (simp add: bind_parent_Inr)
    have o: "owned_by (hp_drop io) pid p1 p'" using t Some by simp
    have a: "length args = 3" "args ! 1 = lit ''--parent''" "parse_u32 (args ! 2) = Some pid"
      using req Some by (auto simp: switch_request_def try_r_Inr_iff simp del: lit_simps split: if_splits option.splits)
    have "args = [lit ''--switch'', lit ''--parent'', args ! 2]"
      using a(1,2) sw by (auto simp: length_Suc_conv numeral_3_eq_3 simp del: lit_simps)
    then show ?thesis using o a(3) same unfolding owned_by_def may_be_root_def by (auto split: if_splits)
  qed
qed

text \<open>
  C13. The USB helper never talks to a phone as root: whenever it made a control transfer, its effective
  user was not root; started as root, it had become the owner of the application's process for good (all
  three user ids, all three group ids, no supplementary group), so that it cannot become root again, and
  it dies with that process. Started as root without a parent, or when any of the calls fails, it makes no
  transfer.
\<close>

theorem helper_transfers_unprivileged:
  assumes "usb_main io args p = (Inr (Switched out r), p')" "out \<noteq> []"
  shows "euid p' \<noteq> 0
    \<and> (euid p = 0 \<longrightarrow> (\<exists>uid gid pid. dr_owner (hp_drop io) = Inr (uid, gid) \<and> pr_uids p' = (uid, uid, uid)
         \<and> pr_gids p' = (gid, gid, gid) \<and> pr_groups p' = [] \<and> \<not> may_be_root p'
         \<and> args = [lit ''--switch'', lit ''--parent'', args ! 2] \<and> parse_u32 (args ! 2) = Some pid
         \<and> bd_after (dr_second (hp_drop io)) = int pid \<and> pr_death_signal p'))"
  by (rule helper_owner[OF assms])

text \<open>The command the application gives to polkit names the application's own process.\<close>

lemma application_command_binds:
  assumes "usb_main io (drop 3 (switch_command pid)) p = (Inr (Switched out r), p')" "out \<noteq> []" "euid p = 0" "pid < 2 ^ 32"
  shows "\<exists>uid gid. dr_owner (hp_drop io) = Inr (uid, gid) \<and> pr_uids p' = (uid, uid, uid) \<and> \<not> may_be_root p'
    \<and> bd_after (dr_second (hp_drop io)) = int pid"
proof -
  have "drop 3 (switch_command pid) ! 2 = show_dec pid" by (simp add: switch_command_def del: lit_simps)
  moreover have "parse_u32 (show_dec pid) = Some pid" using assms(4) by (intro parse_uint_show) simp_all
  ultimately show ?thesis using helper_owner[OF assms(1,2)] assms(3) by auto
qed

definition bound :: bind_io where
  "bound = \<lparr>bd_before = 77, bd_request = Inr (), bd_after = 77\<rparr>"

definition sample_helper :: helper_io where
  "sample_helper = \<lparr>hp_list = Inr [], hp_input = Inr (Some sample_dev), hp_bind = bound,
     hp_drop = \<lparr>dr_first = bound, dr_owner = Inr (1000, 1000), dr_groups = Inr (), dr_gids = Inr (), dr_uids = Inr (),
       dr_second = bound\<rparr>,
     hp_switch = sample_switch_io\<lparr>io_protocol := Inr (2, 0)\<rparr>\<rparr>"

definition root_process :: process where
  "root_process = \<lparr>pr_uids = (0, 0, 0), pr_gids = (0, 0, 0), pr_groups = [0], pr_death_signal = False\<rparr>"

lemma sample_helper_run:
  "usb_main sample_helper [lit ''--switch'', lit ''--parent'', lit ''77''] root_process
   = (Inr (Switched [GetProtocol] (Some (Inl (Msg ''selected device does not support Android Open Accessory'')))),
      \<lparr>pr_uids = (1000, 1000, 1000), pr_gids = (1000, 1000, 1000), pr_groups = [], pr_death_signal = True\<rparr>)"
proof -
  have sel: "selected (Inr [sample_phone]) sample_dev False = Inr sample_phone"
    by (simp add: selected_def is_selected_def sample_phone_def sample_dev_def identity_of_def)
  have na: "\<not> accessory_id sample_dev" by (simp add: accessory_id_def accessory_def sample_dev_def)
  have n: "parse_u32 (lit ''77'') = Some 77"
    by (simp add: parse_uint_def chr_def to_digit_def)
  have req: "switch_request sample_helper [lit ''--switch'', lit ''--parent'', lit ''77''] = Inr (sample_dev, Some 77)"
    using n by (simp add: switch_request_def sample_helper_def del: lit_simps)
  have b: "bind_parent bound 77 p = (Inr (), p\<lparr>pr_death_signal := True\<rparr>)" for p by (simp add: bind_parent_def bound_def)
  have d: "drop_to_parent (hp_drop sample_helper) 77 (root_process\<lparr>pr_death_signal := True\<rparr>)
      = (Inr (), \<lparr>pr_uids = (1000, 1000, 1000), pr_gids = (1000, 1000, 1000), pr_groups = [], pr_death_signal = True\<rparr>)"
    by (simp add: drop_to_parent_def sample_helper_def b then_p_def root_process_def become_owner_def euid_def effective_def
        set_groups_def set_gids_def set_uids_def)
  have s: "switch_as sample_helper sample_dev (Some 77) (root_process\<lparr>pr_death_signal := True\<rparr>)
    = (Switched [GetProtocol] (Some (Inl (Msg ''selected device does not support Android Open Accessory''))),
       \<lparr>pr_uids = (1000, 1000, 1000), pr_gids = (1000, 1000, 1000), pr_groups = [], pr_death_signal = True\<rparr>)"
    using d na sel by (simp add: switch_as_def sample_helper_def sample_switch_io_def switch_selected_def)
  have "lit ''--switch'' \<noteq> lit ''--list''" by simp
  then show ?thesis using req s b
    by (simp add: usb_main_def run_switch_def then_p_def sample_helper_def root_process_def del: lit_simps)
qed

lemma helper_transfers_unprivileged_witness:
  "\<not> may_be_root (snd (usb_main sample_helper [lit ''--switch'', lit ''--parent'', lit ''77''] root_process))
   \<and> may_be_root root_process"
proof -
  have "euid root_process = 0" "may_be_root root_process" by (simp_all add: root_process_def euid_def effective_def may_be_root_def)
  then show ?thesis unfolding sample_helper_run using helper_transfers_unprivileged[OF sample_helper_run] by auto
qed

end
