(* ===== verification/Registry.thy ===== *)
theory Registry
  imports Settings
begin

text \<open>
  The settings on Windows: \<open>settings/registry.rs\<close>, \<open>settings/dpapi.rs\<close> and the Windows branches of
  \<open>Store\<close>. The registry is a map of typed values; what a query of a value meets is an argument, once for
  its size and once for its data, so that another process may write in between. DPAPI is a parameter.
\<close>

section \<open>UTF-16\<close>

definition utf16_char :: "scalar \<Rightarrow> u16 list" where
  "utf16_char c =
     (if c < 65536 then [of_nat c]
      else [of_nat (55296 + (c - 65536) div 1024), of_nat (56320 + (c - 65536) mod 1024)])"

definition encode_utf16 :: "ustr \<Rightarrow> u16 list" where
  "encode_utf16 s = concat (map utf16_char s)"

fun from_utf16 :: "u16 list \<Rightarrow> ustr option" where
  "from_utf16 [] = Some []"
| "from_utf16 (u # us) =
     (if unat u < 55296 \<or> 57343 < unat u then map_option (Cons (unat u)) (from_utf16 us)
      else if 56320 \<le> unat u then None
      else case us of
             [] \<Rightarrow> None
           | l # rest \<Rightarrow>
               if 56320 \<le> unat l \<and> unat l \<le> 57343
               then map_option (Cons (65536 + (unat u - 55296) * 1024 + (unat l - 56320))) (from_utf16 rest)
               else None)"

text \<open>\<open>wide\<close>: the units and a terminator.\<close>

definition wide :: "ustr \<Rightarrow> u16 list" where
  "wide s = encode_utf16 s @ [0]"

section \<open>Protected values\<close>

record dpapi =
  dp_protect :: "bytes \<Rightarrow> error + bytes"
  dp_unprotect :: "bytes \<Rightarrow> error + bytes"

definition dpapi_decode_hex :: "ustr \<Rightarrow> error + bytes" where
  "dpapi_decode_hex value =
     (if str_len value > 16 * 1024 \<or> str_len value mod 2 \<noteq> 0 then Inl (Msg ''invalid protected Wi-Fi key'')
      else case hex_pairs (utf8 value) of None \<Rightarrow> Inl (Msg ''invalid digit found in string'') | Some bs \<Rightarrow> Inr bs)"

definition protect :: "dpapi \<Rightarrow> ustr \<Rightarrow> error + ustr" where
  "protect dp secret = try_r (dp_protect dp (as_bytes secret)) (\<lambda>bs. Inr (hex bs))"

definition unprotect :: "dpapi \<Rightarrow> ustr \<Rightarrow> error + ustr" where
  "unprotect dp ciphertext =
     try_r (dpapi_decode_hex ciphertext) (\<lambda>bs. try_r (dp_unprotect dp bs) (\<lambda>plain.
       case from_utf8 plain of None \<Rightarrow> Inl (Msg ''invalid utf-8 sequence'') | Some s \<Rightarrow> Inr s))"

section \<open>Values\<close>

datatype reg_value = RegSz "u16 list" | RegDword u32 | RegOther
datatype reg_root = CurrentUser | LocalMachine

text \<open>\<open>Software\nekomario28\Mobile Webcam\<close>, and the vendor's key above it.\<close>

datatype reg_path = ProductKey | VendorKey

type_synonym registry = "reg_root \<Rightarrow> reg_path \<Rightarrow> ustr \<Rightarrow> reg_value option"

datatype reg_answer = Found "reg_value option" | Refused error

text \<open>A queried text comes with a terminator, added if it has none.\<close>

definition terminated :: "u16 list \<Rightarrow> u16 list" where
  "terminated us = (if us \<noteq> [] \<and> last us = 0 then us else us @ [0])"

definition reg_size :: "reg_value \<Rightarrow> nat" where
  "reg_size v = (case v of RegSz us \<Rightarrow> 2 * length (terminated us) | RegDword _ \<Rightarrow> 4 | RegOther \<Rightarrow> 0)"

definition reg_text :: "reg_value \<Rightarrow> error + ustr" where
  "reg_text v =
     (case v of
        RegDword n \<Rightarrow> Inr (show_dec (unat n))
      | RegSz us \<Rightarrow>
          (case from_utf16 (butlast (terminated us)) of
             None \<Rightarrow> Inl (Msg ''invalid utf-16: lone surrogate found'') | Some s \<Rightarrow> Inr s)
      | RegOther \<Rightarrow> Inl (Msg ''unsupported registry type''))"

definition read_value :: "reg_answer \<times> reg_answer \<Rightarrow> error + ustr option" where
  "read_value seen =
     (case fst seen of
        Refused e \<Rightarrow> Inl e
      | Found None \<Rightarrow> Inr None
      | Found (Some v) \<Rightarrow>
          if v = RegOther then Inl (Msg ''unsupported registry type'')
          else if reg_size v > 16 * 1024 then Inl (Msg ''registry setting exceeds limit'')
          else case snd seen of
                 Refused e \<Rightarrow> Inl e
               | Found None \<Rightarrow> Inl (Io NotFound ''file not found'')
               | Found (Some v2) \<Rightarrow>
                   if v2 \<noteq> RegOther \<and> reg_size v2 > 2 * ((reg_size v + 1) div 2) then Inl (Msg ''more data is available'')
                   else try_r (reg_text v2) (\<lambda>s. Inr (Some s)))"

section \<open>Reading\<close>

type_synonym reg_seen = "reg_root \<Rightarrow> reg_path \<Rightarrow> ustr \<Rightarrow> reg_answer \<times> reg_answer"

fun first_found :: "reg_seen \<Rightarrow> ustr \<Rightarrow> (reg_root \<times> reg_path) list \<Rightarrow> error + ustr option" where
  "first_found seen key [] = Inr None"
| "first_found seen key ((hive, path) # scopes) =
     (if key = lit ''lanFingerprint'' \<and> hive = LocalMachine then first_found seen key scopes
      else try_r (read_value (seen hive path key)) (\<lambda>found.
        case found of Some v \<Rightarrow> Inr (Some v) | None \<Rightarrow> first_found seen key scopes))"

definition read_access_key :: "dpapi \<Rightarrow> reg_seen \<Rightarrow> error + ustr option" where
  "read_access_key dp seen =
     try_r (read_value (seen CurrentUser ProductKey (lit ''lanKeyProtected''))) (\<lambda>found.
       case found of
         Some encrypted \<Rightarrow> try_r (unprotect dp encrypted) (\<lambda>s. Inr (Some s))
       | None \<Rightarrow> read_value (seen CurrentUser ProductKey (lit ''lanKey'')))"

definition read_setting :: "dpapi \<Rightarrow> reg_seen \<Rightarrow> ustr \<Rightarrow> error + ustr option" where
  "read_setting dp seen key =
     (if key = lit ''lanKey'' then read_access_key dp seen
      else first_found seen key
        [(CurrentUser, ProductKey), (CurrentUser, VendorKey), (LocalMachine, ProductKey), (LocalMachine, VendorKey)])"

fun read_settings :: "dpapi \<Rightarrow> reg_seen \<Rightarrow> ustr list \<Rightarrow> ini_map \<Rightarrow> error + ini_map" where
  "read_settings dp seen [] m = Inr m"
| "read_settings dp seen (k # ks) m =
     try_r (read_setting dp seen k) (\<lambda>found.
       read_settings dp seen ks (case found of None \<Rightarrow> m | Some v \<Rightarrow> m(k \<mapsto> v)))"

definition registry_read :: "dpapi \<Rightarrow> reg_seen \<Rightarrow> error + ini_map" where
  "registry_read dp seen = read_settings dp seen setting_keys Map.empty"

section \<open>Saving\<close>

text \<open>What opening the key, setting each value and deleting the plaintext key meet.\<close>

record reg_io =
  rg_create :: "error + unit"
  rg_set :: "ustr \<Rightarrow> error + unit"
  rg_delete :: "error + unit"

definition put_value :: "ustr \<Rightarrow> reg_value option \<Rightarrow> registry \<Rightarrow> registry" where
  "put_value name v r =
     (\<lambda>hive path n. if hive = CurrentUser \<and> path = ProductKey \<and> n = name then v else r hive path n)"

definition stored_as :: "dpapi \<Rightarrow> ustr \<Rightarrow> ustr \<Rightarrow> error + ustr \<times> reg_value" where
  "stored_as dp name value =
     (if name = lit ''lanKey'' then try_r (protect dp value) (\<lambda>s. Inr (lit ''lanKeyProtected'', RegSz (wide s)))
      else if name = lit ''rotation''
      then (case parse_u32 value of
              None \<Rightarrow> Inl (Msg ''invalid digit found in string'') | Some n \<Rightarrow> Inr (name, RegDword (of_nat n)))
      else Inr (name, RegSz (wide value)))"

fun set_values :: "dpapi \<Rightarrow> reg_io \<Rightarrow> (ustr \<times> ustr) list \<Rightarrow> registry \<Rightarrow> (error + unit) \<times> registry" where
  "set_values dp io [] r = (Inr (), r)"
| "set_values dp io ((name, value) # kvs) r =
     (case try_r (stored_as dp name value) (\<lambda>nv. try_r (rg_set io name) (\<lambda>_. Inr nv)) of
        Inl e \<Rightarrow> (Inl e, r)
      | Inr (stored, v) \<Rightarrow> set_values dp io kvs (put_value stored (Some v) r))"

definition registry_save ::
  "build \<Rightarrow> dpapi \<Rightarrow> reg_seen \<Rightarrow> reg_io \<Rightarrow> (ustr \<times> ustr) list \<Rightarrow> registry \<Rightarrow> (error + unit) \<times> registry" where
  "registry_save cfg dp seen io kvs r =
     (case try_r (registry_read dp seen) (\<lambda>m. try_r (from_values cfg m) (\<lambda>_. rg_create io)) of
        Inl e \<Rightarrow> (Inl e, r)
      | Inr _ \<Rightarrow>
          (case set_values dp io kvs r of
             (Inl e, r1) \<Rightarrow> (Inl e, r1)
           | (Inr _, r1) \<Rightarrow>
               (case rg_delete io of Inl e \<Rightarrow> (Inl e, r1) | Inr _ \<Rightarrow> (Inr (), put_value (lit ''lanKey'') None r1))))"

text \<open>The store of this build.\<close>

definition win_read :: "build \<Rightarrow> dpapi \<Rightarrow> reg_seen \<Rightarrow> error + settings" where
  "win_read cfg dp seen = try_r (registry_read dp seen) (from_values cfg)"

definition win_save ::
  "build \<Rightarrow> dpapi \<Rightarrow> reg_seen \<Rightarrow> reg_io \<Rightarrow> settings \<Rightarrow> registry \<Rightarrow> (error + unit) \<times> registry" where
  "win_save cfg dp seen io s r =
     (case settings_validate cfg s of
        Inl e \<Rightarrow> (Inl e, r) | Inr _ \<Rightarrow> registry_save cfg dp seen io (settings_values s) r)"

text \<open>A registry that no other process writes.\<close>

definition seen_in :: "registry \<Rightarrow> reg_seen" where
  "seen_in r = (\<lambda>hive path name. (Found (r hive path name), Found (r hive path name)))"

end
