(* ===== verification/Registry_Props.thy ===== *)
theory Registry_Props
  imports Registry
begin

text \<open>
  What the registry gives back, which values a save may touch, and where pairing credentials come from.
\<close>

section \<open>Texts\<close>

lemma unat_of_nat_u16: "n < 65536 \<Longrightarrow> unat (of_nat n :: u16) = n"
  by (simp add: unat_of_nat take_bit_nat_eq_self)

lemma from_utf16_char:
  assumes "is_scalar c"
  shows "from_utf16 (utf16_char c @ us) = map_option (Cons c) (from_utf16 us)"
proof (cases "c < 65536")
  case True
  then show ?thesis using assms by (auto simp: utf16_char_def unat_of_nat_u16 is_scalar_def)
next
  case False
  define v where "v = c - 65536"
  have v: "v < 1048576" "c = 65536 + v" using assms False by (auto simp: v_def is_scalar_def)
  then have d: "v div 1024 < 1024" "v mod 1024 < 1024" by auto
  have e: "65536 + v div 1024 * 1024 + v mod 1024 = c" using v(2) div_mult_mod_eq[of v 1024] by linarith
  define hi lo where "hi = (of_nat (55296 + v div 1024) :: u16)" and "lo = (of_nat (56320 + v mod 1024) :: u16)"
  have u: "unat hi = 55296 + v div 1024" "unat lo = 56320 + v mod 1024"
    unfolding hi_def lo_def using d by (simp_all only: unat_of_nat_u16)
  have "utf16_char c = [hi, lo]" using False by (simp only: utf16_char_def v_def[symmetric] hi_def lo_def if_False)
  moreover have "\<not> unat hi < 55296" "\<not> 57343 < unat hi" "\<not> 56320 \<le> unat hi" "56320 \<le> unat lo" "unat lo \<le> 57343"
    "65536 + (unat hi - 55296) * 1024 + (unat lo - 56320) = c"
    using u d e by linarith+
  ultimately show ?thesis by simp
qed

lemma from_utf16_encode: "list_all is_scalar s \<Longrightarrow> from_utf16 (encode_utf16 s) = Some s"
  by (induction s) (simp_all add: encode_utf16_def from_utf16_char)

lemma length_encode_utf16: "length (encode_utf16 s) \<le> str_len s"
  by (induction s) (auto simp: encode_utf16_def str_len_def utf8_def utf16_char_def utf8_char_def)

lemma terminated_wide: "butlast (terminated (wide s)) = encode_utf16 s" "length (terminated (wide s)) = Suc (length (encode_utf16 s))"
  by (simp_all add: terminated_def wide_def)

lemma read_value_text:
  assumes "list_all is_scalar s" "str_len s \<le> 8191"
  shows "read_value (Found (Some (RegSz (wide s))), Found (Some (RegSz (wide s)))) = Inr (Some s)"
  using assms length_encode_utf16[of s]
  by (simp add: read_value_def reg_size_def reg_text_def terminated_wide from_utf16_encode)

lemma read_value_number: "read_value (Found (Some (RegDword n)), Found (Some (RegDword n))) = Inr (Some (show_dec (unat n)))"
  by (simp add: read_value_def reg_size_def reg_text_def)

lemma length_show_dec: "n < 10 ^ k \<Longrightarrow> 0 < k \<Longrightarrow> length (show_dec n) \<le> k"
proof (induction k arbitrary: n)
  case (Suc k)
  show ?case
  proof (cases "n < 10")
    case False
    then have "0 < k" "n div 10 < 10 ^ k" using Suc.prems(1) by (cases k, auto)
    then show ?thesis using Suc.IH[of "n div 10"] False by (simp add: show_radix.simps[of 10 n])
  qed (simp add: show_radix.simps[of 10 n])
qed simp

lemma str_len_dec: "str_len (show_dec n) = length (show_dec n)"
  using show_dec_ascii by (subst str_len_def, subst ascii_utf8) (fastforce simp: list_all_iff is_ascii_digit_def)+

section \<open>Protected values\<close>

text \<open>
  A protected value that is read back: what was protected, or the limit of 16 KiB on a registry value,
  which a ciphertext of up to 4095 bytes keeps.
\<close>

lemma encode_utf16_hex: "length (encode_utf16 (hex c)) = 2 * length c"
proof -
  have "length (encode_utf16 t) = length t" if "list_all is_ascii_hexdigit t" for t
    using that by (induction t) (auto simp: encode_utf16_def utf16_char_def is_ascii_hexdigit_def)
  then show ?thesis using hex_hexdigits[of _ c] by (simp add: list_all_iff)
qed

lemma read_value_protected:
  "read_value (Found (Some (RegSz (wide (hex c)))), Found (Some (RegSz (wide (hex c))))) =
     (if length c \<le> 4095 then Inr (Some (hex c)) else Inl (Msg ''registry setting exceeds limit''))"
proof -
  have "list_all is_scalar (hex c)"
    using hex_hexdigits[of _ c] by (fastforce simp: list_all_iff is_ascii_hexdigit_def is_scalar_def)
  then show ?thesis
    by (simp add: read_value_def reg_size_def reg_text_def terminated_wide encode_utf16_hex from_utf16_encode)
qed

lemma unprotect_protected:
  assumes "dp_unprotect dp c = Inr (as_bytes s)" "list_all is_scalar s" "length c \<le> 4095"
  shows "unprotect dp (hex c) = Inr s"
proof -
  have "str_len (hex c) = 2 * length c" by (simp add: str_len_def hex_utf8)
  moreover have "from_utf8 (as_bytes s) = Some s" using assms(2) by (intro from_utf8_as_bytes) (simp add: list_all_iff)
  ultimately show ?thesis using assms(1,3)
    by (simp add: unprotect_def dpapi_decode_hex_def hex_utf8 hex_pairs_hex)
qed

section \<open>Writing values\<close>

definition stored_name :: "ustr \<Rightarrow> ustr" where
  "stored_name k = (if k = lit ''lanKey'' then lit ''lanKeyProtected'' else k)"

lemma stored_as_name: "stored_as dp k v = Inr (n, x) \<Longrightarrow> n = stored_name k"
  by (auto simp: stored_as_def stored_name_def try_r_Inr_iff simp del: lit_simps split: if_splits option.splits)

lemma put_value_simps:
  "put_value n v r CurrentUser ProductKey n = v" "m \<noteq> n \<Longrightarrow> put_value n v r hive path m = r hive path m"
  "put_value n v r LocalMachine path m = r LocalMachine path m" "put_value n v r hive VendorKey m = r hive VendorKey m"
  by (simp_all add: put_value_def)

lemma set_values_touch:
  assumes "set_values dp io kvs r = (res, r')"
  shows "r' hive path n = r hive path n
    \<or> (hive = CurrentUser \<and> path = ProductKey \<and> (\<exists>k v x. (k, v) \<in> set kvs \<and> stored_as dp k v = Inr (n, x) \<and> r' hive path n = Some x))"
  using assms
proof (induction kvs arbitrary: r)
  case (Cons kv kvs)
  obtain k v where kv: "kv = (k, v)" by (cases kv)
  show ?case
  proof (cases "try_r (stored_as dp k v) (\<lambda>nv. try_r (rg_set io k) (\<lambda>_. Inr nv))")
    case (Inl e)
    then show ?thesis using Cons.prems kv by simp
  next
    case (Inr nx)
    obtain m x where nx: "nx = (m, x)" by (cases nx)
    have st: "stored_as dp k v = Inr (m, x)" using Inr nx by (auto simp: try_r_Inr_iff)
    have "set_values dp io kvs (put_value m (Some x) r) = (res, r')" using Cons.prems kv Inr nx by simp
    from Cons.IH[OF this] show ?thesis
    proof (elim disjE conjE exE)
      assume a: "r' hive path n = put_value m (Some x) r hive path n"
      show ?thesis
      proof (cases "hive = CurrentUser \<and> path = ProductKey \<and> n = m")
        case True
        then show ?thesis using a st kv by (auto simp: put_value_def)
      next
        case False
        then show ?thesis using a by (auto simp: put_value_def)
      qed
    qed (use kv in auto)
  qed
qed simp

lemma set_values_done:
  assumes "set_values dp io kvs r = (Inr (), r')" "distinct (map (stored_name \<circ> fst) kvs)" "(k, v) \<in> set kvs"
  shows "\<exists>x. stored_as dp k v = Inr (stored_name k, x) \<and> r' CurrentUser ProductKey (stored_name k) = Some x"
  using assms
proof (induction kvs arbitrary: r)
  case (Cons kv kvs)
  obtain k1 v1 where kv: "kv = (k1, v1)" by (cases kv)
  obtain m x where st: "try_r (stored_as dp k1 v1) (\<lambda>nv. try_r (rg_set io k1) (\<lambda>_. Inr nv)) = Inr (m, x)"
    "set_values dp io kvs (put_value m (Some x) r) = (Inr (), r')"
    using Cons.prems(1) kv by (auto split: sum.splits)
  then have sa: "stored_as dp k1 v1 = Inr (m, x)" by (auto simp: try_r_Inr_iff)
  then have m: "m = stored_name k1" by (rule stored_as_name)
  show ?case
  proof (cases "(k, v) \<in> set kvs")
    case True
    then show ?thesis using Cons.IH[OF st(2)] Cons.prems(2) by simp
  next
    case False
    then have k: "k = k1" "v = v1" using Cons.prems(3) kv by auto
    have "r' CurrentUser ProductKey m = put_value m (Some x) r CurrentUser ProductKey m"
    proof -
      have "\<not> (\<exists>k' v' x'. (k', v') \<in> set kvs \<and> stored_as dp k' v' = Inr (m, x'))"
        using Cons.prems(2) kv m stored_as_name by (force simp: image_iff)
      then show ?thesis using set_values_touch[OF st(2), of CurrentUser ProductKey m] by blast
    qed
    then show ?thesis using sa m k by (simp add: put_value_simps)
  qed
qed simp

section \<open>The saved settings\<close>

lemma values_fit:
  assumes v: "settings_validate cfg s = Inr ()" and wf: "settings_wf s" and kv: "(k, v) \<in> set (settings_values s)"
  shows "list_all is_scalar v \<and> str_len v \<le> 8191 \<and> (k = lit ''lanKey'' \<longrightarrow> str_len v \<le> 32)"
proof -
  have hx: "str_len (trim x) = 0 \<or> str_len (trim x) = 2 * n" if "x = [] \<or> is_hex x n" for x n
    using that trim_hex[of x n] by (auto simp: is_hex_def trim_def trim_start_def trim_end_def str_len_def utf8_def)
  have num: "str_len (show_dec n) \<le> 20" if "n < 2 ^ 64" for n
    using length_show_dec[of n 20] that by (simp add: str_len_dec)
  have u16: "unat (w :: u16) < 2 ^ 64" for w using unsigned_less[of w, where ?'a = nat] by simp
  have "trim (output_kind s) = lit ''loopback'' \<or> trim (output_kind s) = lit ''pipewire''"
    using v by (auto simp: validate_iff backend_parse_def simp del: lit_simps split: if_splits)
  then have kind: "str_len (trim (output_kind s)) \<le> 8" by (auto simp: str_len_def utf8_def utf8_char_def chr_def)
  have tr: "str_len (transport s) \<le> 8" using v by (auto simp: validate_iff str_len_def utf8_def utf8_char_def chr_def)
  have de: "str_len (decode s) \<le> 8" using v by (auto simp: validate_iff str_len_def utf8_def utf8_char_def chr_def)
  have ln: "str_len (trim (lan_host s)) \<le> 4096" "str_len (trim (output_path s)) \<le> 4096"
    using v bad_line_trim[of "lan_host s"] bad_line_trim[of "output_path s"] by (auto simp: validate_iff bad_line_def)
  have "lan_key s = [] \<or> is_hex (lan_key s) 16" "lan_fingerprint s = [] \<or> is_hex (lan_fingerprint s) 32"
    using v unfolding validate_iff by blast+
  from hx[OF this(1)] hx[OF this(2)]
  have key: "str_len (trim (lan_key s)) \<le> 32" "str_len (trim (lan_fingerprint s)) \<le> 64" by auto
  have bool: "str_len (show_bool b) \<le> 8" for b by (simp add: show_bool_def str_len_def utf8_def utf8_char_def chr_def)
  have nums: "str_len (show_dec (last_connected s)) \<le> 20" "str_len (show_dec (rotation s)) \<le> 20"
    "str_len (show_dec (unat (quality_width s))) \<le> 20" "str_len (show_dec (unat (quality_height s))) \<le> 20"
    "str_len (show_dec (unat (quality_fps s))) \<le> 20"
    using wf num u16 by (auto simp: settings_wf_def)
  have "list_all (\<lambda>(k, v). str_len v \<le> 8191 \<and> (k = lit ''lanKey'' \<longrightarrow> str_len v \<le> 32)) (settings_values s)"
    using kind tr de ln key bool[of "mirror s"] bool[of "vertical_flip s"] nums by (simp add: settings_values_def del: lit_simps)
  then show ?thesis using kv values_scalar[OF wf] by (auto simp: list_all_iff)
qed

section \<open>Reading\<close>

lemma read_settings_all:
  assumes "distinct (map fst kvs)" "\<forall>(k, v) \<in> set kvs. read_setting dp seen k = Inr (Some v)"
  shows "read_settings dp seen (map fst kvs) m = Inr (m ++ map_of kvs)"
  using assms
proof (induction kvs arbitrary: m)
  case (Cons kv kvs)
  obtain k v where kv: "kv = (k, v)" by (cases kv)
  have "k \<notin> dom (map_of kvs)" using Cons.prems(1) kv by (simp add: dom_map_of_conv_image_fst)
  then have e: "m(k \<mapsto> v) ++ map_of kvs = m ++ map_of (kv # kvs)" by (auto simp: kv map_add_def split: option.split)
  have l: "read_settings dp seen (map fst (kv # kvs)) m = read_settings dp seen (map fst kvs) (m(k \<mapsto> v))"
    using Cons.prems(2) kv by simp
  have "read_settings dp seen (map fst kvs) (m(k \<mapsto> v)) = Inr (m(k \<mapsto> v) ++ map_of kvs)"
    by (rule Cons.IH) (use Cons.prems in simp_all)
  then show ?case by (simp only: l e)
qed simp

lemma read_settings_fails:
  assumes "read_setting dp seen k = Inl e" "\<forall>j \<in> set before. \<exists>v. read_setting dp seen j = Inr v"
  shows "read_settings dp seen (before @ k # ks) m = Inl e"
  using assms(2) by (induction before arbitrary: m) (auto simp: assms(1))

lemma read_settings_at:
  assumes "read_settings dp seen ks m = Inr m'" "distinct ks" "k \<in> set ks" "m k = None"
  shows "read_setting dp seen k = Inr (m' k)"
proof -
  have other: "m2 j = m1 j" if "read_settings dp seen js m1 = Inr m2" "j \<notin> set js" for js m1 m2 j
    using that by (induction js arbitrary: m1) (auto simp: try_r_Inr_iff split: option.splits)
  show ?thesis using assms
  proof (induction ks arbitrary: m)
    case (Cons a ks)
    obtain found where f: "read_setting dp seen a = Inr found"
      "read_settings dp seen ks (case found of None \<Rightarrow> m | Some v \<Rightarrow> m(a \<mapsto> v)) = Inr m'"
      using Cons.prems(1) by (auto simp: try_r_Inr_iff)
    show ?case
    proof (cases "k = a")
      case True
      then have "m' k = (case found of None \<Rightarrow> m | Some v \<Rightarrow> m(a \<mapsto> v)) k" using other[OF f(2)] Cons.prems(2) by simp
      then show ?thesis using f(1) True Cons.prems(4) by (auto split: option.splits)
    next
      case False
      then show ?thesis using Cons.IH[OF f(2)] Cons.prems by (auto split: option.splits)
    qed
  qed simp
qed

text \<open>
  Pairing credentials come from the user's own scope: whatever the machine-wide registry holds and
  however its queries fail, it cannot change the fingerprint or the access key that a read gives.
\<close>

theorem machine_scope_gives_no_credential:
  assumes "registry_read dp seen1 = Inr m1" "registry_read dp seen2 = Inr m2"
    and user: "\<forall>path name. seen1 CurrentUser path name = seen2 CurrentUser path name"
  shows "m1 (lit ''lanKey'') = m2 (lit ''lanKey'') \<and> m1 (lit ''lanFingerprint'') = m2 (lit ''lanFingerprint'')"
proof -
  have k: "lit ''lanKey'' \<in> set setting_keys" "lit ''lanFingerprint'' \<in> set setting_keys"
    by (simp_all add: setting_keys_def settings_values_def del: lit_simps)
  have e: "seen1 CurrentUser = seen2 CurrentUser" using user by (intro ext) simp
  have a: "read_setting dp seen1 (lit ''lanKey'') = read_setting dp seen2 (lit ''lanKey'')"
    unfolding read_setting_def read_access_key_def e by simp
  have b: "read_setting dp seen1 (lit ''lanFingerprint'') = read_setting dp seen2 (lit ''lanFingerprint'')"
    by (simp add: read_setting_def e del: lit_simps)
  note at = read_settings_at[OF assms(1)[unfolded registry_read_def] setting_keys_distinct]
    read_settings_at[OF assms(2)[unfolded registry_read_def] setting_keys_distinct]
  show ?thesis using at[OF k(1)] at[OF k(2)] a b by simp
qed

section \<open>Saving\<close>

lemma win_save_run:
  assumes "win_save cfg dp seen io s r = (res, r')"
  obtains (same) "r' = r" "res \<noteq> Inr ()"
    | (failed) res1 where "settings_validate cfg s = Inr ()" "set_values dp io (settings_values s) r = (res1, r')" "res \<noteq> Inr ()"
    | (written) r1 where "settings_validate cfg s = Inr ()" "set_values dp io (settings_values s) r = (Inr (), r1)"
        "r' = put_value (lit ''lanKey'') None r1" "res = Inr ()"
proof -
  obtain res1 r1 where sv: "set_values dp io (settings_values s) r = (res1, r1)" by fastforce
  define pre where "pre = try_r (registry_read dp seen) (\<lambda>m. try_r (from_values cfg m) (\<lambda>_. rg_create io))"
  have run: "(res, r') = (case settings_validate cfg s of Inl e \<Rightarrow> (Inl e, r) | Inr _ \<Rightarrow>
      (case pre of Inl e \<Rightarrow> (Inl e, r) | Inr _ \<Rightarrow>
        (case (res1, r1) of (Inl e, r1) \<Rightarrow> (Inl e, r1)
         | (Inr _, r1) \<Rightarrow> (case rg_delete io of Inl e \<Rightarrow> (Inl e, r1) | Inr _ \<Rightarrow> (Inr (), put_value (lit ''lanKey'') None r1)))))"
    using assms unfolding win_save_def registry_save_def pre_def[symmetric] sv by simp
  show ?thesis
  proof (cases "settings_validate cfg s")
    case (Inl e)
    then show ?thesis using run same by simp
  next
    case valid: (Inr u)
    show ?thesis
    proof (cases pre)
      case (Inl e)
      then show ?thesis using run same valid by simp
    next
      case (Inr w)
      then show ?thesis using run sv valid failed written
        by (cases res1; cases "rg_delete io") (auto simp del: lit_simps)
    qed
  qed
qed

lemma stored_names_distinct: "distinct (map (stored_name \<circ> fst) (settings_values s))"
  by (simp add: settings_values_def stored_name_def del: lit_simps)

lemma stored_name_other: "stored_name k \<noteq> lit ''lanKey''"
  by (simp add: stored_name_def del: lit_simps)

text \<open>What a read finds after a successful save, for every setting.\<close>

lemma saved_setting_read:
  assumes wf: "settings_wf s" and saved: "win_save cfg dp seen io s r = (Inr (), r')"
    and dp: "\<forall>x c. dp_protect dp x = Inr c \<longrightarrow> dp_unprotect dp c = Inr x"
    and kv: "(k, v) \<in> set (settings_values s)"
  shows "if k = lit ''lanKey''
    then \<exists>c. dp_protect dp (as_bytes v) = Inr c
       \<and> read_setting dp (seen_in r') k =
           (if length c \<le> 4095 then Inr (Some v) else Inl (Msg ''registry setting exceeds limit''))
    else read_setting dp (seen_in r') k = Inr (Some v)"
proof (cases rule: win_save_run[OF saved])
  case (3 r1)
  obtain x where x: "stored_as dp k v = Inr (stored_name k, x)" "r' CurrentUser ProductKey (stored_name k) = Some x"
    using set_values_done[OF 3(2) stored_names_distinct kv] 3(3) stored_name_other[of k]
    by (auto simp: put_value_simps simp del: lit_simps)
  note fits = values_fit[OF 3(1) wf kv]
  consider (key) "k = lit ''lanKey''" | (turn) "k = lit ''rotation''" | (rest) "k \<noteq> lit ''lanKey''" "k \<noteq> lit ''rotation''" by blast
  then show ?thesis
  proof cases
    case key
    then obtain c where c: "dp_protect dp (as_bytes v) = Inr c" "x = RegSz (wide (hex c))"
      using x(1) by (auto simp: stored_as_def protect_def try_r_Inr_iff simp del: lit_simps)
    have "read_value (seen_in r' CurrentUser ProductKey (lit ''lanKeyProtected'')) =
        (if length c \<le> 4095 then Inr (Some (hex c)) else Inl (Msg ''registry setting exceeds limit''))"
      using x(2) c(2) key read_value_protected[of c] by (simp add: seen_in_def stored_name_def del: lit_simps)
    then have "read_setting dp (seen_in r') k =
        (if length c \<le> 4095 then Inr (Some v) else Inl (Msg ''registry setting exceeds limit''))"
      using unprotect_protected[OF dp[rule_format, OF c(1)]] fits key
      by (simp add: read_setting_def read_access_key_def del: lit_simps)
    then show ?thesis using c(1) key by (simp del: lit_simps)
  next
    case turn
    have v: "v = show_dec (rotation s)" using kv turn by (simp add: settings_values_def del: lit_simps)
    have small: "rotation s \<in> {0, 90, 180, 270}" using 3(1) by (simp add: validate_iff del: lit_simps)
    then have "parse_u32 v = Some (rotation s)" unfolding v by (intro parse_uint_show) auto
    then have "x = RegDword (of_nat (rotation s))" using x(1) turn by (simp add: stored_as_def del: lit_simps)
    moreover have "unat (of_nat (rotation s) :: u32) = rotation s" using small by auto
    moreover have "k \<noteq> lit ''lanKey''" unfolding turn by simp
    ultimately show ?thesis using x(2) turn v read_value_number[of "of_nat (rotation s)"]
      by (simp add: read_setting_def seen_in_def stored_name_def del: lit_simps)
  next
    case rest
    then have "x = RegSz (wide v)" using x(1) by (simp add: stored_as_def del: lit_simps)
    then show ?thesis using x(2) rest read_value_text[of v] fits
      by (simp add: read_setting_def seen_in_def stored_name_def del: lit_simps)
  qed
qed simp_all

text \<open>
  C15. On Windows too, what was saved is read back: after a successful save, with DPAPI giving back what
  it protected, the registry reads as the saved settings with their texts trimmed and the wish within
  the edition, whatever it and the machine-wide keys held before, the plaintext key of an older build
  included. The one exception: a save does not check the reader's limit of 16 KiB for one value, so if
  DPAPI made more than 4095 bytes of the access key, every later read fails with that limit.
\<close>

theorem registry_round_trip:
  assumes wf: "settings_wf s" and saved: "win_save cfg dp seen io s r = (Inr (), r')"
    and dp: "\<forall>x c. dp_protect dp x = Inr c \<longrightarrow> dp_unprotect dp c = Inr x"
  shows "\<exists>c. dp_protect dp (as_bytes (trim (lan_key s))) = Inr c
    \<and> win_read cfg dp (seen_in r') =
        (if length c \<le> 4095 then Inr (settings_normal s)
         else Inl (Msg ''registry setting exceeds limit''))"
proof -
  note get = saved_setting_read[OF wf saved dp]
  have key: "(lit ''lanKey'', trim (lan_key s)) \<in> set (settings_values s)"
    by (simp add: settings_values_def del: lit_simps)
  obtain c where c: "dp_protect dp (as_bytes (trim (lan_key s))) = Inr c"
    "read_setting dp (seen_in r') (lit ''lanKey'') =
       (if length c \<le> 4095 then Inr (Some (trim (lan_key s))) else Inl (Msg ''registry setting exceeds limit''))"
    using get[OF key] unfolding if_P[OF refl] by blast
  have other: "read_setting dp (seen_in r') k = Inr (Some v)"
    if "(k, v) \<in> set (settings_values s)" "k \<noteq> lit ''lanKey''" for k v
    using get[OF that(1)] unfolding if_not_P[OF that(2)] .
  have "win_read cfg dp (seen_in r') =
        (if length c \<le> 4095 then Inr (settings_normal s) else Inl (Msg ''registry setting exceeds limit''))"
  proof (cases "length c \<le> 4095")
    case True
    have v: "v = trim (lan_key s)" if "(lit ''lanKey'', v) \<in> set (settings_values s)" for v
      using that by (simp add: settings_values_def)
    have "read_setting dp (seen_in r') k = Inr (Some v)" if "(k, v) \<in> set (settings_values s)" for k v
      using other[OF that] c(2) True v[of v] that by (cases "k = lit ''lanKey''") (simp_all del: lit_simps)
    then have "registry_read dp (seen_in r') = Inr (map_of (settings_values s))"
      unfolding registry_read_def setting_keys_are[of s, symmetric]
      using read_settings_all[of "settings_values s" dp "seen_in r'" Map.empty] setting_keys_distinct
      by (auto simp: setting_keys_are)
    moreover have "settings_validate cfg s = Inr ()" by (cases rule: win_save_run[OF saved]) simp_all
    ultimately show ?thesis using from_values_values[OF _ wf] True by (simp add: win_read_def)
  next
    case False
    obtain ks where ks: "setting_keys = [lit ''decode'', lit ''lanFingerprint'', lit ''lanHost''] @ lit ''lanKey'' # ks"
      by (simp add: setting_keys_def settings_values_def del: lit_simps)
    have "\<forall>j \<in> set [lit ''decode'', lit ''lanFingerprint'', lit ''lanHost'']. \<exists>v. read_setting dp (seen_in r') j = Inr v"
    proof
      fix j assume j: "j \<in> set [lit ''decode'', lit ''lanFingerprint'', lit ''lanHost'']"
      have "j \<in> set setting_keys" using j unfolding ks by auto
      then obtain v where "(j, v) \<in> set (settings_values s)" unfolding setting_keys_are[of s, symmetric] by auto
      moreover have "j \<noteq> lit ''lanKey''" using j by auto
      ultimately show "\<exists>v. read_setting dp (seen_in r') j = Inr v" using other by blast
    qed
    from read_settings_fails[OF _ this, of "lit ''lanKey''"] c(2) False
    show ?thesis by (simp add: win_read_def registry_read_def ks del: lit_simps)
  qed
  then show ?thesis using c(1) by blast
qed

definition protected_key :: "dpapi \<Rightarrow> settings \<Rightarrow> reg_value \<Rightarrow> bool" where
  "protected_key dp s x \<longleftrightarrow> (\<exists>c. dp_protect dp (as_bytes (trim (lan_key s))) = Inr c \<and> x = RegSz (wide (hex c)))"

lemma stored_as_parts:
  assumes "(k, v) \<in> set (settings_values s)" "stored_as dp k v = Inr (n, x)" "settings_validate cfg s = Inr ()"
  shows "(n = lit ''lanKeyProtected'' \<and> protected_key dp s x)
    \<or> ((n, v) \<in> set (settings_values s) \<and> n \<noteq> lit ''lanKey''
       \<and> x = (if n = lit ''rotation'' then RegDword (of_nat (rotation s)) else RegSz (wide v)))"
proof -
  consider (key) "k = lit ''lanKey''" | (turn) "k = lit ''rotation''" | (rest) "k \<noteq> lit ''lanKey''" "k \<noteq> lit ''rotation''" by blast
  then show ?thesis
  proof cases
    case key
    then have "v = trim (lan_key s)" using assms(1) by (simp add: settings_values_def del: lit_simps)
    then show ?thesis using assms(2) key
      by (auto simp: stored_as_def protect_def protected_key_def try_r_Inr_iff simp del: lit_simps)
  next
    case turn
    then have v: "v = show_dec (rotation s)" using assms(1) by (simp add: settings_values_def del: lit_simps)
    have "rotation s \<in> {0, 90, 180, 270}" using assms(3) by (simp add: validate_iff del: lit_simps)
    then have "parse_u32 v = Some (rotation s)" unfolding v by (intro parse_uint_show) auto
    then show ?thesis using assms turn by (auto simp: stored_as_def simp del: lit_simps)
  next
    case rest
    then show ?thesis using assms by (auto simp: stored_as_def simp del: lit_simps)
  qed
qed

text \<open>
  C14. A save on Windows writes the access key only under DPAPI: however its calls fail, it leaves the
  machine-wide keys and the vendor's key alone; a value it changed is the protected key or one of the other
  settings as they are shown; the plaintext key of an older build is never written, and it is removed only
  when the save succeeded and the registry holds the protected form of the key.
\<close>

theorem access_key_stays_protected:
  assumes "win_save cfg dp seen io s r = (res, r')"
  shows "r' LocalMachine = r LocalMachine \<and> r' CurrentUser VendorKey = r CurrentUser VendorKey
    \<and> (\<forall>n. n \<noteq> lit ''lanKey'' \<and> r' CurrentUser ProductKey n \<noteq> r CurrentUser ProductKey n \<longrightarrow>
         (\<exists>x. r' CurrentUser ProductKey n = Some x
            \<and> (n = lit ''lanKeyProtected'' \<and> protected_key dp s x
               \<or> (\<exists>v. (n, v) \<in> set (settings_values s)
                    \<and> x = (if n = lit ''rotation'' then RegDword (of_nat (rotation s)) else RegSz (wide v))))))
    \<and> (r' CurrentUser ProductKey (lit ''lanKey'') \<noteq> r CurrentUser ProductKey (lit ''lanKey'') \<longrightarrow>
         r' CurrentUser ProductKey (lit ''lanKey'') = None \<and> res = Inr ()
         \<and> (\<exists>x. r' CurrentUser ProductKey (lit ''lanKeyProtected'') = Some x \<and> protected_key dp s x))"
proof -
  have touch: "r1 hive path n = r hive path n
      \<or> (hive = CurrentUser \<and> path = ProductKey \<and> n \<noteq> lit ''lanKey'' \<and> (\<exists>x. r1 hive path n = Some x
         \<and> (n = lit ''lanKeyProtected'' \<and> protected_key dp s x
            \<or> (\<exists>v. (n, v) \<in> set (settings_values s)
                 \<and> x = (if n = lit ''rotation'' then RegDword (of_nat (rotation s)) else RegSz (wide v))))))"
    if "settings_validate cfg s = Inr ()" "set_values dp io (settings_values s) r = (res1, r1)" for hive path n r1 res1
    using set_values_touch[OF that(2), of hive path n]
  proof (elim disjE conjE exE)
    fix k v x
    assume a: "hive = CurrentUser" "path = ProductKey" "(k, v) \<in> set (settings_values s)" "stored_as dp k v = Inr (n, x)"
      "r1 hive path n = Some x"
    have "n \<noteq> lit ''lanKey''" using stored_as_name[OF a(4)] stored_name_other by simp
    then show ?thesis using a stored_as_parts[OF a(3,4) that(1)] by blast
  qed blast
  show ?thesis
  proof (cases rule: win_save_run[OF assms])
    case same: 1
    then show ?thesis by simp
  next
    case failed: (2 res1)
    note t = touch[OF failed(1,2)]
    have "r' LocalMachine = r LocalMachine" "r' CurrentUser VendorKey = r CurrentUser VendorKey"
      using t by (intro ext, blast)+
    then show ?thesis using t by blast
  next
    case written: (3 r1)
    note t = touch[OF written(1,2)]
    have "r1 LocalMachine = r LocalMachine" "r1 CurrentUser VendorKey = r CurrentUser VendorKey"
      using t by (intro ext, blast)+
    then have "r' LocalMachine = r LocalMachine" "r' CurrentUser VendorKey = r CurrentUser VendorKey"
      using written(3) by (auto simp: put_value_def fun_eq_iff)
    moreover have "r' CurrentUser ProductKey n = r1 CurrentUser ProductKey n" if "n \<noteq> lit ''lanKey''" for n
      using that written(3) by (simp add: put_value_simps del: lit_simps)
    moreover have "\<exists>x. r1 CurrentUser ProductKey (lit ''lanKeyProtected'') = Some x \<and> protected_key dp s x"
    proof -
      have kv: "(lit ''lanKey'', trim (lan_key s)) \<in> set (settings_values s)" by (simp add: settings_values_def del: lit_simps)
      from set_values_done[OF written(2) stored_names_distinct this] obtain x where
        x: "stored_as dp (lit ''lanKey'') (trim (lan_key s)) = Inr (lit ''lanKeyProtected'', x)"
          "r1 CurrentUser ProductKey (lit ''lanKeyProtected'') = Some x"
        by (auto simp: stored_name_def simp del: lit_simps)
      have "(lit ''lanKeyProtected'', v) \<notin> set (settings_values s)" for v by (simp add: settings_values_def del: lit_simps)
      then show ?thesis using stored_as_parts[OF kv x(1) written(1)] x(2) by blast
    qed
    moreover have "r' CurrentUser ProductKey (lit ''lanKey'') = None" using written(3) by (simp add: put_value_simps)
    moreover have "lit ''lanKeyProtected'' \<noteq> lit ''lanKey''" by simp
    ultimately have facts: "r' LocalMachine = r LocalMachine" "r' CurrentUser VendorKey = r CurrentUser VendorKey"
      "\<And>n. n \<noteq> lit ''lanKey'' \<Longrightarrow> r' CurrentUser ProductKey n = r1 CurrentUser ProductKey n"
      "r' CurrentUser ProductKey (lit ''lanKey'') = None"
      "\<exists>x. r' CurrentUser ProductKey (lit ''lanKeyProtected'') = Some x \<and> protected_key dp s x"
      by simp_all
    have "\<exists>x. r' CurrentUser ProductKey n = Some x
        \<and> (n = lit ''lanKeyProtected'' \<and> protected_key dp s x
           \<or> (\<exists>v. (n, v) \<in> set (settings_values s)
                \<and> x = (if n = lit ''rotation'' then RegDword (of_nat (rotation s)) else RegSz (wide v))))"
      if "n \<noteq> lit ''lanKey''" "r' CurrentUser ProductKey n \<noteq> r CurrentUser ProductKey n" for n
      using t[of CurrentUser ProductKey n] that unfolding facts(3)[OF that(1)] by blast
    then show ?thesis using facts(1,2,4,5) written(4) by blast
  qed
qed

section \<open>Witnesses\<close>

definition windows_build :: build where
  "windows_build = \<lparr>b_linux = False, b_windows = True, b_video = True, b_pipewire = False\<rparr>"

definition paired :: settings where
  "paired = (settings_default windows_build)\<lparr>lan_key := hex (replicate 16 171)\<rparr>"

definition sample_dpapi :: dpapi where
  "sample_dpapi = \<lparr>dp_protect = \<lambda>x. if length x \<le> 32 then Inr (7 # rev x) else Inl (Msg ''too long''),
     dp_unprotect = \<lambda>c. Inr (rev (tl c))\<rparr>"

definition willing :: reg_io where
  "willing = \<lparr>rg_create = Inr (), rg_set = \<lambda>_. Inr (), rg_delete = Inr ()\<rparr>"

definition no_values :: registry where
  "no_values = (\<lambda>_ _ _. None)"

lemma default_windows_valid: "settings_validate windows_build (settings_default windows_build) = Inr ()"
  by (simp add: validate_iff settings_default_def windows_build_def quality_wish_def wish_from_def
      wish_valid_def bad_line_def backend_parse_def backend_available_def str_len_def utf8_def
      utf8_char_def chr_def trim_def trim_start_def trim_end_def is_whitespace_def)

lemma paired_valid: "settings_validate windows_build paired = Inr ()"
proof -
  have "is_hex (hex (replicate 16 171)) 16" using is_hex_hex[of "replicate 16 171"] by simp
  then show ?thesis using default_windows_valid unfolding validate_iff paired_def by (simp add: quality_wish_def del: lit_simps)
qed

lemma paired_wf: "settings_wf paired"
  using default_wf[of windows_build] hex_hexdigits
  by (fastforce simp: settings_wf_def paired_def list_all_iff is_ascii_hexdigit_def is_scalar_def simp del: hex_simps)

lemma reads_nothing: "registry_read dp (seen_in no_values) = Inr Map.empty"
proof -
  have "read_setting dp (seen_in no_values) k = Inr None" for k
    by (simp add: read_setting_def read_access_key_def seen_in_def no_values_def read_value_def del: lit_simps)
  then have "read_settings dp (seen_in no_values) ks m = Inr m" for ks m by (induction ks arbitrary: m) simp_all
  then show ?thesis by (simp add: registry_read_def)
qed

lemma from_no_values_windows: "\<exists>t. from_values windows_build Map.empty = Inr t"
proof -
  have "wish_valid (quality_wish (settings_default windows_build))" using default_windows_valid by (simp add: validate_iff)
  moreover have "entries Map.empty = []" by (simp add: entries_def)
  ultimately show ?thesis using default_windows_valid by (simp add: from_values_def default_clamp Let_def)
qed

lemma set_values_willing:
  "\<forall>(k, v) \<in> set kvs. \<exists>nx. stored_as dp k v = Inr nx \<Longrightarrow> \<exists>r'. set_values dp willing kvs r = (Inr (), r')"
proof (induction kvs arbitrary: r)
  case (Cons kv kvs)
  obtain k v where kv: "kv = (k, v)" by (cases kv)
  then obtain nm x where "stored_as dp k v = Inr (nm, x)" using Cons.prems by auto
  then show ?case using Cons.IH Cons.prems kv by (simp add: willing_def)
qed simp

lemma paired_saves: "\<exists>r'. win_save windows_build sample_dpapi (seen_in no_values) willing paired no_values = (Inr (), r')"
proof -
  have "\<exists>nx. stored_as sample_dpapi k v = Inr nx" if kv: "(k, v) \<in> set (settings_values paired)" for k v
  proof -
    have "length (as_bytes v) \<le> 32" if "k = lit ''lanKey''" using values_fit[OF paired_valid paired_wf kv] that by simp
    moreover have "parse_u32 v \<noteq> None" if "k = lit ''rotation''"
    proof -
      have "v = show_dec 0" using kv that by (simp add: settings_values_def paired_def settings_default_def del: lit_simps)
      then show ?thesis by (simp add: parse_uint_show)
    qed
    ultimately show ?thesis by (auto simp: stored_as_def protect_def sample_dpapi_def simp del: lit_simps)
  qed
  then obtain r1 where "set_values sample_dpapi willing (settings_values paired) no_values = (Inr (), r1)"
    using set_values_willing[of "settings_values paired"] by blast
  then show ?thesis using paired_valid from_no_values_windows
    by (auto simp: win_save_def registry_save_def reads_nothing willing_def simp del: lit_simps)
qed

lemma registry_round_trip_witness:
  "\<exists>r'. win_save windows_build sample_dpapi (seen_in no_values) willing paired no_values = (Inr (), r')
     \<and> win_read windows_build sample_dpapi (seen_in r') = Inr (settings_normal paired)"
proof -
  obtain r' where r': "win_save windows_build sample_dpapi (seen_in no_values) willing paired no_values = (Inr (), r')"
    using paired_saves by blast
  have "\<exists>c. dp_protect sample_dpapi (as_bytes (trim (lan_key paired))) = Inr c
      \<and> win_read windows_build sample_dpapi (seen_in r') =
        (if length c \<le> 4095 then Inr (settings_normal paired) else Inl (Msg ''registry setting exceeds limit''))"
    by (rule registry_round_trip[OF paired_wf r']) (auto simp: sample_dpapi_def split: if_splits)
  then obtain c where "dp_protect sample_dpapi (as_bytes (trim (lan_key paired))) = Inr c"
    "win_read windows_build sample_dpapi (seen_in r') =
        (if length c \<le> 4095 then Inr (settings_normal paired) else Inl (Msg ''registry setting exceeds limit''))"
    by blast
  moreover from this(1) have "length c \<le> 4095" by (auto simp: sample_dpapi_def split: if_splits)
  ultimately show ?thesis using r' by simp
qed

definition old_build :: registry where
  "old_build = put_value (lit ''lanKey'') (Some (RegSz (wide (lit ''00'')))) no_values"

lemma access_key_stays_protected_witness:
  "snd (win_save windows_build sample_dpapi (seen_in no_values) willing paired old_build) LocalMachine = old_build LocalMachine"
  using access_key_stays_protected[OF prod.collapse[symmetric], of windows_build sample_dpapi "seen_in no_values" willing paired old_build]
  by blast

text \<open>A machine-wide fingerprint is not read.\<close>

definition machine_pin :: registry where
  "machine_pin = (\<lambda>hive path n. if hive = LocalMachine \<and> n = lit ''lanFingerprint'' then Some (RegSz (wide (lit ''00''))) else None)"

lemma reads_no_machine_pin: "registry_read dp (seen_in machine_pin) = Inr Map.empty"
proof -
  have "read_setting dp (seen_in machine_pin) k = Inr None" for k
    by (simp add: read_setting_def read_access_key_def seen_in_def machine_pin_def read_value_def del: lit_simps)
  then have "read_settings dp (seen_in machine_pin) ks m = Inr m" for ks m by (induction ks arbitrary: m) simp_all
  then show ?thesis by (simp add: registry_read_def)
qed

lemma machine_scope_gives_no_credential_witness:
  "machine_pin LocalMachine ProductKey (lit ''lanFingerprint'') \<noteq> None
   \<and> (\<exists>m. registry_read sample_dpapi (seen_in machine_pin) = Inr m \<and> m (lit ''lanFingerprint'') = None)"
proof -
  have "\<forall>path name. seen_in machine_pin CurrentUser path name = seen_in no_values CurrentUser path name"
    by (simp add: seen_in_def machine_pin_def no_values_def)
  from machine_scope_gives_no_credential[OF reads_no_machine_pin[of sample_dpapi] reads_nothing this]
  show ?thesis using reads_no_machine_pin by (auto simp: machine_pin_def)
qed

end
