(* ===== verification/Unity_Camera.thy ===== *)
theory Unity_Camera
  imports Registry
begin

text \<open>
  The virtual camera on Windows, \<open>output/windows.rs\<close>: the producer of the Unity Capture shared memory. The
  answers of Win32 are arguments; a call gives the camera, what it did to the mutex and the shared memory,
  and its result. Closing a handle has no action.
\<close>

datatype unity_action =
    Lock | Unlock | MapView nat | UnmapView | WroteView nat bytes | SignalSent

datatype wait_answer = WaitObject | WaitAbandoned | WaitTimeout | WaitFailed

record shared_view =
  sv_capacity :: nat
  sv_demand :: nat

record unity =
  un_want :: bool
  un_shared :: "shared_view option"
  un_stride :: nat
  un_size :: nat

definition MAX_SIZE :: nat where "MAX_SIZE = 3840 * 2160 * 4 * 2"

text \<open>\<open>size_of::<Header>()\<close>: eight words of four bytes.\<close>

definition view_header :: nat where "view_header = 32"

definition lock_mutex :: "wait_answer \<Rightarrow> unity_action list \<times> (error + unit)" where
  "lock_mutex w =
     (case w of
        WaitObject \<Rightarrow> ([Lock], Inr ())
      | WaitAbandoned \<Rightarrow> ([Lock, Unlock], Inl (Msg ''Unity Capture mutex unavailable''))
      | _ \<Rightarrow> ([], Inl (Msg ''Unity Capture mutex unavailable'')))"

section \<open>Opening\<close>

text \<open>
  The installed name: the failed query or the units and the size in bytes it gave. The producer's mutex:
  the failure, or whether it already existed.
\<close>

record open_io =
  op_installed :: "error + u16 list \<times> nat"
  op_producer :: "error + bool"

definition unity_open :: "open_io \<Rightarrow> ustr \<Rightarrow> u32 \<Rightarrow> u32 \<Rightarrow> error + unity" where
  "unity_open io name width height =
     (if width > 3840 \<or> height > 2160 then Inl (Msg ''Unity Capture supports at most 3840x2160'')
      else case op_installed io of
             Inl _ \<Rightarrow> Inl (Msg ''Unity Capture is not installed; run Mobile Webcam Setup.exe'')
           | Inr (units, got) \<Rightarrow>
               if got < 2 then Inl (Panic ''attempt to subtract with overflow'')
               else (case from_utf16 (take (got div 2 - 1) units) of
                       None \<Rightarrow> Inl (Msg ''invalid utf-16: lone surrogate found'')
                     | Some installed \<Rightarrow>
                         if name \<noteq> installed then Inl (Msg ''camera name must be the installed one'')
                         else try_r (op_producer io) (\<lambda>existed.
                           if existed then Inl (Msg ''another Mobile Webcam producer is using the camera'')
                           else Inr \<lparr>un_want = False, un_shared = None, un_stride = unat width * 4,
                                  un_size = unat width * unat height * 4\<rparr>)))"

section \<open>Attaching to the consumer\<close>

text \<open>
  Of the view: the bytes it really maps, whether its query succeeded, and the capacity its header names.
\<close>

record ready_io =
  ry_want :: wait_answer
  ry_demand :: nat
  ry_now :: nat
  ry_mutex :: bool
  ry_lock :: wait_answer
  ry_create :: "error + unit"
  ry_sent :: bool
  ry_file :: bool
  ry_view :: "(nat \<times> bool \<times> u32) option"

definition map_view :: "ready_io \<Rightarrow> unity \<Rightarrow> unity \<times> unity_action list \<times> (error + bool)" where
  "map_view io c =
     (case ry_view io of
        None \<Rightarrow> (c, [Unlock], Inl (Io OtherKind ''MapViewOfFile''))
      | Some (region, queried, max_size) \<Rightarrow>
          if \<not> queried \<or> region < view_header
          then (c, [MapView region, UnmapView, Unlock], Inl (Msg ''invalid Unity Capture mapping''))
          else let capacity = unat max_size
               in if capacity > MAX_SIZE \<or> capacity > region - view_header \<or> capacity < un_size c
                  then (c, [MapView region, UnmapView, Unlock], Inl (Msg ''Unity Capture shared frame capacity is invalid''))
                  else (c\<lparr>un_want := False, un_shared := Some \<lparr>sv_capacity = capacity, sv_demand = ry_demand io\<rparr>\<rparr>,
                        [MapView region, Unlock], Inr True))"

definition attach :: "ready_io \<Rightarrow> unity \<Rightarrow> unity \<times> unity_action list \<times> (error + bool)" where
  "attach io c =
     (if \<not> ry_mutex io then (c, [], Inr False)
      else case lock_mutex (ry_lock io) of
             (acts, Inl e) \<Rightarrow> (c, acts, Inl e)
           | (acts, Inr _) \<Rightarrow>
               (case (if un_want c then Inr () else ry_create io) of
                  Inl e \<Rightarrow> (c, acts @ [Unlock], Inl e)
                | Inr _ \<Rightarrow>
                    let c1 = c\<lparr>un_want := True\<rparr>
                    in if \<not> ry_sent io \<or> \<not> ry_file io then (c1, acts @ [Unlock], Inr False)
                       else case map_view io c1 of (c2, acts2, r) \<Rightarrow> (c2, acts @ acts2, r)))"

definition unity_ready :: "ready_io \<Rightarrow> unity \<Rightarrow> unity \<times> unity_action list \<times> (error + bool)" where
  "unity_ready io c =
     (case un_shared c of
        Some view \<Rightarrow>
          (case ry_want io of
             WaitObject \<Rightarrow> (c\<lparr>un_shared := Some (view\<lparr>sv_demand := ry_demand io\<rparr>)\<rparr>, [], Inr (ry_now io - ry_demand io \<le> 1000))
           | WaitTimeout \<Rightarrow> (c, [], Inr (ry_now io - sv_demand view \<le> 1000))
           | _ \<Rightarrow> (c, [], Inl (Io OtherKind ''WaitForSingleObject'')))
      | None \<Rightarrow> attach io c)"

section \<open>Frames\<close>

record send_io =
  sd_lock :: wait_answer
  sd_event :: bool

text \<open>The header's words after \<open>max_size\<close>: width, height, stride, format, resize, mirror, timeout.\<close>

definition frame_header :: "u32 \<Rightarrow> u32 \<Rightarrow> bytes" where
  "frame_header width height = le32 width @ le32 height @ le32 width @ le32 0 @ le32 1 @ le32 0 @ le32 1000"

definition unity_submit :: "send_io \<Rightarrow> bytes \<Rightarrow> u32 \<Rightarrow> u32 \<Rightarrow> unity \<Rightarrow> unity_action list \<times> (error + unit)" where
  "unity_submit io bs width height c =
     (case un_shared c of
        None \<Rightarrow> ([], Inl (Msg ''Unity Capture consumer is unavailable''))
      | Some view \<Rightarrow>
          if length bs > sv_capacity view then ([], Inl (Msg ''Unity Capture frame exceeds capacity''))
          else case lock_mutex (sd_lock io) of
                 (acts, Inl e) \<Rightarrow> (acts, Inl e)
               | (acts, Inr _) \<Rightarrow>
                   if sd_event io
                   then (acts @ [WroteView 4 (frame_header width height), WroteView view_header bs, Unlock, SignalSent], Inr ())
                   else (acts @ [WroteView 4 (frame_header width height), WroteView view_header bs, Unlock],
                         Inl (Io OtherKind ''SetEvent'')))"

definition unity_drop :: "unity \<Rightarrow> unity_action list" where
  "unity_drop c = (if un_shared c = None then [] else [UnmapView])"

datatype unity_call = AskReady ready_io | Push send_io bytes u32 u32

text \<open>A camera's life: calls until one fails, then the drop.\<close>

fun unity_use :: "unity_call list \<Rightarrow> unity \<Rightarrow> unity_action list" where
  "unity_use [] c = unity_drop c"
| "unity_use (AskReady io # calls) c =
     (case unity_ready io c of
        (c', acts, Inl _) \<Rightarrow> acts @ unity_drop c'
      | (c', acts, Inr _) \<Rightarrow> acts @ unity_use calls c')"
| "unity_use (Push io bs width height # calls) c =
     (case unity_submit io bs width height c of
        (acts, Inl _) \<Rightarrow> acts @ unity_drop c
      | (acts, Inr _) \<Rightarrow> acts @ unity_use calls c)"

text \<open>The camera after calls that succeeded.\<close>

fun unity_after :: "unity_call list \<Rightarrow> unity \<Rightarrow> unity option" where
  "unity_after [] c = Some c"
| "unity_after (AskReady io # calls) c =
     (case unity_ready io c of (c', _, Inr _) \<Rightarrow> unity_after calls c' | _ \<Rightarrow> None)"
| "unity_after (Push io bs width height # calls) c =
     (case unity_submit io bs width height c of (_, Inr _) \<Rightarrow> unity_after calls c | _ \<Rightarrow> None)"

section \<open>Safety\<close>

text \<open>
  The mutex and the view as a trace leaves them, or none at the first wrong action: a second lock, an
  unlock or a write without the lock, a write outside the view, a signal under the lock, a view mapped
  twice or unmapped without being mapped.
\<close>

fun view_step :: "unity_action \<Rightarrow> nat option \<times> bool \<Rightarrow> (nat option \<times> bool) option" where
  "view_step Lock (v, locked) = (if locked then None else Some (v, True))"
| "view_step Unlock (v, locked) = (if locked then Some (v, False) else None)"
| "view_step (MapView n) (v, locked) = (if v = None \<and> locked then Some (Some n, True) else None)"
| "view_step UnmapView (v, locked) = (if v \<noteq> None then Some (None, locked) else None)"
| "view_step (WroteView offset bs) (v, locked) =
     (case v of Some n \<Rightarrow> if locked \<and> offset + length bs \<le> n then Some (v, locked) else None | None \<Rightarrow> None)"
| "view_step SignalSent (v, locked) = (if locked then None else Some (v, locked))"

fun view_run :: "unity_action list \<Rightarrow> nat option \<times> bool \<Rightarrow> (nat option \<times> bool) option" where
  "view_run [] st = Some st"
| "view_run (a # acts) st = (case view_step a st of None \<Rightarrow> None | Some st' \<Rightarrow> view_run acts st')"

lemma view_run_append: "view_run (a @ b) st = (case view_run a st of None \<Rightarrow> None | Some st' \<Rightarrow> view_run b st')"
  by (induction a arbitrary: st) (auto split: option.split)

lemma length_frame_header: "length (frame_header w h) = 28"
  by (simp add: frame_header_def le32_def)

text \<open>The camera's idea of the view fits the mapping.\<close>

definition view_fits :: "unity \<Rightarrow> nat option \<Rightarrow> bool" where
  "view_fits c v \<longleftrightarrow>
     (case un_shared c of
        None \<Rightarrow> v = None
      | Some view \<Rightarrow> un_size c \<le> sv_capacity view \<and> (\<exists>n. v = Some n \<and> view_header + sv_capacity view \<le> n))"

lemma attach_fits:
  assumes "attach io c = (c', acts, r)" "un_shared c = None"
  shows "\<exists>v. view_run acts (None, False) = Some (v, False) \<and> view_fits c' v \<and> un_size c' = un_size c"
  using assms
  by (auto simp: attach_def map_view_def lock_mutex_def view_fits_def view_header_def Let_def
      split: if_splits sum.splits wait_answer.splits option.splits prod.splits)

lemma ready_fits:
  assumes "unity_ready io c = (c', acts, r)" "view_fits c v"
  shows "\<exists>v'. view_run acts (v, False) = Some (v', False) \<and> view_fits c' v' \<and> un_size c' = un_size c"
proof (cases "un_shared c")
  case None
  then show ?thesis using assms attach_fits[of io c c' acts r] by (simp add: unity_ready_def view_fits_def)
next
  case (Some view)
  then show ?thesis using assms by (auto simp: unity_ready_def view_fits_def split: wait_answer.splits)
qed

lemma submit_fits:
  assumes "unity_submit io bs w h c = (acts, r)" "view_fits c v"
  shows "view_run acts (v, False) = Some (v, False)"
  using assms
  by (auto simp: unity_submit_def lock_mutex_def view_fits_def view_header_def length_frame_header
      split: option.splits if_splits wait_answer.splits sum.splits)

lemma drop_fits: "view_fits c v \<Longrightarrow> view_run (unity_drop c) (v, False) = Some (None, False)"
  by (auto simp: unity_drop_def view_fits_def split: option.splits)

lemma use_fits: "view_fits c v \<Longrightarrow> view_run (unity_use calls c) (v, False) = Some (None, False)"
proof (induction calls arbitrary: c v)
  case (Cons call calls)
  show ?case
  proof (cases call)
    case (AskReady io)
    obtain c' acts r where r: "unity_ready io c = (c', acts, r)" by (metis prod_cases3)
    from ready_fits[OF r Cons.prems] obtain v' where v': "view_run acts (v, False) = Some (v', False)" "view_fits c' v'" by blast
    then show ?thesis using AskReady r drop_fits[OF v'(2)] Cons.IH[OF v'(2)]
      by (auto simp: view_run_append split: sum.splits)
  next
    case (Push io bs w h)
    obtain acts r where r: "unity_submit io bs w h c = (acts, r)" by fastforce
    from submit_fits[OF r Cons.prems] show ?thesis
      using Push r drop_fits[OF Cons.prems] Cons.IH[OF Cons.prems] by (auto simp: view_run_append split: sum.splits)
  qed
qed (simp add: drop_fits)

lemma after_fits: "unity_after calls c = Some c' \<Longrightarrow> view_fits c v \<Longrightarrow> \<exists>v'. view_fits c' v' \<and> un_size c' = un_size c"
proof (induction calls arbitrary: c v)
  case (Cons call calls)
  show ?case
  proof (cases call)
    case (AskReady io)
    obtain c1 acts r where r: "unity_ready io c = (c1, acts, r)" by (metis prod_cases3)
    from ready_fits[OF r Cons.prems(2)] obtain v' where v': "view_fits c1 v'" "un_size c1 = un_size c" by blast
    have "unity_after calls c1 = Some c'" using Cons.prems(1) AskReady r by (auto split: sum.splits)
    from Cons.IH[OF this v'(1)] show ?thesis using v'(2) by simp
  next
    case (Push io bs w h)
    then have "unity_after calls c = Some c'" using Cons.prems(1) by (auto split: prod.splits sum.splits)
    from Cons.IH[OF this Cons.prems(2)] show ?thesis .
  qed
qed auto

lemma open_unity: "unity_open op name width height = Inr c \<Longrightarrow> view_fits c None \<and> un_size c = unat width * unat height * 4"
  by (auto simp: unity_open_def view_fits_def try_r_Inr_iff split: if_splits sum.splits option.splits)

text \<open>
  C35. The Windows camera shares memory safely: whatever Win32 and the consumer answer, from opening to the
  drop every write lies inside the mapped view and under the mutex, the mutex is never taken twice and is
  free again after every call, failed ones included, and the view is unmapped at the end. Once attached, a
  frame of the opened size is written whole behind its header whenever the mutex can be taken.
\<close>

theorem shared_view_safe:
  assumes "unity_open op name width height = Inr c"
  shows "view_run (unity_use calls c) (None, False) = Some (None, False)
    \<and> (\<forall>c' io bs. unity_after calls c = Some c' \<and> un_shared c' \<noteq> None \<and> length bs = unat width * unat height * 4
          \<and> sd_lock io = WaitObject \<longrightarrow>
         take 4 (fst (unity_submit io bs width height c')) =
           [Lock, WroteView 4 (frame_header width height), WroteView view_header bs, Unlock])"
proof -
  note o = open_unity[OF assms]
  have "take 4 (fst (unity_submit io bs width height c')) =
      [Lock, WroteView 4 (frame_header width height), WroteView view_header bs, Unlock]"
    if a: "unity_after calls c = Some c'" "un_shared c' \<noteq> None" "length bs = unat width * unat height * 4"
      "sd_lock io = WaitObject" for c' io bs
  proof -
    obtain v' where "view_fits c' v'" "un_size c' = un_size c" using after_fits[OF a(1)] o by blast
    then show ?thesis using a o by (auto simp: unity_submit_def view_fits_def lock_mutex_def)
  qed
  then show ?thesis using use_fits o by blast
qed

definition installed :: open_io where
  "installed = \<lparr>op_installed = Inr ([85, 0], 4), op_producer = Inr False\<rparr>"

definition small_unity :: unity where
  "small_unity = \<lparr>un_want = False, un_shared = None, un_stride = 8, un_size = 8\<rparr>"

lemma small_unity_opens: "unity_open installed (lit ''U'') 2 1 = Inr small_unity"
  by (simp add: unity_open_def installed_def small_unity_def chr_def)

definition consumer :: ready_io where
  "consumer = \<lparr>ry_want = WaitObject, ry_demand = 5, ry_now = 6, ry_mutex = True, ry_lock = WaitObject, ry_create = Inr (),
     ry_sent = True, ry_file = True, ry_view = Some (4096, True, 64)\<rparr>"

lemma shared_view_safe_witness:
  "\<exists>c'. unity_after [AskReady consumer] small_unity = Some c'
     \<and> fst (unity_submit \<lparr>sd_lock = WaitObject, sd_event = True\<rparr> [1, 2, 3, 4, 5, 6, 7, 8] 2 1 c')
       = [Lock, WroteView 4 (frame_header 2 1), WroteView view_header [1, 2, 3, 4, 5, 6, 7, 8], Unlock, SignalSent]
     \<and> view_run (unity_use [AskReady consumer] small_unity) (None, False) = Some (None, False)"
proof -
  have "\<exists>c'. unity_after [AskReady consumer] small_unity = Some c'
     \<and> fst (unity_submit \<lparr>sd_lock = WaitObject, sd_event = True\<rparr> [1, 2, 3, 4, 5, 6, 7, 8] 2 1 c')
       = [Lock, WroteView 4 (frame_header 2 1), WroteView view_header [1, 2, 3, 4, 5, 6, 7, 8], Unlock, SignalSent]"
    by (simp add: consumer_def small_unity_def unity_ready_def attach_def lock_mutex_def map_view_def view_header_def
        MAX_SIZE_def unity_submit_def)
  then show ?thesis using shared_view_safe[OF small_unity_opens, of "[AskReady consumer]"] by blast
qed

end
