(* ===== verification/Decoder.thy ===== *)
theory Decoder
  imports Pixels
begin

text \<open>
  The H.264 decoder, \<open>video/decoder.rs\<close>: the order of the decoders tried, the choice of a hardware format,
  and what a received frame is. FFmpeg's answers are the parameter \<open>h264\<close> and the arguments of the calls;
  memory is FFmpeg's and not modelled. A pixel format that is none is \<open>None\<close>.
\<close>

section \<open>Opening\<close>

record hw_config =
  hw_device :: nat
  hw_device_ctx :: bool
  hw_pixel :: pixel

record h264 =
  co_windows :: bool
  co_found :: bool
  co_frame :: "error + unit"
  co_context :: bool
  co_packet :: bool
  co_device_type :: "string \<Rightarrow> nat option"
  co_configs :: "hw_config list"
  co_device :: "nat \<Rightarrow> error + unit"
  co_open :: "string \<Rightarrow> error + unit"

record decoder =
  de_name :: string
  de_pixel :: "pixel option"
  de_allow_software :: bool
  de_active :: bool

definition decoder_modes :: "h264 \<Rightarrow> string \<Rightarrow> string list" where
  "decoder_modes co requested =
     (if requested = ''auto'' then [if co_windows co then ''d3d11va'' else ''vaapi'', ''cuda'', ''software'']
      else if requested = ''off'' \<or> requested = ''software'' then [''software''] else [requested])"

definition hw_format :: "h264 \<Rightarrow> string \<Rightarrow> error + pixel" where
  "hw_format co mode =
     (case co_device_type co mode of
        None \<Rightarrow> Inl (Msg (''unsupported hardware decoder: '' @ mode))
      | Some ty \<Rightarrow>
          (case find (\<lambda>c. hw_device c = ty \<and> hw_device_ctx c) (co_configs co) of
             None \<Rightarrow> Inl (Msg (''H.264 hardware configuration unavailable: '' @ mode))
           | Some c \<Rightarrow> try_r (co_device co ty) (\<lambda>_. Inr (hw_pixel c))))"

definition decoder_attempt :: "h264 \<Rightarrow> string \<Rightarrow> bool \<Rightarrow> error + decoder" where
  "decoder_attempt co mode allow =
     (if \<not> co_found co then Inl (Msg ''H.264 decoder unavailable'')
      else try_r (co_frame co) (\<lambda>_.
        if \<not> co_context co then Inl (Msg ''FFmpeg context allocation failed'')
        else if \<not> co_packet co then Inl (Msg ''FFmpeg packet allocation failed'')
        else try_r (if mode = ''software'' then Inr None
                    else if CHR 0x00 \<in> set mode then Inl (Msg ''nul byte found in provided data'')
                    else try_r (hw_format co mode) (\<lambda>p. Inr (Some p))) (\<lambda>pixel.
             try_r (co_open co mode) (\<lambda>_.
               Inr \<lparr>de_name = mode, de_pixel = pixel, de_allow_software = allow, de_active = False\<rparr>))))"

fun first_decoder :: "h264 \<Rightarrow> bool \<Rightarrow> error option \<Rightarrow> string list \<Rightarrow> error + decoder" where
  "first_decoder co allow failure [] = Inl (case failure of None \<Rightarrow> Msg ''decoder unavailable'' | Some e \<Rightarrow> e)"
| "first_decoder co allow failure (m # names) =
     (case decoder_attempt co m allow of
        Inr d \<Rightarrow> Inr d | Inl e \<Rightarrow> first_decoder co allow (Some e) names)"

definition decoder_open :: "h264 \<Rightarrow> string \<Rightarrow> error + decoder" where
  "decoder_open co requested = first_decoder co (requested = ''auto'') None (decoder_modes co requested)"

text \<open>FFmpeg offers its formats in order, software ones last; at least one.\<close>

definition choose_format :: "decoder \<Rightarrow> pixel list \<Rightarrow> pixel option" where
  "choose_format d formats =
     (case find (\<lambda>p. Some p = de_pixel d) formats of
        Some p \<Rightarrow> Some p
      | None \<Rightarrow> if de_allow_software d then Some (hd formats) else None)"

section \<open>Packets and frames\<close>

record packet =
  pk_bytes :: bytes
  pk_pts :: u64
  pk_key :: bool

text \<open>The packet handed to the decoder, and what each call for it met.\<close>

definition decoder_send :: "error + unit \<Rightarrow> error + unit \<Rightarrow> bytes \<Rightarrow> u64 \<Rightarrow> bool \<Rightarrow> packet list \<times> (error + unit)" where
  "decoder_send created sent bs pts key =
     (if length bs \<ge> 2 ^ 31 then ([], Inl (Msg ''out of range integral type conversion attempted''))
      else case created of
             Inl e \<Rightarrow> ([], Inl e)
           | Inr _ \<Rightarrow> ([\<lparr>pk_bytes = bs, pk_pts = pts, pk_key = key\<rparr>], sent))"

datatype received = Again | EndOfStream | ReceiveFailed error | Decoded av_frame

text \<open>The frame given to the caller, if there is one: a hardware frame is copied to memory first.\<close>

definition decoder_receive ::
  "received \<Rightarrow> error + av_frame \<Rightarrow> error + unit \<Rightarrow> decoder \<Rightarrow> decoder \<times> (error + av_frame option)" where
  "decoder_receive answer transferred properties d =
     (case answer of
        Again \<Rightarrow> (d, Inr None)
      | EndOfStream \<Rightarrow> (d, Inr None)
      | ReceiveFailed e \<Rightarrow> (d, Inl e)
      | Decoded f \<Rightarrow>
          let hardware = (Some (av_format f) = de_pixel d)
          in (d\<lparr>de_active := hardware\<rparr>,
              if hardware then try_r transferred (\<lambda>g. try_r properties (\<lambda>_. Inr (Some g))) else Inr (Some f)))"

definition decoder_name :: "decoder \<Rightarrow> string" where
  "decoder_name d = (if de_active d then de_name d else ''software'')"

section \<open>Fallback\<close>

lemma first_decoder_Inr:
  "first_decoder co allow failure names = Inr d \<Longrightarrow> \<exists>mode \<in> set names. decoder_attempt co mode allow = Inr d"
  by (induction names arbitrary: failure) (auto split: sum.splits)

lemma attempt_fields:
  "decoder_attempt co mode allow = Inr d \<Longrightarrow> de_name d = mode \<and> de_allow_software d = allow \<and> \<not> de_active d
     \<and> (de_pixel d = None \<longleftrightarrow> mode = ''software'')"
  by (auto simp: decoder_attempt_def try_r_Inr_iff split: if_splits)

lemma open_falls_back:
  "decoder_attempt co ''software'' True = Inr d \<Longrightarrow> \<exists>d'. decoder_open co ''auto'' = Inr d'"
  by (auto simp: decoder_open_def decoder_modes_def split: sum.splits)

lemma hardware_stays_hardware:
  assumes "decoder_open co requested = Inr d" "requested \<notin> {''auto'', ''off'', ''software''}"
  shows "choose_format d formats = None \<or> (\<exists>p. choose_format d formats = Some p \<and> de_pixel d = Some p \<and> p \<in> set formats)"
proof -
  obtain mode where "decoder_attempt co mode False = Inr d"
    using assms first_decoder_Inr[of co False None "decoder_modes co requested" d] by (auto simp: decoder_open_def)
  then have "\<not> de_allow_software d" by (simp add: attempt_fields)
  then show ?thesis by (auto simp: choose_format_def find_Some_iff split: option.splits)
qed

text \<open>The name shown is the hardware's exactly while hardware frames arrive; the caller gets a frame in memory.\<close>

lemma received_frame:
  assumes "decoder_receive (Decoded f) transferred properties d = (d', Inr (Some g))"
  shows "(if Some (av_format f) = de_pixel d then transferred = Inr g \<and> decoder_name d' = de_name d
          else g = f \<and> decoder_name d' = ''software'')"
  using assms by (auto simp: decoder_receive_def decoder_name_def Let_def try_r_Inr_iff split: if_splits)

end
