(* ===== verification/Spec2Isabelle.thy ===== *)
theory Spec2Isabelle
  imports Client_Auth Transport Preview Settings Quality_Switch Usb Control Video_Refine Session_Props Retry_Props Picture_Props Identity_Props Cli_Props
    Pixels_Props Camera_Props Quality_Form_Props Credentials_Props Registry_Props Unity_Camera Decoder
begin

text \<open>
  The PC's side of Mobile Webcam Bridge, the Rust crate in \<open>host-rs/src\<close>: a window or a headless run starts a
  worker process; the worker reaches a phone over USB or over TLS, proves which PC it is, receives video,
  and shows it as a virtual camera and as a preview in the window. The application and the worker talk over
  a pipe of JSON lines; the worker and the phone over frames; the worker and the window's preview over a
  shared record.

  Definitions keep the names of the source. A struct is a record, an enum a datatype, an integer that may
  wrap a word; an error is a value (\<open>error\<close>), a panic one of its constructors; a system call or a library is
  an argument: its answers for every call, or functions with the laws a theorem names. A loop that waits is
  a recursion over the answers it gets and gives none while it still waits, so that no fuel is chosen; a
  claim that something ends says which answers end it.

  Base. \<open>Prelude\<close>: errors, byte strings, the locales \<open>codec\<close>, \<open>canonical_codec\<close> (decoding inverts encoding) and
  \<open>machine\<close> (an invariant and legal outputs over all runs). \<open>Text_Lib\<close>, \<open>F64\<close>: strings, UTF-8, numbers as text,
  the floating point of the preferences.

  Protocol. \<open>Wire\<close> (\<open>wire.rs\<close>): headers, frames, every payload, the signed transcript; all codecs interpret the
  locales. \<open>Transport\<close> (\<open>transport.rs\<close>): partial reads and writes under a deadline, dialling. \<open>Secure\<close>
  (\<open>secure.rs\<close>): credentials and the certificate pin. \<open>Client_Auth\<close> (\<open>client_auth.rs\<close>): the challenge exchange;
  what is signed, what authorizes, how long it can take. \<open>Usb\<close> (\<open>usb.rs\<close>): devices, the accessory switch, the
  aligned stream. \<open>Control\<close> (\<open>control.rs\<close>): the pipe.

  Quality. \<open>Quality_Switch\<close> (\<open>quality.rs\<close>): the machine of a change of quality. \<open>Quality_Pref\<close>
  (\<open>quality/preference.rs\<close>, \<open>edition.rs\<close>, \<open>client.rs\<close>): wishes, the edition's cap, the application's requests.

  Worker. \<open>Video_Stream\<close> (\<open>video.rs\<close>): one turn of the receive loop and the loop; \<open>Video_Props\<close>: which requests,
  frames and outputs it can make; \<open>Video_Refine\<close>: it refines the quality machine, so the theorems about that
  machine hold of the messages of a session. \<open>Picture\<close>, \<open>Picture_Props\<close> (\<open>video/transform.rs\<close>) and \<open>Pixels\<close>,
  \<open>Pixels_Props\<close> (\<open>video/ffmpeg.rs\<close>, \<open>video/pixels.rs\<close>): from a decoded frame to the bytes of the camera, shown equal
  to the turned, fitted and flipped picture. \<open>Decoder\<close> (\<open>video/decoder.rs\<close>): which decoder is used. \<open>Camera\<close>, \<open>Camera_Props\<close> (\<open>output/linux.rs\<close>) and \<open>Unity_Camera\<close>
  (\<open>output/windows.rs\<close>): mapped and shared memory, every write inside it. \<open>Preview\<close> (\<open>preview.rs\<close>): the record read
  while it is written.

  Application. \<open>Session\<close>, \<open>Session_Setup\<close>, \<open>Session_Props\<close> (\<open>session.rs\<close>): the worker's life, its deadlines and end,
  and what is started with privileges. \<open>Retry\<close>, \<open>Retry_Props\<close> and \<open>Quality_Form\<close>, \<open>Quality_Form_Props\<close> (\<open>gui.rs\<close>):
  automatic connections; the quality controls and when an edit is saved. \<open>Credentials\<close>, \<open>Credentials_Props\<close>
  (\<open>platform.rs\<close>, \<open>usb_main.rs\<close>): the USB helper and its dropped privileges. \<open>Cli\<close>, \<open>Cli_Props\<close> (\<open>cli.rs\<close>, \<open>headless.rs\<close>,
  \<open>usb_probe.rs\<close>, \<open>ttff.rs\<close>): the commands without a window. \<open>Ini\<close>, \<open>Settings\<close> (\<open>settings.rs\<close>) and \<open>Registry\<close>,
  \<open>Registry_Props\<close> (\<open>settings/registry.rs\<close>, \<open>dpapi.rs\<close>): saved settings on Unix and on Windows. \<open>Identity_Store\<close>,
  \<open>Identity_Props\<close> (\<open>identity.rs\<close>, \<open>identity/store.rs\<close>): the key file under concurrent processes and crashes.

  This theory joins the worker's and the application's side for the pairing details.

  Bounds. Sizes are the code's own limits (a control line of 16 KiB, a settings file and a registry value of
  their limits, a picture of at most 8192 by 8192 and 33554432 pixels); times are natural numbers in milliseconds, taken where
  the code reads its clock. Addresses and sizes are natural numbers with the checked operations of the code
  written out at 64 bits.

  Not modelled. FFmpeg's own state (contexts, their options, flushing and freeing) and \<open>output/pipewire.rs\<close>,
  callbacks of PipeWire on its own thread; the loop takes what they answer as arguments. \<open>transport/framing.rs\<close> joins the codecs to the crate io-budget, which is not under
  \<open>src\<close>; the loop takes its results. \<open>preview/posio.rs\<close> opens, reads and writes a file. The drawing of \<open>gui.rs\<close>
  has no state of its own. The two dumps of \<open>usb_probe.rs\<close> print what they read. Signing, TLS, SHA-256, JSON
  texts and DPAPI are libraries. Tests and their data, the build script and \<open>main.rs\<close>, the phone's program and
  the earlier C++ host are left out.
\<close>

section \<open>Pairing details from the phone to the application\<close>

lemma show_octet:
  assumes "n < 256"
  shows "show_dec n \<noteq> []" "length (show_dec n) \<le> 3" "hd (show_dec n) = 48 \<Longrightarrow> length (show_dec n) = 1"
proof -
  consider "n < 10" | "10 \<le> n" "n < 100" | "100 \<le> n" by linarith
  then have "show_dec n \<noteq> [] \<and> length (show_dec n) \<le> 3 \<and> (hd (show_dec n) = 48 \<longrightarrow> length (show_dec n) = 1)"
  proof cases
    case 1
    then show ?thesis by (simp add: show_radix.simps[of 10 n])
  next
    case 2
    then have "n div 10 < 10" "0 < n div 10" by auto
    then show ?thesis
      using 2 by (simp add: show_radix.simps[of 10 n] show_radix.simps[of 10 "n div 10"] digit_char_def)
  next
    case 3
    then have "n div 10 div 10 < 10" "0 < n div 10 div 10" "10 \<le> n div 10" using assms by auto
    then show ?thesis
      using 3 by (simp add: show_radix.simps[of 10 n] show_radix.simps[of 10 "n div 10"]
          show_radix.simps[of 10 "n div 10 div 10"] digit_char_def del: div_mult2_eq)
  qed
  then show "show_dec n \<noteq> []" "length (show_dec n) \<le> 3" "hd (show_dec n) = 48 \<Longrightarrow> length (show_dec n) = 1"
    by blast+
qed

lemma parse_octet_show: "parse_octet (show_dec (unat b)) = Some b" "chr CHR ''.'' \<notin> set (show_dec (unat b))"
proof -
  have "list_all is_ascii_digit (show_dec (unat b))" by (auto simp: list_all_iff dest: show_dec_ascii)
  then show "parse_octet (show_dec (unat b)) = Some b"
    using show_octet[OF unat_byte_less[of b]] unat_byte_less[of b]
    by (auto simp: parse_octet_def parse_digits_show chr_def)
  show "chr CHR ''.'' \<notin> set (show_dec (unat b))"
    using show_dec_ascii by (force simp: is_ascii_digit_def chr_def)
qed

lemma parse_show_ipv4: "parse_ipv4 (show_ipv4 a) = Some a"
proof -
  obtain p q r s where a: "a = (p, q, r, s)" by (metis prod_cases4)
  have dot: "lit ''.'' = [chr CHR ''.'']" by simp
  show ?thesis
    by (simp add: a show_ipv4_def parse_ipv4_def dot split_char_append split_char_last parse_octet_show del: lit_simps)
qed

text \<open>
  C40. The pairing details a phone sends over the cable arrive in the application as they were sent:
  when the payload decodes, the worker reports one event, and a session that is not stopping takes from
  it exactly the decoded addresses, fingerprint and key.
\<close>

theorem pairing_details_reach_session:
  assumes info: "pairing_decode (fr_payload f) = Inr info"
  shows "\<exists>ev. fst (snd (pairing_part t f st)) = [Emit ev]
    \<and> (se_state s \<noteq> Stopping \<longrightarrow> on_event now ev (s, False) = (s\<lparr>se_pairing_info := Some info\<rparr>, False, []))"
proof -
  let ?ev = "PairingInfoEv (map show_ipv4 (pi_addresses info)) (pi_fingerprint info) (pi_key info)"
  have shape: "pi_addresses info \<noteq> []" "\<exists>bs. length bs = 32 \<and> pi_fingerprint info = hex bs"
    "\<exists>bs. length bs = 16 \<and> pi_key info = hex bs"
    using info
    by (auto simp: pairing_decode_def Let_def byte_simps split: if_splits intro!: exI conjI[OF _ refl])
  have parsed: "List.map_filter parse_ipv4 (map show_ipv4 xs) = xs" for xs
    by (induction xs) (simp_all add: List.map_filter_simps parse_show_ipv4)
  have hexes: "is_hex (pi_fingerprint info) 32" "is_hex (pi_key info) 16" using shape is_hex_hex by metis+
  then have "str_len (pi_fingerprint info) = 64" "str_len (pi_key info) = 32" by (simp_all add: is_hex_def)
  then have "pairing_taken (map show_ipv4 (pi_addresses info)) (pi_fingerprint info) (pi_key info) = Some info"
    using parsed hexes shape(1) by (simp add: pairing_taken_def)
  then have "se_state s \<noteq> Stopping \<longrightarrow> on_event now ?ev (s, False) = (s\<lparr>se_pairing_info := Some info\<rparr>, False, [])"
    by (simp add: on_event_def)
  moreover have "fst (snd (pairing_part t f st)) = [Emit ?ev]"
    by (simp add: pairing_part_def info then_do_def lift_r_def emit_def perform_def)
  ultimately show ?thesis by blast
qed

definition sample_pairing :: frame where
  "sample_pairing = \<lparr>fr_header = \<lparr>kind = PAIRING_INFO, flags = 0, sequence = 0, payload_len = 54, pts_us = 0\<rparr>,
     fr_payload = [1, 1, 192, 168, 0, 5] @ replicate 32 171 @ replicate 16 1\<rparr>"

lemma pairing_details_reach_session_witness:
  "\<exists>info ev. pairing_decode (fr_payload sample_pairing) = Inr info
     \<and> on_event 0 ev (sample_session, False) = (sample_session\<lparr>se_pairing_info := Some info\<rparr>, False, [])"
proof -
  obtain info where "pairing_decode (fr_payload sample_pairing) = Inr info"
    by (simp add: sample_pairing_def pairing_decode_def Let_def)
  with pairing_details_reach_session[OF this, where s = sample_session and now = 0] show ?thesis
    by (simp add: sample_session_is) blast
qed

end
